(* ===== verification/Prelude.thy ===== *)
theory Prelude
  imports Main "HOL-Library.Word" "HOL-Library.Monad_Syntax"
begin

text \<open>
  Shared vocabulary of the development: C strings and fixed character buffers as byte
  lists, the decimal and hexadecimal conversions of the C library that the sources call
  (\<open>strtoul\<close>, \<open>snprintf\<close> with \<open>%d\<close>, \<open>%02d\<close>, \<open>%06X\<close>), truncating integer division, and
  the generic list lemmas the components share.  Byte buffers are \<open>8 word list\<close>; a C string
  is the part of a buffer before its first zero byte.
\<close>

unbundle bit_operations_syntax

type_synonym byte = "8 word"

named_theorems cstring \<open>facts about C strings in buffers\<close>
named_theorems cnum \<open>facts about number conversions\<close>

section \<open>C strings and buffers\<close>

text \<open>Bytes of an ASCII literal of the source.\<close>

definition bytes :: "string \<Rightarrow> byte list" where
  "bytes s = map of_char s"

definition cstr :: "byte list \<Rightarrow> byte list" where
  "cstr buf = takeWhile (\<lambda>b. b \<noteq> 0) buf"

text \<open>
  \<open>snprintf(buf, n, ...)\<close> where the formatted text is \<open>s\<close>: at most \<open>n - 1\<close> bytes and a zero
  are stored at the front of the buffer, and the length of the whole text is returned.
\<close>

definition snprintf_buf :: "byte list \<Rightarrow> nat \<Rightarrow> byte list \<Rightarrow> byte list" where
  "snprintf_buf buf n s =
     (let w = take (n - 1) s @ [0] in w @ drop (length w) buf)"

lemma length_bytes [simp]: "length (bytes s) = length s"
  by (simp add: bytes_def)

lemma bytes_append [simp]: "bytes (s @ t) = bytes s @ bytes t"
  by (simp add: bytes_def)

lemma cstr_append_zero [cstring]: "0 \<notin> set s \<Longrightarrow> cstr (s @ 0 # rest) = s"
  by (induction s) (auto simp: cstr_def)

lemma zero_notin_cstr [simp]: "0 \<notin> set (cstr buf)"
  by (auto simp: cstr_def dest: set_takeWhileD)

lemma length_snprintf_buf [simp]:
  "0 < n \<Longrightarrow> n \<le> length buf \<Longrightarrow> length (snprintf_buf buf n s) = length buf"
  by (auto simp: snprintf_buf_def Let_def min_def)

lemma cstr_snprintf_buf [cstring]:
  "0 \<notin> set s \<Longrightarrow> cstr (snprintf_buf buf n s) = take (n - 1) s"
  unfolding snprintf_buf_def Let_def
  by (simp add: cstr_append_zero) (metis cstr_append_zero in_set_takeD)

section \<open>Decimal and hexadecimal output\<close>

definition digit_byte :: "nat \<Rightarrow> byte" where
  "digit_byte d = of_nat (48 + d)"

fun dec :: "nat \<Rightarrow> byte list" where
  "dec n = (if n < 10 then [digit_byte n] else dec (n div 10) @ [digit_byte (n mod 10)])"

declare dec.simps [simp del]

text \<open>\<open>%d\<close> and \<open>%02d\<close>.\<close>

definition fmt_d :: "int \<Rightarrow> byte list" where
  "fmt_d i = (if i < 0 then 45 # dec (nat (- i)) else dec (nat i))"

definition fmt_02d :: "int \<Rightarrow> byte list" where
  "fmt_02d i = (if 0 \<le> i \<and> i < 10 then 48 # fmt_d i else fmt_d i)"

text \<open>One upper case hexadecimal digit, as \<open>%X\<close> prints it.\<close>

definition hex_byte :: "nat \<Rightarrow> byte" where
  "hex_byte d = (if d < 10 then of_nat (48 + d) else of_nat (55 + d))"

lemma dec_small [simp]: "n < 10 \<Longrightarrow> dec n = [digit_byte n]"
  by (subst dec.simps) simp

lemma dec_step: "10 \<le> n \<Longrightarrow> dec n = dec (n div 10) @ [digit_byte (n mod 10)]"
  by (subst dec.simps) simp

lemma dec_not_Nil [simp]: "dec n \<noteq> []"
  by (subst dec.simps) simp

lemma length_dec: "n < 10 ^ Suc k \<Longrightarrow> length (dec n) \<le> Suc k"
proof (induction k arbitrary: n)
  case (Suc k)
  then show ?case by (cases "n < 10") (simp_all add: dec_step)
qed simp

lemma unat_digit_byte [cnum]: "d < 10 \<Longrightarrow> unat (digit_byte d) = 48 + d"
  unfolding digit_byte_def by (subst unat_of_nat) simp

lemma set_dec: "b \<in> set (dec n) \<Longrightarrow> \<exists>d<10. b = digit_byte d"
proof (induction n rule: dec.induct)
  case (1 n)
  then show ?case
    by (cases "n < 10") (auto simp: dec_step intro: exI [of _ "n mod 10"])
qed

lemma digit_byte_range: "d < 10 \<Longrightarrow> 48 \<le> unat (digit_byte d) \<and> unat (digit_byte d) \<le> 57"
  by (simp add: unat_digit_byte)

lemma dec_range: "b \<in> set (dec n) \<Longrightarrow> 48 \<le> unat b \<and> unat b \<le> 57"
  using set_dec digit_byte_range by blast

lemma zero_notin_dec [simp]: "0 \<notin> set (dec n)"
  using dec_range [of 0 n] by auto

lemma zero_notin_fmt_d [simp]: "0 \<notin> set (fmt_d i)"
  by (auto simp: fmt_d_def)

lemma zero_notin_fmt_02d [simp]: "0 \<notin> set (fmt_02d i)"
  by (auto simp: fmt_02d_def)

section \<open>\<open>strtoul\<close>\<close>

text \<open>
  \<open>strtoul(s, &ep, base)\<close> for bases 10 and 16: white space, an optional sign, an optional
  \<open>0x\<close> before a digit (base 16), then the digits.  The result is the value, the number of
  bytes consumed (0 when there is no digit) and whether \<open>errno\<close> was set to \<open>ERANGE\<close>.
\<close>

definition is_space :: "byte \<Rightarrow> bool" where
  "is_space b \<longleftrightarrow> b = 32 \<or> (9 \<le> unat b \<and> unat b \<le> 13)"

definition digit_val :: "nat \<Rightarrow> byte \<Rightarrow> nat option" where
  "digit_val base b =
     (let c = unat b;
          v = (if 48 \<le> c \<and> c \<le> 57 then c - 48
               else if 65 \<le> c \<and> c \<le> 90 then c - 55
               else if 97 \<le> c \<and> c \<le> 122 then c - 87 else 99)
      in if v < base then Some v else None)"

fun digits_val :: "nat \<Rightarrow> nat \<Rightarrow> byte list \<Rightarrow> nat \<times> nat" where
  "digits_val base acc [] = (acc, 0)"
| "digits_val base acc (b # bs) =
     (case digit_val base b of
        None \<Rightarrow> (acc, 0)
      | Some d \<Rightarrow> (case digits_val base (acc * base + d) bs of (v, n) \<Rightarrow> (v, Suc n)))"

definition strtoul :: "nat \<Rightarrow> byte list \<Rightarrow> 64 word \<times> nat \<times> bool" where
  "strtoul base s =
     (let ws = length (takeWhile is_space s);
          s1 = drop ws s;
          (neg, sg) = (case s1 of b # _ \<Rightarrow> (b = 45, if b = 45 \<or> b = 43 then 1 else 0)
                                | [] \<Rightarrow> (False, 0));
          s2 = drop sg s1;
          px = (case s2 of z # x # d # _ \<Rightarrow>
                  (if base = 16 \<and> z = 48 \<and> (x = 120 \<or> x = 88) \<and> digit_val 16 d \<noteq> None
                   then 2 else 0) | _ \<Rightarrow> 0);
          (v, n) = digits_val base 0 (drop px s2)
      in if n = 0 then (0, 0, False)
         else if v \<ge> 2 ^ 64 then (- 1, ws + sg + px + n, True)
         else (if neg then - of_nat v else of_nat v, ws + sg + px + n, False))"

lemma digit_val_digit_byte [cnum]: "d < 10 \<Longrightarrow> 10 \<le> base \<Longrightarrow> digit_val base (digit_byte d) = Some d"
  by (simp add: digit_val_def Let_def unat_digit_byte)

lemma unat_hex_byte [cnum]: "d < 16 \<Longrightarrow> unat (hex_byte d) = (if d < 10 then 48 + d else 55 + d)"
  unfolding hex_byte_def by (cases "d < 10") (simp_all add: unat_of_nat del: of_nat_add)

lemma digit_val_hex_byte [cnum]: "d < 16 \<Longrightarrow> digit_val 16 (hex_byte d) = Some d"
  by (auto simp: digit_val_def Let_def unat_hex_byte)

lemma digits_val_stop:
  "digit_val base b = None \<Longrightarrow> digits_val base acc (b # rest) = (acc, 0)"
  by simp

text \<open>Reading back what \<open>%d\<close> printed: the digits of a number, up to the first non-digit.\<close>

lemma digits_val_append:
  "digits_val 10 acc (dec n @ rest) =
     (case digits_val 10 (acc * 10 ^ length (dec n) + n) rest of (v, k) \<Rightarrow> (v, length (dec n) + k))"
proof (induction n arbitrary: acc rest rule: dec.induct)
  case (1 n)
  show ?case
  proof (cases "n < 10")
    case True
    then show ?thesis by (simp add: cnum)
  next
    case False
    let ?q = "n div 10" and ?r = "n mod 10"
    have "digits_val 10 acc (dec n @ rest) = digits_val 10 acc (dec ?q @ digit_byte ?r # rest)"
      using False by (simp add: dec_step)
    also have "\<dots> = (case digits_val 10 (acc * 10 ^ length (dec ?q) + ?q) (digit_byte ?r # rest) of
        (v, k) \<Rightarrow> (v, length (dec ?q) + k))"
      using 1 False by simp
    also have "\<dots> = (case digits_val 10 (acc * 10 ^ length (dec n) + n) rest of
        (v, k) \<Rightarrow> (v, length (dec n) + k))"
      using False by (simp add: cnum dec_step algebra_simps split: prod.splits)
    finally show ?thesis .
  qed
qed

lemma dec_first:
  obtains c cs where "dec n = c # cs" "48 \<le> unat c" "unat c \<le> 57"
  using dec_range [of "hd (dec n)" n] by (cases "dec n") auto

lemma digits_val_end: "rest = [] \<or> digit_val 10 (hd rest) = None \<Longrightarrow> digits_val 10 acc rest = (acc, 0)"
  by (cases rest) auto

lemma strtoul_dec [cnum]:
  assumes "n < 2 ^ 64" "rest = [] \<or> digit_val 10 (hd rest) = None"
  shows "strtoul 10 (dec n @ rest) = (of_nat n, length (dec n), False)"
proof -
  obtain c cs where c: "dec n = c # cs" "48 \<le> unat c" "unat c \<le> 57" by (rule dec_first)
  have "\<not> is_space c" "c \<noteq> 45" "c \<noteq> 43" using c(2,3) by (auto simp: is_space_def)
  moreover have "digits_val 10 0 (dec n @ rest) = (n, length (dec n))"
    using digits_val_append [of 0 n rest] digits_val_end [OF assms(2), of n] by simp
  moreover have "(case s of z # x # d # _ \<Rightarrow>
      (if (10 :: nat) = 16 \<and> z = 48 \<and> (x = 120 \<or> x = 88) \<and> digit_val 16 d \<noteq> None then 2 else 0)
      | _ \<Rightarrow> 0) = (0 :: nat)" for s :: "byte list"
    by (auto split: list.splits)
  ultimately show ?thesis
    using c(1) assms(1) by (simp add: strtoul_def Let_def del: digits_val.simps)
qed

text \<open>Storing a small number in a C \<open>int\<close>.\<close>

lemma ucast_of_nat_word: "ucast (of_nat n :: 64 word) = (of_nat n :: 32 word)"
  by transfer (simp add: take_bit_take_bit)

lemma sint_of_nat_word: "n < 2 ^ 31 \<Longrightarrow> sint (of_nat n :: 32 word) = int n"
  by (simp add: signed_of_nat signed_take_bit_int_eq_self)

section \<open>Truncating division\<close>

text \<open>C's \<open>/\<close> and \<open>%\<close> on signed integers round towards zero.\<close>

definition cdiv :: "int \<Rightarrow> int \<Rightarrow> int" where
  "cdiv a b = sgn a * sgn b * (\<bar>a\<bar> div \<bar>b\<bar>)"

definition cmod :: "int \<Rightarrow> int \<Rightarrow> int" where
  "cmod a b = a - b * cdiv a b"

lemma cdiv_nonneg [simp]: "0 \<le> a \<Longrightarrow> 0 < b \<Longrightarrow> cdiv a b = a div b"
  by (cases "a = 0") (simp_all add: cdiv_def)

lemma cmod_nonneg [simp]: "0 \<le> a \<Longrightarrow> 0 < b \<Longrightarrow> cmod a b = a mod b"
  by (simp add: cmod_def minus_mult_div_eq_mod)

lemma cdiv_mod_eq: "b * cdiv a b + cmod a b = a"
  by (simp add: cmod_def)

end
