(* ===== verification/Color.thy ===== *)
theory Color
  imports Prelude
begin

text \<open>
  The colour type of \<open>color.h\<close>: a 32-bit value whose bytes, from the lowest, are blue, green,
  red and alpha (the union of the four \<open>uint8_t\<close> fields and \<open>v\<close>), the parser
  \<open>Color::parse_color\<close>, and the text \<open>#%06X\<close> that \<open>Bar::updateGc\<close> and \<open>Bar::init\<close> print of a
  colour to have Xft allocate it.
\<close>

section \<open>The value and its components\<close>

type_synonym color = "32 word"

definition col_b :: "color \<Rightarrow> byte" where "col_b v = ucast v"
definition col_g :: "color \<Rightarrow> byte" where "col_g v = ucast (drop_bit 8 v)"
definition col_r :: "color \<Rightarrow> byte" where "col_r v = ucast (drop_bit 16 v)"
definition col_a :: "color \<Rightarrow> byte" where "col_a v = ucast (drop_bit 24 v)"

definition mk_color :: "byte \<Rightarrow> byte \<Rightarrow> byte \<Rightarrow> byte \<Rightarrow> color" where
  "mk_color b g r a =
     ucast b OR push_bit 8 (ucast g) OR push_bit 16 (ucast r) OR push_bit 24 (ucast a)"

definition set_a :: "color \<Rightarrow> byte \<Rightarrow> color" where
  "set_a v a = (v AND 0x00FFFFFF) OR push_bit 24 (ucast a)"

section \<open>\<open>Color::parse_color\<close>\<close>

text \<open>The expansion of \<open>#rgb\<close> to \<open>#rrggbb\<close>.\<close>

definition expand_rgb :: "color \<Rightarrow> color" where
  "expand_rgb v =
     (v AND 0xf00) * 0x1100 OR (v AND 0x0f0) * 0x0110 OR (v AND 0x00f) * 0x0011"

definition premultiply :: "color \<Rightarrow> color" where
  "premultiply t =
     mk_color (of_nat (unat (col_b t) * unat (col_a t) div 255))
              (of_nat (unat (col_g t) * unat (col_a t) div 255))
              (of_nat (unat (col_r t) * unat (col_a t) div 255))
              (col_a t)"

text \<open>
  The string is \<open>None\<close> for a null pointer and else the bytes before the terminating zero;
  the second result is the offset that the code stores through \<open>end\<close> when it is not null.
\<close>

definition parse_color :: "byte list option \<Rightarrow> color \<Rightarrow> color \<times> nat option" where
  "parse_color str def =
     (case str of
        None \<Rightarrow> (def, None)
      | Some s \<Rightarrow>
          let c0 = (case s of [] \<Rightarrow> 0 | c # _ \<Rightarrow> c) in
          if c0 = 45 then (def, Some 1)
          else if c0 \<noteq> 35 then (def, Some 0)
          else
            let (val, stringLen, erange) = strtoul 16 (tl s);
                tmp = (ucast val :: color);
                ep = Some (1 + stringLen)
            in
            if erange then (def, ep)
            else if stringLen \<in> {3, 6, 7, 8} then
              let tmp1 = (if stringLen = 3 then expand_rgb tmp else tmp);
                  tmp2 = (if stringLen = 3 \<or> stringLen = 6 then set_a tmp1 255 else tmp1);
                  tmp3 = set_a tmp2 255
              in (if col_a tmp3 \<noteq> 0 then premultiply tmp3 else 0, ep)
            else (def, ep))"

text \<open>The colour a literal of the source denotes when it parses.\<close>

definition color_of :: "string \<Rightarrow> color \<Rightarrow> color" where
  "color_of s def = fst (parse_color (Some (bytes s)) def)"

section \<open>\<open>#%06X\<close> of the low 24 bits\<close>

definition color_name :: "color \<Rightarrow> byte list" where
  "color_name v =
     (let n = unat (v AND 0x00ffffff)
      in 35 # map (\<lambda>i. hex_byte (n div 16 ^ i mod 16)) [5, 4, 3, 2, 1, 0])"

section \<open>Lemmas\<close>

lemma low24_mask: "(0x00FFFFFF :: color) = mask 24"
  by (simp add: mask_eq_exp_minus_1)

lemma set_a_mask: "set_a v a = (v AND mask 24) OR push_bit 24 (ucast a)"
  by (simp only: set_a_def low24_mask)

lemma col_a_set_a [simp]: "col_a (set_a v a) = a"
  by (rule bit_word_eqI) (simp add: col_a_def set_a_mask bit_simps)

lemma col_b_set_a [simp]: "col_b (set_a v a) = col_b v"
  by (rule bit_word_eqI) (auto simp: col_b_def set_a_mask bit_simps)

lemma col_g_set_a [simp]: "col_g (set_a v a) = col_g v"
  by (rule bit_word_eqI) (auto simp: col_g_def set_a_mask bit_simps)

lemma col_r_set_a [simp]: "col_r (set_a v a) = col_r v"
  by (rule bit_word_eqI) (auto simp: col_r_def set_a_mask bit_simps)

lemma set_a_set_a [simp]: "set_a (set_a v a) b = set_a v b"
  by (rule bit_word_eqI) (auto simp: set_a_mask bit_simps)

lemma mk_color_components: "mk_color (col_b v) (col_g v) (col_r v) (col_a v) = v"
proof (rule bit_word_eqI)
  fix n assume "n < LENGTH(32)"
  then show "bit (mk_color (col_b v) (col_g v) (col_r v) (col_a v)) n = bit v n"
    by (cases "n < 8"; cases "n < 16"; cases "n < 24")
      (auto simp: mk_color_def col_b_def col_g_def col_r_def col_a_def bit_simps)
qed

lemma premultiply_opaque [simp]: "col_a v = 255 \<Longrightarrow> premultiply v = v"
  using mk_color_components [of v] by (simp add: premultiply_def)

lemma set_a_opaque: "set_a v 255 = v OR 0xFF000000"
proof -
  have a: "(0xFF000000 :: color) = push_bit 24 (mask 8)"
    and b: "(255 :: byte) = mask 8"
    by (simp_all add: mask_eq_exp_minus_1)
  show ?thesis
    unfolding set_a_mask a b by (rule bit_word_eqI) (auto simp: bit_simps)
qed

text \<open>Whatever the string, the result is the default or fully opaque.\<close>

lemma parse_color_cases:
  "fst (parse_color str def) = def \<or> (\<exists>t. fst (parse_color str def) = set_a t 255)"
  unfolding parse_color_def
  by (auto simp: Let_def split: option.splits prod.splits list.splits)

section \<open>The six digits read back\<close>

lemma hex_byte_not_space [simp]: "d < 16 \<Longrightarrow> \<not> is_space (hex_byte d)"
  by (auto simp: is_space_def unat_hex_byte word_unat_eq_iff)

lemma hex_byte_range: "d < 16 \<Longrightarrow> 48 \<le> unat (hex_byte d) \<and> unat (hex_byte d) \<le> 70"
  by (simp add: unat_hex_byte)

lemma hex_byte_neq [simp]:
  "d < 16 \<Longrightarrow> hex_byte d \<noteq> 45" "d < 16 \<Longrightarrow> hex_byte d \<noteq> 43"
  "d < 16 \<Longrightarrow> hex_byte d \<noteq> 120" "d < 16 \<Longrightarrow> hex_byte d \<noteq> 88" "d < 16 \<Longrightarrow> hex_byte d \<noteq> 0"
  using hex_byte_range [of d] by (auto simp: word_unat_eq_iff)

lemma hex6_horner:
  assumes "n < 2 ^ 24"
  shows "((((n div 16 ^ 5 mod 16 * 16 + n div 16 ^ 4 mod 16) * 16 + n div 16 ^ 3 mod 16) * 16
          + n div 16 ^ 2 mod 16) * 16 + n div 16 mod 16) * 16 + n mod 16 = (n :: nat)"
proof -
  have q: "n div 16 ^ Suc k * 16 + n div 16 ^ k mod 16 = n div 16 ^ k" for k
    by (metis div_mult2_eq div_mult_mod_eq power_Suc2)
  have top: "n div 16 ^ 5 mod 16 = n div 16 ^ 5"
    using assms by (simp add: less_mult_imp_div_less)
  have q4: "n div 16 ^ 5 * 16 + n div 16 ^ 4 mod 16 = n div 16 ^ 4" using q [of 4] by simp
  have q3: "n div 16 ^ 4 * 16 + n div 16 ^ 3 mod 16 = n div 16 ^ 3" using q [of 3] by simp
  have q2: "n div 16 ^ 3 * 16 + n div 16 ^ 2 mod 16 = n div 16 ^ 2" using q [of 2] by simp
  have q1: "n div 16 ^ 2 * 16 + n div 16 mod 16 = n div 16" using q [of 1] by simp
  have q0: "n div 16 * 16 + n mod 16 = n" by simp
  show ?thesis by (simp only: top q4 q3 q2 q1 q0)
qed

lemma digits_val_hex:
  "(\<And>d. d \<in> set ds \<Longrightarrow> d < 16) \<Longrightarrow>
   digits_val 16 acc (map hex_byte ds) = (foldl (\<lambda>a d. a * 16 + d) acc ds, length ds)"
  by (induction ds arbitrary: acc) (simp_all add: cnum)

lemma strtoul_hex:
  assumes "ds \<noteq> []" and lt: "\<And>d. d \<in> set ds \<Longrightarrow> d < 16"
    and v: "foldl (\<lambda>a d. a * 16 + d) 0 ds < 2 ^ 64"
  shows "strtoul 16 (map hex_byte ds) =
    (of_nat (foldl (\<lambda>a d. a * 16 + d) 0 ds), length ds, False)"
proof -
  obtain d ds' where ds: "ds = d # ds'" using assms(1) by (cases ds) auto
  have d: "d < 16" using lt ds by simp
  have ws: "takeWhile is_space (map hex_byte ds) = []"
    using ds d by simp
  have sg: "(case map hex_byte ds of b # _ \<Rightarrow> (b = 45, if b = 45 \<or> b = 43 then 1 else 0)
      | [] \<Rightarrow> (False, 0)) = (False, 0 :: nat)"
    using ds d by simp
  have px: "(case map hex_byte ds of z # x # d # _ \<Rightarrow>
      (if (16 :: nat) = 16 \<and> z = 48 \<and> (x = 120 \<or> x = 88) \<and> digit_val 16 d \<noteq> None
       then 2 else 0) | _ \<Rightarrow> 0) = (0 :: nat)"
    using ds lt by (cases ds'; cases "tl ds'") auto
  show ?thesis
    using v assms(1)
    by (simp only: strtoul_def Let_def ws sg px list.size drop_0 prod.case digits_val_hex [OF lt])
      simp
qed

lemma strtoul_hex6:
  assumes "n < 2 ^ 24"
  shows "strtoul 16 (map (\<lambda>i. hex_byte (n div 16 ^ i mod 16)) [5, 4, 3, 2, 1, 0])
    = (of_nat n, 6, False)"
proof -
  let ?ds = "[n div 16 ^ 5 mod 16, n div 16 ^ 4 mod 16, n div 16 ^ 3 mod 16,
    n div 16 ^ 2 mod 16, n div 16 mod 16, n mod 16]"
  have f: "foldl (\<lambda>a d. a * 16 + d) 0 ?ds = n"
    using hex6_horner [OF assms] by (simp only: foldl.simps mult_0 add_0)
  have lt: "d < 16" if "d \<in> set ?ds" for d
    using that by (simp only: list.set) auto
  have v: "foldl (\<lambda>a d. a * 16 + d) 0 ?ds < 2 ^ 64"
    unfolding f using assms by simp
  have "strtoul 16 (map hex_byte ?ds) = (of_nat n, length ?ds, False)"
    using strtoul_hex [OF _ lt v] unfolding f by simp
  then show ?thesis
    by (simp only: list.map power_0 power_one_right div_by_1) simp
qed

text \<open>
  printing the colour part of a value with \<open>%06X\<close>, as the bar does to allocate
  the Xft colour, and parsing that text gives the value back with full opacity, and consumes the
  whole text.
\<close>

theorem parse_color_name:
  "parse_color (Some (color_name v)) def = (v OR 0xFF000000, Some 7)"
proof -
  let ?n = "unat (v AND 0x00ffffff)"
  have lt: "?n < 2 ^ 24"
  proof -
    have "?n \<le> unat (0x00ffffff :: color)"
      by (rule word_le_nat_alt [THEN iffD1]) (rule word_and_le1)
    then show ?thesis by simp
  qed
  have val: "(ucast (of_nat ?n :: 64 word) :: color) = v AND 0x00ffffff"
    by (rule bit_word_eqI) (simp add: bit_simps)
  have strip: "set_a (v AND 0x00ffffff) 255 = set_a v 255"
    by (simp add: set_a_def)
  have len: "length (map (\<lambda>i. hex_byte (?n div 16 ^ i mod 16)) [5, 4, 3, 2, 1, 0]) = 6"
    by simp
  have "parse_color (Some (color_name v)) def = (set_a v 255, Some 7)"
    unfolding parse_color_def color_name_def Let_def option.case list.case list.sel
      strtoul_hex6 [OF lt] prod.case val
    by (simp add: strip)
  then show ?thesis by (simp only: set_a_opaque)
qed

end
