(* ===== verification/Element.thy ===== *)
theory Element
  imports Color
begin

text \<open>
  \<open>barElement.h\<close> and \<open>module.h\<close>: the text elements that modules own and the bar draws, and the
  part of a module that every concrete module inherits.  The handlers of an element are values
  of a type the concrete module chooses.  A concrete module is an extension of the record
  \<open>module_base\<close>, as its class is derived from \<open>Module\<close>.
\<close>

section \<open>Events\<close>

datatype EventType = CLICK_LEFT | CLICK_MIDDLE | CLICK_RIGHT | SCROLL_UP | SCROLL_DOWN

fun event_code :: "EventType \<Rightarrow> nat" where
  "event_code CLICK_LEFT = 1"
| "event_code CLICK_MIDDLE = 2"
| "event_code CLICK_RIGHT = 3"
| "event_code SCROLL_UP = 4"
| "event_code SCROLL_DOWN = 5"

lemma event_code_inj [simp]: "event_code s = event_code t \<longleftrightarrow> s = t"
  by (cases s; cases t) auto

text \<open>\<open>std::map\<close> orders its keys by the enumerator's value.\<close>

instantiation EventType :: linorder
begin

definition less_eq_EventType :: "EventType \<Rightarrow> EventType \<Rightarrow> bool" where
  "less_eq_EventType s t \<longleftrightarrow> event_code s \<le> event_code t"

definition less_EventType :: "EventType \<Rightarrow> EventType \<Rightarrow> bool" where
  "less_EventType s t \<longleftrightarrow> event_code s < event_code t"

instance
  by standard (auto simp: less_eq_EventType_def less_EventType_def)

end

definition event_types :: "EventType list" where
  "event_types = [CLICK_LEFT, CLICK_MIDDLE, CLICK_RIGHT, SCROLL_UP, SCROLL_DOWN]"

lemma set_event_types [simp]: "set event_types = UNIV"
  using EventType.exhaust by (auto simp: event_types_def)

lemma sorted_event_types: "sorted_wrt (<) event_types"
  by (simp add: event_types_def less_EventType_def)

section \<open>Elements\<close>

definition CONTENT_MAX_LEN :: nat where
  "CONTENT_MAX_LEN = 255"

record 'h barElement =
  content :: "byte list"
  ucsContent :: "32 word list"
  ucsContentCharWidths :: "byte list"
  dirtyContent :: bool
  contentLen :: int
  ucsContentLen :: int
  beginX :: "16 word"
  width :: "16 word"
  foregroundColor :: color
  backgroundColor :: color
  underlineColor :: color
  events :: "EventType \<Rightarrow> 'h option"
  moduleName :: "byte list"
  offsetPixels :: int
  underline :: bool
  overline :: bool
  reverseColors :: bool
  isActive :: bool
  eventCharged :: bool

text \<open>The constructor; it leaves the two arrays of decoded characters as the memory was.\<close>

definition newBarElement :: "32 word list \<Rightarrow> byte list \<Rightarrow> 'h barElement" where
  "newBarElement ucs0 widths0 =
     \<lparr>content = replicate CONTENT_MAX_LEN 0, ucsContent = ucs0, ucsContentCharWidths = widths0,
      dirtyContent = False, contentLen = 0, ucsContentLen = 0, beginX = 0, width = 0,
      foregroundColor = 0, backgroundColor = 0, underlineColor = 0, events = (\<lambda>_. None),
      moduleName = [], offsetPixels = 0, underline = False, overline = False,
      reverseColors = False, isActive = False, eventCharged = False\<rparr>"

text \<open>Elements of static storage: zero before the constructor runs.\<close>

definition staticElement :: "'h barElement" where
  "staticElement = newBarElement (replicate CONTENT_MAX_LEN 0) (replicate CONTENT_MAX_LEN 0)"

definition setEvent :: "'h barElement \<Rightarrow> EventType \<Rightarrow> 'h \<Rightarrow> 'h barElement" where
  "setEvent e t h = e\<lparr>events := (events e)(t \<mapsto> h)\<rparr>"

text \<open>The pairs of the map, in its order.\<close>

definition event_pairs :: "'h barElement \<Rightarrow> (EventType \<times> 'h) list" where
  "event_pairs e = [(t, the (events e t)). t \<leftarrow> event_types, events e t \<noteq> None]"

text \<open>
  What every module does to show a text: print it into \<open>content\<close>, keep the length that
  \<open>snprintf\<close> returned and mark the element dirty.
\<close>

definition set_content :: "byte list \<Rightarrow> 'h barElement \<Rightarrow> 'h barElement" where
  "set_content s e =
     e\<lparr>content := snprintf_buf (content e) CONTENT_MAX_LEN s, contentLen := int (length s),
       dirtyContent := True\<rparr>"

text \<open>The text of an element, up to its terminating zero.\<close>

definition element_text :: "'h barElement \<Rightarrow> byte list" where
  "element_text e = cstr (content e)"

definition element_wf :: "'h barElement \<Rightarrow> bool" where
  "element_wf e \<longleftrightarrow> length (content e) = CONTENT_MAX_LEN \<and>
     length (ucsContent e) = CONTENT_MAX_LEN \<and> length (ucsContentCharWidths e) = CONTENT_MAX_LEN \<and>
     0 \<le> ucsContentLen e \<and> ucsContentLen e < int CONTENT_MAX_LEN"

lemma events_setEvent [simp]: "events (setEvent e t h) = (events e)(t \<mapsto> h)"
  by (simp add: setEvent_def)

lemma element_wf_static [simp]: "element_wf staticElement"
  by (simp add: element_wf_def staticElement_def newBarElement_def CONTENT_MAX_LEN_def)

lemma element_wf_set_content [simp]: "element_wf e \<Longrightarrow> element_wf (set_content s e)"
  by (simp add: element_wf_def set_content_def CONTENT_MAX_LEN_def)

lemma element_text_set_content [cstring]:
  "0 \<notin> set s \<Longrightarrow> length s < CONTENT_MAX_LEN \<Longrightarrow> element_text (set_content s e) = s"
  by (simp add: element_text_def set_content_def cstr_snprintf_buf CONTENT_MAX_LEN_def)

lemma set_content_simps [simp]:
  "events (set_content s e) = events e" "foregroundColor (set_content s e) = foregroundColor e"
  "dirtyContent (set_content s e)" "contentLen (set_content s e) = int (length s)"
  by (simp_all add: set_content_def)

lemma setEvent_simps [simp]:
  "element_wf (setEvent e t h) = element_wf e" "content (setEvent e t h) = content e"
  "dirtyContent (setEvent e t h) = dirtyContent e" "element_text (setEvent e t h) = element_text e"
  by (simp_all add: setEvent_def element_wf_def element_text_def)

lemma event_pairs_iff: "(t, h) \<in> set (event_pairs e) \<longleftrightarrow> events e t = Some h"
  by (auto simp: event_pairs_def)

section \<open>The base of all modules\<close>

record module_base =
  moduleId :: "byte list"
  window :: "32 word"
  moduleFontIndex :: int
  screenTarget :: int
  secondsPerUpdate :: int
  lastUpdate :: int
  autoUpdate :: bool
  renderFunction :: bool
  renders :: nat

text \<open>
  The constructor \<open>Module(name, autoUpdate, secondsPerUpdate)\<close>; \<open>window\<close> is not set.  Of the
  callback that redraws the bar the model keeps whether it is set and how often it was called.
\<close>

definition newModule :: "byte list \<Rightarrow> bool \<Rightarrow> int \<Rightarrow> 32 word \<Rightarrow> module_base" where
  "newModule nm auto secs window0 =
     \<lparr>moduleId = nm, window = window0, moduleFontIndex = - 1, screenTarget = 0,
      secondsPerUpdate = secs, lastUpdate = 0, autoUpdate = auto,
      renderFunction = False, renders = 0\<rparr>"

definition setRenderFunction :: "'a module_base_scheme \<Rightarrow> 'a module_base_scheme" where
  "setRenderFunction m = m\<lparr>renderFunction := True\<rparr>"

text \<open>\<open>if (renderFunction) renderFunction();\<close>, as every handler ends.\<close>

definition callRender :: "'a module_base_scheme \<Rightarrow> 'a module_base_scheme" where
  "callRender m = (if renderFunction m then m\<lparr>renders := Suc (renders m)\<rparr> else m)"

definition setAutoUpdate :: "bool \<Rightarrow> 'a module_base_scheme \<Rightarrow> 'a module_base_scheme" where
  "setAutoUpdate enabled m = m\<lparr>autoUpdate := enabled\<rparr>"

definition setSecondsPerUpdate :: "int \<Rightarrow> 'a module_base_scheme \<Rightarrow> 'a module_base_scheme" where
  "setSecondsPerUpdate seconds m = m\<lparr>secondsPerUpdate := seconds\<rparr>"

definition shouldUpdate :: "int \<Rightarrow> 'a module_base_scheme \<Rightarrow> bool" where
  "shouldUpdate now m \<longleftrightarrow> autoUpdate m \<or> now - lastUpdate m \<ge> secondsPerUpdate m"

text \<open>\<open>checkAndUpdate\<close>, for the module's own \<open>update\<close>.\<close>

definition checkAndUpdate ::
  "('a module_base_scheme \<Rightarrow> 'a module_base_scheme) \<Rightarrow> int \<Rightarrow> 'a module_base_scheme
    \<Rightarrow> 'a module_base_scheme \<times> bool" where
  "checkAndUpdate update now m =
     (if shouldUpdate now m then (update m, True) else (m, False))"

text \<open>
  A module that stores the time of its update is next updated when its interval has passed.
  The locale states this once for all modules; the theory of each module interprets it on its
  own \<open>update\<close>.
\<close>

locale periodic_module =
  fixes update :: "int \<Rightarrow> 'a module_base_scheme \<Rightarrow> 'a module_base_scheme"
    and ready :: "'a module_base_scheme \<Rightarrow> bool"
  assumes stamps: "ready m \<Longrightarrow> lastUpdate (update t m) = t"
    and keeps_period: "secondsPerUpdate (update t m) = secondsPerUpdate m"
    and keeps_auto: "autoUpdate (update t m) = autoUpdate m"
begin

lemma due_iff:
  assumes "ready m" "\<not> autoUpdate m"
  shows "shouldUpdate now (update t m) \<longleftrightarrow> t + secondsPerUpdate m \<le> now"
  using assms by (auto simp: shouldUpdate_def stamps keeps_period keeps_auto)

lemma quiet_between:
  assumes "ready m" "\<not> autoUpdate m" "now < t + secondsPerUpdate m"
  shows "checkAndUpdate (update now) now (update t m) = (update t m, False)"
  using assms by (simp add: checkAndUpdate_def due_iff)

end

end
