(* ===== verification/Utf8.thy ===== *)
theory Utf8
  imports Prelude
begin

text \<open>
  \<open>Bar::decodeUtf8Char\<close> of \<open>bar.h\<close>: the decoder that walks the text of an element.  It reads
  up to four bytes behind the pointer without looking for the terminating zero, so the model
  takes the bytes from the pointer to the end of the enclosing object and is \<open>None\<close> when a read
  leaves it.  The specification is the encoder \<open>utf8_encode\<close> of RFC 3629.
\<close>

section \<open>The decoder\<close>

definition byte_at :: "byte list \<Rightarrow> nat \<Rightarrow> byte option" where
  "byte_at bs i = (if i < length bs then Some (bs ! i) else None)"

text \<open>The bits of a byte under a mask, as a 32-bit value (\<open>utf[i] & m\<close>).\<close>

definition bits :: "byte \<Rightarrow> 32 word \<Rightarrow> 32 word" where
  "bits b m = ucast b AND m"

definition decodeUtf8Char :: "byte list \<Rightarrow> (32 word \<times> nat) option" where
  "decodeUtf8Char utf =
     do {
       b0 \<leftarrow> byte_at utf 0;
       if b0 < 0x80 then Some (ucast b0, 1)
       else if b0 AND 0xe0 = 0xc0 then
         do { b1 \<leftarrow> byte_at utf 1;
              Some (push_bit 6 (bits b0 0x1f) OR bits b1 0x3f, 2) }
       else if b0 AND 0xf0 = 0xe0 then
         do { b1 \<leftarrow> byte_at utf 1; b2 \<leftarrow> byte_at utf 2;
              Some (push_bit 12 (bits b0 0xf) OR push_bit 6 (bits b1 0x3f) OR bits b2 0x3f, 3) }
       else if b0 AND 0xf8 = 0xf0 then
         do { b1 \<leftarrow> byte_at utf 1; b2 \<leftarrow> byte_at utf 2; b3 \<leftarrow> byte_at utf 3;
              Some (push_bit 18 (bits b0 0x07) OR push_bit 12 (bits b1 0x3f)
                    OR push_bit 6 (bits b2 0x3f) OR bits b3 0x3f, 4) }
       else Some (ucast b0, 1)
     }"

section \<open>The encoding of RFC 3629\<close>

definition tail_byte :: "nat \<Rightarrow> byte" where
  "tail_byte n = of_nat (0x80 + n mod 64)"

definition utf8_encode :: "nat \<Rightarrow> byte list" where
  "utf8_encode c =
     (if c < 0x80 then [of_nat c]
      else if c < 0x800 then [of_nat (0xc0 + c div 64), tail_byte c]
      else if c < 0x10000 then [of_nat (0xe0 + c div 4096), tail_byte (c div 64), tail_byte c]
      else [of_nat (0xf0 + c div 262144), tail_byte (c div 4096), tail_byte (c div 64),
            tail_byte c])"

definition utf8_string :: "nat list \<Rightarrow> byte list" where
  "utf8_string cs = concat (map utf8_encode cs)"

section \<open>Round trip\<close>

lemma bits_mod:
  assumes "m = mask k"
  shows "bits b m = of_nat (unat b mod 2 ^ k)"
proof -
  have "bits b m = take_bit k (of_nat (unat b))"
    by (simp add: bits_def assms take_bit_eq_mask)
  also have "\<dots> = of_nat (take_bit k (unat b))"
    by (rule bit_word_eqI) (simp add: bit_simps)
  finally show ?thesis by (simp only: take_bit_eq_mod)
qed

lemma bits_masks:
  "bits b 0x3f = of_nat (unat b mod 64)"
  "bits b 0x1f = of_nat (unat b mod 32)"
  "bits b 0xf = of_nat (unat b mod 16)"
  "bits b 0x07 = of_nat (unat b mod 8)"
  using bits_mod [of "0x3f" 6 b] bits_mod [of "0x1f" 5 b] bits_mod [of "0xf" 4 b]
    bits_mod [of "0x07" 3 b]
  by (simp_all add: mask_eq_exp_minus_1)

text \<open>Shifting and filling the freed low bits is addition.\<close>

lemma push_or:
  assumes "y < 2 ^ k"
  shows "push_bit k (of_nat x :: 32 word) OR of_nat y = of_nat (x * 2 ^ k + y)"
proof -
  have "push_bit k (of_nat x :: 32 word) AND of_nat y = 0"
  proof (rule bit_word_eqI)
    fix n assume "n < LENGTH(32)"
    have "\<not> bit y n" if "k \<le> n"
    proof -
      have "y < 2 ^ n"
        using assms that by (meson less_le_trans one_le_numeral power_increasing)
      then show ?thesis by (simp add: bit_iff_odd)
    qed
    then show "bit (push_bit k (of_nat x :: 32 word) AND of_nat y) n = bit 0 n"
      by (auto simp: bit_simps)
  qed
  then have "push_bit k (of_nat x :: 32 word) OR of_nat y = push_bit k (of_nat x) + of_nat y"
    using word_plus_and_or [of "push_bit k (of_nat x :: 32 word)" "of_nat y"] by simp
  then show ?thesis by (simp add: push_bit_eq_mult)
qed

lemma push_or2:
  assumes "y < 64" "z < 64"
  shows "push_bit 12 (of_nat x :: 32 word) OR push_bit 6 (of_nat y) OR of_nat z
    = of_nat (x * 4096 + (y * 64 + z))"
proof -
  have "push_bit 6 (of_nat y :: 32 word) OR of_nat z = of_nat (y * 64 + z)"
    using push_or [of z 6 y] assms by simp
  then show ?thesis
    using push_or [of "y * 64 + z" 12 x] assms by (simp del: of_nat_add of_nat_mult)
qed

lemma push_or3:
  assumes "y < 64" "z < 64" "w < 64"
  shows "push_bit 18 (of_nat x :: 32 word) OR push_bit 12 (of_nat y) OR push_bit 6 (of_nat z)
    OR of_nat w = of_nat (x * 262144 + (y * 4096 + (z * 64 + w)))"
  using push_or2 [of z w y] push_or [of "y * 4096 + (z * 64 + w)" 18 x] assms
  by (simp del: of_nat_add of_nat_mult)

text \<open>The classes of first bytes, one by one.\<close>

lemma upto_cases: "list_all P [0..<n] \<Longrightarrow> q < n \<Longrightarrow> P q"
  by (simp add: list_all_iff)

lemma lead2:
  assumes "q < 32"
  shows "\<not> (of_nat (0xc0 + q) :: byte) < 0x80 \<and> (of_nat (0xc0 + q) :: byte) AND 0xe0 = 0xc0"
  by (rule upto_cases [where n = 32, OF _ assms]) code_simp

lemma lead3:
  assumes "q < 16"
  shows "\<not> (of_nat (0xe0 + q) :: byte) < 0x80 \<and> (of_nat (0xe0 + q) :: byte) AND 0xe0 \<noteq> 0xc0
    \<and> (of_nat (0xe0 + q) :: byte) AND 0xf0 = 0xe0"
  by (rule upto_cases [where n = 16, OF _ assms]) code_simp

lemma lead4:
  assumes "q < 8"
  shows "\<not> (of_nat (0xf0 + q) :: byte) < 0x80 \<and> (of_nat (0xf0 + q) :: byte) AND 0xe0 \<noteq> 0xc0
    \<and> (of_nat (0xf0 + q) :: byte) AND 0xf0 \<noteq> 0xe0 \<and> (of_nat (0xf0 + q) :: byte) AND 0xf8 = 0xf0"
  by (rule upto_cases [where n = 8, OF _ assms]) code_simp

lemma unat_byte: "n < 256 \<Longrightarrow> unat (of_nat n :: byte) = n"
  by (simp add: unat_of_nat)

lemma unat_lead:
  "q < 32 \<Longrightarrow> unat (of_nat (0xc0 + q) :: byte) = 0xc0 + q"
  "q < 16 \<Longrightarrow> unat (of_nat (0xe0 + q) :: byte) = 0xe0 + q"
  "q < 8 \<Longrightarrow> unat (of_nat (0xf0 + q) :: byte) = 0xf0 + q"
  "unat (tail_byte n) = 0x80 + n mod 64"
  unfolding tail_byte_def by (rule unat_byte; simp)+

lemma split12: "c div 4096 * 4096 + (c div 64 mod 64 * 64 + c mod 64) = (c :: nat)"
proof -
  have "c div 64 div 64 = c div 4096" by (simp add: div_mult2_eq [symmetric])
  then have "c div 4096 * 64 + c div 64 mod 64 = c div 64"
    by (metis div_mult_mod_eq)
  then have "c div 4096 * 4096 + c div 64 mod 64 * 64 = c div 64 * 64" by simp
  then show ?thesis by (metis add.assoc div_mult_mod_eq)
qed

lemma split18:
  "c div 262144 * 262144 + (c div 4096 mod 64 * 4096 + (c div 64 mod 64 * 64 + c mod 64)) = (c :: nat)"
proof -
  have "c div 4096 div 64 = c div 262144" by (simp add: div_mult2_eq [symmetric])
  then have "c div 262144 * 64 + c div 4096 mod 64 = c div 4096"
    by (metis div_mult_mod_eq)
  then have "c div 262144 * 262144 + c div 4096 mod 64 * 4096 = c div 4096 * 4096" by simp
  then show ?thesis using split12 [of c] by (metis add.assoc)
qed

lemma mod_offset: "q < d \<Longrightarrow> (k * d + q) mod d = (q :: nat)"
  by simp

lemma lead_mod:
  "q < 32 \<Longrightarrow> (192 + q) mod 32 = (q :: nat)" "q < 16 \<Longrightarrow> (224 + q) mod 16 = q"
  "q < 8 \<Longrightarrow> (240 + q) mod 8 = q" "(128 + n mod 64) mod 64 = (n mod 64 :: nat)"
  using mod_offset [of q 32 6] mod_offset [of q 16 14] mod_offset [of q 8 30]
    mod_offset [of "n mod 64" 64 2]
  by simp_all

lemma byte_at_simps [simp]:
  "byte_at (b # bs) 0 = Some b" "byte_at (a # b # bs) 1 = Some b"
  "byte_at (a # b # bs) (Suc 0) = Some b"
  "byte_at (a # b # c # bs) 2 = Some c" "byte_at (a # b # c # d # bs) 3 = Some d"
  by (simp_all add: byte_at_def)

text \<open>Decoding what the encoder produced gives the code point and the length of its code.\<close>

lemma decode_encode:
  assumes "c < 0x110000"
  shows "decodeUtf8Char (utf8_encode c @ rest) = Some (of_nat c, length (utf8_encode c))"
proof -
  consider (a) "c < 0x80" | (b) "0x80 \<le> c" "c < 0x800" | (c) "0x800 \<le> c" "c < 0x10000"
    | (d) "0x10000 \<le> c" by linarith
  then show ?thesis
  proof cases
    case a
    then have "(of_nat c :: byte) < 0x80" and u: "unat (of_nat c :: byte) = c"
      by (simp_all add: word_less_nat_alt unat_of_nat)
    moreover have "(ucast (of_nat c :: byte) :: 32 word) = of_nat c"
      using a by (simp add: unsigned_of_nat take_bit_nat_eq_self)
    ultimately show ?thesis
      using a by (simp add: decodeUtf8Char_def utf8_encode_def)
  next
    case b
    have q: "c div 64 < 32" using b by simp
    have "push_bit 6 (of_nat (c div 64)) OR of_nat (c mod 64) = (of_nat c :: 32 word)"
      by (subst push_or) (simp_all add: mult.commute)
    then show ?thesis
      using b q lead2 [OF q]
      by (simp add: decodeUtf8Char_def utf8_encode_def bits_masks unat_lead lead_mod del: of_nat_add)
  next
    case c
    have q: "c div 4096 < 16" using c by simp
    have "push_bit 12 (of_nat (c div 4096)) OR push_bit 6 (of_nat (c div 64 mod 64)) OR of_nat (c mod 64)
      = (of_nat c :: 32 word)"
      by (subst push_or2) (simp_all only: split12 pos_mod_bound mod_less_divisor zero_less_numeral)
    then show ?thesis
      using c q lead3 [OF q]
      by (simp add: decodeUtf8Char_def utf8_encode_def bits_masks unat_lead lead_mod del: of_nat_add)
  next
    case d
    have q: "c div 262144 < 8" using assms by simp
    have "push_bit 18 (of_nat (c div 262144)) OR push_bit 12 (of_nat (c div 4096 mod 64))
      OR push_bit 6 (of_nat (c div 64 mod 64)) OR of_nat (c mod 64) = (of_nat c :: 32 word)"
      by (subst push_or3) (simp_all only: split18 mod_less_divisor zero_less_numeral)
    then show ?thesis
      using d q lead4 [OF q]
      by (simp add: decodeUtf8Char_def utf8_encode_def bits_masks unat_lead lead_mod del: of_nat_add)
  qed
qed

text \<open>
  C21 (roundtrip): the bar's decoder inverts UTF-8.  From the encoding of any code point,
  whatever follows it, \<open>decodeUtf8Char\<close> yields that code point and consumes exactly its bytes.
\<close>

theorem utf8_roundtrip:
  assumes "c < 0x110000"
  shows "decodeUtf8Char (utf8_encode c @ rest) = Some (of_nat c, length (utf8_encode c))"
  by (rule decode_encode [OF assms])

theorem utf8_roundtrip_witness:
  "decodeUtf8Char (utf8_encode 0x258f @ [65, 0]) = Some (0x258f, 3)"
  using utf8_roundtrip [of "0x258f" "[65, 0]"] by (simp add: utf8_encode_def)

end
