(* ===== verification/Glyph_Cache.thy ===== *)
theory Glyph_Cache
  imports Prelude
begin

text \<open>
  The glyph width table of \<open>bar.h\<close> (\<open>xftChar\<close>, \<open>xftWidth\<close>): a hash table with linear probing
  that caches, per character, the width Xft reported for it.  The two C arrays of
  \<open>MAX_WIDTHS\<close> slots are functions from slot numbers; a slot whose character is 0 is free.
  The loop of \<open>xftCharWidthSlot\<close> does not end when the table is full and the character is
  not in it, which the model has as \<open>None\<close>.

  The theory relates the table to a finite map (\<open>cached\<close>), and states what a client may rely
  on as the locale \<open>width_memo\<close>, with the client's lemmas proved inside it.
\<close>

section \<open>The table\<close>

definition MAX_WIDTHS :: nat where
  "MAX_WIDTHS = 2 ^ 16"

record glyph_cache =
  xftChar :: "nat \<Rightarrow> 32 word"
  xftWidth :: "nat \<Rightarrow> byte"

text \<open>The \<open>while\<close> loop, from a given slot.\<close>

partial_function (option) slot_from :: "(nat \<Rightarrow> 32 word) \<Rightarrow> 32 word \<Rightarrow> nat \<Rightarrow> nat option" where
  "slot_from chars ch slot =
     (if chars slot \<noteq> 0 \<and> chars slot \<noteq> ch
      then slot_from chars ch ((slot + 1) mod MAX_WIDTHS)
      else Some slot)"

definition xftCharWidthSlot :: "glyph_cache \<Rightarrow> 32 word \<Rightarrow> nat option" where
  "xftCharWidthSlot g ch = slot_from (xftChar g) ch (unat ch mod MAX_WIDTHS)"

text \<open>
  \<open>xftCharWidth\<close>.  The argument \<open>gi\<close> is what \<open>XftGlyphExtents\<close> answers for the glyph of the
  character in the font at hand: the advance \<open>xOff\<close> and the ink width.  The table keeps the
  larger one as a \<open>char\<close>, so the width that is returned is the signed value of its low byte.
\<close>

definition glyph_width :: "int \<times> int \<Rightarrow> int" where
  "glyph_width gi = (if fst gi \<ge> snd gi then fst gi else snd gi)"

definition xftCharWidth ::
  "glyph_cache \<Rightarrow> 32 word \<Rightarrow> int \<times> int \<Rightarrow> (int \<times> glyph_cache) option" where
  "xftCharWidth g ch gi =
     do {
       slot \<leftarrow> xftCharWidthSlot g ch;
       if xftChar g slot = 0 then
         (let g' = g\<lparr>xftChar := (xftChar g)(slot := ch),
                     xftWidth := (xftWidth g)(slot := of_int (glyph_width gi))\<rparr>
          in Some (sint (xftWidth g' slot), g'))
       else if xftChar g slot = ch then Some (sint (xftWidth g slot), g)
       else Some (0, g)
     }"

definition empty_cache :: glyph_cache where
  "empty_cache = \<lparr>xftChar = (\<lambda>_. 0), xftWidth = (\<lambda>_. 0)\<rparr>"

section \<open>Probe sequences\<close>

text \<open>The \<open>k\<close>-th slot that is looked at for a character.\<close>

definition probe :: "32 word \<Rightarrow> nat \<Rightarrow> nat" where
  "probe ch k = (unat ch + k) mod MAX_WIDTHS"

definition hit :: "(nat \<Rightarrow> 32 word) \<Rightarrow> 32 word \<Rightarrow> nat \<Rightarrow> bool" where
  "hit chars ch k \<longleftrightarrow> chars (probe ch k) = 0 \<or> chars (probe ch k) = ch"

lemma MAX_WIDTHS_pos [simp]: "0 < MAX_WIDTHS"
  by (simp add: MAX_WIDTHS_def)

lemma probe_less [simp]: "probe ch k < MAX_WIDTHS"
  by (simp add: probe_def)

lemma probe_Suc: "(probe ch k + 1) mod MAX_WIDTHS = probe ch (Suc k)"
  by (simp add: probe_def mod_Suc_eq)

lemma probe_inj:
  assumes "j < MAX_WIDTHS" "k < MAX_WIDTHS" "probe ch j = probe ch k"
  shows "j = k"
proof -
  have *: "i = l" if "i \<le> l" "l < MAX_WIDTHS" "probe ch i = probe ch l" for i l
  proof -
    have "MAX_WIDTHS dvd (unat ch + l) - (unat ch + i)"
      using that mod_eq_dvd_iff_nat [of "unat ch + i" "unat ch + l" MAX_WIDTHS]
      by (simp add: probe_def)
    then have "MAX_WIDTHS dvd l - i" by simp
    moreover have "l - i < MAX_WIDTHS" using that by simp
    ultimately have "l - i = 0" using nat_dvd_not_less by blast
    then show ?thesis using that by simp
  qed
  show ?thesis
    using * [of j k] * [of k j] assms by (cases "j \<le> k") auto
qed

lemma probe_onto:
  assumes "s < MAX_WIDTHS"
  obtains k where "k < MAX_WIDTHS" "probe ch k = s"
proof -
  let ?k = "(s + (MAX_WIDTHS - unat ch mod MAX_WIDTHS)) mod MAX_WIDTHS"
  have "probe ch ?k = (unat ch mod MAX_WIDTHS + (s + (MAX_WIDTHS - unat ch mod MAX_WIDTHS)))
      mod MAX_WIDTHS"
    by (simp only: probe_def mod_add_right_eq mod_add_left_eq)
  also have "unat ch mod MAX_WIDTHS + (s + (MAX_WIDTHS - unat ch mod MAX_WIDTHS)) = s + MAX_WIDTHS"
    using mod_less_divisor [OF MAX_WIDTHS_pos, of "unat ch"] by linarith
  finally have "probe ch ?k = s" using assms by simp
  then show ?thesis using that [of ?k] by simp
qed

section \<open>The loop finds the first hit\<close>

lemma slot_from_hit:
  assumes "hit chars ch k" "\<And>j. i \<le> j \<Longrightarrow> j < k \<Longrightarrow> \<not> hit chars ch j" "i \<le> k"
  shows "slot_from chars ch (probe ch i) = Some (probe ch k)"
  using assms
proof (induction "k - i" arbitrary: i)
  case 0
  then show ?case by (subst slot_from.simps) (auto simp: hit_def)
next
  case (Suc n)
  then have "\<not> hit chars ch i" and "slot_from chars ch (probe ch (Suc i)) = Some (probe ch k)"
    by auto
  then show ?case
    by (subst slot_from.simps) (simp add: hit_def probe_Suc [simplified])
qed

lemma slot_from_result:
  assumes "slot_from chars ch slot = Some r" "slot < MAX_WIDTHS"
  shows "r < MAX_WIDTHS \<and> (chars r = 0 \<or> chars r = ch)"
proof -
  have "slot < MAX_WIDTHS \<longrightarrow> r < MAX_WIDTHS \<and> (chars r = 0 \<or> chars r = ch)"
  proof (rule slot_from.raw_induct [where P = "\<lambda>chars ch slot r. slot < MAX_WIDTHS \<longrightarrow>
      r < MAX_WIDTHS \<and> (chars r = 0 \<or> chars r = ch)", OF _ assms(1)])
    fix f :: "(nat \<Rightarrow> 32 word) \<Rightarrow> 32 word \<Rightarrow> nat \<Rightarrow> nat option"
      and chars :: "nat \<Rightarrow> 32 word" and ch :: "32 word" and slot r :: nat
    assume IH: "\<And>chars ch slot r. f chars ch slot = Some r \<Longrightarrow>
        slot < MAX_WIDTHS \<longrightarrow> r < MAX_WIDTHS \<and> (chars r = 0 \<or> chars r = ch)"
      and eq: "(if chars slot \<noteq> 0 \<and> chars slot \<noteq> ch
        then f chars ch ((slot + 1) mod MAX_WIDTHS) else Some slot) = Some r"
    show "slot < MAX_WIDTHS \<longrightarrow> r < MAX_WIDTHS \<and> (chars r = 0 \<or> chars r = ch)"
      using eq IH [of chars ch "(slot + 1) mod MAX_WIDTHS" r] by (auto split: if_splits)
  qed
  with assms(2) show ?thesis by simp
qed

definition first_hit :: "(nat \<Rightarrow> 32 word) \<Rightarrow> 32 word \<Rightarrow> nat \<Rightarrow> bool" where
  "first_hit chars ch k \<longleftrightarrow> k < MAX_WIDTHS \<and> hit chars ch k \<and> (\<forall>j<k. \<not> hit chars ch j)"

lemma first_hit_unique: "first_hit chars ch j \<Longrightarrow> first_hit chars ch k \<Longrightarrow> j = k"
  unfolding first_hit_def using linorder_neq_iff by blast

lemma first_hit_slot: "first_hit (xftChar g) ch k \<Longrightarrow> xftCharWidthSlot g ch = Some (probe ch k)"
  using slot_from_hit [of "xftChar g" ch k 0]
  by (simp add: first_hit_def xftCharWidthSlot_def probe_def)

lemma first_hit_exists:
  assumes "s < MAX_WIDTHS" "chars s = 0 \<or> chars s = ch"
  obtains k where "first_hit chars ch k"
proof -
  obtain k0 where k0: "k0 < MAX_WIDTHS" "probe ch k0 = s" using assms(1) by (rule probe_onto)
  then have "hit chars ch k0" using assms(2) by (simp add: hit_def)
  then have "hit chars ch (LEAST k. hit chars ch k)" "(LEAST k. hit chars ch k) \<le> k0"
    by (auto intro: LeastI Least_le)
  then show ?thesis
    using that [of "LEAST k. hit chars ch k"] k0(1) not_less_Least
    by (fastforce simp: first_hit_def)
qed

lemma slot_first_hit:
  assumes "xftCharWidthSlot g ch = Some s"
  obtains k where "first_hit (xftChar g) ch k" "s = probe ch k"
proof -
  have "s < MAX_WIDTHS" "xftChar g s = 0 \<or> xftChar g s = ch"
    using slot_from_result [of "xftChar g" ch "unat ch mod MAX_WIDTHS" s] assms
    by (auto simp: xftCharWidthSlot_def)
  then obtain k where k: "first_hit (xftChar g) ch k" by (rule first_hit_exists)
  with first_hit_slot [OF k] assms show ?thesis using that by simp
qed

section \<open>The table as a map\<close>

text \<open>Every stored character sits at its first hit; free slots are counted.\<close>

definition cache_inv :: "glyph_cache \<Rightarrow> bool" where
  "cache_inv g \<longleftrightarrow> (\<forall>s<MAX_WIDTHS. xftChar g s \<noteq> 0 \<longrightarrow>
     (\<exists>k. first_hit (xftChar g) (xftChar g s) k \<and> probe (xftChar g s) k = s))"

definition free_slots :: "glyph_cache \<Rightarrow> nat" where
  "free_slots g = card {s. s < MAX_WIDTHS \<and> xftChar g s = 0}"

definition cached :: "glyph_cache \<Rightarrow> 32 word \<Rightarrow> int option" where
  "cached g ch =
     (if ch = 0 then None
      else case xftCharWidthSlot g ch of
             None \<Rightarrow> None
           | Some s \<Rightarrow> if xftChar g s = ch then Some (sint (xftWidth g s)) else None)"

definition narrow :: "int \<times> int \<Rightarrow> int" where
  "narrow gi = sint (of_int (glyph_width gi) :: byte)"

lemma narrow_small: "0 \<le> glyph_width gi \<Longrightarrow> glyph_width gi < 128 \<Longrightarrow> narrow gi = glyph_width gi"
  by (simp add: narrow_def signed_of_int signed_take_bit_int_eq_self)

lemma cached_first_hit:
  "first_hit (xftChar g) ch k \<Longrightarrow> ch \<noteq> 0 \<Longrightarrow> cached g ch =
    (if xftChar g (probe ch k) = ch then Some (sint (xftWidth g (probe ch k))) else None)"
  by (simp add: cached_def first_hit_slot)

lemma cache_inv_empty [simp]: "cache_inv empty_cache"
  by (simp add: cache_inv_def empty_cache_def)

lemma cached_empty [simp]: "cached empty_cache ch = None"
  by (simp add: cached_def empty_cache_def split: option.splits)

lemma free_slots_empty [simp]: "free_slots empty_cache = MAX_WIDTHS"
  by (simp add: free_slots_def empty_cache_def)

lemma free_slot_hit:
  assumes "0 < free_slots g"
  obtains k where "first_hit (xftChar g) ch k"
proof -
  have "{s. s < MAX_WIDTHS \<and> xftChar g s = 0} \<noteq> {}"
    using assms unfolding free_slots_def by (metis card.empty less_irrefl)
  then obtain s where "s < MAX_WIDTHS" "xftChar g s = 0" by blast
  then show ?thesis using first_hit_exists [of s "xftChar g" ch] that by blast
qed

text \<open>Storing a character in the free slot that is its first hit.\<close>

definition store :: "glyph_cache \<Rightarrow> nat \<Rightarrow> 32 word \<Rightarrow> byte \<Rightarrow> glyph_cache" where
  "store g s ch w = g\<lparr>xftChar := (xftChar g)(s := ch), xftWidth := (xftWidth g)(s := w)\<rparr>"

lemma store_hit:
  assumes "xftChar g (probe ch k) = 0" "first_hit (xftChar g) d m" "xftChar g (probe d m) \<noteq> 0"
  shows "first_hit (xftChar (store g (probe ch k) ch w)) d m"
    and "probe d m \<noteq> probe ch k"
proof -
  have ne: "probe d j \<noteq> probe ch k" if "j \<le> m" for j
    using assms that unfolding first_hit_def hit_def by (metis le_neq_implies_less)
  then show "first_hit (xftChar (store g (probe ch k) ch w)) d m" "probe d m \<noteq> probe ch k"
    using assms(2) by (auto simp: first_hit_def hit_def store_def)
qed

lemma store_hit_self:
  assumes "first_hit (xftChar g) ch k" "xftChar g (probe ch k) = 0"
  shows "first_hit (xftChar (store g (probe ch k) ch w)) ch k"
  using assms unfolding first_hit_def hit_def store_def
  by (auto dest: probe_inj [rotated -1])

lemma cache_inv_store:
  assumes "cache_inv g" "first_hit (xftChar g) ch k" "xftChar g (probe ch k) = 0" "ch \<noteq> 0"
  shows "cache_inv (store g (probe ch k) ch w)"
  unfolding cache_inv_def
proof (intro allI impI)
  fix s assume s: "s < MAX_WIDTHS" "xftChar (store g (probe ch k) ch w) s \<noteq> 0"
  show "\<exists>m. first_hit (xftChar (store g (probe ch k) ch w)) (xftChar (store g (probe ch k) ch w) s) m \<and>
      probe (xftChar (store g (probe ch k) ch w) s) m = s"
  proof (cases "s = probe ch k")
    case True
    then show ?thesis using store_hit_self [OF assms(2,3)] by (auto simp: store_def)
  next
    case False
    then have same: "xftChar (store g (probe ch k) ch w) s = xftChar g s" by (simp add: store_def)
    with s assms(1) obtain m where m: "first_hit (xftChar g) (xftChar g s) m" "probe (xftChar g s) m = s"
      unfolding cache_inv_def by auto
    with store_hit(1) [OF assms(3) m(1)] s same show ?thesis by auto
  qed
qed

text \<open>The other characters keep their answer, the stored one gets its width.\<close>

lemma cached_store_other:
  assumes inv: "cache_inv g" and k: "first_hit (xftChar g) ch k" "xftChar g (probe ch k) = 0"
    and d: "d \<noteq> ch" "d \<noteq> 0"
  shows "cached (store g (probe ch k) ch w) d = cached g d"
proof -
  let ?g = "store g (probe ch k) ch w"
  have "\<exists>m. first_hit (xftChar g) d m"
    using first_hit_exists [of "probe ch k" "xftChar g" d] k(2) by auto
  then obtain m where m: "first_hit (xftChar g) d m" by blast
  show ?thesis
  proof (cases "xftChar g (probe d m) = 0")
    case False
    have m': "first_hit (xftChar ?g) d m" "probe d m \<noteq> probe ch k"
      using store_hit [OF k(2) m False] by simp_all
    then show ?thesis
      using cached_first_hit [OF m d(2)] cached_first_hit [OF m'(1) d(2)] by (simp add: store_def)
  next
    case True
    have none: "xftChar ?g (probe d m') \<noteq> d" if "m' < MAX_WIDTHS" for m'
    proof
      assume c: "xftChar ?g (probe d m') = d"
      then have c': "xftChar g (probe d m') = d" using d(1) by (auto simp: store_def split: if_splits)
      then obtain n where n: "first_hit (xftChar g) d n" "probe d n = probe d m'"
        using inv d(2) unfolding cache_inv_def by (metis probe_less)
      then have "n = m" using m first_hit_unique by blast
      then show False using True n(2) c' d(2) by simp
    qed
    have "cached ?g d = None"
    proof (cases "xftCharWidthSlot ?g d")
      case None
      then show ?thesis by (simp add: cached_def)
    next
      case (Some s)
      then obtain m' where "first_hit (xftChar ?g) d m'" "s = probe d m'" by (rule slot_first_hit)
      then show ?thesis using none [of m'] Some by (simp add: cached_def first_hit_def)
    qed
    moreover have "cached g d = None"
      using cached_first_hit [OF m d(2)] True d(2) by simp
    ultimately show ?thesis by simp
  qed
qed

lemma cached_store_self:
  assumes "first_hit (xftChar g) ch k" "xftChar g (probe ch k) = 0" "ch \<noteq> 0"
  shows "cached (store g (probe ch k) ch w) ch = Some (sint w)"
  using cached_first_hit [OF store_hit_self [OF assms(1,2)] assms(3)] by (simp add: store_def)

lemma free_slots_store:
  assumes "ch \<noteq> 0" "s < MAX_WIDTHS" "xftChar g s = 0"
  shows "free_slots g = Suc (free_slots (store g s ch w))"
proof -
  let ?F = "{s. s < MAX_WIDTHS \<and> xftChar g s = 0}"
  have "{t. t < MAX_WIDTHS \<and> xftChar (store g s ch w) t = 0} = ?F - {s}"
    using assms(1) by (auto simp: store_def)
  moreover have "s \<in> ?F" "finite ?F" using assms by auto
  ultimately show ?thesis
    unfolding free_slots_def using card.remove [of ?F s] by metis
qed

text \<open>
  The slots hold different characters, so a table whose characters are all in a set of fewer than
  \<open>MAX_WIDTHS\<close> characters has room.
\<close>

definition stored :: "glyph_cache \<Rightarrow> 32 word set" where
  "stored g = {c. c \<noteq> 0 \<and> cached g c \<noteq> None}"

lemma slot_chars_inj:
  assumes "cache_inv g" "s < MAX_WIDTHS" "t < MAX_WIDTHS" "xftChar g s \<noteq> 0" "xftChar g s = xftChar g t"
  shows "s = t"
  using assms unfolding cache_inv_def by (metis first_hit_unique)

lemma slot_char_stored:
  assumes "cache_inv g" "s < MAX_WIDTHS" "xftChar g s \<noteq> 0"
  shows "xftChar g s \<in> stored g"
proof -
  obtain k where k: "first_hit (xftChar g) (xftChar g s) k" "probe (xftChar g s) k = s"
    using assms unfolding cache_inv_def by blast
  then show ?thesis using cached_first_hit [OF k(1)] assms(3) by (simp add: stored_def)
qed

lemma free_slots_vocabulary:
  assumes inv: "cache_inv g" and V: "stored g \<subseteq> V" "card V < MAX_WIDTHS"
  shows "0 < free_slots g"
proof (rule ccontr)
  assume "\<not> ?thesis"
  then have "{s. s < MAX_WIDTHS \<and> xftChar g s = 0} = {}"
    by (simp add: free_slots_def)
  then have full: "xftChar g s \<noteq> 0" if "s < MAX_WIDTHS" for s using that by blast
  have "inj_on (xftChar g) {..<MAX_WIDTHS}"
    using slot_chars_inj [OF inv] full by (intro inj_onI) (metis lessThan_iff)
  then have "MAX_WIDTHS = card (xftChar g ` {..<MAX_WIDTHS})" by (simp add: card_image)
  also have "\<dots> \<le> card V"
    using slot_char_stored [OF inv] full V(1) by (intro card_mono) auto
  finally show False using V(2) by simp
qed

text \<open>\<open>xftCharWidth\<close> looks the character up, and computes and stores its width if it is new.\<close>

lemma xftCharWidth_spec:
  assumes inv: "cache_inv g" and ch: "ch \<noteq> 0" and room: "0 < free_slots g"
  obtains w g' where "xftCharWidth g ch gi = Some (w, g')"
    "w = (case cached g ch of Some v \<Rightarrow> v | None \<Rightarrow> narrow gi)"
    "\<And>d. d \<noteq> 0 \<Longrightarrow> cached g' d = ((cached g)(ch \<mapsto> w)) d"
    "cache_inv g'" "free_slots g \<le> Suc (free_slots g')"
proof -
  obtain k where k: "first_hit (xftChar g) ch k" using room by (rule free_slot_hit)
  let ?s = "probe ch k"
  have slot: "xftCharWidthSlot g ch = Some ?s" by (rule first_hit_slot [OF k])
  show ?thesis
  proof (cases "xftChar g ?s = 0")
    case True
    let ?w = "of_int (glyph_width gi) :: byte"
    let ?g = "store g ?s ch ?w"
    have "xftCharWidth g ch gi = Some (narrow gi, ?g)"
      using True slot by (simp add: xftCharWidth_def store_def narrow_def)
    moreover have "cached g ch = None"
      using cached_first_hit [OF k ch] True ch by simp
    moreover have "cached ?g d = ((cached g)(ch \<mapsto> narrow gi)) d" if "d \<noteq> 0" for d
      using cached_store_self [OF k True ch] cached_store_other [OF inv k True _ that]
      by (simp add: narrow_def)
    moreover have "free_slots g \<le> Suc (free_slots ?g)"
      using free_slots_store [OF ch probe_less True, of ?w] by (rule eq_imp_le)
    ultimately show ?thesis
      using that [of "narrow gi" ?g] cache_inv_store [OF inv k True ch] by (metis option.simps(4))
  next
    case False
    then have here: "xftChar g ?s = ch" using k by (auto simp: first_hit_def hit_def)
    have "xftCharWidth g ch gi = Some (sint (xftWidth g ?s), g)"
      using False here slot ch by (simp add: xftCharWidth_def)
    moreover have "cached g ch = Some (sint (xftWidth g ?s))"
      using cached_first_hit [OF k ch] here by simp
    ultimately show ?thesis
      using that [of "sint (xftWidth g ?s)" g] inv by (metis fun_upd_triv le_SucI option.simps(5) order_refl)
  qed
qed

section \<open>What the clients of the table rely on\<close>

text \<open>
  A memo of widths: measuring a character answers what is known of it, or else what the
  extents at hand give, and from then on that answer is known.  A client that always passes the
  extents \<open>ext c\<close> for the character \<open>c\<close> sees the width \<open>fit (ext c)\<close> every time, however the
  measurements are interleaved, as long as there is room.
\<close>

locale width_memo =
  fixes measure :: "'g \<Rightarrow> 'c \<Rightarrow> 'e \<Rightarrow> (int \<times> 'g) option"
    and known :: "'g \<Rightarrow> 'c \<Rightarrow> int option"
    and ok :: "'g \<Rightarrow> bool"
    and room :: "'g \<Rightarrow> nat"
    and fit :: "'e \<Rightarrow> int"
    and valid :: "'c \<Rightarrow> bool"
  assumes measure_law: "ok g \<Longrightarrow> valid c \<Longrightarrow> 0 < room g \<Longrightarrow>
    \<exists>w g'. measure g c e = Some (w, g') \<and> w = (case known g c of Some v \<Rightarrow> v | None \<Rightarrow> fit e)
      \<and> (\<forall>d. valid d \<longrightarrow> known g' d = ((known g)(c \<mapsto> w)) d) \<and> ok g' \<and> room g \<le> Suc (room g')"
begin

lemma measure_coherent:
  assumes "ok g" "valid c" "0 < room g"
    and coh: "\<And>d v. valid d \<Longrightarrow> known g d = Some v \<Longrightarrow> v = fit (ext d)"
  obtains g' where "measure g c (ext c) = Some (fit (ext c), g')" "ok g'"
    "\<And>d v. valid d \<Longrightarrow> known g' d = Some v \<Longrightarrow> v = fit (ext d)"
    "\<And>d. valid d \<Longrightarrow> known g' d \<noteq> None \<Longrightarrow> d = c \<or> known g d \<noteq> None"
proof -
  obtain w g' where m: "measure g c (ext c) = Some (w, g')"
    "w = (case known g c of Some v \<Rightarrow> v | None \<Rightarrow> fit (ext c))"
    "\<forall>d. valid d \<longrightarrow> known g' d = ((known g)(c \<mapsto> w)) d" "ok g'" "room g \<le> Suc (room g')"
    using measure_law [OF assms(1-3), of "ext c"] by blast
  have w: "w = fit (ext c)"
    using m(2) coh [OF assms(2)] by (cases "known g c") auto
  show ?thesis
  proof (rule that)
    show "v = fit (ext d)" if "valid d" "known g' d = Some v" for d v
      using m(3) that coh [OF that(1)] w by (cases "d = c") auto
    show "d = c \<or> known g d \<noteq> None" if "valid d" "known g' d \<noteq> None" for d
      using m(3) that by (cases "d = c") auto
  qed (use m w in auto)
qed

lemma measure_again:
  assumes "ok g" "valid c" "1 < room g" "measure g c e = Some (w, g')"
  obtains g'' where "measure g' c e' = Some (w, g'')"
proof -
  obtain w1 g1 where m: "measure g c e = Some (w1, g1)"
    "\<forall>d. valid d \<longrightarrow> known g1 d = ((known g)(c \<mapsto> w1)) d" "ok g1" "room g \<le> Suc (room g1)"
    using measure_law [OF assms(1,2), of e] assms(3) by auto
  with assms have "g1 = g'" "w1 = w" "known g' c = Some w" "ok g'" "0 < room g'" by auto
  then show ?thesis
    using measure_law [of g' c e'] assms(2) that by auto
qed

end

interpretation memo: width_memo xftCharWidth cached cache_inv free_slots narrow "\<lambda>c. c \<noteq> 0"
proof unfold_locales
  fix g :: glyph_cache and c :: "32 word" and e :: "int \<times> int"
  assume "cache_inv g" "c \<noteq> 0" "0 < free_slots g"
  from xftCharWidth_spec [OF this, of e]
  show "\<exists>w g'. xftCharWidth g c e = Some (w, g') \<and>
      w = (case cached g c of Some v \<Rightarrow> v | None \<Rightarrow> narrow e) \<and>
      (\<forall>d. d \<noteq> 0 \<longrightarrow> cached g' d = ((cached g)(c \<mapsto> w)) d) \<and> cache_inv g' \<and>
      free_slots g \<le> Suc (free_slots g')"
    by metis
qed

section \<open>Properties\<close>

text \<open>C9 (refinement): the open-addressing width table implements a finite map.  From a
  well-formed table with a free slot, \<open>xftCharWidth\<close> of a character returns the width already
  cached for it, or the narrowed width of the extents; the table afterwards is well-formed, holds
  that width for the character, and answers every other character exactly as before.\<close>

theorem glyph_table_refines_map:
  assumes "cache_inv g" and "ch \<noteq> 0" and "0 < free_slots g"
  shows "\<exists>w g'. xftCharWidth g ch gi = Some (w, g') \<and> cache_inv g' \<and>
    w = (case cached g ch of Some v \<Rightarrow> v | None \<Rightarrow> narrow gi) \<and>
    cached g' ch = Some w \<and> (\<forall>d. d \<noteq> 0 \<and> d \<noteq> ch \<longrightarrow> cached g' d = cached g d)"
  using memo.measure_law [OF assms, of gi] assms(2) by auto

theorem glyph_table_refines_map_witness:
  "cache_inv empty_cache \<and> (65 :: 32 word) \<noteq> 0 \<and> 0 < free_slots empty_cache \<and>
   (\<exists>w g'. xftCharWidth empty_cache 65 (9, 7) = Some (w, g') \<and> cache_inv g' \<and>
    w = (case cached empty_cache 65 of Some v \<Rightarrow> v | None \<Rightarrow> narrow (9, 7)) \<and>
    cached g' 65 = Some w \<and> (\<forall>d. d \<noteq> 0 \<and> d \<noteq> 65 \<longrightarrow> cached g' d = cached empty_cache d))"
  using glyph_table_refines_map [of empty_cache 65 "(9, 7)"] by simp

text \<open>C38 (termination): the probe loop of \<open>xftCharWidthSlot\<close> returns exactly when some slot is
  free or holds the character; it runs forever on a full table that lacks the character, since
  nothing in the program ever frees a slot.\<close>

theorem probe_loop_returns_iff:
  "(\<exists>s. xftCharWidthSlot g ch = Some s) \<longleftrightarrow>
   (\<exists>s<MAX_WIDTHS. xftChar g s = 0 \<or> xftChar g s = ch)"
proof
  assume "\<exists>s. xftCharWidthSlot g ch = Some s"
  then show "\<exists>s<MAX_WIDTHS. xftChar g s = 0 \<or> xftChar g s = ch"
    using slot_from_result [of "xftChar g" ch "unat ch mod MAX_WIDTHS"]
    by (auto simp: xftCharWidthSlot_def)
next
  assume "\<exists>s<MAX_WIDTHS. xftChar g s = 0 \<or> xftChar g s = ch"
  then show "\<exists>s. xftCharWidthSlot g ch = Some s"
    using first_hit_exists [of _ "xftChar g" ch] first_hit_slot by metis
qed

end
