(* ===== verification/Bar_Draw.thy ===== *)
theory Bar_Draw
  imports Element Utf8 Glyph_Cache
begin

text \<open>
  The drawing layer of \<open>bar.h\<close>: fonts and their selection, the state of a \<open>Bar\<close>, and the
  operations that send requests to the X server.  What the server and Xft answer is the record
  \<open>xserver\<close>, an argument of the definitions; the requests are collected in order in \<open>xlog\<close>.
  Undefined behaviour of the C++ code (a read outside an array, a null font, a probe loop that
  does not end) is the result \<open>None\<close>.
\<close>

section \<open>Fonts\<close>

record font_t =
  ptr :: "32 word"
  width_lut :: "int list option"
  xft_ft :: "nat option"
  ascent :: int
  descent :: int
  fheight :: int
  fwidth :: int
  charMax :: "32 word"
  charMin :: "32 word"

record xserver =
  XftCharExists :: "nat \<Rightarrow> 32 word \<Rightarrow> bool"
  XftGlyphExtents :: "nat \<Rightarrow> 32 word \<Rightarrow> int \<times> int"

definition MAX_FONT_COUNT :: nat where
  "MAX_FONT_COUNT = 5"

text \<open>\<open>font->width_lut[i].character_width\<close>.\<close>

definition lut_at :: "int list \<Rightarrow> 32 word \<Rightarrow> int option" where
  "lut_at lut i = (if unat i < length lut then Some (lut ! unat i) else None)"

definition fontHasGlyph :: "xserver \<Rightarrow> font_t \<Rightarrow> 32 word \<Rightarrow> bool option" where
  "fontHasGlyph x font c =
     (case xft_ft font of
        Some ft \<Rightarrow> Some (XftCharExists x ft c)
      | None \<Rightarrow>
          if c < charMin font \<or> c > charMax font then Some False
          else (case width_lut font of
                  None \<Rightarrow> Some True
                | Some lut \<Rightarrow> do { w \<leftarrow> lut_at lut (c - charMin font); Some (w \<noteq> 0) }))"

section \<open>Monitors, requests and the state of a bar\<close>

record monitor_t =
  mon_x :: int
  mon_y :: int
  mon_width :: int
  mon_window :: "32 word"
  mon_pixmap :: "32 word"

datatype gc_kind = GC_DRAW | GC_CLEAR | GC_ATTR

datatype align = ALIGN_L | ALIGN_C | ALIGN_R

datatype xrequest =
    ChangeForeground gc_kind color
  | ChangeFont gc_kind "32 word"
  | XftFreeColor
  | XftAllocColor "byte list"
  | FillRectangle "32 word" gc_kind "16 word" "16 word" "16 word" "16 word"
  | CopyArea "32 word" "32 word" "16 word" "16 word" "16 word" "16 word" "16 word" "16 word"
  | PolyText16 "32 word" "16 word" "16 word" "16 word"
  | XftDrawString32 nat int int "32 word"
  | Flush
  | CreateWindow "32 word" int int int int
  | CreatePixmap "32 word" "32 word" int int
  | CreateGC gc_kind color
  | ChangeProperty "32 word" "byte list" "int list"
  | ConfigureWindow "32 word" int int
  | MapWindow "32 word"
  | CreateColormap "32 word" "32 word"
  | XftFontClose nat
  | CloseFont "32 word"
  | DestroyWindow "32 word"
  | FreePixmap "32 word"
  | FreeGC gc_kind
  | Disconnect nat

record separator_t =
  sep_ucs :: "32 word list"
  sep_fonts :: "font_t option list"
  sep_widths :: "int list"
  totalWidth :: int

record bar =
  separator :: separator_t
  cache :: glyph_cache
  monitors :: "monitor_t list"
  fontList :: "font_t list"
  fontIndex :: int
  offsetsY :: "int list"
  offsetYCount :: nat
  offsetYIndex :: nat
  attrs :: "32 word"
  topbar :: bool
  bw :: int
  bh :: int
  bx :: int
  bar_y :: int
  bu :: int
  curForeground :: color
  curBackground :: color
  curUnderline :: color
  defaultForeground :: color
  defaultBackground :: color
  defaultUnderline :: color
  colorsDirty :: bool
  processingExpose :: bool
  xlog :: "xrequest list"

definition emit :: "xrequest list \<Rightarrow> bar \<Rightarrow> bar" where
  "emit rs b = b\<lparr>xlog := xlog b @ rs\<rparr>"

section \<open>Colours\<close>

definition markColorsDirty :: "bar \<Rightarrow> bar" where
  "markColorsDirty b = b\<lparr>colorsDirty := True\<rparr>"

definition updateGc :: "bar \<Rightarrow> bar" where
  "updateGc b =
     (if \<not> colorsDirty b then b
      else (emit [ChangeForeground GC_DRAW (curForeground b),
                  ChangeForeground GC_CLEAR (curBackground b),
                  ChangeForeground GC_ATTR (curUnderline b),
                  XftFreeColor, XftAllocColor (color_name (curForeground b))] b)
           \<lparr>colorsDirty := False\<rparr>)"

section \<open>Rectangles and lines\<close>

definition fillRect :: "32 word \<Rightarrow> gc_kind \<Rightarrow> int \<Rightarrow> int \<Rightarrow> int \<Rightarrow> int \<Rightarrow> bar \<Rightarrow> bar" where
  "fillRect d gc x y w h b =
     emit [FillRectangle d gc (of_int x) (of_int y) (of_int w) (of_int h)] b"

definition copyArea ::
  "32 word \<Rightarrow> 32 word \<Rightarrow> int \<Rightarrow> int \<Rightarrow> int \<Rightarrow> int \<Rightarrow> int \<Rightarrow> int \<Rightarrow> bar \<Rightarrow> bar" where
  "copyArea src dst sx sy dx dy w h b =
     emit [CopyArea src dst (of_int sx) (of_int sy) (of_int dx) (of_int dy)
             (of_int w) (of_int h)] b"

definition shift :: "monitor_t \<Rightarrow> int \<Rightarrow> align \<Rightarrow> int \<Rightarrow> bar \<Rightarrow> int \<times> bar" where
  "shift mon x al chWidth b =
     (let half = cdiv (mon_width mon) 2;
          (x', b') =
            (case al of
               ALIGN_L \<Rightarrow> (x, b)
             | ALIGN_C \<Rightarrow>
                 (half - cdiv (x + chWidth) 2 + x,
                  copyArea (mon_pixmap mon) (mon_pixmap mon) (half - cdiv x 2) 0
                    (half - cdiv (x + chWidth) 2) 0 x (bh b) b)
             | ALIGN_R \<Rightarrow>
                 (mon_width mon - chWidth,
                  copyArea (mon_pixmap mon) (mon_pixmap mon) (mon_width mon - x) 0
                    (mon_width mon - x - chWidth) 0 x (bh b) b))
      in (x', fillRect (mon_pixmap mon) GC_CLEAR x' 0 chWidth (bh b') b'))"

definition ATTR_OVERL :: "32 word" where "ATTR_OVERL = 1"
definition ATTR_UNDERL :: "32 word" where "ATTR_UNDERL = 2"

definition drawLines :: "monitor_t \<Rightarrow> int \<Rightarrow> int \<Rightarrow> bar \<Rightarrow> bar" where
  "drawLines mon x w b =
     (let b1 = (if attrs b AND ATTR_OVERL \<noteq> 0
                then fillRect (mon_pixmap mon) GC_ATTR x 0 w (bu b) b else b)
      in if attrs b1 AND ATTR_UNDERL \<noteq> 0
         then fillRect (mon_pixmap mon) GC_ATTR x (bh b1 - bu b1) w (bu b1) b1 else b1)"

definition drawShift :: "monitor_t \<Rightarrow> int \<Rightarrow> align \<Rightarrow> int \<Rightarrow> bar \<Rightarrow> bar" where
  "drawShift mon x al w b = (let (x', b') = shift mon x al w b in drawLines mon x' w b')"

text \<open>
  \<open>setAttribute\<close>: the position of the attribute in \<open>"ou"\<close> selects the bit; \<open>strchr\<close> also finds
  the terminating zero, at position 2, and a null result makes the position negative.
\<close>

definition setAttribute :: "byte \<Rightarrow> byte \<Rightarrow> bar \<Rightarrow> bar" where
  "setAttribute modifier attribute b =
     (let pos = (if attribute = 111 then Some 0 else if attribute = 117 then Some 1
                 else if attribute = 0 then Some (2 :: nat) else None)
      in case pos of
           None \<Rightarrow> b
         | Some p \<Rightarrow>
             if modifier = 43 then b\<lparr>attrs := attrs b OR push_bit p 1\<rparr>
             else if modifier = 45 then b\<lparr>attrs := attrs b AND NOT (push_bit p 1)\<rparr>
             else if modifier = 33 then b\<lparr>attrs := attrs b XOR push_bit p 1\<rparr>
             else b)"

section \<open>Font selection and widths\<close>

text \<open>The loop of \<open>selectDrawableFont\<close>: the first font that has the glyph, with its index.\<close>

fun select_from :: "xserver \<Rightarrow> 32 word \<Rightarrow> nat \<Rightarrow> font_t list \<Rightarrow> (nat \<times> font_t) option option" where
  "select_from x c i [] = Some None"
| "select_from x c i (f # fs) =
     do { has \<leftarrow> fontHasGlyph x f c;
          if has then Some (Some (i, f)) else select_from x c (Suc i) fs }"

definition selectDrawableFont :: "xserver \<Rightarrow> 32 word \<Rightarrow> bar \<Rightarrow> (font_t option \<times> bar) option" where
  "selectDrawableFont x c b =
     do {
       user \<leftarrow> (if fontIndex b = - 1 then Some None
                else let i = fontIndex b - 1 in
                  if 0 \<le> i \<and> nat i < length (fontList b)
                  then do { has \<leftarrow> fontHasGlyph x (fontList b ! nat i) c;
                            Some (if has then Some (nat i, fontList b ! nat i) else None) }
                  else None);
       found \<leftarrow> (case user of Some r \<Rightarrow> Some (Some r) | None \<Rightarrow> select_from x c 0 (fontList b));
       (case found of
          None \<Rightarrow> Some (None, b)
        | Some (i, f) \<Rightarrow> Some (Some f, b\<lparr>offsetYIndex := i\<rparr>))
     }"

text \<open>
  \<open>Bar::xftCharWidth\<close>: Xft is asked about the glyph only when the table does not know the
  character, and only then is the font dereferenced.
\<close>

definition glyph_extents :: "xserver \<Rightarrow> font_t option \<Rightarrow> 32 word \<Rightarrow> (int \<times> int) option" where
  "glyph_extents x font ch =
     (case font of None \<Rightarrow> None
      | Some f \<Rightarrow> map_option (\<lambda>ft. XftGlyphExtents x ft ch) (xft_ft f))"

definition barCharWidth :: "xserver \<Rightarrow> 32 word \<Rightarrow> font_t option \<Rightarrow> bar \<Rightarrow> (int \<times> bar) option" where
  "barCharWidth x ch font b =
     do {
       slot \<leftarrow> xftCharWidthSlot (cache b) ch;
       gi \<leftarrow> (if xftChar (cache b) slot = 0 then glyph_extents x font ch else Some (0, 0));
       (w, g) \<leftarrow> xftCharWidth (cache b) ch gi;
       Some (w, b\<lparr>cache := g\<rparr>)
     }"

definition getUtf8CharWidth :: "xserver \<Rightarrow> 32 word \<Rightarrow> font_t option \<Rightarrow> bar \<Rightarrow> (int \<times> bar) option" where
  "getUtf8CharWidth x ucs font b =
     (case font of
        None \<Rightarrow> Some (0, b)
      | Some f \<Rightarrow>
          if xft_ft f \<noteq> None then barCharWidth x ucs font b
          else (case width_lut f of
                  Some lut \<Rightarrow>
                    if ucs \<ge> charMin f \<and> ucs \<le> charMax f
                    then do { w \<leftarrow> lut_at lut (ucs - charMin f); Some (w, b) }
                    else Some (fwidth f, b)
                | None \<Rightarrow> Some (fwidth f, b)))"

section \<open>Characters\<close>

text \<open>\<open>(ch16 >> 8) | (ch16 << 8)\<close>, and the lengths of the parts of a \<open>PolyText16\<close> request.\<close>

definition swap16 :: "16 word \<Rightarrow> 16 word" where
  "swap16 c = drop_bit 8 c OR push_bit 8 c"

definition pad3 :: "64 word \<Rightarrow> 64 word" where
  "pad3 n = (- n) AND 3"

definition poly_text_16_parts :: "32 word \<Rightarrow> 64 word list" where
  "poly_text_16_parts len =
     (let req = 16; delta = 2; str = ucast len * 2
      in [req, pad3 req, delta, str, pad3 (delta + str)])"

definition drawChar ::
  "xserver \<Rightarrow> monitor_t \<Rightarrow> font_t \<Rightarrow> int \<Rightarrow> align \<Rightarrow> 32 word \<Rightarrow> bar \<Rightarrow> (int \<times> bar) option" where
  "drawChar x mon curFont x0 al ch b =
     do {
       (chWidth, b1) \<leftarrow>
         (if xft_ft curFont \<noteq> None then barCharWidth x ch (Some curFont) b
          else (case width_lut curFont of
                  Some lut \<Rightarrow> do { w \<leftarrow> lut_at lut (ch - charMin curFont); Some (w, b) }
                | None \<Rightarrow> Some (fwidth curFont, b)));
       (let (x1, b2) = shift mon x0 al chWidth b1 in
        if offsetYIndex b2 < length (offsetsY b2) then
          (let y = cdiv (bh b2) 2 + cdiv (fheight curFont) 2 - descent curFont
                   + offsetsY b2 ! offsetYIndex b2;
               b3 = (case xft_ft curFont of
                       Some ft \<Rightarrow> emit [XftDrawString32 ft x1 y ch] b2
                     | None \<Rightarrow>
                         if ch \<le> 0xFFFF
                         then emit [PolyText16 (mon_pixmap mon) (of_int x1) (of_int y)
                                      (swap16 (ucast ch))] b2
                         else b2)
           in Some (chWidth, drawLines mon x1 chWidth b3))
        else None)
     }"

section \<open>Loading fonts\<close>

text \<open>What opening the pattern gave: an X core font, an Xft font, or nothing.\<close>

datatype font_open = CoreFont font_t | XftFont nat int int | OpenFailed

definition fontLoad :: "font_open \<Rightarrow> bar \<Rightarrow> bar" where
  "fontLoad res b =
     (if length (fontList b) \<ge> MAX_FONT_COUNT then b
      else case res of
             CoreFont f \<Rightarrow> b\<lparr>fontList := fontList b @ [f\<lparr>xft_ft := None\<rparr>]\<rparr>
           | XftFont h asc desc \<Rightarrow>
               b\<lparr>fontList := fontList b @
                   [\<lparr>ptr = 0, width_lut = None, xft_ft = Some h, ascent = asc, descent = desc,
                     fheight = asc + desc, fwidth = 0, charMax = 0, charMin = 0\<rparr>]\<rparr>
           | OpenFailed \<Rightarrow> b)"

text \<open>\<open>init\<close> gives all fonts the largest height.\<close>

definition unify_heights :: "font_t list \<Rightarrow> font_t list" where
  "unify_heights fs =
     (case fs of [] \<Rightarrow> []
      | f # rest \<Rightarrow>
          let maxh = fold (\<lambda>g m. max m (fheight g)) rest (fheight f)
          in map (\<lambda>g. g\<lparr>fheight := maxh\<rparr>) fs)"

definition addYOffset :: "int \<Rightarrow> bar \<Rightarrow> bar" where
  "addYOffset off b =
     (if offsetYCount b \<ge> MAX_FONT_COUNT then b
      else let offs = (offsetsY b)[offsetYCount b := off];
               offs' = (if offsetYCount b = 0 then replicate MAX_FONT_COUNT off else offs)
           in b\<lparr>offsetsY := offs', offsetYCount := Suc (offsetYCount b)\<rparr>)"

section \<open>The separator\<close>

text \<open>The literal \<open>" \<close>, U+258F\<open>"\<close> with its terminating zero.\<close>

definition sep_string :: "byte list" where
  "sep_string = [0x20, 0xe2, 0x96, 0x8f, 0]"

definition empty_separator :: separator_t where
  "empty_separator = \<lparr>sep_ucs = [], sep_fonts = [], sep_widths = [], totalWidth = 0\<rparr>"

fun initSeparator_loop ::
  "xserver \<Rightarrow> nat \<Rightarrow> byte list \<Rightarrow> separator_t \<Rightarrow> bar \<Rightarrow> (separator_t \<times> bar) option" where
  "initSeparator_loop x 0 p sp b = Some (sp, b)"
| "initSeparator_loop x (Suc n) p sp b =
     do {
       c \<leftarrow> byte_at p 0;
       if c = 0 then Some (sp, b)
       else do {
         (ucs, used) \<leftarrow> decodeUtf8Char p;
         (f, b1) \<leftarrow> selectDrawableFont x ucs b;
         (let ucs' = (if f = None then 63 else ucs) in
          do {
            (w, b2) \<leftarrow> getUtf8CharWidth x ucs' f b1;
            initSeparator_loop x n (drop used p)
              \<lparr>sep_ucs = sep_ucs sp @ [ucs'], sep_fonts = sep_fonts sp @ [f],
               sep_widths = sep_widths sp @ [w], totalWidth = totalWidth sp + w\<rparr> b2 })
       }
     }"

definition initSeparator :: "xserver \<Rightarrow> bar \<Rightarrow> bar option" where
  "initSeparator x b =
     do { (sp, b') \<leftarrow> initSeparator_loop x 2 sep_string empty_separator b;
          Some (b'\<lparr>separator := sp\<rparr>) }"

section \<open>Bars with Xft fonts\<close>

text \<open>
  The font that draws a character, the extents Xft gives for it, and the invariant of a bar
  whose fonts are all Xft fonts (as the two fonts of \<open>main.cpp\<close> are) and which only ever shows
  characters of a vocabulary \<open>V\<close>: every width in the table is the one of a character of \<open>V\<close> in the
  font that is selected for it.  The vocabulary contains the characters the bar itself uses, and
  fits the table, so that the probe of the table never runs in circles.
\<close>

definition sel_font :: "xserver \<Rightarrow> font_t list \<Rightarrow> 32 word \<Rightarrow> font_t option" where
  "sel_font x fs c = find (\<lambda>f. XftCharExists x (the (xft_ft f)) c) fs"

definition draw_font :: "xserver \<Rightarrow> font_t list \<Rightarrow> 32 word \<Rightarrow> font_t" where
  "draw_font x fs c = (case sel_font x fs c of Some f \<Rightarrow> f | None \<Rightarrow> hd fs)"

definition extents :: "xserver \<Rightarrow> font_t list \<Rightarrow> 32 word \<Rightarrow> int \<times> int" where
  "extents x fs c = XftGlyphExtents x (the (xft_ft (draw_font x fs c))) c"

definition char_width :: "xserver \<Rightarrow> font_t list \<Rightarrow> 32 word \<Rightarrow> int" where
  "char_width x fs c = narrow (extents x fs c)"

definition vocabulary :: "32 word set \<Rightarrow> bool" where
  "vocabulary V \<longleftrightarrow> card V < MAX_WIDTHS \<and> 0 \<notin> V \<and> {32, 63, 0x258f} \<subseteq> V"

definition bar_ok :: "xserver \<Rightarrow> 32 word set \<Rightarrow> bar \<Rightarrow> bool" where
  "bar_ok x V b \<longleftrightarrow> fontIndex b = - 1 \<and> fontList b \<noteq> [] \<and> length (fontList b) \<le> MAX_FONT_COUNT \<and>
     (\<forall>f\<in>set (fontList b). xft_ft f \<noteq> None) \<and> length (offsetsY b) = MAX_FONT_COUNT \<and>
     offsetYIndex b < MAX_FONT_COUNT \<and> cache_inv (cache b) \<and> vocabulary V \<and>
     (\<forall>c v. c \<noteq> 0 \<longrightarrow> cached (cache b) c = Some v \<longrightarrow> c \<in> V \<and> v = char_width x (fontList b) c)"

text \<open>What drawing leaves alone.\<close>

definition fixed ::
  "bar \<Rightarrow> separator_t \<times> monitor_t list \<times> font_t list \<times> int list \<times> color \<times> color \<times> color \<times> bool" where
  "fixed b = (separator b, monitors b, fontList b, offsetsY b,
     defaultForeground b, defaultBackground b, defaultUnderline b, processingExpose b)"

definition steps_to :: "xserver \<Rightarrow> 32 word set \<Rightarrow> bar \<Rightarrow> bar \<Rightarrow> bool" where
  "steps_to x V b b' \<longleftrightarrow> bar_ok x V b' \<and> fixed b' = fixed b"

lemma steps_to_refl [intro]: "bar_ok x V b \<Longrightarrow> steps_to x V b b"
  by (simp add: steps_to_def)

lemma steps_to_trans [trans]: "steps_to x V b b' \<Longrightarrow> steps_to x V b' b'' \<Longrightarrow> steps_to x V b b''"
  by (simp add: steps_to_def)

lemma steps_to_ok [dest]: "steps_to x V b b' \<Longrightarrow> bar_ok x V b'"
  by (simp add: steps_to_def)

lemma steps_to_fixed:
  assumes "steps_to x V b b'"
  shows "fontList b' = fontList b" "separator b' = separator b" "monitors b' = monitors b"
  using assms by (simp_all add: steps_to_def fixed_def)

lemma vocabulary_nonzero: "bar_ok x V b \<Longrightarrow> c \<in> V \<Longrightarrow> c \<noteq> 0"
  by (auto simp: bar_ok_def vocabulary_def)

lemma vocabulary_own: "vocabulary V \<Longrightarrow> 32 \<in> V" "vocabulary V \<Longrightarrow> 63 \<in> V"
  "vocabulary V \<Longrightarrow> 0x258f \<in> V"
  by (simp_all add: vocabulary_def)

lemma bar_ok_vocabulary: "bar_ok x V b \<Longrightarrow> vocabulary V"
  by (simp add: bar_ok_def)

lemma bar_ok_room: "bar_ok x V b \<Longrightarrow> 0 < free_slots (cache b)"
  unfolding bar_ok_def vocabulary_def
  by (intro free_slots_vocabulary [of _ V] subsetI) (auto simp: stored_def)

text \<open>Requests, colours and attributes change none of it.\<close>

lemma bar_ok_inert [simp]:
  "bar_ok x V (emit rs b) = bar_ok x V b"
  "bar_ok x V (b\<lparr>curForeground := c\<rparr>) = bar_ok x V b" "bar_ok x V (b\<lparr>curBackground := c\<rparr>) = bar_ok x V b"
  "bar_ok x V (b\<lparr>curUnderline := c\<rparr>) = bar_ok x V b" "bar_ok x V (b\<lparr>colorsDirty := d\<rparr>) = bar_ok x V b"
  "bar_ok x V (b\<lparr>attrs := a\<rparr>) = bar_ok x V b" "bar_ok x V (b\<lparr>processingExpose := d\<rparr>) = bar_ok x V b"
  "bar_ok x V (b\<lparr>separator := sp\<rparr>) = bar_ok x V b"
  by (simp_all add: bar_ok_def emit_def)

lemma fixed_inert [simp]:
  "fixed (emit rs b) = fixed b"
  "fixed (b\<lparr>curForeground := c\<rparr>) = fixed b" "fixed (b\<lparr>curBackground := c\<rparr>) = fixed b"
  "fixed (b\<lparr>curUnderline := c\<rparr>) = fixed b" "fixed (b\<lparr>colorsDirty := d\<rparr>) = fixed b"
  "fixed (b\<lparr>attrs := a\<rparr>) = fixed b"
  "fixed (b\<lparr>cache := g\<rparr>) = fixed b" "fixed (b\<lparr>offsetYIndex := i\<rparr>) = fixed b"
  by (simp_all add: fixed_def emit_def)

lemma emit_sel [simp]:
  "cache (emit rs b) = cache b" "offsetYIndex (emit rs b) = offsetYIndex b"
  "offsetsY (emit rs b) = offsetsY b" "bh (emit rs b) = bh b" "bu (emit rs b) = bu b"
  "attrs (emit rs b) = attrs b" "fontList (emit rs b) = fontList b" "monitors (emit rs b) = monitors b"
  by (simp_all add: emit_def)

lemma steps_to_emit [simp]: "steps_to x V b (emit rs b') = steps_to x V b b'"
  by (simp add: steps_to_def)

lemma steps_to_updateGc [simp]: "steps_to x V b (updateGc b') = steps_to x V b b'"
  by (simp add: steps_to_def updateGc_def)

lemma steps_to_markColorsDirty [simp]: "steps_to x V b (markColorsDirty b') = steps_to x V b b'"
  by (simp add: steps_to_def markColorsDirty_def)

lemma steps_to_colors [simp]:
  "steps_to x V b (b'\<lparr>curForeground := c\<rparr>) = steps_to x V b b'"
  "steps_to x V b (b'\<lparr>curBackground := c\<rparr>) = steps_to x V b b'"
  "steps_to x V b (b'\<lparr>curUnderline := c\<rparr>) = steps_to x V b b'"
  "steps_to x V b (b'\<lparr>attrs := a\<rparr>) = steps_to x V b b'"
  by (simp_all add: steps_to_def)

lemma steps_to_fillRect [simp]: "steps_to x V b (fillRect d gc p q w h b') = steps_to x V b b'"
  by (simp add: fillRect_def)

lemma steps_to_copyArea [simp]: "steps_to x V b (copyArea s d p q p' q' w h b') = steps_to x V b b'"
  by (simp add: copyArea_def)

lemma steps_to_drawLines [simp]: "steps_to x V b (drawLines mon p w b') = steps_to x V b b'"
  by (simp add: drawLines_def Let_def)

lemma shift_ALIGN_L: "shift mon p ALIGN_L w b = (p, fillRect (mon_pixmap mon) GC_CLEAR p 0 w (bh b) b)"
  by (simp add: shift_def)

lemma steps_to_drawShift [simp]: "steps_to x V b (drawShift mon p ALIGN_L w b') = steps_to x V b b'"
  by (simp add: drawShift_def shift_ALIGN_L)

section \<open>Selecting and measuring\<close>

lemma select_from_xft:
  "\<forall>f\<in>set fs. xft_ft f \<noteq> None \<Longrightarrow>
   \<exists>i. select_from x c k fs = Some (map_option (\<lambda>f. (i, f)) (sel_font x fs c)) \<and>
       (sel_font x fs c \<noteq> None \<longrightarrow> i < k + length fs)"
proof (induction fs arbitrary: k)
  case Nil
  then show ?case by (simp add: sel_font_def)
next
  case (Cons f fs)
  then show ?case
    by (cases "XftCharExists x (the (xft_ft f)) c")
      (fastforce simp: sel_font_def fontHasGlyph_def)+
qed

lemma selectDrawableFont_ok:
  assumes "bar_ok x V b"
  obtains b' where "selectDrawableFont x c b = Some (sel_font x (fontList b) c, b')"
    "steps_to x V b b'"
proof -
  have xft: "\<forall>f\<in>set (fontList b). xft_ft f \<noteq> None" using assms by (simp add: bar_ok_def)
  have fi: "fontIndex b = - 1" using assms by (simp add: bar_ok_def)
  obtain i where i: "select_from x c 0 (fontList b) = Some (map_option (\<lambda>f. (i, f)) (sel_font x (fontList b) c))"
    "sel_font x (fontList b) c \<noteq> None \<longrightarrow> i < length (fontList b)"
    using select_from_xft [OF xft, of x c 0] by auto
  show ?thesis
  proof (cases "sel_font x (fontList b) c")
    case None
    then show ?thesis
      using i(1) fi that [of b] steps_to_refl [OF assms] by (simp add: selectDrawableFont_def)
  next
    case (Some f)
    have "bar_ok x V (b\<lparr>offsetYIndex := i\<rparr>)" using assms i(2) Some by (auto simp: bar_ok_def)
    then show ?thesis
      using i(1) fi Some that [of "b\<lparr>offsetYIndex := i\<rparr>"]
      by (simp add: selectDrawableFont_def steps_to_def)
  qed
qed

lemma sel_font_mem: "sel_font x fs c = Some f \<Longrightarrow> f \<in> set fs"
  by (auto simp: sel_font_def find_Some_iff)

lemma draw_font_mem: "bar_ok x V b \<Longrightarrow> draw_font x (fontList b) c \<in> set (fontList b)"
  by (auto simp: draw_font_def bar_ok_def split: option.splits dest: sel_font_mem)

lemma barCharWidth_ok:
  assumes ok: "bar_ok x V b" and ch: "ch \<in> V" and f: "f = draw_font x (fontList b) ch"
  obtains b' where "barCharWidth x ch (Some f) b = Some (char_width x (fontList b) ch, b')"
    "steps_to x V b b'"
proof -
  let ?ext = "extents x (fontList b)"
  have inv: "cache_inv (cache b)" using ok by (simp add: bar_ok_def)
  have nz: "ch \<noteq> 0" using vocabulary_nonzero [OF ok ch] .
  have coh: "v = narrow (?ext d)" if "d \<noteq> 0" "cached (cache b) d = Some v" for d v
    using ok that by (simp add: bar_ok_def char_width_def)
  obtain g where g: "xftCharWidth (cache b) ch (?ext ch) = Some (narrow (?ext ch), g)" "cache_inv g"
    "\<And>d v. d \<noteq> 0 \<Longrightarrow> cached g d = Some v \<Longrightarrow> v = narrow (?ext d)"
    "\<And>d. d \<noteq> 0 \<Longrightarrow> cached g d \<noteq> None \<Longrightarrow> d = ch \<or> cached (cache b) d \<noteq> None"
    using memo.measure_coherent [OF inv nz bar_ok_room [OF ok], of ?ext] coh by blast
  have "d \<in> V" if "d \<noteq> 0" "cached g d \<noteq> None" for d
    using g(4) [OF that] ch ok that(1) by (auto simp: bar_ok_def)
  then have ok': "steps_to x V b (b\<lparr>cache := g\<rparr>)"
    using ok g(2,3) by (simp add: steps_to_def bar_ok_def char_width_def)
  have ge: "glyph_extents x (Some f) ch = Some (?ext ch)"
    using draw_font_mem [OF ok, of ch] ok f by (auto simp: glyph_extents_def extents_def bar_ok_def)
  obtain slot where slot: "xftCharWidthSlot (cache b) ch = Some slot"
    using g(1) by (cases "xftCharWidthSlot (cache b) ch") (simp_all add: xftCharWidth_def)
  have "xftCharWidth (cache b) ch (if xftChar (cache b) slot = 0 then ?ext ch else (0, 0))
      = Some (narrow (?ext ch), g)"
    using g(1) slot by (auto simp: xftCharWidth_def)
  then have "barCharWidth x ch (Some f) b = Some (char_width x (fontList b) ch, b\<lparr>cache := g\<rparr>)"
    using slot ge by (auto simp: barCharWidth_def char_width_def split: if_splits)
  with ok' show ?thesis using that by blast
qed

lemma getUtf8CharWidth_ok:
  assumes ok: "bar_ok x V b" and ch: "ch \<in> V" and f: "sel_font x (fontList b) ch = Some f"
  obtains b' where "getUtf8CharWidth x ch (Some f) b = Some (char_width x (fontList b) ch, b')"
    "steps_to x V b b'"
proof -
  have "xft_ft f \<noteq> None" using ok sel_font_mem [OF f] by (simp add: bar_ok_def)
  then show ?thesis
    using barCharWidth_ok [OF ok ch, of f] f that
    by (auto simp: draw_font_def getUtf8CharWidth_def)
qed

text \<open>Drawing a character succeeds and advances by its width.\<close>

lemma drawChar_ok:
  assumes ok: "bar_ok x V b" and ch: "ch \<in> V" and f: "f = draw_font x (fontList b) ch"
  obtains b' where "drawChar x mon f p ALIGN_L ch b = Some (char_width x (fontList b) ch, b')"
    "steps_to x V b b'"
proof -
  obtain b1 where b1: "barCharWidth x ch (Some f) b = Some (char_width x (fontList b) ch, b1)"
    "steps_to x V b b1"
    using barCharWidth_ok [OF assms] by blast
  obtain ft where ft: "xft_ft f = Some ft"
    using draw_font_mem [OF ok, of ch] f ok by (auto simp: bar_ok_def)
  have "offsetYIndex b1 < length (offsetsY b1)" using b1(2) by (auto simp: steps_to_def bar_ok_def)
  then have "\<exists>b'. drawChar x mon f p ALIGN_L ch b = Some (char_width x (fontList b) ch, b') \<and>
      steps_to x V b b'"
    using b1 ft by (simp add: drawChar_def shift_ALIGN_L Let_def fillRect_def)
  then show ?thesis using that by blast
qed

end
