(* ===== verification/Bar_Parse.thy ===== *)
theory Bar_Parse
  imports Bar_Draw
begin

text \<open>
  The parsing half of \<open>Bar::parseModules\<close>: \<open>parseElementContent\<close> decodes the text of an element
  and measures its characters; \<open>parseLeftModules\<close> and \<open>parseRightModules\<close> do so for all elements
  of the two groups and give them provisional positions.
\<close>

section \<open>Definitions\<close>

text \<open>The loop of \<open>parseElementContent\<close>, \<open>n\<close> iterations from index \<open>i\<close> and offset \<open>p\<close>.\<close>

fun parse_loop ::
  "xserver \<Rightarrow> nat \<Rightarrow> nat \<Rightarrow> nat \<Rightarrow> int \<Rightarrow> 'h barElement \<Rightarrow> bar \<Rightarrow> ('h barElement \<times> int \<times> bar) option" where
  "parse_loop x 0 i p tot e b = Some (e, tot, b)"
| "parse_loop x (Suc n) i p tot e b =
     do {
       c \<leftarrow> byte_at (content e) p;
       if c = 0 \<or> c = 10 then
         Some (e\<lparr>ucsContent := (ucsContent e)[i := 0], ucsContentLen := int i\<rparr>, tot, b)
       else do {
         (ucs, used) \<leftarrow> decodeUtf8Char (drop p (content e));
         (curFont, b1) \<leftarrow> selectDrawableFont x ucs b;
         (let ucs' = (if curFont = None then 63 else ucs) in
          do {
            (w, b2) \<leftarrow> getUtf8CharWidth x ucs' curFont b1;
            (let cw = (of_int w :: byte) in
             parse_loop x n (Suc i) (p + used) (tot + uint cw)
               (e\<lparr>ucsContent := (ucsContent e)[i := ucs'],
                  ucsContentCharWidths := (ucsContentCharWidths e)[i := cw]\<rparr>) b2) })
       }
     }"

definition parseElementContent ::
  "xserver \<Rightarrow> 'h barElement \<Rightarrow> bar \<Rightarrow> ('h barElement \<times> bar) option" where
  "parseElementContent x e b =
     (if \<not> dirtyContent e then Some (e, b)
      else do {
        (e', total_width, b') \<leftarrow> parse_loop x CONTENT_MAX_LEN 0 0 0 e b;
        Some (e'\<lparr>width := of_int total_width, dirtyContent := False\<rparr>, b')
      })"

text \<open>What the bar needs of a module: its window and its elements.\<close>

record 'h bar_module =
  modWindow :: "32 word"
  modElements :: "'h barElement list"

definition applyElementColors :: "'h barElement \<Rightarrow> bar \<Rightarrow> bar" where
  "applyElementColors e b =
     (let b1 = (if backgroundColor e \<noteq> 0 then b\<lparr>curBackground := backgroundColor e\<rparr> else b);
          b2 = (if foregroundColor e \<noteq> 0 then b1\<lparr>curForeground := foregroundColor e\<rparr> else b1);
          b3 = (if underlineColor e \<noteq> 0 then b2\<lparr>curUnderline := underlineColor e\<rparr> else b2);
          colorsChanged = (backgroundColor e \<noteq> 0 \<or> foregroundColor e \<noteq> 0 \<or> underlineColor e \<noteq> 0)
      in if colorsChanged then updateGc (markColorsDirty b3) else b3)"

fun parse_left_elements ::
  "xserver \<Rightarrow> int \<Rightarrow> 'h barElement list \<Rightarrow> bar \<Rightarrow> ('h barElement list \<times> int \<times> bar) option" where
  "parse_left_elements x current_x [] b = Some ([], current_x, b)"
| "parse_left_elements x current_x (e # es) b =
     do {
       (e1, b1) \<leftarrow> parseElementContent x e (applyElementColors e b);
       (es', x', b') \<leftarrow> parse_left_elements x (current_x + uint (width e1)) es b1;
       Some (e1\<lparr>beginX := of_int current_x\<rparr> # es', x', b')
     }"

fun parse_left_modules ::
  "xserver \<Rightarrow> monitor_t \<Rightarrow> int \<Rightarrow> 'h bar_module list \<Rightarrow> bar \<Rightarrow> ('h bar_module list \<times> bar) option" where
  "parse_left_modules x mon current_x [] b = Some ([], b)"
| "parse_left_modules x mon current_x (m # ms) b =
     do {
       (es, x', b1) \<leftarrow> parse_left_elements x current_x (modElements m) b;
       (ms', b2) \<leftarrow> parse_left_modules x mon x' ms b1;
       Some (\<lparr>modWindow = mon_window mon, modElements = es\<rparr> # ms', b2)
     }"

definition parseLeftModules ::
  "xserver \<Rightarrow> 'h bar_module list \<Rightarrow> bar \<Rightarrow> ('h bar_module list \<times> bar) option" where
  "parseLeftModules x ms b =
     (case monitors b of [] \<Rightarrow> None | mon # _ \<Rightarrow> parse_left_modules x mon 0 ms b)"

text \<open>
  On the right the elements are parsed first, then placed from the right edge leftwards.  The
  total width the first pass adds up is not used by the code and left out.
\<close>

fun parse_elements ::
  "xserver \<Rightarrow> 'h barElement list \<Rightarrow> bar \<Rightarrow> ('h barElement list \<times> bar) option" where
  "parse_elements x [] b = Some ([], b)"
| "parse_elements x (e # es) b =
     do {
       (e1, b1) \<leftarrow> parseElementContent x e (applyElementColors e b);
       (es', b') \<leftarrow> parse_elements x es b1;
       Some (e1 # es', b')
     }"

fun parse_modules ::
  "xserver \<Rightarrow> monitor_t \<Rightarrow> 'h bar_module list \<Rightarrow> bar \<Rightarrow> ('h bar_module list \<times> bar) option" where
  "parse_modules x mon [] b = Some ([], b)"
| "parse_modules x mon (m # ms) b =
     do {
       (es, b1) \<leftarrow> parse_elements x (modElements m) b;
       (ms', b2) \<leftarrow> parse_modules x mon ms b1;
       Some (\<lparr>modWindow = mon_window mon, modElements = es\<rparr> # ms', b2)
     }"

fun place_leftwards :: "int \<Rightarrow> 'h barElement list \<Rightarrow> 'h barElement list \<times> int" where
  "place_leftwards current_x [] = ([], current_x)"
| "place_leftwards current_x (e # es) =
     (let x' = current_x - uint (width e);
          (es', x'') = place_leftwards x' es
      in (e\<lparr>beginX := of_int x'\<rparr> # es', x''))"

fun place_modules_leftwards :: "int \<Rightarrow> 'h bar_module list \<Rightarrow> 'h bar_module list" where
  "place_modules_leftwards current_x [] = []"
| "place_modules_leftwards current_x (m # ms) =
     (let (es, x') = place_leftwards current_x (modElements m)
      in m\<lparr>modElements := es\<rparr> # place_modules_leftwards x' ms)"

definition parseRightModules ::
  "xserver \<Rightarrow> 'h bar_module list \<Rightarrow> bar \<Rightarrow> ('h bar_module list \<times> bar) option" where
  "parseRightModules x ms b =
     (case monitors b of
        [] \<Rightarrow> None
      | mon # _ \<Rightarrow>
          do { (ms', b') \<leftarrow> parse_modules x mon ms b;
               Some (place_modules_leftwards (mon_width mon) ms', b') })"

section \<open>Parsing valid UTF-8\<close>

text \<open>What is shown of a code point, and how far it advances the position.\<close>

definition shown_char :: "xserver \<Rightarrow> font_t list \<Rightarrow> nat \<Rightarrow> 32 word" where
  "shown_char x fs c = (if sel_font x fs (of_nat c) = None then 63 else of_nat c)"

definition advance :: "xserver \<Rightarrow> font_t list \<Rightarrow> nat \<Rightarrow> byte" where
  "advance x fs c =
     (if sel_font x fs (of_nat c) = None then 0 else of_int (char_width x fs (of_nat c)))"

definition text_width :: "xserver \<Rightarrow> font_t list \<Rightarrow> nat list \<Rightarrow> int" where
  "text_width x fs cs = (\<Sum>c\<leftarrow>cs. uint (advance x fs c))"

text \<open>Code points an element may hold: no zero and no line feed.\<close>

definition printable :: "nat \<Rightarrow> bool" where
  "printable c \<longleftrightarrow> 0 < c \<and> c < 0x110000 \<and> c \<noteq> 10"

lemma printable_word [simp]: "printable c \<Longrightarrow> (of_nat c :: 32 word) \<noteq> 0"
  by (simp add: printable_def word_unat_eq_iff unat_of_nat take_bit_nat_eq_self)

lemma utf8_encode_first:
  assumes "printable c"
  obtains b bs where "utf8_encode c = b # bs" "b \<noteq> 0" "b \<noteq> 10"
proof -
  have lead: "of_nat n \<noteq> (0 :: byte) \<and> of_nat n \<noteq> (10 :: byte)" if "n < 256" "n \<noteq> 0" "n \<noteq> 10" for n
    using that by (auto simp: word_unat_eq_iff unat_of_nat)
  consider "c < 0x80" | "0x80 \<le> c" "c < 0x800" | "0x800 \<le> c" "c < 0x10000"
    | "0x10000 \<le> c" by linarith
  then show ?thesis
  proof cases
    case 1
    then show ?thesis using that lead [of c] assms by (simp add: utf8_encode_def printable_def)
  next
    case 2
    then show ?thesis using that lead [of "0xc0 + c div 64"]
      by (simp add: utf8_encode_def del: of_nat_add)
  next
    case 3
    then show ?thesis using that lead [of "0xe0 + c div 4096"]
      by (simp add: utf8_encode_def del: of_nat_add)
  next
    case 4
    then show ?thesis using that lead [of "0xf0 + c div 262144"] assms
      by (simp add: utf8_encode_def printable_def del: of_nat_add)
  qed
qed

lemma utf8_string_simps [simp]:
  "utf8_string [] = []" "utf8_string (c # cs) = utf8_encode c @ utf8_string cs"
  by (simp_all add: utf8_string_def)

lemma take_update_Suc: "i < length xs \<Longrightarrow> take (Suc i) (xs[i := a]) = take i xs @ [a]"
  by (simp add: take_Suc_conv_app_nth)

text \<open>A text all of whose characters are in the vocabulary of the bar.\<close>

definition text_in :: "32 word set \<Rightarrow> nat list \<Rightarrow> bool" where
  "text_in V cs \<longleftrightarrow> (\<forall>c\<in>set cs. printable c \<and> of_nat c \<in> V)"

lemma text_in_simps [simp]:
  "text_in V []" "text_in V (c # cs) \<longleftrightarrow> printable c \<and> of_nat c \<in> V \<and> text_in V cs"
  by (simp_all add: text_in_def)

lemma shown_char_vocabulary: "vocabulary V \<Longrightarrow> of_nat c \<in> V \<Longrightarrow> shown_char x fs c \<in> V"
  by (simp add: shown_char_def vocabulary_own)

text \<open>One iteration of the loop.\<close>

lemma measure_char:
  assumes ok: "bar_ok x V b" and c: "of_nat c \<in> V"
  obtains b1 b2 w where "selectDrawableFont x (of_nat c) b = Some (sel_font x (fontList b) (of_nat c), b1)"
    "getUtf8CharWidth x (shown_char x (fontList b) c) (sel_font x (fontList b) (of_nat c)) b1 = Some (w, b2)"
    "of_int w = advance x (fontList b) c" "steps_to x V b b2"
proof -
  obtain b1 where b1: "selectDrawableFont x (of_nat c) b = Some (sel_font x (fontList b) (of_nat c), b1)"
    "steps_to x V b b1"
    using selectDrawableFont_ok [OF ok] by blast
  note fonts = steps_to_fixed(1) [OF b1(2)]
  show ?thesis
  proof (cases "sel_font x (fontList b) (of_nat c)")
    case None
    then have "getUtf8CharWidth x (shown_char x (fontList b) c) None b1 = Some (0, b1)"
      by (simp add: getUtf8CharWidth_def)
    then show ?thesis using that b1 None by (fastforce simp: advance_def)
  next
    case (Some f)
    have "bar_ok x V b1" using b1(2) by auto
    then obtain b2 where b2: "getUtf8CharWidth x (of_nat c) (Some f) b1 =
        Some (char_width x (fontList b1) (of_nat c), b2)" "steps_to x V b1 b2"
      using getUtf8CharWidth_ok [of x V b1 "of_nat c" f] c Some fonts by metis
    have "steps_to x V b b2" using b1(2) b2(2) by (rule steps_to_trans)
    then show ?thesis using that b1(1) b2(1) Some fonts by (simp add: shown_char_def advance_def)
  qed
qed

lemma parse_loop_text:
  assumes "content e = pre @ utf8_string cs @ 0 # rest" "text_in V cs"
    and "length (ucsContent e) = CONTENT_MAX_LEN" "length (ucsContentCharWidths e) = CONTENT_MAX_LEN"
    and "i + length cs < CONTENT_MAX_LEN" "n = CONTENT_MAX_LEN - i"
    and "bar_ok x V b" "fs = fontList b"
  shows "\<exists>b'. parse_loop x n i (length pre) tot e b =
      Some (e\<lparr>ucsContent := take i (ucsContent e) @ map (shown_char x fs) cs @ 0 #
                 drop (Suc (i + length cs)) (ucsContent e),
              ucsContentCharWidths := take i (ucsContentCharWidths e) @ map (advance x fs) cs @
                 drop (i + length cs) (ucsContentCharWidths e),
              ucsContentLen := int (i + length cs)\<rparr>,
            tot + text_width x fs cs, b') \<and> steps_to x V b b'"
  using assms
proof (induction cs arbitrary: e pre i n tot b)
  case Nil
  then have "n \<noteq> 0" by simp
  then obtain k where n': "n = Suc k" by (cases n) auto
  have "byte_at (content e) (length pre) = Some 0"
    using Nil.prems(1) by (simp add: byte_at_def)
  then show ?case
    using Nil.prems(1,3,4,5,7) unfolding n'
    by (auto simp: upd_conv_take_nth_drop text_width_def)
next
  case (Cons c cs)
  define n' where "n' = CONTENT_MAX_LEN - Suc i"
  then have n': "n = Suc n'" "n' = CONTENT_MAX_LEN - Suc i" using Cons.prems(5,6) by auto
  have c: "printable c" "of_nat c \<in> V" and "c < 0x110000"
    using Cons.prems(2) by (auto simp: printable_def)
  obtain b0 bs where enc: "utf8_encode c = b0 # bs" "b0 \<noteq> 0" "b0 \<noteq> 10"
    using utf8_encode_first [OF c(1)] by blast
  have at: "byte_at (content e) (length pre) = Some b0"
    using Cons.prems(1) enc(1) by (simp add: byte_at_def nth_append)
  have dec: "decodeUtf8Char (drop (length pre) (content e)) = Some (of_nat c, length (utf8_encode c))"
    using decode_encode [OF \<open>c < 0x110000\<close>] Cons.prems(1) by simp
  obtain b1 b2 w where m: "selectDrawableFont x (of_nat c) b = Some (sel_font x fs (of_nat c), b1)"
    "getUtf8CharWidth x (shown_char x fs c) (sel_font x fs (of_nat c)) b1 = Some (w, b2)"
    "of_int w = advance x fs c" "steps_to x V b b2"
    using measure_char [OF Cons.prems(7) c(2)] Cons.prems(8) by blast
  let ?e = "e\<lparr>ucsContent := (ucsContent e)[i := shown_char x fs c],
      ucsContentCharWidths := (ucsContentCharWidths e)[i := advance x fs c]\<rparr>"
  have step: "parse_loop x n i (length pre) tot e b =
      parse_loop x n' (Suc i) (length (pre @ utf8_encode c)) (tot + uint (advance x fs c)) ?e b2"
    using at enc dec m n' by (simp add: shown_char_def Let_def)
  have "\<exists>b'. parse_loop x n' (Suc i) (length (pre @ utf8_encode c)) (tot + uint (advance x fs c)) ?e b2 =
      Some (?e\<lparr>ucsContent := take (Suc i) (ucsContent ?e) @ map (shown_char x fs) cs @ 0 #
                 drop (Suc (Suc i + length cs)) (ucsContent ?e),
              ucsContentCharWidths := take (Suc i) (ucsContentCharWidths ?e) @ map (advance x fs) cs @
                 drop (Suc i + length cs) (ucsContentCharWidths ?e),
              ucsContentLen := int (Suc i + length cs)\<rparr>,
            tot + uint (advance x fs c) + text_width x fs cs, b') \<and> steps_to x V b2 b'"
  proof (rule Cons.IH)
    show "fs = fontList b2" using steps_to_fixed(1) [OF m(4)] Cons.prems(8) by simp
  qed (use Cons.prems n' m(4) in auto)
  then obtain b' where b': "parse_loop x n i (length pre) tot e b =
      Some (?e\<lparr>ucsContent := take (Suc i) (ucsContent ?e) @ map (shown_char x fs) cs @ 0 #
                 drop (Suc (Suc i + length cs)) (ucsContent ?e),
              ucsContentCharWidths := take (Suc i) (ucsContentCharWidths ?e) @ map (advance x fs) cs @
                 drop (Suc i + length cs) (ucsContentCharWidths ?e),
              ucsContentLen := int (Suc i + length cs)\<rparr>,
            tot + uint (advance x fs c) + text_width x fs cs, b')" "steps_to x V b2 b'"
    using step by auto
  have "steps_to x V b b'" using m(4) b'(2) by (rule steps_to_trans)
  then show ?case
    using b'(1) Cons.prems(3-5)
    by (simp add: take_update_Suc text_width_def add.assoc)
qed

text \<open>
  An element that holds a text shorter than it can hold, and the element after parsing: its
  decoded characters and their widths are those of the text.
\<close>

definition holds_text :: "nat list \<Rightarrow> 'h barElement \<Rightarrow> bool" where
  "holds_text cs e \<longleftrightarrow> element_wf e \<and> length cs < CONTENT_MAX_LEN \<and>
     (\<exists>rest. content e = utf8_string cs @ 0 # rest)"

definition parsed_text :: "xserver \<Rightarrow> font_t list \<Rightarrow> nat list \<Rightarrow> 'h barElement \<Rightarrow> bool" where
  "parsed_text x fs cs e \<longleftrightarrow> element_wf e \<and> ucsContentLen e = int (length cs) \<and>
     take (length cs) (ucsContent e) = map (shown_char x fs) cs \<and>
     take (length cs) (ucsContentCharWidths e) = map (advance x fs) cs \<and>
     width e = of_int (text_width x fs cs)"

text \<open>The other fields of an element, which parsing does not touch.\<close>

definition same_look :: "'h barElement \<Rightarrow> 'h barElement \<Rightarrow> bool" where
  "same_look e e' \<longleftrightarrow> content e' = content e \<and> events e' = events e \<and>
     foregroundColor e' = foregroundColor e \<and> backgroundColor e' = backgroundColor e \<and>
     underlineColor e' = underlineColor e \<and> underline e' = underline e \<and>
     offsetPixels e' = offsetPixels e"

lemma parse_dirty:
  assumes "holds_text cs e" "text_in V cs" "bar_ok x V b" "dirtyContent e"
  obtains e' b' where "parseElementContent x e b = Some (e', b')" "steps_to x V b b'"
    "parsed_text x (fontList b) cs e'" "same_look e e'" "\<not> dirtyContent e'"
proof -
  obtain rest where rest: "content e = utf8_string cs @ 0 # rest"
    using assms(1) by (auto simp: holds_text_def)
  obtain b' where b': "parse_loop x CONTENT_MAX_LEN 0 0 0 e b =
      Some (e\<lparr>ucsContent := map (shown_char x (fontList b)) cs @ 0 # drop (Suc (length cs)) (ucsContent e),
              ucsContentCharWidths := map (advance x (fontList b)) cs @
                 drop (length cs) (ucsContentCharWidths e),
              ucsContentLen := int (length cs)\<rparr>,
            text_width x (fontList b) cs, b')" "steps_to x V b b'"
    using parse_loop_text [of e "[]" cs rest V 0 CONTENT_MAX_LEN x b "fontList b" 0] assms rest
    by (auto simp: element_wf_def holds_text_def)
  show ?thesis
    using assms b' that
    by (simp add: parseElementContent_def element_wf_def holds_text_def parsed_text_def same_look_def)
qed

text \<open>
  C15 (functional): Parsing an element whose content is valid UTF-8 ended by a zero byte, with fewer code points
  than the element holds, succeeds: every iteration stays inside the content, and the probe of
  the width table always ends.  The element afterwards holds exactly the code points of the text
  (a question mark where no font has the glyph), each with the width by which it will advance the
  position, its width is their sum (in the 16 bits of the field), and it is no longer dirty.
\<close>

theorem parse_element_text:
  assumes "element_wf e" "content e = utf8_string cs @ 0 # rest" "text_in V cs"
    and "length cs < CONTENT_MAX_LEN" "bar_ok x V b" "dirtyContent e"
  shows "\<exists>e' b'. parseElementContent x e b = Some (e', b') \<and> bar_ok x V b' \<and> fixed b' = fixed b \<and>
     element_wf e' \<and> \<not> dirtyContent e' \<and> ucsContentLen e' = int (length cs) \<and>
     take (length cs) (ucsContent e') = map (shown_char x (fontList b)) cs \<and>
     take (length cs) (ucsContentCharWidths e') = map (advance x (fontList b)) cs \<and>
     width e' = of_int (\<Sum>c\<leftarrow>cs. uint (advance x (fontList b) c))"
proof -
  have "holds_text cs e" using assms(1,2,4) by (auto simp: holds_text_def)
  from parse_dirty [OF this assms(3,5,6)] obtain e' b'
    where "parseElementContent x e b = Some (e', b')" "steps_to x V b b'"
      "parsed_text x (fontList b) cs e'" "\<not> dirtyContent e'" by blast
  then show ?thesis
    by (simp add: parsed_text_def steps_to_def text_width_def)
qed

text \<open>A server whose fonts know the glyphs below 128 and the bar's separator, and a bar that uses one of them.\<close>

definition demo_x :: xserver where
  "demo_x = \<lparr>XftCharExists = (\<lambda>ft c. c < 128 \<or> c = 0x258f), XftGlyphExtents = (\<lambda>ft c. (7, 0))\<rparr>"

definition demo_font :: font_t where
  "demo_font = \<lparr>ptr = 0, width_lut = None, xft_ft = Some 1, ascent = 10, descent = 3,
     fheight = 13, fwidth = 0, charMax = 0, charMin = 0\<rparr>"

definition demo_bar :: bar where
  "demo_bar = \<lparr>separator = empty_separator, cache = empty_cache,
     monitors = [\<lparr>mon_x = 0, mon_y = 0, mon_width = 1366, mon_window = 9, mon_pixmap = 10\<rparr>],
     fontList = [demo_font], fontIndex = - 1, offsetsY = replicate MAX_FONT_COUNT 0,
     offsetYCount = 1, offsetYIndex = 0, attrs = 0, topbar = True, bw = 1366, bh = 20, bx = 0,
     bar_y = 0, bu = 1, curForeground = 0, curBackground = 0, curUnderline = 0,
     defaultForeground = 0, defaultBackground = 0, defaultUnderline = 0, colorsDirty = True,
     processingExpose = False, xlog = []\<rparr>"

definition demo_V :: "32 word set" where
  "demo_V = {32, 63, 65, 66, 0x258f, 0x2588}"

lemma demo_bar_ok [simp]: "bar_ok demo_x demo_V demo_bar"
proof -
  have "card demo_V \<le> 6" by (simp add: demo_V_def card_insert_if)
  then show ?thesis
    by (simp add: bar_ok_def demo_bar_def demo_font_def MAX_FONT_COUNT_def vocabulary_def
        MAX_WIDTHS_def) (simp add: demo_V_def)
qed

lemma demo_sel_font [simp]:
  "fontList demo_bar = [demo_font]"
  "sel_font demo_x [demo_font] c = (if c < 128 \<or> c = 0x258f then Some demo_font else None)"
  by (simp_all add: demo_bar_def sel_font_def demo_x_def)

lemma demo_advance [simp]:
  "advance demo_x [demo_font] c = (if (of_nat c :: 32 word) < 128 \<or> (of_nat c :: 32 word) = 0x258f then 7 else 0)"
  by (simp add: advance_def char_width_def extents_def narrow_def draw_font_def)
    (simp add: demo_x_def glyph_width_def)

lemma set_content_shape:
  assumes "element_wf e" "length s < CONTENT_MAX_LEN"
  obtains rest where "content (set_content s e) = s @ 0 # rest"
  using assms that [of "drop (Suc (length s)) (content e)"]
  by (simp add: set_content_def snprintf_buf_def CONTENT_MAX_LEN_def)

theorem parse_element_text_witness:
  "\<exists>e' b'. parseElementContent demo_x (set_content (utf8_string [65, 0x2588, 66]) staticElement) demo_bar
      = Some (e', b') \<and> take 3 (ucsContent e') = [65, 63, 66] \<and> width (e' :: unit barElement) = 14"
proof -
  let ?e = "set_content (utf8_string [65, 0x2588, 66]) (staticElement :: unit barElement)"
  obtain rest where c: "content ?e = utf8_string [65, 0x2588, 66] @ 0 # rest"
    using set_content_shape [OF element_wf_static, of "utf8_string [65, 0x2588, 66]"]
    by (auto simp: utf8_encode_def CONTENT_MAX_LEN_def)
  have "text_in demo_V [65, 0x2588, 66]" by (simp add: demo_V_def printable_def)
  from parse_element_text [OF _ c this, of demo_x demo_bar] show ?thesis
    by (auto simp: CONTENT_MAX_LEN_def shown_char_def numeral_3_eq_3)
qed

end
