(* ===== verification/Bar_Layout.thy ===== *)
theory Bar_Layout
  imports Bar_Parse
begin

text \<open>
  The second half of \<open>Bar::parseModules\<close>: rendering the elements of the two groups and giving
  them their final positions, \<open>feed\<close>, and the dispatch of X events in \<open>processXEvents\<close>.  Elements
  and modules are values; each operation returns them updated, in the same order.
\<close>

section \<open>Rendering\<close>

fun renderSeparator_loop ::
  "xserver \<Rightarrow> monitor_t \<Rightarrow> nat \<Rightarrow> nat \<Rightarrow> font_t option \<Rightarrow> int \<Rightarrow> bar \<Rightarrow> (int \<times> bar) option" where
  "renderSeparator_loop x mon 0 i lastFont pos_x b = Some (pos_x, b)"
| "renderSeparator_loop x mon (Suc n) i lastFont pos_x b =
     (let sp = separator b in
      if i < length (sep_fonts sp) \<and> i < length (sep_ucs sp) \<and> i < length (sep_widths sp)
      then (case sep_fonts sp ! i of
              None \<Rightarrow> None
            | Some f \<Rightarrow>
                do {
                  (w, b1) \<leftarrow> drawChar x mon f pos_x ALIGN_L (sep_ucs sp ! i)
                    (if Some f \<noteq> lastFont \<and> ptr f \<noteq> 0 then emit [ChangeFont GC_DRAW (ptr f)] b else b);
                  renderSeparator_loop x mon n (Suc i) (Some f) (pos_x + sep_widths sp ! i) b1
                })
      else None)"

definition renderSeparatorAt :: "xserver \<Rightarrow> monitor_t \<Rightarrow> int \<Rightarrow> bar \<Rightarrow> (int \<times> bar) option" where
  "renderSeparatorAt x mon current_x b =
     renderSeparator_loop x mon 2 0 None current_x
       (updateGc (markColorsDirty (b\<lparr>curBackground := defaultBackground b,
                                     curForeground := defaultForeground b\<rparr>)))"

fun render_chars ::
  "xserver \<Rightarrow> monitor_t \<Rightarrow> nat \<Rightarrow> nat \<Rightarrow> int \<Rightarrow> 'h barElement \<Rightarrow> bar \<Rightarrow> bar option" where
  "render_chars x mon 0 i pos_x e b = Some b"
| "render_chars x mon (Suc n) i pos_x e b =
     (if i < length (ucsContent e) \<and> i < length (ucsContentCharWidths e) then
        do {
          (sel, b1) \<leftarrow> selectDrawableFont x (ucsContent e ! i) b;
          (case (sel, fontList b1) of
             (None, []) \<Rightarrow> render_chars x mon n (Suc i) pos_x e b1
           | (s, fs) \<Rightarrow>
               (let f = (case s of Some f \<Rightarrow> f | None \<Rightarrow> hd fs) in
                do {
                  (w, b2) \<leftarrow> drawChar x mon f pos_x ALIGN_L (ucsContent e ! i)
                    (if ptr f \<noteq> 0 then emit [ChangeFont GC_DRAW (ptr f)] b1 else b1);
                  render_chars x mon n (Suc i) (pos_x + uint (ucsContentCharWidths e ! i)) e b2
                }))
        }
      else None)"

definition element_colors :: "'h barElement \<Rightarrow> bar \<Rightarrow> bar" where
  "element_colors e b =
     (let b0 = b\<lparr>attrs := 0\<rparr>;
          bg = (if backgroundColor e \<noteq> 0 then backgroundColor e else defaultBackground b);
          fg = (if foregroundColor e \<noteq> 0 then foregroundColor e else defaultForeground b);
          ul = (if underline e \<and> underlineColor e \<noteq> 0 then underlineColor e
                else defaultUnderline b);
          b1 = b0\<lparr>curBackground := bg, curForeground := fg, curUnderline := ul,
                  attrs := (if underline e then attrs b0 OR ATTR_UNDERL else attrs b0)\<rparr>
      in if curBackground b \<noteq> bg \<or> curForeground b \<noteq> fg \<or> curUnderline b \<noteq> ul
         then updateGc (markColorsDirty b1) else b1)"

definition renderElement :: "xserver \<Rightarrow> 'h barElement \<Rightarrow> monitor_t \<Rightarrow> bar \<Rightarrow> bar option" where
  "renderElement x e mon b =
     (let b1 = element_colors e b;
          pos_x = uint (beginX e);
          (pos_x', b2) = (if offsetPixels e > 0
                          then (pos_x + offsetPixels e, drawShift mon pos_x ALIGN_L (offsetPixels e) b1)
                          else (pos_x, b1))
      in render_chars x mon (nat (ucsContentLen e)) 0 pos_x' e b2)"

fun render_elements ::
  "xserver \<Rightarrow> monitor_t \<Rightarrow> int \<Rightarrow> 'h barElement list \<Rightarrow> bar \<Rightarrow> ('h barElement list \<times> int \<times> bar) option" where
  "render_elements x mon current_x [] b = Some ([], current_x, b)"
| "render_elements x mon current_x (e # es) b =
     (let e1 = e\<lparr>beginX := of_int current_x\<rparr> in
      do {
        b1 \<leftarrow> renderElement x e1 mon b;
        (es', x', b') \<leftarrow> render_elements x mon (current_x + uint (width e1)) es b1;
        Some (e1 # es', x', b')
      })"

text \<open>The modules of one group, with a separator after every module but the last.\<close>

fun render_modules ::
  "xserver \<Rightarrow> monitor_t \<Rightarrow> int \<Rightarrow> 'h bar_module list \<Rightarrow> bar \<Rightarrow> ('h bar_module list \<times> int \<times> bar) option" where
  "render_modules x mon current_x [] b = Some ([], current_x, b)"
| "render_modules x mon current_x (m # ms) b =
     do {
       (es, x1, b1) \<leftarrow> render_elements x mon current_x (modElements m) b;
       (x2, b2) \<leftarrow> (if ms = [] then Some (x1, b1) else renderSeparatorAt x mon x1 b1);
       (ms', x', b') \<leftarrow> render_modules x mon x2 ms b2;
       Some (m\<lparr>modElements := es\<rparr> # ms', x', b')
     }"

text \<open>
  The width of the separator is measured again; \<open>n\<close> bounds the iterations, and the length of the
  string is enough, as every character consumes at least one byte.
\<close>

fun separator_width_loop :: "xserver \<Rightarrow> nat \<Rightarrow> byte list \<Rightarrow> int \<Rightarrow> bar \<Rightarrow> (int \<times> bar) option" where
  "separator_width_loop x 0 p acc b = None"
| "separator_width_loop x (Suc n) p acc b =
     do {
       c \<leftarrow> byte_at p 0;
       if c = 0 then Some (acc, b)
       else do {
         (ucs, used) \<leftarrow> decodeUtf8Char p;
         (f, b1) \<leftarrow> selectDrawableFont x ucs b;
         (w, b2) \<leftarrow> (if f = None then Some (0, b1) else getUtf8CharWidth x ucs f b1);
         separator_width_loop x n (drop used p) (acc + w) b2
       }
     }"

definition group_width :: "'h bar_module list \<Rightarrow> int" where
  "group_width ms = (\<Sum>m\<leftarrow>ms. \<Sum>e\<leftarrow>modElements m. uint (width e))"

definition renderAllElements ::
  "xserver \<Rightarrow> 'h bar_module list \<Rightarrow> 'h bar_module list \<Rightarrow> bar
    \<Rightarrow> ('h bar_module list \<times> 'h bar_module list \<times> bar) option" where
  "renderAllElements x ls rs b =
     (case monitors b of [] \<Rightarrow> None | mon # _ \<Rightarrow>
        do {
          (f, b1) \<leftarrow> selectDrawableFont x 32 b;
          (RIGHT_MARGIN, b2) \<leftarrow> barCharWidth x 32 f b1;
          (ls', _, b3) \<leftarrow> render_modules x mon 0 ls b2;
          (sw, b4) \<leftarrow> separator_width_loop x (length sep_string) sep_string 0 b3;
          (rs', _, b5) \<leftarrow> render_modules x mon
             (mon_width mon - RIGHT_MARGIN - (group_width rs + int (length rs - 1) * sw)) rs b4;
          Some (ls', rs', b5)
        })"

definition parseModules ::
  "xserver \<Rightarrow> bool \<Rightarrow> 'h bar_module list \<Rightarrow> 'h bar_module list \<Rightarrow> bar
    \<Rightarrow> ('h bar_module list \<times> 'h bar_module list \<times> bar) option" where
  "parseModules x xftDrawOk ls rs b =
     (let b1 = fold (\<lambda>m b. fillRect (mon_pixmap m) GC_CLEAR 0 0 (mon_width m) (bh b) b) (monitors b) b
      in if monitors b = [] then None
         else if \<not> xftDrawOk then Some (ls, rs, b1)
         else do {
           (ls1, b2) \<leftarrow> parseLeftModules x ls b1;
           (rs1, b3) \<leftarrow> parseRightModules x rs b2;
           renderAllElements x ls1 rs1 b3
         })"

definition copy_windows :: "bar \<Rightarrow> bar" where
  "copy_windows b =
     emit [Flush] (fold (\<lambda>m b. copyArea (mon_pixmap m) (mon_window m) 0 0 0 0 (mon_width m) (bh b) b)
       (monitors b) b)"

definition feed ::
  "xserver \<Rightarrow> bool \<Rightarrow> 'h bar_module list \<Rightarrow> 'h bar_module list \<Rightarrow> bar
    \<Rightarrow> ('h bar_module list \<times> 'h bar_module list \<times> bar) option" where
  "feed x xftDrawOk ls rs b =
     do { (ls', rs', b') \<leftarrow> parseModules x xftDrawOk ls rs b; Some (ls', rs', copy_windows b') }"

section \<open>Events\<close>

datatype xevent =
    Expose nat
  | ButtonPress "32 word" nat int
  | OtherEvent

definition hits :: "int \<Rightarrow> 'h barElement \<Rightarrow> bool" where
  "hits x e \<longleftrightarrow> uint (beginX e) \<le> x \<and> x < uint (beginX e) + uint (width e)"

fun click_pairs :: "nat \<Rightarrow> bool \<Rightarrow> (EventType \<times> 'h) list \<Rightarrow> 'h option" where
  "click_pairs detail inside [] = None"
| "click_pairs detail inside ((t, h) # ps) =
     (if event_code t \<noteq> detail then click_pairs detail inside ps
      else if inside then Some h else click_pairs detail inside ps)"

fun click_elements :: "nat \<Rightarrow> bool \<Rightarrow> int \<Rightarrow> 'h barElement list \<Rightarrow> 'h option" where
  "click_elements detail win x [] = None"
| "click_elements detail win x (e # es) =
     (case click_pairs detail (win \<and> hits x e) (event_pairs e) of
        Some h \<Rightarrow> Some h
      | None \<Rightarrow> click_elements detail win x es)"

text \<open>The handler that a button press calls: the loops stop after the first.\<close>

fun click_handler :: "32 word \<Rightarrow> nat \<Rightarrow> int \<Rightarrow> 'h bar_module list \<Rightarrow> 'h option" where
  "click_handler win detail x [] = None"
| "click_handler win detail x (m # ms) =
     (case click_elements detail (modWindow m = win) x (modElements m) of
        Some h \<Rightarrow> Some h
      | None \<Rightarrow> click_handler win detail x ms)"

text \<open>
  The loop over the pending events.  A handler changes the state \<open>s\<close> of the modules; \<open>mods\<close> reads
  from it the modules of the bar, the left ones before the right ones.
\<close>

fun poll_events ::
  "('s \<Rightarrow> 'h bar_module list) \<Rightarrow> ('h \<Rightarrow> 's \<Rightarrow> 's) \<Rightarrow> bool \<Rightarrow> xevent list \<Rightarrow> 's \<Rightarrow> bool \<Rightarrow> 's \<times> bool" where
  "poll_events mods run expo [] s redraw = (s, redraw)"
| "poll_events mods run expo (ev # evs) s redraw =
     (case ev of
        Expose n \<Rightarrow> poll_events mods run expo evs s (redraw \<or> (n = 0 \<and> \<not> expo))
      | ButtonPress win detail x \<Rightarrow>
          poll_events mods run expo evs
            (case click_handler win detail x (mods s) of Some h \<Rightarrow> run h s | None \<Rightarrow> s) redraw
      | OtherEvent \<Rightarrow> poll_events mods run expo evs s redraw)"

definition processXEvents ::
  "('s \<Rightarrow> 'h bar_module list) \<Rightarrow> ('h \<Rightarrow> 's \<Rightarrow> 's) \<Rightarrow> xevent list \<Rightarrow> 's \<Rightarrow> bar \<Rightarrow> 's \<times> bar" where
  "processXEvents mods run evs s b =
     (let (s', redraw) = poll_events mods run (processingExpose b) evs s False
      in (s', if redraw
              then (copy_windows (b\<lparr>processingExpose := True\<rparr>))\<lparr>processingExpose := False\<rparr>
              else b))"

section \<open>Rendering succeeds and places the elements\<close>

text \<open>
  An element is drawable when its decoded characters are in the vocabulary; displayable when
  parsing makes it so; settled when it has been parsed.
\<close>

definition drawable :: "32 word set \<Rightarrow> 'h barElement \<Rightarrow> bool" where
  "drawable V e \<longleftrightarrow> element_wf e \<and> (\<forall>i<nat (ucsContentLen e). ucsContent e ! i \<in> V)"

definition displayable :: "32 word set \<Rightarrow> 'h barElement \<Rightarrow> bool" where
  "displayable V e \<longleftrightarrow> (if dirtyContent e then \<exists>cs. holds_text cs e \<and> text_in V cs else drawable V e)"

definition settled :: "32 word set \<Rightarrow> 'h barElement \<Rightarrow> bool" where
  "settled V e \<longleftrightarrow> drawable V e \<and> \<not> dirtyContent e"

lemma settled_displayable: "settled V e \<Longrightarrow> displayable V e"
  by (simp add: settled_def displayable_def)

lemma settled_beginX [simp]: "settled V (e\<lparr>beginX := p\<rparr>) = settled V e"
  by (simp add: settled_def drawable_def element_wf_def)

lemma same_look_beginX [simp]: "same_look e (e'\<lparr>beginX := p\<rparr>) = same_look e e'"
  by (simp add: same_look_def)

lemma same_look_refl [simp]: "same_look e e"
  by (simp add: same_look_def)

lemma same_look_trans [trans]: "same_look e f \<Longrightarrow> same_look f g \<Longrightarrow> same_look e g"
  by (simp add: same_look_def)

lemma parsed_text_drawable:
  assumes "parsed_text x fs cs e" "text_in V cs" "vocabulary V"
  shows "drawable V e"
proof -
  have "ucsContent e ! i \<in> V" if i: "i < length cs" for i
  proof -
    have "ucsContent e ! i = map (shown_char x fs) cs ! i"
      using assms(1) i by (metis nth_take parsed_text_def)
    moreover have "of_nat (cs ! i) \<in> V" using assms(2) i by (simp add: text_in_def)
    ultimately show ?thesis using i shown_char_vocabulary [OF assms(3)] by simp
  qed
  then show ?thesis using assms(1) by (simp add: drawable_def parsed_text_def)
qed

lemma parse_displayable:
  assumes "displayable V e" "bar_ok x V b"
  obtains e' b' where "parseElementContent x e b = Some (e', b')" "steps_to x V b b'"
    "settled V e'" "same_look e e'"
proof (cases "dirtyContent e")
  case True
  then obtain cs where cs: "holds_text cs e" "text_in V cs"
    using assms(1) by (auto simp: displayable_def)
  obtain e' b' where "parseElementContent x e b = Some (e', b')" "steps_to x V b b'"
    "parsed_text x (fontList b) cs e'" "same_look e e'" "\<not> dirtyContent e'"
    using parse_dirty [OF cs assms(2) True] by blast
  then show ?thesis
    using that parsed_text_drawable cs(2) bar_ok_vocabulary [OF assms(2)] by (metis settled_def)
next
  case False
  then show ?thesis
    using that [of e b] assms by (auto simp: parseElementContent_def displayable_def settled_def)
qed

lemma steps_to_applyElementColors [simp]:
  "steps_to x V b (applyElementColors e b') = steps_to x V b b'"
  by (simp add: applyElementColors_def Let_def)

definition parsed_as :: "32 word set \<Rightarrow> 'h barElement \<Rightarrow> 'h barElement \<Rightarrow> bool" where
  "parsed_as V e e' \<longleftrightarrow> settled V e' \<and> same_look e e'"

lemma parsed_asI: "settled V e' \<Longrightarrow> same_look e e' \<Longrightarrow> parsed_as V e e'"
  by (simp add: parsed_as_def)

lemma parsed_as_beginX [simp]: "parsed_as V e (e'\<lparr>beginX := p\<rparr>) = parsed_as V e e'"
  by (simp add: parsed_as_def)

lemma parse_left_elements_ok:
  assumes "\<forall>e\<in>set es. displayable V e" "bar_ok x V b"
  shows "\<exists>es' x' b'. parse_left_elements x p es b = Some (es', x', b') \<and> steps_to x V b b' \<and>
    list_all2 (parsed_as V) es es'"
  using assms
proof (induction es arbitrary: p b)
  case Nil
  then show ?case by auto
next
  case (Cons e es)
  have s0: "steps_to x V b (applyElementColors e b)"
    using Cons.prems(2) by (simp add: steps_to_refl)
  then obtain e1 b1 where e1: "parseElementContent x e (applyElementColors e b) = Some (e1, b1)"
    "steps_to x V (applyElementColors e b) b1" "settled V e1" "same_look e e1"
    using parse_displayable Cons.prems(1) steps_to_ok [OF s0] by (metis list.set_intros(1))
  note b1 = steps_to_trans [OF s0 e1(2)]
  obtain es' x' b' where "parse_left_elements x (p + uint (width e1)) es b1 = Some (es', x', b')"
    "steps_to x V b1 b'" "list_all2 (parsed_as V) es es'"
    using Cons.IH [of b1 "p + uint (width e1)"] Cons.prems(1) b1 by auto
  then show ?case using e1 b1 steps_to_trans [OF b1] by (auto intro: parsed_asI)
qed

lemma parse_elements_ok:
  assumes "\<forall>e\<in>set es. displayable V e" "bar_ok x V b"
  shows "\<exists>es' b'. parse_elements x es b = Some (es', b') \<and> steps_to x V b b' \<and>
    list_all2 (parsed_as V) es es'"
  using assms
proof (induction es arbitrary: b)
  case Nil
  then show ?case by auto
next
  case (Cons e es)
  have s0: "steps_to x V b (applyElementColors e b)"
    using Cons.prems(2) by (simp add: steps_to_refl)
  then obtain e1 b1 where e1: "parseElementContent x e (applyElementColors e b) = Some (e1, b1)"
    "steps_to x V (applyElementColors e b) b1" "settled V e1" "same_look e e1"
    using parse_displayable Cons.prems(1) steps_to_ok [OF s0] by (metis list.set_intros(1))
  note b1 = steps_to_trans [OF s0 e1(2)]
  obtain es' b' where "parse_elements x es b1 = Some (es', b')"
    "steps_to x V b1 b'" "list_all2 (parsed_as V) es es'"
    using Cons.IH [of b1] Cons.prems(1) b1 by auto
  then show ?case using e1 b1 steps_to_trans [OF b1] by (auto intro: parsed_asI)
qed

text \<open>The modules of a group after parsing: on the bar's window, element by element.\<close>

definition modules_displayable :: "32 word set \<Rightarrow> 'h bar_module list \<Rightarrow> bool" where
  "modules_displayable V ms \<longleftrightarrow> (\<forall>m\<in>set ms. \<forall>e\<in>set (modElements m). displayable V e)"

definition module_shown :: "32 word set \<Rightarrow> monitor_t \<Rightarrow> 'h bar_module \<Rightarrow> 'h bar_module \<Rightarrow> bool" where
  "module_shown V mon m m' \<longleftrightarrow> modWindow m' = mon_window mon \<and>
     list_all2 (parsed_as V) (modElements m) (modElements m')"

lemma module_shownI:
  "list_all2 (parsed_as V) (modElements m) es \<Longrightarrow>
   module_shown V mon m \<lparr>modWindow = mon_window mon, modElements = es\<rparr>"
  by (simp add: module_shown_def)

lemma parse_left_modules_ok:
  assumes "modules_displayable V ms" "bar_ok x V b"
  shows "\<exists>ms' b'. parse_left_modules x mon p ms b = Some (ms', b') \<and> steps_to x V b b' \<and>
    list_all2 (module_shown V mon) ms ms'"
  using assms
proof (induction ms arbitrary: p b)
  case Nil
  then show ?case by auto
next
  case (Cons m ms)
  obtain es x1 b1 where 1: "parse_left_elements x p (modElements m) b = Some (es, x1, b1)"
    "steps_to x V b b1" "list_all2 (parsed_as V) (modElements m) es"
    using parse_left_elements_ok [of "modElements m" V x b p] Cons.prems
    by (auto simp: modules_displayable_def)
  obtain ms' b' where "parse_left_modules x mon x1 ms b1 = Some (ms', b')"
    "steps_to x V b1 b'" "list_all2 (module_shown V mon) ms ms'"
    using Cons.IH [of b1 x1] Cons.prems(1) 1(2) by (auto simp: modules_displayable_def)
  then show ?case using 1 steps_to_trans [OF 1(2)] by (auto intro: module_shownI)
qed

lemma parse_modules_ok:
  assumes "modules_displayable V ms" "bar_ok x V b"
  shows "\<exists>ms' b'. parse_modules x mon ms b = Some (ms', b') \<and> steps_to x V b b' \<and>
    list_all2 (module_shown V mon) ms ms'"
  using assms
proof (induction ms arbitrary: b)
  case Nil
  then show ?case by auto
next
  case (Cons m ms)
  obtain es b1 where 1: "parse_elements x (modElements m) b = Some (es, b1)"
    "steps_to x V b b1" "list_all2 (parsed_as V) (modElements m) es"
    using parse_elements_ok [of "modElements m" V x b] Cons.prems
    by (auto simp: modules_displayable_def)
  obtain ms' b' where "parse_modules x mon ms b1 = Some (ms', b')"
    "steps_to x V b1 b'" "list_all2 (module_shown V mon) ms ms'"
    using Cons.IH [of b1] Cons.prems(1) 1(2) by (auto simp: modules_displayable_def)
  then show ?case using 1 steps_to_trans [OF 1(2)] by (auto intro: module_shownI)
qed

lemma place_leftwards_shown:
  "list_all2 (parsed_as V) es es' \<Longrightarrow> list_all2 (parsed_as V) es (fst (place_leftwards p es'))"
proof (induction es es' arbitrary: p rule: list_all2_induct)
  case (Cons e es e' es')
  then show ?case
    by (auto simp: Let_def split: prod.splits) (metis fst_conv)
qed simp

lemma place_modules_leftwards_shown:
  "list_all2 (module_shown V mon) ms ms' \<Longrightarrow>
   list_all2 (module_shown V mon) ms (place_modules_leftwards p ms')"
proof (induction ms ms' arbitrary: p rule: list_all2_induct)
  case (Cons m ms m' ms')
  then show ?case
    using place_leftwards_shown [of V "modElements m" "modElements m'" p]
    by (auto simp: module_shown_def split: prod.splits)
qed simp

text \<open>Drawing: no step fails, and nothing but the cache and the requests changes.\<close>

lemma steps_to_element_colors [simp]: "steps_to x V b (element_colors e b') = steps_to x V b b'"
  by (simp add: element_colors_def Let_def)

lemma render_chars_ok:
  assumes "\<forall>j<i + n. j < CONTENT_MAX_LEN \<and> ucsContent e ! j \<in> V" "element_wf e" "bar_ok x V b"
  shows "\<exists>b'. render_chars x mon n i p e b = Some b' \<and> steps_to x V b b'"
  using assms
proof (induction n arbitrary: i p b)
  case 0
  then show ?case by auto
next
  case (Suc n)
  let ?ch = "ucsContent e ! i"
  have i: "i < CONTENT_MAX_LEN" "?ch \<in> V" using Suc.prems(1) by simp_all
  obtain b1 where b1: "selectDrawableFont x ?ch b = Some (sel_font x (fontList b) ?ch, b1)" "steps_to x V b b1"
    using selectDrawableFont_ok [OF Suc.prems(3)] by blast
  note fonts = steps_to_fixed(1) [OF b1(2)]
  have ne: "fontList b1 \<noteq> []" using b1(2) by (auto simp: steps_to_def bar_ok_def)
  define f where "f = draw_font x (fontList b1) ?ch"
  define b1' where "b1' = (if ptr f \<noteq> 0 then emit [ChangeFont GC_DRAW (ptr f)] b1 else b1)"
  have b1': "steps_to x V b b1'" "fontList b1' = fontList b1"
    using b1(2) by (simp_all add: b1'_def)
  then have "bar_ok x V b1'" by auto
  then obtain w b2 where b2: "drawChar x mon f p ALIGN_L ?ch b1' = Some (w, b2)" "steps_to x V b1' b2"
    using drawChar_ok [of x V b1' ?ch f mon p] i(2) b1'(2) f_def by metis
  have step: "render_chars x mon (Suc n) i p e b =
      render_chars x mon n (Suc i) (p + uint (ucsContentCharWidths e ! i)) e b2"
    using b1(1) b2(1) i(1) ne Suc.prems(2) fonts unfolding b1'_def f_def
    by (cases "fontList b"; cases "sel_font x (fontList b) ?ch")
      (auto simp: element_wf_def Let_def draw_font_def)
  have s2: "steps_to x V b b2" using b1'(1) b2(2) by (rule steps_to_trans)
  have "\<forall>j<Suc i + n. j < CONTENT_MAX_LEN \<and> ucsContent e ! j \<in> V" using Suc.prems(1) by simp
  then obtain b' where "render_chars x mon n (Suc i) (p + uint (ucsContentCharWidths e ! i)) e b2 = Some b'"
    "steps_to x V b2 b'"
    using Suc.IH [of "Suc i" b2] Suc.prems(2) s2 by blast
  then show ?case using step s2 steps_to_trans by metis
qed

lemma renderElement_ok:
  assumes "settled V e" "bar_ok x V b"
  obtains b' where "renderElement x e mon b = Some b'" "steps_to x V b b'"
proof -
  have chars: "\<forall>j<0 + nat (ucsContentLen e). j < CONTENT_MAX_LEN \<and> ucsContent e ! j \<in> V"
    and wf: "element_wf e"
    using assms(1) by (auto simp: settled_def drawable_def element_wf_def)
  have s: "steps_to x V b (element_colors e b)"
    "steps_to x V b (drawShift mon q ALIGN_L w (element_colors e b))" for q w
    using assms(2) by (simp_all add: steps_to_refl)
  show ?thesis
  proof (cases "offsetPixels e > 0")
    case True
    then show ?thesis
      using that render_chars_ok [OF chars wf steps_to_ok [OF s(2)]] steps_to_trans [OF s(2)]
      by (fastforce simp: renderElement_def Let_def)
  next
    case False
    then show ?thesis
      using that render_chars_ok [OF chars wf steps_to_ok [OF s(1)]] steps_to_trans [OF s(1)]
      by (fastforce simp: renderElement_def Let_def)
  qed
qed

text \<open>The separator, once it is initialised with fonts that have its two characters.\<close>

definition sep_glyph :: "xserver \<Rightarrow> font_t list \<Rightarrow> 32 word \<Rightarrow> bool" where
  "sep_glyph x fs c \<longleftrightarrow> sel_font x fs c \<noteq> None"

definition separator_width :: "xserver \<Rightarrow> font_t list \<Rightarrow> int" where
  "separator_width x fs = char_width x fs 32 + char_width x fs 0x258f"

definition separator_ok :: "xserver \<Rightarrow> bar \<Rightarrow> bool" where
  "separator_ok x b \<longleftrightarrow> sep_glyph x (fontList b) 32 \<and> sep_glyph x (fontList b) 0x258f \<and>
     separator b = \<lparr>sep_ucs = [32, 0x258f],
       sep_fonts = [sel_font x (fontList b) 32, sel_font x (fontList b) 0x258f],
       sep_widths = [char_width x (fontList b) 32, char_width x (fontList b) 0x258f],
       totalWidth = separator_width x (fontList b)\<rparr>"

lemma separator_ok_steps: "separator_ok x b \<Longrightarrow> steps_to x V b b' \<Longrightarrow> separator_ok x b'"
  by (simp add: separator_ok_def steps_to_fixed)

lemma decode_sep_string:
  "decodeUtf8Char sep_string = Some (32, 1)" "decodeUtf8Char (drop 1 sep_string) = Some (0x258f, 3)"
  "byte_at sep_string 0 = Some 0x20" "byte_at (drop 1 sep_string) 0 = Some 0xe2"
  "byte_at (drop 3 (drop 1 sep_string)) 0 = Some 0"
  by code_simp+

lemma measure_glyph:
  assumes "bar_ok x V b" "c \<in> V" "sep_glyph x (fontList b) c"
  obtains f b1 b2 where "sel_font x (fontList b) c = Some f" "selectDrawableFont x c b = Some (Some f, b1)"
    "getUtf8CharWidth x c (Some f) b1 = Some (char_width x (fontList b) c, b2)" "steps_to x V b b2"
proof -
  obtain f where f: "sel_font x (fontList b) c = Some f" using assms(3) by (auto simp: sep_glyph_def)
  obtain b1 where b1: "selectDrawableFont x c b = Some (Some f, b1)" "steps_to x V b b1"
    using selectDrawableFont_ok [OF assms(1), of c] f by metis
  note fonts = steps_to_fixed(1) [OF b1(2)]
  obtain b2 where b2: "getUtf8CharWidth x c (Some f) b1 = Some (char_width x (fontList b1) c, b2)" "steps_to x V b1 b2"
    using getUtf8CharWidth_ok [OF steps_to_ok [OF b1(2)] assms(2)] f fonts by metis
  show ?thesis using that f b1 b2 fonts steps_to_trans by metis
qed

lemma separator_width_loop_ok:
  assumes "bar_ok x V b" "separator_ok x b"
  obtains b' where "separator_width_loop x (length sep_string) sep_string 0 b =
    Some (separator_width x (fontList b), b')" "steps_to x V b b'"
proof -
  have V: "32 \<in> V" "0x258f \<in> V" using vocabulary_own bar_ok_vocabulary [OF assms(1)] by auto
  obtain f b1 b2 where 1: "selectDrawableFont x 32 b = Some (Some f, b1)"
    "getUtf8CharWidth x 32 (Some f) b1 = Some (char_width x (fontList b) 32, b2)" "steps_to x V b b2"
    using measure_glyph [OF assms(1) V(1)] assms(2) by (metis separator_ok_def)
  have "sep_glyph x (fontList b2) 0x258f"
    using assms(2) steps_to_fixed(1) [OF 1(3)] by (simp add: separator_ok_def)
  then obtain g b3 b4 where 2: "selectDrawableFont x 0x258f b2 = Some (Some g, b3)"
    "getUtf8CharWidth x 0x258f (Some g) b3 = Some (char_width x (fontList b2) 0x258f, b4)" "steps_to x V b2 b4"
    using measure_glyph [OF steps_to_ok [OF 1(3)] V(2)] by metis
  have len: "length sep_string = Suc (Suc (Suc (Suc 1)))" by (simp add: sep_string_def)
  show ?thesis
    using that steps_to_trans [OF 1(3) 2(3)] 1 2 steps_to_fixed(1) [OF 1(3)] unfolding len
    by (simp add: decode_sep_string [unfolded One_nat_def] separator_width_def del: drop_drop)
qed

lemma renderSeparatorAt_ok:
  assumes ok: "bar_ok x V b" and sep: "separator_ok x b"
  obtains b' where "renderSeparatorAt x mon p b = Some (p + separator_width x (fontList b), b')"
    "steps_to x V b b'"
proof -
  let ?b0 = "updateGc (markColorsDirty (b\<lparr>curBackground := defaultBackground b,
                                           curForeground := defaultForeground b\<rparr>))"
  have V: "32 \<in> V" "0x258f \<in> V" using vocabulary_own bar_ok_vocabulary [OF ok] by auto
  have s0: "steps_to x V b ?b0" using ok by (simp add: steps_to_refl)
  obtain f g where fg: "sel_font x (fontList b) 32 = Some f" "sel_font x (fontList b) 0x258f = Some g"
    using sep by (auto simp: separator_ok_def sep_glyph_def)
  define b0' where "b0' = (if ptr f \<noteq> 0 then emit [ChangeFont GC_DRAW (ptr f)] ?b0 else ?b0)"
  have s0': "steps_to x V b b0'" using s0 by (simp add: b0'_def)
  have "f = draw_font x (fontList b0') 32"
    using fg(1) steps_to_fixed(1) [OF s0'] by (simp add: draw_font_def)
  then obtain w b1 where b1: "drawChar x mon f p ALIGN_L 32 b0' = Some (w, b1)" "steps_to x V b0' b1"
    using drawChar_ok [OF steps_to_ok [OF s0'] V(1)] by metis
  note s1 = steps_to_trans [OF s0' b1(2)]
  define b1' where "b1' = (if Some g \<noteq> Some f \<and> ptr g \<noteq> 0 then emit [ChangeFont GC_DRAW (ptr g)] b1 else b1)"
  have s1': "steps_to x V b b1'" using s1 by (simp add: b1'_def)
  have "g = draw_font x (fontList b1') 0x258f"
    using fg(2) steps_to_fixed(1) [OF s1'] by (simp add: draw_font_def)
  then obtain w' b2 where b2: "drawChar x mon g (p + char_width x (fontList b) 32) ALIGN_L 0x258f b1' = Some (w', b2)"
    "steps_to x V b1' b2"
    using drawChar_ok [OF steps_to_ok [OF s1'] V(2)] by metis
  have sep0: "separator ?b0 = separator b" "separator b1 = separator b"
    using steps_to_fixed(2) [OF s0] steps_to_fixed(2) [OF s1] by simp_all
  have "renderSeparatorAt x mon p b = Some (p + separator_width x (fontList b), b2)"
    using b1(1) b2(1) fg sep sep0 unfolding renderSeparatorAt_def b0'_def b1'_def
    by (simp add: separator_ok_def separator_width_def numeral_2_eq_2 add.assoc)
  then show ?thesis using that steps_to_trans [OF s1' b2(2)] by blast
qed

text \<open>Where the elements of a group are put, from its left end.\<close>

fun place_elements :: "int \<Rightarrow> 'h barElement list \<Rightarrow> 'h barElement list" where
  "place_elements p [] = []"
| "place_elements p (e # es) = e\<lparr>beginX := of_int p\<rparr> # place_elements (p + uint (width e)) es"

definition elements_width :: "'h barElement list \<Rightarrow> int" where
  "elements_width es = (\<Sum>e\<leftarrow>es. uint (width e))"

fun place_modules :: "int \<Rightarrow> int \<Rightarrow> 'h bar_module list \<Rightarrow> 'h bar_module list" where
  "place_modules sw p [] = []"
| "place_modules sw p (m # ms) =
     m\<lparr>modElements := place_elements p (modElements m)\<rparr> #
     place_modules sw (p + elements_width (modElements m) + sw) ms"

definition group_end :: "int \<Rightarrow> int \<Rightarrow> 'h bar_module list \<Rightarrow> int" where
  "group_end sw p ms = p + group_width ms + int (length ms - 1) * sw"

lemma elements_width_simps [simp]:
  "elements_width [] = 0" "elements_width (e # es) = uint (width e) + elements_width es"
  by (simp_all add: elements_width_def)

lemma group_width_simps [simp]:
  "group_width [] = 0" "group_width (m # ms) = elements_width (modElements m) + group_width ms"
  by (simp_all add: group_width_def elements_width_def)

definition modules_settled :: "32 word set \<Rightarrow> 'h bar_module list \<Rightarrow> bool" where
  "modules_settled V ms \<longleftrightarrow> (\<forall>m\<in>set ms. \<forall>e\<in>set (modElements m). settled V e)"

lemma render_elements_ok:
  assumes "\<forall>e\<in>set es. settled V e" "bar_ok x V b"
  shows "\<exists>b'. render_elements x mon p es b =
    Some (place_elements p es, p + elements_width es, b') \<and> steps_to x V b b'"
  using assms
proof (induction es arbitrary: p b)
  case Nil
  then show ?case by auto
next
  case (Cons e es)
  have "settled V (e\<lparr>beginX := of_int p\<rparr>)" using Cons.prems(1) by simp
  then obtain b1 where 1: "renderElement x (e\<lparr>beginX := of_int p\<rparr>) mon b = Some b1" "steps_to x V b b1"
    using renderElement_ok Cons.prems(2) by metis
  obtain b' where "render_elements x mon (p + uint (width e)) es b1 =
      Some (place_elements (p + uint (width e)) es, p + uint (width e) + elements_width es, b')"
    "steps_to x V b1 b'"
    using Cons.IH [of b1 "p + uint (width e)"] Cons.prems(1) 1(2) by auto
  then show ?case using 1 steps_to_trans [OF 1(2)] by (auto simp: Let_def)
qed

lemma render_modules_ok:
  assumes "modules_settled V ms" "bar_ok x V b" "separator_ok x b" "sw = separator_width x (fontList b)"
  shows "\<exists>b'. render_modules x mon p ms b = Some (place_modules sw p ms, group_end sw p ms, b') \<and>
    steps_to x V b b'"
  using assms
proof (induction ms arbitrary: p b)
  case Nil
  then show ?case by (auto simp: group_end_def)
next
  case (Cons m ms)
  let ?q = "p + elements_width (modElements m)"
  obtain b1 where 1: "render_elements x mon p (modElements m) b =
      Some (place_elements p (modElements m), ?q, b1)" "steps_to x V b b1"
    using render_elements_ok [of "modElements m" V x b mon p] Cons.prems
    by (auto simp: modules_settled_def)
  show ?case
  proof (cases "ms = []")
    case True
    then show ?thesis using 1 by (simp add: group_end_def)
  next
    case False
    then obtain k where len: "length ms = Suc k" by (cases ms) auto
    obtain b2 where 2: "renderSeparatorAt x mon ?q b1 = Some (?q + sw, b2)" "steps_to x V b1 b2"
      using renderSeparatorAt_ok [OF steps_to_ok [OF 1(2)] separator_ok_steps [OF Cons.prems(3) 1(2)]]
        Cons.prems(4) steps_to_fixed(1) [OF 1(2)] by metis
    note s2 = steps_to_trans [OF 1(2) 2(2)]
    obtain b' where "render_modules x mon (?q + sw) ms b2 =
        Some (place_modules sw (?q + sw) ms, group_end sw (?q + sw) ms, b')" "steps_to x V b2 b'"
      using Cons.IH [of b2 "?q + sw"] Cons.prems s2 separator_ok_steps [OF _ s2] steps_to_fixed(1) [OF s2]
      by (auto simp: modules_settled_def)
    then have "render_modules x mon p (m # ms) b = Some (place_modules sw p (m # ms),
        group_end sw (?q + sw) ms, b')" "steps_to x V b b'"
      using 1(1) 2(1) False steps_to_trans [OF s2] by simp_all
    moreover have "group_end sw (?q + sw) ms = group_end sw p (m # ms)"
      using len by (simp add: group_end_def algebra_simps)
    ultimately show ?thesis by auto
  qed
qed

lemma group_width_place_elements [simp]: "elements_width (place_elements p es) = elements_width es"
  by (induction es arbitrary: p) simp_all

lemma group_width_place [simp]: "group_width (place_modules sw p ms) = group_width ms"
  by (induction ms arbitrary: p) simp_all

lemma length_place_modules [simp]: "length (place_modules sw p ms) = length ms"
  by (induction ms arbitrary: p) simp_all

lemma place_elements_idem [simp]: "place_elements p (place_elements q es) = place_elements p es"
  by (induction es arbitrary: p q) simp_all

lemma place_modules_idem [simp]: "place_modules sw p (place_modules sw q ms) = place_modules sw p ms"
  by (induction ms arbitrary: p q) simp_all

lemma place_elements_shown:
  "list_all2 (parsed_as V) es es' \<Longrightarrow> list_all2 (parsed_as V) es (place_elements p es')"
  by (induction es es' arbitrary: p rule: list_all2_induct) auto

lemma place_modules_shown:
  "list_all2 (module_shown V mon) ms ms' \<Longrightarrow> list_all2 (module_shown V mon) ms (place_modules sw p ms')"
proof (induction ms ms' arbitrary: p rule: list_all2_induct)
  case (Cons m ms m' ms')
  then show ?case
    using place_elements_shown [of V "modElements m" "modElements m'" p] by (auto simp: module_shown_def)
qed simp

lemma parsed_as_settled: "list_all2 (parsed_as V) es es' \<Longrightarrow> \<forall>e\<in>set es'. settled V e"
  by (induction es es' rule: list_all2_induct) (auto simp: parsed_as_def)

lemma module_shown_settled: "list_all2 (module_shown V mon) ms ms' \<Longrightarrow> modules_settled V ms'"
  unfolding modules_settled_def
  by (induction ms ms' rule: list_all2_induct)
    (auto simp: module_shown_def dest: parsed_as_settled)

lemma modules_settled_displayable: "modules_settled V ms \<Longrightarrow> modules_displayable V ms"
  by (simp add: modules_settled_def modules_displayable_def settled_displayable)

section \<open>Properties of a redraw\<close>

definition right_start :: "xserver \<Rightarrow> bar \<Rightarrow> 'h bar_module list \<Rightarrow> int" where
  "right_start x b rs =
     mon_width (hd (monitors b)) - char_width x (fontList b) 32
       - (group_width rs + int (length rs - 1) * separator_width x (fontList b))"

lemma renderAllElements_ok:
  assumes ok: "bar_ok x V b" and sep: "separator_ok x b" and mons: "monitors b \<noteq> []"
    and set: "modules_settled V ls" "modules_settled V rs"
  shows "\<exists>b'. renderAllElements x ls rs b =
      Some (place_modules (separator_width x (fontList b)) 0 ls,
            place_modules (separator_width x (fontList b)) (right_start x b rs) rs, b') \<and>
    steps_to x V b b'"
proof -
  let ?sw = "separator_width x (fontList b)"
  obtain mon mons' where mon: "monitors b = mon # mons'" using mons by (cases "monitors b") auto
  have V: "32 \<in> V" using vocabulary_own bar_ok_vocabulary [OF ok] by auto
  obtain f where f: "sel_font x (fontList b) 32 = Some f"
    using sep by (auto simp: separator_ok_def sep_glyph_def)
  obtain b1 where 1: "selectDrawableFont x 32 b = Some (Some f, b1)" "steps_to x V b b1"
    using selectDrawableFont_ok [OF ok, of 32] f by metis
  have "f = draw_font x (fontList b1) 32"
    using f steps_to_fixed(1) [OF 1(2)] by (simp add: draw_font_def)
  then obtain b2 where 2: "barCharWidth x 32 (Some f) b1 = Some (char_width x (fontList b) 32, b2)"
    "steps_to x V b1 b2"
    using barCharWidth_ok [OF steps_to_ok [OF 1(2)] V] steps_to_fixed(1) [OF 1(2)] by metis
  note s2 = steps_to_trans [OF 1(2) 2(2)]
  obtain b3 where 3: "render_modules x mon 0 ls b2 = Some (place_modules ?sw 0 ls, group_end ?sw 0 ls, b3)"
    "steps_to x V b2 b3"
    using render_modules_ok [OF set(1) steps_to_ok [OF s2] separator_ok_steps [OF sep s2]]
      steps_to_fixed(1) [OF s2] by metis
  note s3 = steps_to_trans [OF s2 3(2)]
  obtain b4 where 4: "separator_width_loop x (length sep_string) sep_string 0 b3 = Some (?sw, b4)"
    "steps_to x V b3 b4"
    using separator_width_loop_ok [OF steps_to_ok [OF s3] separator_ok_steps [OF sep s3]]
      steps_to_fixed(1) [OF s3] by metis
  note s4 = steps_to_trans [OF s3 4(2)]
  obtain b5 where 5: "render_modules x mon (right_start x b rs) rs b4 =
      Some (place_modules ?sw (right_start x b rs) rs, group_end ?sw (right_start x b rs) rs, b5)"
    "steps_to x V b4 b5"
    using render_modules_ok [OF set(2) steps_to_ok [OF s4] separator_ok_steps [OF sep s4]]
      steps_to_fixed(1) [OF s4] by metis
  show ?thesis
    using mon 1(1) 2(1) 3(1) 4(1) 5(1) steps_to_trans [OF s4 5(2)]
    by (simp add: renderAllElements_def right_start_def algebra_simps)
qed

lemma fold_inert: "(\<And>m b. f m b \<in> range (\<lambda>rs. emit rs b)) \<Longrightarrow> fold f ms b \<in> range (\<lambda>rs. emit rs b)"
proof (induction ms arbitrary: b)
  case Nil
  have "b = emit [] b" by (simp add: emit_def)
  then show ?case by auto
next
  case (Cons m ms)
  obtain rs where rs: "f m b = emit rs b" using Cons.prems by blast
  obtain rs' where "fold f ms (f m b) = emit rs' (f m b)" using Cons by blast
  then have "fold f (m # ms) b = emit (rs @ rs') b" using rs by (simp add: emit_def)
  then show ?case by blast
qed

lemma steps_to_clear_all [simp]:
  "steps_to x V b (fold (\<lambda>m b. fillRect (mon_pixmap m) GC_CLEAR 0 0 (mon_width m) (bh b) b) ms b') =
   steps_to x V b b'"
  using fold_inert [of "\<lambda>m b. fillRect (mon_pixmap m) GC_CLEAR 0 0 (mon_width m) (bh b) b" ms b']
  by (auto simp: fillRect_def)

lemma steps_to_copy_windows [simp]: "steps_to x V b (copy_windows b') = steps_to x V b b'"
  using fold_inert [of "\<lambda>m b. copyArea (mon_pixmap m) (mon_window m) 0 0 0 0 (mon_width m) (bh b) b"
      "monitors b'" b']
  by (auto simp: copyArea_def copy_windows_def)

lemma feed_layout_ok:
  assumes ok: "bar_ok x V b" and sep: "separator_ok x b" and mon: "monitors b = mon # mons"
    and disp: "modules_displayable V ls" "modules_displayable V rs"
  shows "\<exists>ls' rs' b'. feed x True ls rs b = Some (ls', rs', b') \<and>
     bar_ok x V b' \<and> separator_ok x b' \<and> monitors b' = monitors b \<and>
     modules_displayable V ls' \<and> modules_displayable V rs' \<and>
     list_all2 (module_shown V mon) ls ls' \<and> list_all2 (module_shown V mon) rs rs' \<and>
     ls' = place_modules (separator_width x (fontList b)) 0 ls' \<and>
     rs' = place_modules (separator_width x (fontList b)) (right_start x b rs') rs' \<and>
     group_end (separator_width x (fontList b)) (right_start x b rs') rs' =
       mon_width mon - char_width x (fontList b) 32 \<and> fixed b' = fixed b"
proof -
  let ?sw = "separator_width x (fontList b)"
  define b1 where "b1 = fold (\<lambda>m b. fillRect (mon_pixmap m) GC_CLEAR 0 0 (mon_width m) (bh b) b) (monitors b) b"
  have s1: "steps_to x V b b1" using ok by (simp add: b1_def steps_to_refl)
  have mon1: "monitors b1 = mon # mons" using steps_to_fixed(3) [OF s1] mon by simp
  obtain ls1 b2 where 2: "parseLeftModules x ls b1 = Some (ls1, b2)" "steps_to x V b1 b2"
    "list_all2 (module_shown V mon) ls ls1"
    using parse_left_modules_ok [OF disp(1) steps_to_ok [OF s1], of mon 0] mon1
    by (auto simp: parseLeftModules_def)
  note s2 = steps_to_trans [OF s1 2(2)]
  have mon2: "monitors b2 = mon # mons" using steps_to_fixed(3) [OF s2] mon by simp
  obtain rs0 b3 where 3: "parse_modules x mon rs b2 = Some (rs0, b3)" "steps_to x V b2 b3"
    "list_all2 (module_shown V mon) rs rs0"
    using parse_modules_ok [OF disp(2) steps_to_ok [OF s2], of mon] by blast
  define rs1 where "rs1 = place_modules_leftwards (mon_width mon) rs0"
  have rs1: "parseRightModules x rs b2 = Some (rs1, b3)" "list_all2 (module_shown V mon) rs rs1"
    using 3 mon2 place_modules_leftwards_shown by (auto simp: parseRightModules_def rs1_def)
  note s3 = steps_to_trans [OF s2 3(2)]
  note f3 = steps_to_fixed [OF s3]
  have settled: "modules_settled V ls1" "modules_settled V rs1"
    using module_shown_settled 2(3) rs1(2) by blast+
  define ls' where "ls' = place_modules ?sw 0 ls1"
  define rs' where "rs' = place_modules ?sw (right_start x b rs1) rs1"
  obtain b4 where 4: "renderAllElements x ls1 rs1 b3 = Some (ls', rs', b4)" "steps_to x V b3 b4"
    using renderAllElements_ok [OF steps_to_ok [OF s3] separator_ok_steps [OF sep s3] _ settled] f3 mon
    by (auto simp: ls'_def rs'_def right_start_def)
  have s4: "steps_to x V b (copy_windows b4)" using steps_to_trans [OF s3 4(2)] by simp
  have "parseModules x True ls rs b = Some (ls', rs', b4)"
    unfolding parseModules_def Let_def b1_def [symmetric] using 2(1) rs1(1) 4(1) mon by simp
  then have "feed x True ls rs b = Some (ls', rs', copy_windows b4)"
    by (simp add: feed_def)
  moreover have shown: "list_all2 (module_shown V mon) ls ls'" "list_all2 (module_shown V mon) rs rs'"
    using place_modules_shown 2(3) rs1(2) by (auto simp: ls'_def rs'_def)
  moreover have "modules_displayable V ls'" "modules_displayable V rs'"
    using shown module_shown_settled modules_settled_displayable by blast+
  moreover have "rs' = place_modules ?sw (right_start x b rs') rs'"
    by (simp add: rs'_def right_start_def)
  moreover have "ls' = place_modules ?sw 0 ls'" by (simp add: ls'_def)
  moreover have "group_end ?sw (right_start x b rs') rs' = mon_width mon - char_width x (fontList b) 32"
    using mon by (simp add: group_end_def right_start_def)
  ultimately show ?thesis
    using steps_to_ok [OF s4] separator_ok_steps [OF sep s4] steps_to_fixed(3) [OF s4] s4
    unfolding steps_to_def by blast
qed

text \<open>
  C2 (functional): A redraw of a bar in order never fails, whatever texts of the vocabulary its modules show:
  no read leaves an array, no null font is used, the probe of the width table ends.  Afterwards
  the bar is in order again, so the next redraw succeeds as well; every element is parsed and
  keeps its texts, colours and handlers; the left group starts at the left edge and goes to the
  right without gaps but for the separators, and the right group does so and ends one space
  before the right edge of the first monitor.
\<close>

theorem feed_layout:
  assumes ok: "bar_ok x V b" and sep: "separator_ok x b" and mon: "monitors b = mon # mons"
    and disp: "modules_displayable V ls" "modules_displayable V rs"
  shows "\<exists>ls' rs' b'. feed x True ls rs b = Some (ls', rs', b') \<and>
     bar_ok x V b' \<and> separator_ok x b' \<and> monitors b' = monitors b \<and>
     modules_displayable V ls' \<and> modules_displayable V rs' \<and>
     list_all2 (module_shown V mon) ls ls' \<and> list_all2 (module_shown V mon) rs rs' \<and>
     ls' = place_modules (separator_width x (fontList b)) 0 ls' \<and>
     rs' = place_modules (separator_width x (fontList b)) (right_start x b rs') rs' \<and>
     group_end (separator_width x (fontList b)) (right_start x b rs') rs' =
       mon_width mon - char_width x (fontList b) 32"
  using feed_layout_ok [OF assms] by blast

section \<open>Clicks\<close>

text \<open>One element ends before the other begins.\<close>

definition before :: "'h barElement \<Rightarrow> 'h barElement \<Rightarrow> bool" where
  "before e f \<longleftrightarrow> uint (beginX e) + uint (width e) \<le> uint (beginX f)"

definition within :: "int \<Rightarrow> int \<Rightarrow> 'h barElement \<Rightarrow> bool" where
  "within p q e \<longleftrightarrow> p \<le> uint (beginX e) \<and> uint (beginX e) + uint (width e) \<le> q"

definition all_elements :: "'h bar_module list \<Rightarrow> 'h barElement list" where
  "all_elements ms = concat (map modElements ms)"

lemma all_elements_simps [simp]:
  "all_elements [] = []" "all_elements (m # ms) = modElements m @ all_elements ms"
  "all_elements (ms @ ns) = all_elements ms @ all_elements ns"
  by (simp_all add: all_elements_def)

lemma before_within: "within p q e \<Longrightarrow> within q' r f \<Longrightarrow> q \<le> q' \<Longrightarrow> before e f"
  by (simp add: before_def within_def)

lemma within_mono: "within p q e \<Longrightarrow> p' \<le> p \<Longrightarrow> q \<le> q' \<Longrightarrow> within p' q' e"
  by (simp add: within_def)

lemma elements_width_nonneg [simp]: "0 \<le> elements_width es"
  by (induction es) simp_all

lemma group_width_nonneg [simp]: "0 \<le> group_width ms"
  by (induction ms) simp_all

lemma place_elements_order:
  assumes "0 \<le> p" "p + elements_width es < 2 ^ 16"
  shows "sorted_wrt before (place_elements p es) \<and>
    (\<forall>e\<in>set (place_elements p es). within p (p + elements_width es) e)"
  using assms
proof (induction es arbitrary: p)
  case (Cons e es)
  have "p < 2 ^ 16"
    using Cons.prems elements_width_nonneg [of es] uint_ge_0 [of "width e"]
    unfolding elements_width_simps by linarith
  then have p: "uint (of_int p :: 16 word) = p"
    using Cons.prems(1) by (simp add: uint_word_of_int_eq take_bit_int_eq_self)
  have IH: "sorted_wrt before (place_elements (p + uint (width e)) es)"
    "\<forall>f\<in>set (place_elements (p + uint (width e)) es).
       within (p + uint (width e)) (p + uint (width e) + elements_width es) f"
    using Cons.IH [of "p + uint (width e)"] Cons.prems by (simp_all add: add.assoc)
  let ?e = "e\<lparr>beginX := of_int p\<rparr>" and ?es = "place_elements (p + uint (width e)) es"
  have w: "within p (p + uint (width e)) ?e" using p by (simp add: within_def)
  have "\<forall>f\<in>set ?es. before ?e f" using before_within [OF w] IH(2) by blast
  moreover have "within p (p + elements_width (e # es)) f" if "f \<in> set (?e # ?es)" for f
    using that within_mono [OF w, of p] within_mono [OF IH(2) [rule_format], of f p] by auto
  ultimately show ?case using IH(1) by auto
qed simp

lemma place_modules_order:
  assumes "0 \<le> sw" "0 \<le> p" "group_end sw p ms < 2 ^ 16"
  shows "sorted_wrt before (all_elements (place_modules sw p ms)) \<and>
    (\<forall>e\<in>set (all_elements (place_modules sw p ms)). within p (group_end sw p ms) e)"
  using assms
proof (induction ms arbitrary: p)
  case (Cons m ms)
  let ?w = "elements_width (modElements m)"
  have sep: "0 \<le> int (length ms - 1) * sw" using Cons.prems(1) by simp
  show ?case
  proof (cases "ms = []")
    case True
    then show ?thesis
      using place_elements_order [of p "modElements m"] Cons.prems by (simp add: group_end_def)
  next
    case False
    then obtain k where len: "length ms = Suc k" by (cases ms) auto
    have e: "group_end sw p (m # ms) = group_end sw (p + ?w + sw) ms"
      using len by (simp add: group_end_def algebra_simps)
    have q: "p + ?w + sw \<le> group_end sw (p + ?w + sw) ms"
      using sep by (simp add: group_end_def)
    have 1: "sorted_wrt before (place_elements p (modElements m))"
      "\<forall>f\<in>set (place_elements p (modElements m)). within p (p + ?w) f"
      using place_elements_order [of p "modElements m"] Cons.prems e q by simp_all
    have 2: "sorted_wrt before (all_elements (place_modules sw (p + ?w + sw) ms))"
      "\<forall>f\<in>set (all_elements (place_modules sw (p + ?w + sw) ms)).
         within (p + ?w + sw) (group_end sw p (m # ms)) f"
      using Cons.IH [of "p + ?w + sw"] Cons.prems e by simp_all
    have "before f g" if "f \<in> set (place_elements p (modElements m))"
      "g \<in> set (all_elements (place_modules sw (p + ?w + sw) ms))" for f g
      using before_within 1(2) 2(2) that Cons.prems(1) by (metis add_increasing2 order_refl)
    moreover have "within p (group_end sw p (m # ms)) f"
      if "f \<in> set (place_elements p (modElements m))" for f
      using within_mono [of p "p + ?w" f] 1(2) that e q Cons.prems(1) by simp
    moreover have "within p (group_end sw p (m # ms)) g"
      if "g \<in> set (all_elements (place_modules sw (p + ?w + sw) ms))" for g
      using within_mono [of "p + ?w + sw" "group_end sw p (m # ms)" g] 2(2) that Cons.prems(1)
      by simp
    ultimately show ?thesis using 1(1) 2(1) by (auto simp: sorted_wrt_append)
  qed
qed simp

lemma before_disjoint: "before e f \<Longrightarrow> hits x e \<Longrightarrow> \<not> hits x f"
  by (simp add: before_def hits_def)

lemma sorted_before_unique:
  assumes "sorted_wrt before es" "e \<in> set es" "f \<in> set es" "hits x e" "hits x f"
  shows "e = f"
  using assms
proof (induction es)
  case (Cons g es)
  then show ?case by (auto dest: before_disjoint)
qed simp

lemma click_pairs_Some:
  "click_pairs detail inside ps = Some h \<Longrightarrow> inside \<and> (\<exists>t. (t, h) \<in> set ps \<and> event_code t = detail)"
  by (induction ps) (auto split: if_splits)

lemma click_pairs_None:
  "click_pairs detail inside ps = None \<Longrightarrow> inside \<Longrightarrow> (t, h) \<in> set ps \<Longrightarrow> event_code t \<noteq> detail"
  by (induction ps) (auto split: if_splits)

lemma click_elements_Some:
  assumes "click_elements detail win x es = Some h"
  shows "win \<and> (\<exists>e\<in>set es. hits x e \<and> (\<exists>t. events e t = Some h \<and> event_code t = detail))"
  using assms
proof (induction es)
  case (Cons e es)
  then show ?case
    by (auto split: option.splits dest!: click_pairs_Some simp: event_pairs_iff)
qed simp

lemma click_elements_None:
  assumes "click_elements detail win x es = None" "win" "e \<in> set es" "hits x e" "events e t = Some h"
  shows "event_code t \<noteq> detail"
  using assms
proof (induction es)
  case (Cons f es)
  then show ?case
    by (auto split: option.splits dest: click_pairs_None simp: event_pairs_iff [symmetric])
qed simp

lemma click_handler_Some:
  "click_handler win detail x ms = Some h \<Longrightarrow>
   \<exists>m\<in>set ms. modWindow m = win \<and>
     (\<exists>e\<in>set (modElements m). hits x e \<and> (\<exists>t. events e t = Some h \<and> event_code t = detail))"
proof (induction ms)
  case (Cons m ms)
  then show ?case by (auto split: option.splits dest!: click_elements_Some)
qed simp

lemma click_handler_None:
  "click_handler win detail x ms = None \<Longrightarrow> m \<in> set ms \<Longrightarrow> modWindow m = win \<Longrightarrow>
   e \<in> set (modElements m) \<Longrightarrow> hits x e \<Longrightarrow> events e t = Some h \<Longrightarrow> event_code t \<noteq> detail"
proof (induction ms)
  case (Cons n ms)
  then show ?case by (auto split: option.splits dest: click_elements_None)
qed simp

text \<open>
  C8 (functional): After a redraw whose groups fit on the monitor side by side, no two elements of the bar
  overlap, and a button press at a position inside an element calls the handler of that element
  for the button, if it has one, and no other; a press that hits no element calls none.
\<close>

theorem click_reaches_element:
  assumes ls: "ls = place_modules sw 0 ls" and rs: "rs = place_modules sw start rs"
    and fit: "0 \<le> sw" "group_end sw 0 ls \<le> start" "group_end sw start rs < 2 ^ 16"
    and win: "\<forall>m\<in>set (ls @ rs). modWindow m = win"
  shows "sorted_wrt before (all_elements (ls @ rs)) \<and>
    (\<forall>e\<in>set (all_elements (ls @ rs)). hits x e \<longrightarrow>
       click_handler win (event_code t) x (ls @ rs) = events e t) \<and>
    (\<not> (\<exists>e\<in>set (all_elements (ls @ rs)). hits x e) \<longrightarrow> click_handler win detail x (ls @ rs) = None)"
proof -
  have ends: "group_end sw 0 ls \<ge> 0" "start \<le> group_end sw start rs" using fit(1)
    by (simp_all add: group_end_def)
  have 1: "sorted_wrt before (all_elements ls)"
    "\<forall>e\<in>set (all_elements ls). within 0 (group_end sw 0 ls) e"
    using place_modules_order [OF fit(1), of 0 ls] ls fit(2,3) ends by simp_all
  have 2: "sorted_wrt before (all_elements rs)"
    "\<forall>e\<in>set (all_elements rs). within start (group_end sw start rs) e"
    using place_modules_order [OF fit(1) _ fit(3)] rs fit(2) ends by simp_all
  have "before e f" if "e \<in> set (all_elements ls)" "f \<in> set (all_elements rs)" for e f
    using before_within 1(2) 2(2) that fit(2) by blast
  then have order: "sorted_wrt before (all_elements (ls @ rs))"
    using 1(1) 2(1) by (simp add: sorted_wrt_append)
  have "click_handler win (event_code t) x (ls @ rs) = events e t"
    if e: "e \<in> set (all_elements (ls @ rs))" "hits x e" for e
  proof (cases "click_handler win (event_code t) x (ls @ rs)")
    case None
    obtain m where "m \<in> set (ls @ rs)" "e \<in> set (modElements m)"
      using e(1) by (auto simp: all_elements_def)
    then have "events e t = Some h \<Longrightarrow> False" for h
      using click_handler_None [OF None] e(2) win by blast
    then show ?thesis using None by (cases "events e t") auto
  next
    case (Some h)
    obtain m f t' where f: "m \<in> set (ls @ rs)" "f \<in> set (modElements m)" "hits x f"
      "events f t' = Some h" "event_code t' = event_code t"
      using click_handler_Some [OF Some] by blast
    have "f \<in> set (all_elements (ls @ rs))" using f(1,2) by (auto simp: all_elements_def)
    then have "f = e" by (rule sorted_before_unique [OF order _ e(1) f(3) e(2)])
    then show ?thesis using Some f(4,5) by simp
  qed
  moreover have "click_handler win detail x (ls @ rs) = None"
    if "\<not> (\<exists>e\<in>set (all_elements (ls @ rs)). hits x e)"
  proof (rule ccontr)
    assume "click_handler win detail x (ls @ rs) \<noteq> None"
    then obtain h where h: "click_handler win detail x (ls @ rs) = Some h" by blast
    obtain m e where "m \<in> set (ls @ rs)" "e \<in> set (modElements m)" "hits x e"
      using click_handler_Some [OF h] by blast
    then show False using that by (auto simp: all_elements_def)
  qed
  ultimately show ?thesis using order by blast
qed

text \<open>
  When the fonts have a glyph for the space and for U+258F, \<open>initSeparator\<close> succeeds on the bar
  the constructor has built, and leaves a separator that every later redraw can use: its two
  characters with the fonts and the widths they are drawn with.
\<close>

theorem initSeparator_establishes:
  assumes ok: "bar_ok x V b"
    and fonts: "sep_glyph x (fontList b) 32" "sep_glyph x (fontList b) 0x258f"
  shows "\<exists>b'. initSeparator x b = Some b' \<and> bar_ok x V b' \<and> separator_ok x b' \<and>
    fixed (b'\<lparr>separator := separator b\<rparr>) = fixed b"
proof -
  have V: "32 \<in> V" "0x258f \<in> V" using vocabulary_own bar_ok_vocabulary [OF ok] by auto
  obtain f b1 b2 where 1: "sel_font x (fontList b) 32 = Some f" "selectDrawableFont x 32 b = Some (Some f, b1)"
    "getUtf8CharWidth x 32 (Some f) b1 = Some (char_width x (fontList b) 32, b2)" "steps_to x V b b2"
    using measure_glyph [OF ok V(1) fonts(1)] by metis
  note fl = steps_to_fixed(1) [OF 1(4)]
  obtain g b3 b4 where 2: "sel_font x (fontList b2) 0x258f = Some g" "selectDrawableFont x 0x258f b2 = Some (Some g, b3)"
    "getUtf8CharWidth x 0x258f (Some g) b3 = Some (char_width x (fontList b2) 0x258f, b4)" "steps_to x V b2 b4"
    using measure_glyph [OF steps_to_ok [OF 1(4)] V(2)] fonts(2) fl by metis
  note s = steps_to_trans [OF 1(4) 2(4)]
  define sp where "sp = \<lparr>sep_ucs = [32, 0x258f], sep_fonts = [Some f, Some g],
    sep_widths = [char_width x (fontList b) 32, char_width x (fontList b) 0x258f],
    totalWidth = separator_width x (fontList b)\<rparr>"
  have "initSeparator x b = Some (b4\<lparr>separator := sp\<rparr>)"
    using 1 2 fl unfolding initSeparator_def Suc_1 [symmetric]
    by (simp add: decode_sep_string [unfolded One_nat_def] empty_separator_def separator_width_def
        sp_def del: drop_drop)
  moreover have "bar_ok x V (b4\<lparr>separator := sp\<rparr>)" using s by auto
  moreover have "fontList b4 = fontList b" "fixed (b4\<lparr>separator := separator b\<rparr>) = fixed b"
    using s by (simp_all add: steps_to_def fixed_def)
  ultimately show ?thesis
    using 1(1) 2(1) fonts fl by (simp add: separator_ok_def sp_def)
qed

text \<open>
  Redraws between which the modules change their texts: \<open>us\<close> are the changes.
\<close>

fun redraws ::
  "xserver \<Rightarrow> ('h bar_module list \<times> 'h bar_module list \<Rightarrow> 'h bar_module list \<times> 'h bar_module list) list
    \<Rightarrow> 'h bar_module list \<times> 'h bar_module list \<times> bar
    \<Rightarrow> ('h bar_module list \<times> 'h bar_module list \<times> bar) option" where
  "redraws x [] st = Some st"
| "redraws x (u # us) (ls, rs, b) =
     (case feed x True (fst (u (ls, rs))) (snd (u (ls, rs))) b of
        None \<Rightarrow> None | Some st \<Rightarrow> redraws x us st)"

text \<open>
  C1 (safety): A bar keeps running: however long the sequence of changes its modules make, as long as each
  leaves texts of the vocabulary in the elements, every redraw of the sequence succeeds.  In
  particular the width table never fills up, although the program never removes an entry.
\<close>

theorem redraws_never_fail:
  assumes "bar_ok x V b" "separator_ok x b" "monitors b \<noteq> []"
    and "modules_displayable V ls" "modules_displayable V rs"
    and "\<forall>u\<in>set us. \<forall>ls rs. modules_displayable V ls \<and> modules_displayable V rs \<longrightarrow>
      modules_displayable V (fst (u (ls, rs))) \<and> modules_displayable V (snd (u (ls, rs)))"
  shows "\<exists>ls' rs' b'. redraws x us (ls, rs, b) = Some (ls', rs', b') \<and> bar_ok x V b'"
  using assms
proof (induction us arbitrary: ls rs b)
  case Nil
  then show ?case by simp
next
  case (Cons u us)
  obtain ls1 rs1 where u: "u (ls, rs) = (ls1, rs1)" by fastforce
  then have d: "modules_displayable V ls1" "modules_displayable V rs1"
    using Cons.prems(4-6) by fastforce+
  obtain mon mons where mon: "monitors b = mon # mons" using Cons.prems(3) by (cases "monitors b") auto
  obtain ls' rs' b' where f: "feed x True ls1 rs1 b = Some (ls', rs', b')" "bar_ok x V b'"
    "separator_ok x b'" "monitors b' = monitors b" "modules_displayable V ls'" "modules_displayable V rs'"
    using feed_layout_ok [OF Cons.prems(1,2) mon d] by blast
  have "\<exists>ls'' rs'' b''. redraws x us (ls', rs', b') = Some (ls'', rs'', b'') \<and> bar_ok x V b''"
    using Cons.IH [OF f(2,3) _ f(5,6)] f(4) Cons.prems(3,6) by simp
  then show ?case using f(1) u by simp
qed

text \<open>The handlers an event calls: at most one.\<close>

definition pressed :: "xevent \<Rightarrow> 'h bar_module list \<Rightarrow> 'h list" where
  "pressed ev ms = (case ev of
      ButtonPress win detail x \<Rightarrow> (case click_handler win detail x ms of Some h \<Rightarrow> [h] | None \<Rightarrow> [])
    | _ \<Rightarrow> [])"

text \<open>
  Processing the pending X events calls the handlers of the button presses in their order;
  it repaints the windows from the pixmaps exactly once if a last expose event of a series is
  among the events, however many, and otherwise sends nothing; the flag that suppresses expose
  events is as before.
\<close>

theorem processXEvents_effect:
  "fst (processXEvents mods run evs s b) = fold (\<lambda>ev s. fold run (pressed ev (mods s)) s) evs s \<and>
    xlog (snd (processXEvents mods run evs s b)) = xlog b @
      (if Expose 0 \<in> set evs \<and> \<not> processingExpose b
       then map (\<lambda>m. CopyArea (mon_pixmap m) (mon_window m) 0 0 0 0 (of_int (mon_width m)) (of_int (bh b)))
              (monitors b) @ [Flush]
       else []) \<and>
    processingExpose (snd (processXEvents mods run evs s b)) = processingExpose b"
proof -
  have poll: "poll_events mods run expo evs s redraw =
      (fold (\<lambda>ev s. fold run (pressed ev (mods s)) s) evs s, redraw \<or> (Expose 0 \<in> set evs \<and> \<not> expo))"
    for expo redraw
    by (induction evs arbitrary: s redraw) (auto simp: pressed_def split: xevent.splits option.splits)
  have log: "xlog (fold (\<lambda>m b. copyArea (mon_pixmap m) (mon_window m) 0 0 0 0 (mon_width m) (bh b) b) ms b) =
      xlog b @ map (\<lambda>m. CopyArea (mon_pixmap m) (mon_window m) 0 0 0 0 (of_int (mon_width m)) (of_int (bh b))) ms"
    for ms b
    by (induction ms arbitrary: b) (simp_all add: copyArea_def emit_def)
  show ?thesis
    by (simp add: processXEvents_def poll copy_windows_def emit_def log)
qed

section \<open>Instances\<close>

text \<open>A bar with its separator, and modules that show \<open>A\<close>, \<open>AB\<close> and \<open>B\<close>.\<close>

definition demo_bar_sep :: bar where
  "demo_bar_sep = demo_bar\<lparr>separator := \<lparr>sep_ucs = [32, 0x258f],
     sep_fonts = [Some demo_font, Some demo_font], sep_widths = [7, 7], totalWidth = 14\<rparr>\<rparr>"

definition demo_module :: "nat list \<Rightarrow> nat bar_module" where
  "demo_module cs = \<lparr>modWindow = 0,
     modElements = [setEvent (set_content (utf8_string cs) staticElement) CLICK_LEFT (hd cs)]\<rparr>"

lemma demo_char_width [simp]: "char_width demo_x [demo_font] c = 7"
  by (simp add: char_width_def extents_def narrow_def demo_x_def glyph_width_def)

lemma demo_sep_glyph [simp]: "sep_glyph demo_x [demo_font] 32" "sep_glyph demo_x [demo_font] 0x258f"
  by (simp_all add: sep_glyph_def)

lemma demo_bar_sep_simps [simp]:
  "bar_ok demo_x demo_V demo_bar_sep" "separator_ok demo_x demo_bar_sep"
  "fontList demo_bar_sep = [demo_font]" "monitors demo_bar_sep = monitors demo_bar"
  "separator_width demo_x [demo_font] = 14"
  by (simp_all add: demo_bar_sep_def separator_ok_def separator_width_def)

lemma demo_bar_monitors [simp]:
  "monitors demo_bar = [\<lparr>mon_x = 0, mon_y = 0, mon_width = 1366, mon_window = 9, mon_pixmap = 10\<rparr>]"
  by (simp add: demo_bar_def)

lemma demo_module_displayable [simp]:
  assumes "text_in demo_V cs" "length (utf8_string cs) < CONTENT_MAX_LEN" "length cs < CONTENT_MAX_LEN"
  shows "modules_displayable demo_V [demo_module cs]"
proof -
  obtain rest where "content (set_content (utf8_string cs) (staticElement :: nat barElement)) =
      utf8_string cs @ 0 # rest"
    using set_content_shape [OF element_wf_static assms(2)] by blast
  then have "holds_text cs (setEvent (set_content (utf8_string cs) (staticElement :: nat barElement)) CLICK_LEFT (hd cs))"
    using assms(3) by (auto simp: holds_text_def)
  then show ?thesis
    using assms(1) by (auto simp: modules_displayable_def displayable_def demo_module_def)
qed

lemma modules_displayable_Cons:
  "modules_displayable V (m # ms) \<longleftrightarrow> modules_displayable V [m] \<and> modules_displayable V ms"
  by (auto simp: modules_displayable_def)

lemma demo_modules [simp]:
  "modules_displayable demo_V [demo_module [65], demo_module [65, 66]]"
  "modules_displayable demo_V [demo_module [66]]"
proof -
  have V: "text_in demo_V [65]" "text_in demo_V [65, 66]" "text_in demo_V [66]"
    by (simp_all add: demo_V_def printable_def)
  have "modules_displayable demo_V [demo_module [65]]" "modules_displayable demo_V [demo_module [65, 66]]"
    "modules_displayable demo_V [demo_module [66]]"
    by (rule demo_module_displayable; use V in \<open>simp add: utf8_encode_def CONTENT_MAX_LEN_def\<close>)+
  then show "modules_displayable demo_V [demo_module [65], demo_module [65, 66]]"
    "modules_displayable demo_V [demo_module [66]]"
    by (auto simp: modules_displayable_def)
qed

theorem feed_layout_witness:
  "\<exists>ls' rs' b'. feed demo_x True [demo_module [65], demo_module [65, 66]] [demo_module [66]] demo_bar_sep
      = Some (ls', rs', b') \<and>
     group_end 14 (right_start demo_x demo_bar_sep rs') rs' = 1359"
  using feed_layout [of demo_x demo_V demo_bar_sep _ "[]" "[demo_module [65], demo_module [65, 66]]"
      "[demo_module [66]]"]
  by simp blast

theorem initSeparator_establishes_witness:
  "\<exists>b'. initSeparator demo_x demo_bar = Some b' \<and> separator_ok demo_x b'"
  using initSeparator_establishes [of demo_x demo_V demo_bar] by auto

theorem redraws_never_fail_witness:
  "\<exists>ls' rs' b'. redraws demo_x [(\<lambda>(ls, rs). (ls @ rs, [demo_module [66]])), (\<lambda>st. st)]
      ([demo_module [65], demo_module [65, 66]], [demo_module [66]], demo_bar_sep) = Some (ls', rs', b')"
proof -
  have "modules_displayable demo_V (ls @ rs)"
    if "modules_displayable demo_V ls" "modules_displayable demo_V rs" for ls rs :: "nat bar_module list"
    using that by (auto simp: modules_displayable_def)
  then have "\<forall>u\<in>set [(\<lambda>(ls, rs). (ls @ rs, [demo_module [66]])), (\<lambda>st. st)]. \<forall>ls rs.
      modules_displayable demo_V ls \<and> modules_displayable demo_V rs \<longrightarrow>
      modules_displayable demo_V (fst (u (ls, rs))) \<and> modules_displayable demo_V (snd (u (ls, rs)))"
    by simp
  then show ?thesis
    using redraws_never_fail [of demo_x demo_V demo_bar_sep "[demo_module [65], demo_module [65, 66]]"
        "[demo_module [66]]"] by (metis demo_bar_monitors demo_bar_sep_simps(1,2,4) demo_modules list.discI)
qed

text \<open>Two elements of 7 and 14 pixels with a separator between them.\<close>

definition demo_placed :: "nat bar_module list" where
  "demo_placed = place_modules 14 0
     [\<lparr>modWindow = 9, modElements = [setEvent (staticElement\<lparr>width := 7\<rparr>) CLICK_LEFT 1]\<rparr>,
      \<lparr>modWindow = 9, modElements = [setEvent (staticElement\<lparr>width := 14\<rparr>) CLICK_RIGHT 2]\<rparr>]"

theorem click_reaches_element_witness:
  "click_handler 9 (event_code CLICK_LEFT) 6 (demo_placed @ []) = Some 1 \<and>
   click_handler 9 (event_code CLICK_RIGHT) 34 (demo_placed @ []) = Some 2 \<and>
   click_handler 9 1 10 (demo_placed @ []) = None"
proof -
  have els: "all_elements demo_placed =
    [(setEvent (staticElement\<lparr>width := 7\<rparr>) CLICK_LEFT 1)\<lparr>beginX := 0\<rparr>,
     (setEvent (staticElement\<lparr>width := 14\<rparr>) CLICK_RIGHT 2)\<lparr>beginX := 21\<rparr>]"
    by (simp add: demo_placed_def elements_width_def setEvent_def)
  have "sorted_wrt before (all_elements (demo_placed @ [])) \<and>
    (\<forall>e\<in>set (all_elements (demo_placed @ [])). hits x e \<longrightarrow>
       click_handler 9 (event_code t) x (demo_placed @ []) = events e t) \<and>
    (\<not> (\<exists>e\<in>set (all_elements (demo_placed @ [])). hits x e) \<longrightarrow>
       click_handler 9 detail x (demo_placed @ []) = None)" for t x detail
    by (rule click_reaches_element [of _ 14 _ 100])
      (auto simp: demo_placed_def group_end_def elements_width_def setEvent_def)
  note c = this [unfolded all_elements_simps els]
  show ?thesis
    using c [of 6 CLICK_LEFT] c [of 34 CLICK_RIGHT] c [of 10 CLICK_LEFT 1]
    by (simp add: hits_def setEvent_def)
qed

end
