(* ===== verification/Monitors.thy ===== *)
theory Monitors
  imports Bar_Draw "HOL-Library.Multiset"
begin

text \<open>
  The set-up half of \<open>bar.h\<close>: finding the usable outputs, cutting the bar into one window per
  monitor, the doubly linked list of monitors, the EWMH struts, \<open>init\<close>, and the parsing helpers
  for geometry strings and program paths.  Coordinates are the \<open>int\<close> values of the code; the X
  identifiers are drawn from the supply \<open>gen\<close>.  Leaving the program with a failure status and
  undefined behaviour are the two kinds of \<open>failure\<close>.
\<close>

section \<open>Definitions\<close>

datatype failure = Exit_Failure | Undefined

record rect =
  rx :: int
  ry :: int
  rw :: int
  rh :: int

definition monitorNew ::
  "(nat \<Rightarrow> 32 word) \<Rightarrow> int \<Rightarrow> int \<Rightarrow> int \<Rightarrow> int \<Rightarrow> bar \<Rightarrow> monitor_t \<times> bar" where
  "monitorNew gen x y w h b =
     (let k = 2 * length (monitors b);
          win = gen k; pix = gen (Suc k);
          yy = (if topbar b then bar_y b else h - bh b - bar_y b) + y
      in (\<lparr>mon_x = x, mon_y = yy, mon_width = w, mon_window = win, mon_pixmap = pix\<rparr>,
          emit [CreateWindow win x yy w (bh b),
                ChangeProperty win (bytes ''_NET_WM_WINDOW_OPACITY'') [0xFFFFFFFF],
                CreatePixmap pix win w (bh b)] b))"

definition addMonitor :: "monitor_t \<times> bar \<Rightarrow> bar" where
  "addMonitor mb = (snd mb)\<lparr>monitors := monitors (snd mb) @ [fst mb]\<rparr>"

text \<open>The linked list itself: nodes are numbers, the links are maps.\<close>

record chain =
  next_of :: "nat \<Rightarrow> nat option"
  prev_of :: "nat \<Rightarrow> nat option"
  monhead :: "nat option"
  montail :: "nat option"

definition monitorAdd :: "nat \<Rightarrow> chain \<Rightarrow> chain" where
  "monitorAdd mon l =
     (case monhead l of
        None \<Rightarrow> l\<lparr>monhead := Some mon\<rparr>
      | Some h \<Rightarrow>
          (case montail l of
             None \<Rightarrow> l\<lparr>montail := Some mon, next_of := (next_of l)(h := Some mon),
                       prev_of := (prev_of l)(mon := Some h)\<rparr>
           | Some t \<Rightarrow>
               (let l1 = l\<lparr>prev_of := (prev_of l)(mon := Some t),
                          next_of := (next_of l)(t := Some mon)\<rparr>
                in l1\<lparr>montail := next_of l1 t\<rparr>)))"

definition rectSortCb :: "rect \<Rightarrow> rect \<Rightarrow> int" where
  "rectSortCb r1 r2 =
     (if rx r1 < rx r2 \<or> ry r1 + rh r1 \<le> ry r2 then - 1
      else if rx r1 > rx r2 \<or> ry r1 + rh r1 > ry r2 then 1
      else 0)"

fun screen_size :: "int \<Rightarrow> int \<Rightarrow> rect list \<Rightarrow> int \<times> int" where
  "screen_size w h [] = (w, h)"
| "screen_size w h (r # rs) =
     (let h' = ry r + rh r in screen_size (w + rw r) (if h' \<ge> h then h' else h) rs)"

fun chain_loop :: "(nat \<Rightarrow> 32 word) \<Rightarrow> int \<Rightarrow> int \<Rightarrow> rect list \<Rightarrow> bar \<Rightarrow> bar" where
  "chain_loop gen left w [] b = b"
| "chain_loop gen left w (r # rs) b =
     (if ry r + rh r < bar_y b then chain_loop gen left w rs b
      else let left' = (if left - rw r < 0 then 0 else left - rw r) in
        if rw r > left then
          (let b1 = addMonitor (monitorNew gen (rx r + left) (ry r) (min w (rw r - left)) (rh r) b);
               w' = w - (rw r - left)
           in if w' \<le> 0 then b1 else chain_loop gen left' w' rs b1)
        else chain_loop gen left' w rs b)"

text \<open>
  Both here and in the fallback of \<open>init\<close> a missing width becomes the width of the screen, and a
  missing or too large height the one of the font, the underline and two pixels.
\<close>

definition adjust_geometry :: "int \<Rightarrow> int \<Rightarrow> int \<Rightarrow> bar \<Rightarrow> bar" where
  "adjust_geometry w h fontHeight b =
     (let b1 = (if bw b < 0 then b\<lparr>bw := w - bx b\<rparr> else b)
      in if bh b1 < 0 \<or> bh b1 > h then b1\<lparr>bh := fontHeight + bu b1 + 2\<rparr> else b1)"

definition fits :: "int \<Rightarrow> int \<Rightarrow> bar \<Rightarrow> bool" where
  "fits w h b \<longleftrightarrow> \<not> (bx b + bw b > w \<or> bar_y b + bh b > h)"

text \<open>
  \<open>qsort\<close> is called with \<open>rectSortCb\<close>, which is no consistent order (see below); what it leaves
  in the array is therefore an argument.
\<close>

definition monitorCreateChain ::
  "(nat \<Rightarrow> 32 word) \<Rightarrow> (rect list \<Rightarrow> rect list) \<Rightarrow> rect list \<Rightarrow> bar \<Rightarrow> failure + bar" where
  "monitorCreateChain gen qsort rects0 b =
     (let rects = qsort rects0;
          (w, h) = screen_size 0 0 rects
      in case fontList b of
           [] \<Rightarrow> Inl Undefined
         | f # _ \<Rightarrow>
             (let b2 = adjust_geometry w h (fheight f) b
              in if \<not> fits w h b2 then Inl Exit_Failure
                 else Inr (chain_loop gen (bx b2) (bw b2) rects b2)))"

text \<open>What RandR says of an output: nothing usable, no information on its CRTC, or its CRTC.\<close>

datatype output_info = Inactive | Crtc_Failed | Crtc rect

fun output_rects :: "output_info list \<Rightarrow> (rect list \<times> int) option" where
  "output_rects [] = Some ([], 0)"
| "output_rects (out # os) =
     (case out of
        Inactive \<Rightarrow>
          map_option (\<lambda>(rs, v). (\<lparr>rx = 0, ry = 0, rw = 0, rh = 0\<rparr> # rs, v)) (output_rects os)
      | Crtc_Failed \<Rightarrow> None
      | Crtc r \<Rightarrow> map_option (\<lambda>(rs, v). (r # rs, v + 1)) (output_rects os))"

definition contains :: "rect \<Rightarrow> rect \<Rightarrow> bool" where
  "contains r s \<longleftrightarrow> rx s \<ge> rx r \<and> rx s + rw s \<le> rx r + rw r \<and>
     ry s \<ge> ry r \<and> ry s + rh s \<le> ry r + rh r"

definition clone_step :: "nat \<Rightarrow> nat \<Rightarrow> rect list \<times> int \<Rightarrow> rect list \<times> int" where
  "clone_step i j st =
     (let (rs, valid) = st in
      if i \<noteq> j \<and> rw (rs ! j) \<noteq> 0 \<and> contains (rs ! i) (rs ! j)
      then (rs[j := (rs ! j)\<lparr>rw := 0\<rparr>], valid - 1) else st)"

definition clone_pass :: "nat \<Rightarrow> nat \<Rightarrow> rect list \<times> int \<Rightarrow> rect list \<times> int" where
  "clone_pass num i st = (if rw (fst st ! i) = 0 then st else fold (clone_step i) [0..<num] st)"

definition drop_clones :: "rect list \<times> int \<Rightarrow> rect list \<times> int" where
  "drop_clones st = (let num = length (fst st) in fold (clone_pass num) [0..<num] st)"

definition getRandrMonitors ::
  "(nat \<Rightarrow> 32 word) \<Rightarrow> (rect list \<Rightarrow> rect list) \<Rightarrow> output_info list \<Rightarrow> bar \<Rightarrow> failure + bar" where
  "getRandrMonitors gen qsort outputs b =
     (if outputs = [] then Inr b
      else case output_rects outputs of
        None \<Rightarrow> Inr b
      | Some st \<Rightarrow>
          (let (rs, valid) = drop_clones st;
               r = take (nat valid) (filter (\<lambda>q. rw q \<noteq> 0) rs)
           in if valid < 1 then Inr b
              else if length r < nat valid then Inl Undefined
              else monitorCreateChain gen qsort r b))"

text \<open>The struts that reserve the space of the bar on one monitor.\<close>

definition strut :: "bar \<Rightarrow> monitor_t \<Rightarrow> int list" where
  "strut b mon =
     (if topbar b
      then (replicate 12 0)[2 := bh b, 8 := mon_x mon, 9 := mon_x mon + mon_width mon]
      else (replicate 12 0)[3 := bh b, 10 := mon_x mon, 11 := mon_x mon + mon_width mon])"

definition setEwmhAtoms :: "bar \<Rightarrow> bar" where
  "setEwmhAtoms b =
     emit (concat (map (\<lambda>mon.
       [ChangeProperty (mon_window mon) (bytes ''_NET_WM_STRUT_PARTIAL'') (strut b mon),
        ChangeProperty (mon_window mon) (bytes ''_NET_WM_STRUT'') (take 4 (strut b mon))])
       (monitors b))) b"

text \<open>
  \<open>init\<close>: \<open>randr\<close> is what RandR reports, if it is there; without a monitor the whole screen is
  used.  Fonts have been loaded, or the default font is.
\<close>

definition init_fallback :: "(nat \<Rightarrow> 32 word) \<Rightarrow> int \<Rightarrow> int \<Rightarrow> int \<Rightarrow> bar \<Rightarrow> failure + bar" where
  "init_fallback gen scrW scrH maxh b =
     (let b2 = adjust_geometry scrW scrH maxh b
      in if \<not> fits scrW scrH b2 then Inl Exit_Failure
         else Inr (addMonitor (monitorNew gen 0 0 (bw b2) scrH b2)))"

text \<open>The value of \<open>WM_CLASS\<close>: the instance and the class, each with its terminating zero.\<close>

definition wm_class :: "byte list \<Rightarrow> byte list" where
  "wm_class wm_instance = wm_instance @ [0] @ bytes ''Bar'' @ [0]"

definition show_window :: "byte list option \<Rightarrow> byte list option \<Rightarrow> monitor_t \<Rightarrow> bar \<Rightarrow> bar" where
  "show_window wm_name wm_instance mon b =
     emit ([MapWindow (mon_window mon), ConfigureWindow (mon_window mon) (mon_x mon) (mon_y mon)] @
           (case wm_name of None \<Rightarrow> []
            | Some n \<Rightarrow> [ChangeProperty (mon_window mon) (bytes ''WM_NAME'') (map uint n)]) @
           (case wm_instance of None \<Rightarrow> []
            | Some n \<Rightarrow> [ChangeProperty (mon_window mon) (bytes ''WM_CLASS'') (map uint (wm_class n))]))
       (fillRect (mon_pixmap mon) GC_CLEAR 0 0 (mon_width mon) (bh b) b)"

definition init ::
  "(nat \<Rightarrow> 32 word) \<Rightarrow> (rect list \<Rightarrow> rect list) \<Rightarrow> font_open \<Rightarrow> output_info list option \<Rightarrow> int \<Rightarrow> int
    \<Rightarrow> byte list option \<Rightarrow> byte list option \<Rightarrow> bar \<Rightarrow> failure + bar" where
  "init gen qsort dflt randr scrW scrH wm_name wm_instance b =
     (let b0 = (if fontList b = [] then fontLoad dflt b else b) in
      if fontList b0 = [] then Inl Exit_Failure
      else
        (let b1 = b0\<lparr>fontList := unify_heights (fontList b0), monitors := []\<rparr> in
         case (case randr of Some outs \<Rightarrow> getRandrMonitors gen qsort outs b1 | None \<Rightarrow> Inr b1) of
           Inl e \<Rightarrow> Inl e
         | Inr b2 \<Rightarrow>
             (case (if monitors b2 = [] then init_fallback gen scrW scrH (fheight (hd (fontList b2))) b2
                    else Inr b2) of
                Inl e \<Rightarrow> Inl e
              | Inr b3 \<Rightarrow>
                  (let b4 = emit [CreateGC GC_DRAW (curForeground b3), CreateGC GC_CLEAR (curBackground b3),
                                  CreateGC GC_ATTR (curUnderline b3)] (setEwmhAtoms b3);
                       b5 = fold (show_window wm_name wm_instance) (monitors b4) b4
                   in Inr (emit [XftAllocColor (color_name (curForeground b5)), Flush] b5)))))"

section \<open>Geometry strings and paths\<close>

definition isdigit :: "byte \<Rightarrow> bool" where
  "isdigit c \<longleftrightarrow> 48 \<le> unat c \<and> unat c \<le> 57"

lemma strtoul_progress:
  assumes "isdigit c"
  shows "0 < fst (snd (strtoul 10 (c # s)))"
proof -
  have ns: "\<not> is_space c" using assms by (auto simp: is_space_def isdigit_def)
  have sg: "c \<noteq> 45" "c \<noteq> 43" using assms by (auto simp: isdigit_def)
  have d: "digit_val 10 c \<noteq> None" using assms by (auto simp: digit_val_def isdigit_def Let_def)
  then show ?thesis using ns sg
    by (cases s; cases "tl s") (auto simp: strtoul_def Let_def split: prod.splits option.splits)
qed

text \<open>The loop of \<open>parseGeometryString\<close> on the rest \<open>p\<close> of the string, with field index \<open>i\<close>.\<close>

function geometry_loop :: "byte list \<Rightarrow> nat \<Rightarrow> int list \<Rightarrow> bool \<times> int list" where
  "geometry_loop p i tmp =
     (case p of
        [] \<Rightarrow> (True, tmp)
      | c # p' \<Rightarrow>
          if i \<ge> 4 then (False, tmp)
          else if c = 120 then (if i > 0 then (True, tmp) else geometry_loop p' (i + 1) tmp)
          else if c = 43 then geometry_loop p' (if i < 1 then 2 else i + 1) tmp
          else if \<not> isdigit c then (False, tmp)
          else (let (v, n, erange) = strtoul 10 p in
            if erange then (False, tmp)
            else geometry_loop (drop n p) i (tmp[i := sint (ucast v :: 32 word)])))"
  by pat_completeness auto

termination
proof (relation "measure (\<lambda>(p, i, tmp). length p)")
  fix p :: "byte list" and i :: nat and tmp :: "int list" and c p' r v n' n erange
  assume p: "p = c # p'" "\<not> \<not> isdigit c" and r: "r = strtoul 10 p" "(v, n') = r" "(n, erange) = n'"
  have "0 < n" using strtoul_progress [of c p'] p r by (metis fst_conv snd_conv)
  then show "((drop n p, i, tmp[i := sint (ucast v :: 32 word)]), (p, i, tmp))
      \<in> measure (\<lambda>(p, i, tmp). length p)"
    using p(1) by simp
qed auto

declare geometry_loop.simps [simp del]

definition parseGeometryString :: "byte list \<Rightarrow> int list \<Rightarrow> bool \<times> int list" where
  "parseGeometryString str tmp =
     (case str of
        [] \<Rightarrow> (False, tmp)
      | c # rest \<Rightarrow> geometry_loop (if c = 61 then rest else str) 0 tmp)"

text \<open>What follows the last slash, at most 31 bytes.\<close>

definition strip_path :: "byte list \<Rightarrow> byte list" where
  "strip_path path =
     (if path = [] then bytes ''lemonbar''
      else if 47 \<in> set path then take 31 (rev (takeWhile (\<lambda>c. c \<noteq> 47) (rev path)))
      else take 31 path)"

section \<open>The list of monitors\<close>

text \<open>The nodes \<open>ms\<close> are linked in this order; the tail is only set from two nodes on.\<close>

definition chain_of :: "chain \<Rightarrow> nat list \<Rightarrow> bool" where
  "chain_of l ms \<longleftrightarrow> distinct ms \<and>
     monhead l = (if ms = [] then None else Some (hd ms)) \<and>
     montail l = (if length ms < 2 then None else Some (last ms)) \<and>
     (\<forall>i<length ms. next_of l (ms ! i) = (if Suc i < length ms then Some (ms ! Suc i) else None)) \<and>
     (\<forall>i<length ms. prev_of l (ms ! i) = (if i = 0 then None else Some (ms ! (i - 1))))"

text \<open>What the code sees when it walks the list from its head.\<close>

fun walk :: "chain \<Rightarrow> nat option \<Rightarrow> nat \<Rightarrow> nat list" where
  "walk l p 0 = []"
| "walk l p (Suc n) = (case p of None \<Rightarrow> [] | Some m \<Rightarrow> m # walk l (next_of l m) n)"

lemma walk_chain:
  assumes "chain_of l ms"
  shows "walk l (if i < length ms then Some (ms ! i) else None) (length ms - i) = drop i ms"
proof (induction "length ms - i" arbitrary: i)
  case 0
  then show ?case by simp
next
  case (Suc n)
  then have i: "i < length ms" by simp
  have n: "length ms - i = Suc n" "n = length ms - Suc i" using Suc.hyps(2) by simp_all
  have nx: "next_of l (ms ! i) = (if Suc i < length ms then Some (ms ! Suc i) else None)"
    using assms i unfolding chain_of_def by blast
  have "walk l (if Suc i < length ms then Some (ms ! Suc i) else None) n = drop (Suc i) ms"
    using Suc.hyps(1) [of "Suc i"] n(2) by simp
  then show ?case using i n(1) nx by (simp add: Cons_nth_drop_Suc [symmetric])
qed

lemma chain_last:
  assumes "ms \<noteq> []"
  shows "last ms = ms ! (length ms - 1)"
  using assms by (simp add: last_conv_nth)

text \<open>
  \<open>monitorAdd\<close> appends.  Linking a new node behind a list of monitors gives the
  list with that node at its end: the links in both directions, the head, and the tail (which
  the code only keeps from the second monitor on) are those of the longer list, and a walk from
  the head visits exactly the monitors in the order in which they were added.
\<close>

theorem monitorAdd_appends:
  assumes l: "chain_of l ms" and new: "m \<notin> set ms" "next_of l m = None" "prev_of l m = None"
  shows "chain_of (monitorAdd m l) (ms @ [m]) \<and>
    walk (monitorAdd m l) (monhead (monitorAdd m l)) (Suc (length ms)) = ms @ [m]"
proof -
  have ne: "ms ! i \<noteq> m" if "i < length ms" for i using new(1) that by auto
  have inj: "ms ! i = ms ! j \<longleftrightarrow> i = j" if "i < length ms" "j < length ms" for i j
    using l that by (simp add: chain_of_def nth_eq_iff_index_eq)
  have "chain_of (monitorAdd m l) (ms @ [m])"
  proof (cases "length ms < 2")
    case True
    then consider "ms = []" | h where "ms = [h]" by (cases ms; cases "tl ms") auto
    then show ?thesis
      by cases (use l new in \<open>auto simp: chain_of_def monitorAdd_def less_Suc_eq\<close>)
  next
    case False
    then have len: "2 \<le> length ms" "ms \<noteq> []" by auto
    define t where "t = ms ! (length ms - 1)"
    have t: "montail l = Some t" "monhead l = Some (hd ms)"
      using l len chain_last [OF len(2)] by (auto simp: chain_of_def t_def)
    have st: "monitorAdd m l = l\<lparr>prev_of := (prev_of l)(m := Some t),
        next_of := (next_of l)(t := Some m), montail := Some m\<rparr>"
      using t by (simp add: monitorAdd_def)
    have nx: "next_of (monitorAdd m l) ((ms @ [m]) ! i) =
        (if Suc i < length (ms @ [m]) then Some ((ms @ [m]) ! Suc i) else None)"
      if "i < length (ms @ [m])" for i
      using l new that inj [of i "length ms - 1"] ne [of "length ms - 1"] len
      by (auto simp: st chain_of_def nth_append t_def less_Suc_eq)
    have pv: "prev_of (monitorAdd m l) ((ms @ [m]) ! i) =
        (if i = 0 then None else Some ((ms @ [m]) ! (i - 1)))" if "i < length (ms @ [m])" for i
      using l new that ne [of i] len by (auto simp: st chain_of_def nth_append t_def less_Suc_eq)
    show ?thesis
      unfolding chain_of_def
    proof (intro conjI allI impI nx pv)
      show "distinct (ms @ [m])" using l new(1) by (simp add: chain_of_def)
    qed (use len t in \<open>simp_all add: st\<close>)
  qed
  then show ?thesis
    using walk_chain [of "monitorAdd m l" "ms @ [m]" 0]
    by (auto simp: chain_of_def hd_conv_nth [symmetric])
qed

theorem monitorAdd_appends_witness:
  "walk (monitorAdd 8 (monitorAdd 5 (monitorAdd 3 \<lparr>next_of = (\<lambda>_. None), prev_of = (\<lambda>_. None),
     monhead = None, montail = None\<rparr>))) (Some 3) 3 = [3, 5, 8]"
proof -
  let ?l = "monitorAdd 5 (monitorAdd 3 \<lparr>next_of = (\<lambda>_. None), prev_of = (\<lambda>_. None),
     monhead = None, montail = None\<rparr>)"
  have "chain_of ?l [3, 5]" by (auto simp: chain_of_def monitorAdd_def less_Suc_eq nth_Cons')
  then show ?thesis
    using monitorAdd_appends [of ?l "[3, 5]" 8] by (simp add: monitorAdd_def numeral_3_eq_3)
qed

section \<open>Cutting the bar into windows\<close>

lemma monitors_addMonitor [simp]:
  "monitors (addMonitor (monitorNew gen x y w h b)) =
     monitors b @ [fst (monitorNew gen x y w h b)]"
  "bar_y (addMonitor (monitorNew gen x y w h b)) = bar_y b"
  by (simp_all add: addMonitor_def monitorNew_def Let_def emit_def)

lemma monitorNew_fields [simp]:
  "mon_width (fst (monitorNew gen x y w h b)) = w" "mon_x (fst (monitorNew gen x y w h b)) = x"
  by (simp_all add: monitorNew_def Let_def)

definition total_width :: "rect list \<Rightarrow> int" where
  "total_width rs = (\<Sum>r\<leftarrow>rs. rw r)"

lemma chain_loop_extends: "\<exists>new. monitors (chain_loop gen left w rs b) = monitors b @ new"
proof (induction rs arbitrary: left w b)
  case (Cons r rs)
  then show ?case by (auto simp: Let_def) (metis append_assoc monitors_addMonitor(1))+
qed simp

text \<open>
  A window lies on its rectangle, and the windows together have the width that was asked for.
\<close>

lemma chain_loop_width:
  assumes "\<forall>r\<in>set rs. 0 < rw r \<and> bar_y b \<le> ry r + rh r" "0 \<le> left" "0 < w"
    and "left + w \<le> total_width rs"
  shows "\<exists>new. monitors (chain_loop gen left w rs b) = monitors b @ new \<and>
    sum_list (map mon_width new) = w \<and>
    (\<forall>m\<in>set new. 0 < mon_width m \<and>
       (\<exists>r\<in>set rs. rx r \<le> mon_x m \<and> mon_x m + mon_width m \<le> rx r + rw r))"
  using assms
proof (induction rs arbitrary: left w b)
  case Nil
  then show ?case by (simp add: total_width_def)
next
  case (Cons r rs)
  have r: "0 < rw r" "\<not> ry r + rh r < bar_y b" using Cons.prems(1) by auto
  have tot: "total_width (r # rs) = rw r + total_width rs" by (simp add: total_width_def)
  show ?case
  proof (cases "rw r > left")
    case False
    then have left': "(if left - rw r < 0 then 0 else left - rw r) = left - rw r" by simp
    have "\<exists>new. monitors (chain_loop gen (left - rw r) w rs b) = monitors b @ new \<and>
        sum_list (map mon_width new) = w \<and>
        (\<forall>m\<in>set new. 0 < mon_width m \<and>
           (\<exists>q\<in>set rs. rx q \<le> mon_x m \<and> mon_x m + mon_width m \<le> rx q + rw q))"
      using Cons.prems False tot by (intro Cons.IH) auto
    moreover have "chain_loop gen left w (r # rs) b = chain_loop gen (left - rw r) w rs b"
      using r False left' by simp
    ultimately show ?thesis by (metis list.set_intros(2))
  next
    case True
    let ?mb = "monitorNew gen (rx r + left) (ry r) (min w (rw r - left)) (rh r) b"
    let ?m = "fst ?mb"
    have m: "0 < mon_width ?m" "rx r \<le> mon_x ?m" "mon_x ?m + mon_width ?m \<le> rx r + rw r"
      using True Cons.prems(2,3) by auto
    show ?thesis
    proof (cases "w - (rw r - left) \<le> 0")
      case fin: True
      then have "chain_loop gen left w (r # rs) b = addMonitor ?mb"
        using r True fin by (simp add: Let_def)
      moreover have "min w (rw r - left) = w" using fin by simp
      ultimately show ?thesis using m by (intro exI [of _ "[?m]"]) auto
    next
      case more: False
      have left': "(if left - rw r < 0 then 0 else left - rw r) = 0" using True by simp
      have "\<exists>new. monitors (chain_loop gen 0 (w - (rw r - left)) rs (addMonitor ?mb)) =
            monitors (addMonitor ?mb) @ new \<and>
          sum_list (map mon_width new) = w - (rw r - left) \<and>
          (\<forall>m\<in>set new. 0 < mon_width m \<and>
             (\<exists>q\<in>set rs. rx q \<le> mon_x m \<and> mon_x m + mon_width m \<le> rx q + rw q))"
        using Cons.prems more tot by (intro Cons.IH) auto
      then obtain new where new: "monitors (chain_loop gen 0 (w - (rw r - left)) rs (addMonitor ?mb)) =
            monitors b @ ?m # new" "sum_list (map mon_width new) = w - (rw r - left)"
          "\<forall>m\<in>set new. 0 < mon_width m \<and>
             (\<exists>q\<in>set rs. rx q \<le> mon_x m \<and> mon_x m + mon_width m \<le> rx q + rw q)"
        by auto
      have "chain_loop gen left w (r # rs) b =
          chain_loop gen 0 (w - (rw r - left)) rs (addMonitor ?mb)"
        using r True more left' by (simp add: Let_def)
      moreover have "min w (rw r - left) = rw r - left" using more by simp
      ultimately show ?thesis using m new by (intro exI [of _ "?m # new"]) auto
    qed
  qed
qed

lemma screen_size_width: "fst (screen_size w h rs) = w + total_width rs"
  by (induction rs arbitrary: w h) (simp_all add: total_width_def Let_def)

lemma total_width_mset: "mset rs = mset rs' \<Longrightarrow> total_width rs = total_width rs'"
  unfolding total_width_def by (metis mset_map sum_mset_sum_list)

lemma bw_chain_loop [simp]:
  "bw (chain_loop gen left w rs b) = bw b" "bx (chain_loop gen left w rs b) = bx b"
  by (induction rs arbitrary: left w b)
    (simp_all add: Let_def addMonitor_def monitorNew_def emit_def)


definition demo_geometry_bar :: bar where
  "demo_geometry_bar = \<lparr>separator = empty_separator, cache = empty_cache, monitors = [],
     fontList = [\<lparr>ptr = 0, width_lut = None, xft_ft = Some 1, ascent = 10, descent = 3,
       fheight = 13, fwidth = 0, charMax = 0, charMin = 0\<rparr>],
     fontIndex = - 1, offsetsY = [], offsetYCount = 0, offsetYIndex = 0, attrs = 0,
     topbar = True, bw = - 1, bh = - 1, bx = 0, bar_y = 0, bu = 1, curForeground = 0,
     curBackground = 0, curUnderline = 0, defaultForeground = 0, defaultBackground = 0,
     defaultUnderline = 0, colorsDirty = True, processingExpose = False, xlog = []\<rparr>"


text \<open>
  \<open>rectSortCb\<close> is not the order \<open>qsort\<close> needs: an output compares greater than itself, and of
  two outputs side by side and at different heights each compares less than the other.
\<close>

theorem rectSortCb_inconsistent:
  "(\<exists>r s. rectSortCb r s = - 1 \<and> rectSortCb s r = - 1) \<and>
   rectSortCb \<lparr>rx = x, ry = y, rw = w, rh = 1 + int h\<rparr> \<lparr>rx = x, ry = y, rw = w, rh = 1 + int h\<rparr> = 1"
proof -
  have "rectSortCb \<lparr>rx = 0, ry = 1080, rw = 1920, rh = 1080\<rparr> \<lparr>rx = 1920, ry = 0, rw = 1280, rh = 1024\<rparr> = - 1"
    "rectSortCb \<lparr>rx = 1920, ry = 0, rw = 1280, rh = 1024\<rparr> \<lparr>rx = 0, ry = 1080, rw = 1920, rh = 1080\<rparr> = - 1"
    by (simp_all add: rectSortCb_def)
  then have "\<exists>r s. rectSortCb r s = - 1 \<and> rectSortCb s r = - 1" by blast
  then show ?thesis by (simp add: rectSortCb_def)
qed

section \<open>Clones\<close>

text \<open>The rectangles of which those in \<open>A\<close> are still active.\<close>

definition mask :: "rect list \<Rightarrow> nat set \<Rightarrow> rect list" where
  "mask rs A = map (\<lambda>j. if j \<in> A then rs ! j else (rs ! j)\<lparr>rw := 0\<rparr>) [0..<length rs]"

lemma length_mask [simp]: "length (mask rs A) = length rs"
  by (simp add: mask_def)

lemma nth_mask: "j < length rs \<Longrightarrow> mask rs A ! j = (if j \<in> A then rs ! j else (rs ! j)\<lparr>rw := 0\<rparr>)"
  by (simp add: mask_def)

lemma mask_drop: "(mask rs A)[j := (mask rs A ! j)\<lparr>rw := 0\<rparr>] = mask rs (A - {j})"
proof (intro nth_equalityI)
  fix i assume "i < length ((mask rs A)[j := (mask rs A ! j)\<lparr>rw := 0\<rparr>])"
  then show "(mask rs A)[j := (mask rs A ! j)\<lparr>rw := 0\<rparr>] ! i = mask rs (A - {j}) ! i"
    by (cases "i = j") (auto simp: nth_mask)
qed simp

definition active :: "rect list \<Rightarrow> nat set" where
  "active rs = {j. j < length rs \<and> rw (rs ! j) \<noteq> 0}"

lemma finite_active [simp]: "finite (active rs)"
  by (simp add: active_def)

lemma rw_mask: "A \<subseteq> active rs \<Longrightarrow> j < length rs \<Longrightarrow> rw (mask rs A ! j) \<noteq> 0 \<longleftrightarrow> j \<in> A"
  by (auto simp: nth_mask active_def)

lemma clone_step_mask:
  assumes "A \<subseteq> active rs" "i \<in> A" "j < length rs"
  shows "clone_step i j (mask rs A, int (card A)) =
    (let A' = (if j \<in> A \<and> i \<noteq> j \<and> contains (rs ! i) (rs ! j) then A - {j} else A)
     in (mask rs A', int (card A')))"
proof -
  have fin: "finite A" using assms(1) by (rule finite_subset) simp
  have i: "i < length rs" using assms(1,2) by (auto simp: active_def)
  show ?thesis
  proof (cases "j \<in> A \<and> i \<noteq> j \<and> contains (rs ! i) (rs ! j)")
    case True
    then have "card A = Suc (card (A - {j}))" using fin card_Suc_Diff1 [of A j] by simp
    then show ?thesis
      using True assms i mask_drop [of rs A j] rw_mask [OF assms(1,3)]
      by (simp add: clone_step_def nth_mask Let_def)
  next
    case False
    then show ?thesis
      using assms i rw_mask [OF assms(1,3)] by (auto simp: clone_step_def nth_mask Let_def)
  qed
qed

lemma clone_pass_inner:
  assumes "A \<subseteq> active rs" "i \<in> A" "\<forall>j\<in>set js. j < length rs"
  shows "\<exists>A'. fold (clone_step i) js (mask rs A, int (card A)) = (mask rs A', int (card A')) \<and>
    A' = A - {j \<in> set js. j \<noteq> i \<and> contains (rs ! i) (rs ! j)}"
  using assms
proof (induction js arbitrary: A)
  case (Cons j js)
  define A1 where "A1 = (if j \<in> A \<and> i \<noteq> j \<and> contains (rs ! i) (rs ! j) then A - {j} else A)"
  have "clone_step i j (mask rs A, int (card A)) = (mask rs A1, int (card A1))"
    using clone_step_mask [OF Cons.prems(1,2)] Cons.prems(3) by (simp add: A1_def Let_def)
  moreover have "A1 \<subseteq> active rs" "i \<in> A1" using Cons.prems(1,2) by (auto simp: A1_def)
  then have "\<exists>A'. fold (clone_step i) js (mask rs A1, int (card A1)) = (mask rs A', int (card A')) \<and>
      A' = A1 - {j \<in> set js. j \<noteq> i \<and> contains (rs ! i) (rs ! j)}"
    using Cons.IH Cons.prems(3) by simp
  ultimately have "fold (clone_step i) (j # js) (mask rs A, int (card A)) =
      (let A' = A1 - {k \<in> set js. k \<noteq> i \<and> contains (rs ! i) (rs ! k)} in (mask rs A', int (card A')))"
    by (simp add: Let_def)
  moreover have "A1 - {k \<in> set js. k \<noteq> i \<and> contains (rs ! i) (rs ! k)} =
      A - {k \<in> set (j # js). k \<noteq> i \<and> contains (rs ! i) (rs ! k)}"
    by (auto simp: A1_def)
  ultimately show ?case by (simp add: Let_def)
qed simp

text \<open>
  After the passes of \<open>is\<close>: every rectangle that was active is contained in one that still is,
  and none of those that had their pass and are still active contains another active one.
\<close>

definition covers :: "rect list \<Rightarrow> nat set \<Rightarrow> bool" where
  "covers rs A \<longleftrightarrow> (\<forall>j\<in>active rs. \<exists>i\<in>A. contains (rs ! i) (rs ! j))"

definition separated :: "rect list \<Rightarrow> nat set \<Rightarrow> nat set \<Rightarrow> bool" where
  "separated rs I A \<longleftrightarrow> (\<forall>i\<in>A \<inter> I. \<forall>j\<in>A. i \<noteq> j \<longrightarrow> \<not> contains (rs ! i) (rs ! j))"

lemma contains_refl [simp]: "contains r r"
  by (simp add: contains_def)

lemma contains_trans: "contains r s \<Longrightarrow> contains s t \<Longrightarrow> contains r t"
  by (simp add: contains_def)

lemma clone_passes:
  assumes "A \<subseteq> active rs" "covers rs A" "separated rs I A" "\<forall>i\<in>set is. i < length rs"
  shows "\<exists>A'. fold (clone_pass (length rs)) is (mask rs A, int (card A)) = (mask rs A', int (card A')) \<and>
    A' \<subseteq> active rs \<and> covers rs A' \<and> separated rs (I \<union> set is) A'"
  using assms
proof (induction "is" arbitrary: A I)
  case Nil
  then show ?case by auto
next
  case (Cons i "is")
  have i: "i < length rs" using Cons.prems(4) by simp
  show ?case
  proof (cases "i \<in> A")
    case False
    then have "clone_pass (length rs) i (mask rs A, int (card A)) = (mask rs A, int (card A))"
      using rw_mask [OF Cons.prems(1) i] by (simp add: clone_pass_def)
    moreover have "separated rs (insert i I) A" using Cons.prems(3) False by (auto simp: separated_def)
    ultimately show ?thesis using Cons.IH [OF Cons.prems(1,2), of "insert i I"] Cons.prems(4) by simp
  next
    case True
    define A1 where "A1 = A - {j \<in> set [0..<length rs]. j \<noteq> i \<and> contains (rs ! i) (rs ! j)}"
    have i1: "i \<in> A1" using True by (simp add: A1_def)
    have "clone_pass (length rs) i (mask rs A, int (card A)) = (mask rs A1, int (card A1))"
      using clone_pass_inner [OF Cons.prems(1) True, of "[0..<length rs]"] True
        rw_mask [OF Cons.prems(1) i] by (simp add: clone_pass_def A1_def)
    moreover have "A1 \<subseteq> active rs" using Cons.prems(1) by (auto simp: A1_def)
    moreover have "covers rs A1"
      unfolding covers_def
    proof
      fix j assume "j \<in> active rs"
      then obtain k where k: "k \<in> A" "contains (rs ! k) (rs ! j)"
        using Cons.prems(2) by (auto simp: covers_def)
      then show "\<exists>k\<in>A1. contains (rs ! k) (rs ! j)"
        using i1 contains_trans by (cases "k \<in> A1") (auto simp: A1_def)
    qed
    moreover have "separated rs (insert i I) A1"
      using Cons.prems(1,3) by (auto simp: separated_def A1_def active_def)
    ultimately show ?thesis using Cons.IH [of A1 "insert i I"] Cons.prems(4) by simp
  qed
qed

lemma mask_active [simp]: "mask rs (active rs) = rs"
  by (intro nth_equalityI) (auto simp: nth_mask active_def)

lemma drop_clones_active:
  obtains A where "drop_clones (rs, int (card (active rs))) = (mask rs A, int (card A))"
    "A \<subseteq> active rs" "covers rs A" "separated rs {..<length rs} A"
proof -
  have "covers rs (active rs)" "separated rs {} (active rs)"
    unfolding covers_def separated_def using contains_refl by blast+
  from clone_passes [OF order_refl this, of "[0..<length rs]"] show ?thesis
    using that by (auto simp: drop_clones_def Let_def atLeast0LessThan)
qed

text \<open>
  C13 (functional): The elimination of cloned outputs keeps exactly what is needed: no remaining output is
  contained in another one, every output that was active is contained in a remaining one, and
  the count the code maintains is the number of the remaining ones.
\<close>

theorem drop_clones_correct:
  "case drop_clones (rs, int (card (active rs))) of (rs', valid) \<Rightarrow>
     length rs' = length rs \<and> valid = int (length (filter (\<lambda>r. rw r \<noteq> 0) rs')) \<and>
     (\<forall>i\<in>active rs'. rs' ! i = rs ! i \<and> (\<forall>j\<in>active rs'. i \<noteq> j \<longrightarrow> \<not> contains (rs' ! i) (rs' ! j))) \<and>
     (\<forall>j\<in>active rs. \<exists>i\<in>active rs'. contains (rs' ! i) (rs ! j))"
proof -
  obtain A where A: "drop_clones (rs, int (card (active rs))) = (mask rs A, int (card A))"
    "A \<subseteq> active rs" "covers rs A" "separated rs {..<length rs} A"
    by (rule drop_clones_active)
  have act: "active (mask rs A) = A"
    using A(2) rw_mask [OF A(2)] by (auto simp: active_def)
  have "length (filter (\<lambda>r. rw r \<noteq> 0) (mask rs A)) = card (active (mask rs A))"
    by (simp add: length_filter_conv_card active_def)
  moreover have "mask rs A ! i = rs ! i" "i < length rs" if "i \<in> A" for i
    using that A(2) by (auto simp: nth_mask active_def)
  moreover have "\<exists>i\<in>A. contains (rs ! i) (rs ! j)" if "j \<in> active rs" for j
    using that A(3) by (simp add: covers_def)
  ultimately show ?thesis
    using A(1,4) by (auto simp: act separated_def)
qed

theorem drop_clones_correct_witness:
  "drop_clones ([\<lparr>rx = 0, ry = 0, rw = 1024, rh = 768\<rparr>, \<lparr>rx = 0, ry = 0, rw = 1920, rh = 1080\<rparr>], 2) =
     ([\<lparr>rx = 0, ry = 0, rw = 0, rh = 768\<rparr>, \<lparr>rx = 0, ry = 0, rw = 1920, rh = 1080\<rparr>], 1)"
proof -
  let ?rs = "[\<lparr>rx = 0, ry = 0, rw = 1024, rh = 768\<rparr>, \<lparr>rx = 0, ry = 0, rw = 1920, rh = 1080\<rparr>]"
  have a: "active ?rs = {0, 1}" by (auto simp: active_def less_Suc_eq nth_Cons')
  obtain rs' valid where d: "drop_clones (?rs, 2) = (rs', valid)" by fastforce
  have "length rs' = 2 \<and> valid = int (length (filter (\<lambda>r. rw r \<noteq> 0) rs'))"
    using drop_clones_correct [of ?rs] a d by simp
  moreover have "drop_clones (?rs, 2) =
      ([\<lparr>rx = 0, ry = 0, rw = 0, rh = 768\<rparr>, \<lparr>rx = 0, ry = 0, rw = 1920, rh = 1080\<rparr>], 1)"
    by (simp add: drop_clones_def clone_pass_def clone_step_def contains_def Let_def upt_rec)
  ultimately show ?thesis by simp
qed

section \<open>Properties of the parsing helpers\<close>

lemma isdigit_dec: "c \<in> set (dec n) \<Longrightarrow> isdigit c"
  using dec_range by (auto simp: isdigit_def)

lemma geometry_number:
  assumes "n < 2 ^ 31" "i < 4" "rest = [] \<or> hd rest = 120 \<or> hd rest = 43"
  shows "geometry_loop (dec n @ rest) i tmp = geometry_loop rest i (tmp[i := int n])"
proof -
  obtain c cs where c: "dec n = c # cs" "48 \<le> unat c" "unat c \<le> 57" by (rule dec_first)
  have "c \<noteq> 120" "c \<noteq> 43" "isdigit c" using c(2,3) by (auto simp: isdigit_def)
  moreover have "rest = [] \<or> digit_val 10 (hd rest) = None"
    using assms(3) by (auto simp: digit_val_def)
  then have "strtoul 10 (dec n @ rest) = (of_nat n, length (dec n), False)"
    using strtoul_dec [of n rest] assms(1) by simp
  moreover have "sint (ucast (of_nat n :: 64 word) :: 32 word) = int n"
    using assms(1) by (simp add: ucast_of_nat_word sint_of_nat_word)
  ultimately show ?thesis
    using assms(2) c(1) by (subst geometry_loop.simps) simp
qed

lemma geometry_x: "geometry_loop (120 # rest) 0 tmp = geometry_loop rest 1 tmp"
  by (subst geometry_loop.simps) simp

lemma geometry_plus: "0 < i \<Longrightarrow> i < 4 \<Longrightarrow> geometry_loop (43 # rest) i tmp = geometry_loop rest (i + 1) tmp"
  by (subst geometry_loop.simps) simp

lemma geometry_plus_first: "geometry_loop (43 # rest) 0 tmp = geometry_loop rest 2 tmp"
  by (subst geometry_loop.simps) simp

lemma geometry_end: "geometry_loop [] i tmp = (True, tmp)"
  by (subst geometry_loop.simps) simp

text \<open>
  \<open>parseGeometryString\<close> reads back what an X geometry is printed as: width,
  height and the two offsets, with or without the leading equals sign, and the offsets alone
  leave the size as it was.
\<close>

theorem parse_geometry_roundtrip:
  assumes "w < 2 ^ 31" "h < 2 ^ 31" "x < 2 ^ 31" "y < 2 ^ 31" "length tmp = 4"
  shows "parseGeometryString (61 # dec w @ 120 # dec h @ 43 # dec x @ 43 # dec y) tmp =
      (True, [int w, int h, int x, int y]) \<and>
    parseGeometryString (dec w @ 120 # dec h @ 43 # dec x @ 43 # dec y) tmp =
      (True, [int w, int h, int x, int y]) \<and>
    parseGeometryString (43 # dec x @ 43 # dec y) tmp = (True, take 2 tmp @ [int x, int y])"
proof -
  obtain a b c d where tmp: "tmp = [a, b, c, d]"
    using assms(5) by (auto simp: numeral_eq_Suc length_Suc_conv)
  have last: "geometry_loop (dec x @ 43 # dec y) 2 t = (True, t[2 := int x, 3 := int y])" for t
    using geometry_number [of x 2 "43 # dec y" t] geometry_number [of y 3 "[]"] assms(3,4)
    by (simp add: geometry_plus geometry_end)
  have full: "geometry_loop (dec w @ 120 # dec h @ 43 # dec x @ 43 # dec y) 0 tmp =
      (True, [int w, int h, int x, int y])"
    using geometry_number [of w 0 "120 # dec h @ 43 # dec x @ 43 # dec y" tmp]
      geometry_number [of h 1 "43 # dec x @ 43 # dec y"] assms(1,2) last
    by (simp add: geometry_x geometry_plus tmp numeral_2_eq_2 [symmetric])
  obtain c0 cs where c0: "dec w = c0 # cs" "48 \<le> unat c0" "unat c0 \<le> 57" by (rule dec_first)
  then have "c0 \<noteq> 61" by auto
  then show ?thesis
    using full last c0(1) by (simp add: parseGeometryString_def geometry_plus_first tmp)
qed

theorem parse_geometry_roundtrip_witness:
  "parseGeometryString (bytes ''=1366x24+0+744'') [0, 0, 0, 0] = (True, [1366, 24, 0, 744])"
proof -
  have d: "dec 1366 = bytes ''1366''" "dec 24 = bytes ''24''" "dec 0 = bytes ''0''" "dec 744 = bytes ''744''"
    by (simp_all add: dec_step bytes_def digit_byte_def of_char_def)
  show ?thesis
    using parse_geometry_roundtrip [of 1366 24 0 744 "[0, 0, 0, 0]"]
    by (simp add: d) (simp add: bytes_def of_char_def)
qed

text \<open>
  the comment demands the \<open>x\<close> before any plus sign, but a second \<open>x\<close> only ends the
  loop: the rest of the string is ignored and the geometry accepted.
\<close>

theorem parse_geometry_accepts_garbage:
  "parseGeometryString (43 # 120 # junk) [a, b, c, d] = (True, [a, b, c, d])"
  by (simp add: parseGeometryString_def geometry_plus_first) (subst geometry_loop.simps, simp)

text \<open>
  \<open>strip_path\<close> gives a name without a slash and of at most 31 bytes: what follows the last
  slash of the path, cut to that length.
\<close>

theorem strip_path_basename:
  "47 \<notin> set (strip_path path) \<and> length (strip_path path) \<le> 31 \<and>
   strip_path (dir @ 47 # takeWhile (\<lambda>c. c \<noteq> 47) base) = take 31 (takeWhile (\<lambda>c. c \<noteq> 47) base)"
proof -
  have ne: "47 \<notin> set (takeWhile (\<lambda>c. c \<noteq> 47) s)" for s :: "byte list"
    by (auto dest: set_takeWhileD)
  have l: "47 \<notin> set (bytes ''lemonbar'')" by (simp add: bytes_def of_char_def)
  have "47 \<notin> set (take 31 p)" if "47 \<notin> set p" for p :: "byte list"
    using that by (auto dest: in_set_takeD)
  then have "47 \<notin> set (strip_path path)"
    using ne [of "rev path"] l by (simp add: strip_path_def)
  moreover have "length (strip_path path) \<le> 31"
    by (simp add: strip_path_def)
  moreover have "rev (takeWhile (\<lambda>c. c \<noteq> 47) (rev (dir @ 47 # s))) = s" if "47 \<notin> set s" for s :: "byte list"
  proof -
    have "takeWhile (\<lambda>c. c \<noteq> 47) (rev s @ 47 # rev dir) = rev s"
      using that by (subst takeWhile_append2) auto
    then show ?thesis by simp
  qed
  ultimately show ?thesis
    using ne by (simp add: strip_path_def del: rev_append rev.simps)
qed

end
