(* ===== verification/Bar_Setup.thy ===== *)
theory Bar_Setup
  imports Bar_Layout Monitors Color
begin

text \<open>
  The life of a \<open>Bar\<close> (\<open>bar.h\<close>): the constructor with the connection to the X server, the choice
  of the visual and the loading of the fonts, the accessors, and the destructor.  The object is
  allocated by \<open>new Bar(...)\<close>, which leaves the members without an initialiser as they are in
  memory; what the memory holds is the argument \<open>raw_memory\<close>.  What Xlib, XCB and the X server
  answer is the record \<open>xworld\<close>.
\<close>

section \<open>The object and its surroundings\<close>

text \<open>A pointer member: null, what a foreign bit pattern is, or the object with a number.\<close>

datatype 'a cell = Null | Junk | Ptr 'a

record raw_memory =
  rawPointer :: "nat cell"
  rawTable :: glyph_cache
  rawOffsets :: "int list"

text \<open>
  \<open>XOpenDisplay w n\<close> is what the call number \<open>n\<close> returns; the other answers depend on the display
  or on the connection.  \<open>XGetVisualInfo\<close> lists the visuals of depth 32, with their identifiers.
\<close>

record xworld =
  XOpenDisplay :: "nat \<Rightarrow> nat option"
  XGetXCBConnection :: "nat \<Rightarrow> nat option"
  xcb_connection_has_error :: "nat \<Rightarrow> bool"
  xcb_get_file_descriptor :: "nat \<Rightarrow> int"
  XGetVisualInfo :: "nat \<Rightarrow> (nat \<times> 32 word) list"
  DefaultVisual :: "nat \<Rightarrow> nat"
  root_visual :: "nat \<Rightarrow> 32 word"
  screen_pixels :: "nat \<Rightarrow> int \<times> int"
  openFont :: "nat \<Rightarrow> byte list \<Rightarrow> font_open"
  randrOutputs :: "nat \<Rightarrow> output_info list option"
  qsortRects :: "rect list \<Rightarrow> rect list"
  newId :: "nat \<Rightarrow> 32 word"
  colormapId :: "nat \<Rightarrow> 32 word"
  gcId :: "nat \<Rightarrow> gc_kind \<Rightarrow> 32 word"
  glyphServer :: xserver

text \<open>
  The members of \<open>Bar\<close> that are not in \<open>bar\<close>.  Two fields are not in the code: \<open>displays\<close> are the
  displays the process has opened, and \<open>fontDisplays\<close> says on which of them each font was opened.
\<close>

record ('h, 'cb) bar_object =
  dpy :: "nat cell"
  connection :: "nat cell"
  visualPtr :: "nat cell"
  visual :: "32 word"
  colormap :: "32 word"
  gcs :: "gc_kind \<Rightarrow> 32 word"
  restSlot :: "nat cell"
  clickCb :: "'cb option"
  leftModules :: "'h bar_module list"
  rightModules :: "'h bar_module list"
  core :: bar
  displays :: "nat list"
  fontDisplays :: "nat list"

text \<open>
  The members when the body of the constructor starts: those with an initialiser, and the others
  as the memory has them.  The separator and the colours are assigned before they are read.
\<close>

definition allocated ::
  "raw_memory \<Rightarrow> bool \<Rightarrow> 'h bar_module list \<Rightarrow> 'h bar_module list \<Rightarrow> ('h, 'cb) bar_object" where
  "allocated mem topBar ls rs =
     \<lparr>dpy = rawPointer mem, connection = rawPointer mem, visualPtr = rawPointer mem, visual = 0,
      colormap = 0, gcs = (\<lambda>_. 0), restSlot = rawPointer mem, clickCb = None,
      leftModules = ls, rightModules = rs,
      core = \<lparr>separator = empty_separator, cache = rawTable mem, monitors = [], fontList = [],
        fontIndex = - 1, offsetsY = rawOffsets mem, offsetYCount = 0, offsetYIndex = 0, attrs = 0,
        topbar = topBar, bw = - 1, bh = - 1, bx = 0, bar_y = 0, bu = 1, curForeground = 0,
        curBackground = 0, curUnderline = 0, defaultForeground = 0, defaultBackground = 0,
        defaultUnderline = 0, colorsDirty = True, processingExpose = False, xlog = []\<rparr>,
      displays = [], fontDisplays = []\<rparr>"

section \<open>The connection\<close>

definition getVisual :: "xworld \<Rightarrow> nat \<Rightarrow> nat \<Rightarrow> nat \<times> 32 word" where
  "getVisual w d c =
     (case XGetVisualInfo w d of v # _ \<Rightarrow> v | [] \<Rightarrow> (DefaultVisual w d, root_visual w c))"

text \<open>
  When the display cannot be opened the code says so and goes on with the null pointer, which
  \<open>XGetXCBConnection\<close> reads from.
\<close>

definition xconn :: "xworld \<Rightarrow> ('h, 'cb) bar_object \<Rightarrow> failure + ('h, 'cb) bar_object" where
  "xconn w s =
     (case XOpenDisplay w (length (displays s)) of
        None \<Rightarrow> Inl Undefined
      | Some d \<Rightarrow>
          (case XGetXCBConnection w d of
             None \<Rightarrow> Inl Exit_Failure
           | Some c \<Rightarrow>
               if xcb_connection_has_error w c then Inl Exit_Failure
               else
                 (let (vp, v) = getVisual w d c; cm = colormapId w d
                  in Inr (s\<lparr>dpy := Ptr d, connection := Ptr c, visualPtr := Ptr vp, visual := v,
                            colormap := cm, core := emit [CreateColormap cm v] (core s),
                            displays := displays s @ [d]\<rparr>))))"

text \<open>\<open>fontLoad\<close> with its check of the connection; what it stores is \<open>fontLoad\<close> of the drawing layer.\<close>

definition load_font ::
  "xworld \<Rightarrow> byte list \<Rightarrow> ('h, 'cb) bar_object \<Rightarrow> failure + ('h, 'cb) bar_object" where
  "load_font w pattern s =
     (if length (fontList (core s)) \<ge> MAX_FONT_COUNT then Inr s
      else
        (case (if dpy s = Null \<or> connection s = Null then xconn w s else Inr s) of
           Inl e \<Rightarrow> Inl e
         | Inr t \<Rightarrow>
             (case (dpy t, connection t) of
                (Ptr d, Ptr c) \<Rightarrow>
                  (let b = fontLoad (openFont w d pattern) (core t)
                   in Inr (t\<lparr>core := b, fontDisplays := fontDisplays t @
                             replicate (length (fontList b) - length (fontList (core t))) d\<rparr>))
              | _ \<Rightarrow> Inl Undefined)))"

fun load_fonts ::
  "xworld \<Rightarrow> byte list list \<Rightarrow> ('h, 'cb) bar_object \<Rightarrow> failure + ('h, 'cb) bar_object" where
  "load_fonts w [] s = Inr s"
| "load_fonts w (p # ps) s = (case load_font w p s of Inl e \<Rightarrow> Inl e | Inr t \<Rightarrow> load_fonts w ps t)"

section \<open>The constructor\<close>

definition set_default_colors :: "byte list \<Rightarrow> byte list \<Rightarrow> bar \<Rightarrow> bar" where
  "set_default_colors bg fg b =
     (let bgc = fst (parse_color (Some bg) 0); fgc = fst (parse_color (Some fg) 0x11111111)
      in b\<lparr>defaultBackground := bgc, curBackground := bgc, defaultForeground := fgc,
           curForeground := fgc, defaultUnderline := fgc, curUnderline := fgc\<rparr>)"

definition init_object ::
  "xworld \<Rightarrow> byte list \<Rightarrow> ('h, 'cb) bar_object \<Rightarrow> failure + ('h, 'cb) bar_object" where
  "init_object w barName s =
     (case (dpy s, connection s) of
        (Ptr d, Ptr c) \<Rightarrow>
          (case init (newId w) (qsortRects w) (openFont w d (bytes ''fixed'')) (randrOutputs w c)
                  (fst (screen_pixels w c)) (snd (screen_pixels w c)) (Some barName) (Some barName)
                  (core s) of
             Inl e \<Rightarrow> Inl e
           | Inr b \<Rightarrow>
               Inr (s\<lparr>core := b, gcs := gcId w c, fontDisplays := fontDisplays s @
                      replicate (length (fontList b) - length (fontList (core s))) d\<rparr>))
      | _ \<Rightarrow> Inl Undefined)"

definition newBar ::
  "xworld \<Rightarrow> raw_memory \<Rightarrow> byte list \<Rightarrow> byte list \<Rightarrow> byte list \<Rightarrow> bool \<Rightarrow> byte list list
    \<Rightarrow> 'h bar_module list \<Rightarrow> 'h bar_module list \<Rightarrow> failure + ('h, 'cb) bar_object" where
  "newBar w mem barName bg fg topBar fonts ls rs =
     (case load_fonts w fonts (allocated mem topBar ls rs) of
        Inl e \<Rightarrow> Inl e
      | Inr s1 \<Rightarrow>
          (case xconn w (s1\<lparr>core := set_default_colors bg fg (core s1)\<rparr>) of
             Inl e \<Rightarrow> Inl e
           | Inr s2 \<Rightarrow>
               (case init_object w barName s2 of
                  Inl e \<Rightarrow> Inl e
                | Inr s3 \<Rightarrow>
                    (case initSeparator (glyphServer w) (core s3) of
                       None \<Rightarrow> Inl Undefined
                     | Some b \<Rightarrow> Inr (s3\<lparr>core := b\<rparr>)))))"

section \<open>Accessors and the drawing operations on the object\<close>

definition setClickHandler :: "'cb \<Rightarrow> ('h, 'cb) bar_object \<Rightarrow> ('h, 'cb) bar_object" where
  "setClickHandler cb s = s\<lparr>clickCb := Some cb\<rparr>"

definition getXcbFd :: "xworld \<Rightarrow> ('h, 'cb) bar_object \<Rightarrow> int option" where
  "getXcbFd w s =
     (case connection s of
        Null \<Rightarrow> Some (- 1) | Ptr c \<Rightarrow> Some (xcb_get_file_descriptor w c) | Junk \<Rightarrow> None)"

definition feed_object :: "xworld \<Rightarrow> ('h, 'cb) bar_object \<Rightarrow> ('h, 'cb) bar_object option" where
  "feed_object w s =
     (case feed (glyphServer w) True (leftModules s) (rightModules s) (core s) of
        None \<Rightarrow> None
      | Some (ls, rs, b) \<Rightarrow> Some (s\<lparr>leftModules := ls, rightModules := rs, core := b\<rparr>))"

text \<open>The handlers of the modules work on the two lists of modules.\<close>

definition events_object ::
  "('h \<Rightarrow> 'h bar_module list \<times> 'h bar_module list \<Rightarrow> 'h bar_module list \<times> 'h bar_module list)
    \<Rightarrow> xevent list \<Rightarrow> ('h, 'cb) bar_object \<Rightarrow> ('h, 'cb) bar_object" where
  "events_object run evs s =
     (let ((ls, rs), b) = processXEvents (\<lambda>(ls, rs). ls @ rs) run evs (leftModules s, rightModules s) (core s)
      in s\<lparr>leftModules := ls, rightModules := rs, core := b\<rparr>)"

text \<open>\<open>sighandle\<close> leaves the program with status 0 on \<open>SIGINT\<close> and \<open>SIGTERM\<close>.\<close>

definition sighandle :: "int \<Rightarrow> int option" where
  "sighandle signal = (if signal = 2 \<or> signal = 15 then Some 0 else None)"

section \<open>The destructor\<close>

text \<open>
  The loop of the destructor over the array of fonts ends at the first null pointer.  The slots
  behind the loaded fonts hold what the memory held, and behind the last slot the array ends.
\<close>

definition close_font :: "font_t \<Rightarrow> xrequest" where
  "close_font f = (case xft_ft f of Some h \<Rightarrow> XftFontClose h | None \<Rightarrow> CloseFont (ptr f))"

fun close_fonts :: "nat cell \<Rightarrow> nat \<Rightarrow> font_t list \<Rightarrow> failure + xrequest list" where
  "close_fonts rest i [] = (if i < MAX_FONT_COUNT \<and> rest = Null then Inr [] else Inl Undefined)"
| "close_fonts rest i (f # fs) =
     (case close_fonts rest (Suc i) fs of Inl e \<Rightarrow> Inl e | Inr rs \<Rightarrow> Inr (close_font f # rs))"

definition deleteBar :: "('h, 'cb) bar_object \<Rightarrow> failure + xrequest list" where
  "deleteBar s =
     (case close_fonts (restSlot s) 0 (fontList (core s)) of
        Inl e \<Rightarrow> Inl e
      | Inr fs \<Rightarrow>
          Inr (xlog (core s) @ fs @
               concat (map (\<lambda>m. [DestroyWindow (mon_window m), FreePixmap (mon_pixmap m)]) (monitors (core s))) @
               [XftFreeColor] @ map FreeGC (filter (\<lambda>g. gcs s g \<noteq> 0) [GC_DRAW, GC_CLEAR, GC_ATTR]) @
               (case connection s of Ptr c \<Rightarrow> [Disconnect c] | _ \<Rightarrow> [])))"

section \<open>The life of a bar\<close>

text \<open>
  Everything that happens to a bar of the program: it is constructed, drawn, its events are
  processed, its modules change their texts, and a callback is set.
\<close>

inductive bar_life ::
  "xworld \<Rightarrow> 32 word set \<Rightarrow> ('h, 'cb) bar_object \<Rightarrow> ('h, 'cb) bar_object \<Rightarrow> bool" for w V s0 where
  constructed: "bar_life w V s0 s0"
| drawn: "bar_life w V s0 s \<Longrightarrow> feed_object w s = Some s' \<Longrightarrow> bar_life w V s0 s'"
| changed: "bar_life w V s0 s \<Longrightarrow> modules_displayable V ls \<Longrightarrow> modules_displayable V rs \<Longrightarrow>
    bar_life w V s0 (s\<lparr>leftModules := ls, rightModules := rs\<rparr>)"
| events_done: "bar_life w V s0 s \<Longrightarrow> s' = events_object run evs s \<Longrightarrow>
    modules_displayable V (leftModules s') \<Longrightarrow> modules_displayable V (rightModules s') \<Longrightarrow>
    bar_life w V s0 s'"
| callback_set: "bar_life w V s0 s \<Longrightarrow> bar_life w V s0 (setClickHandler cb s)"

section \<open>Connecting and loading the fonts\<close>

definition connects :: "xworld \<Rightarrow> nat \<Rightarrow> nat \<Rightarrow> nat \<Rightarrow> bool" where
  "connects w n d c \<longleftrightarrow> XOpenDisplay w n = Some d \<and> XGetXCBConnection w d = Some c \<and>
     \<not> xcb_connection_has_error w c"

lemma xconn_connects:
  assumes "connects w (length (displays s)) d c"
  shows "\<exists>s'. xconn w s = Inr s' \<and> dpy s' = Ptr d \<and> connection s' = Ptr c \<and>
    displays s' = displays s @ [d] \<and> core s' = emit [CreateColormap (colormap s') (visual s')] (core s) \<and>
    fontDisplays s' = fontDisplays s \<and> leftModules s' = leftModules s \<and> rightModules s' = rightModules s \<and>
    restSlot s' = restSlot s"
  using assms by (auto simp: connects_def xconn_def Let_def split: prod.splits)

definition xft_font :: "font_open \<Rightarrow> font_t" where
  "xft_font res = (case res of
     XftFont h asc desc \<Rightarrow> \<lparr>ptr = 0, width_lut = None, xft_ft = Some h, ascent = asc, descent = desc,
        fheight = asc + desc, fwidth = 0, charMax = 0, charMin = 0\<rparr>
   | CoreFont f \<Rightarrow> f\<lparr>xft_ft := None\<rparr>)"

definition opens_xft :: "xworld \<Rightarrow> nat \<Rightarrow> byte list \<Rightarrow> bool" where
  "opens_xft w d p \<longleftrightarrow> (case openFont w d p of XftFont h asc desc \<Rightarrow> True | _ \<Rightarrow> False)"

lemma opens_xft_font: "opens_xft w d p \<Longrightarrow> xft_ft (xft_font (openFont w d p)) \<noteq> None"
  by (simp add: opens_xft_def xft_font_def split: font_open.splits)

lemma fontLoad_xft:
  "opens_xft w d p \<Longrightarrow> length (fontList b) < MAX_FONT_COUNT \<Longrightarrow>
   fontLoad (openFont w d p) b = b\<lparr>fontList := fontList b @ [xft_font (openFont w d p)]\<rparr>"
  by (simp add: opens_xft_def xft_font_def fontLoad_def split: font_open.splits)

lemma load_fonts_connected:
  assumes "dpy s = Ptr d" "connection s = Ptr c" "\<forall>p\<in>set ps. opens_xft w d p"
    and "length (fontList (core s)) + length ps \<le> MAX_FONT_COUNT"
  shows "load_fonts w ps s = Inr (s\<lparr>core := (core s)
      \<lparr>fontList := fontList (core s) @ map (\<lambda>p. xft_font (openFont w d p)) ps\<rparr>,
      fontDisplays := fontDisplays s @ replicate (length ps) d\<rparr>)"
  using assms
proof (induction ps arbitrary: s)
  case (Cons p ps)
  let ?t = "s\<lparr>core := (core s)\<lparr>fontList := fontList (core s) @ [xft_font (openFont w d p)]\<rparr>,
    fontDisplays := fontDisplays s @ [d]\<rparr>"
  have "load_font w p s = Inr ?t"
    using Cons.prems by (simp add: load_font_def fontLoad_xft Let_def)
  then show ?case using Cons.IH [of ?t] Cons.prems by simp
qed simp

lemma load_font_connects:
  "length (fontList (core s)) < MAX_FONT_COUNT \<Longrightarrow> dpy s = Null \<Longrightarrow> xconn w s = Inr t \<Longrightarrow>
   dpy t = Ptr d \<Longrightarrow> connection t = Ptr c \<Longrightarrow> core t = emit rs (core s) \<Longrightarrow>
   load_fonts w (p # ps) s = load_fonts w (p # ps) t"
  by (simp add: load_font_def emit_def)

lemma load_fonts_allocated:
  assumes "rawPointer mem = Null" "connects w 0 d c" "ps \<noteq> []" "length ps \<le> MAX_FONT_COUNT"
    and "\<forall>p\<in>set ps. opens_xft w d p"
  shows "\<exists>s rs. load_fonts w ps (allocated mem topBar ls rls :: ('h, 'cb) bar_object) = Inr s \<and>
    displays s = [d] \<and> fontDisplays s = replicate (length ps) d \<and>
    leftModules s = ls \<and> rightModules s = rls \<and> restSlot s = Null \<and>
    core s = emit rs (core (allocated mem topBar ls rls :: ('h, 'cb) bar_object))\<lparr>fontList := map (\<lambda>p. xft_font (openFont w d p)) ps\<rparr>"
proof -
  let ?a = "allocated mem topBar ls rls :: ('h, 'cb) bar_object"
  have a: "displays ?a = []" "dpy ?a = Null" "fontList (core ?a) = []" "fontDisplays ?a = []"
    "leftModules ?a = ls" "rightModules ?a = rls" "restSlot ?a = Null"
    using assms(1) by (simp_all add: allocated_def)
  obtain t where t: "xconn w ?a = Inr t" "dpy t = Ptr d" "connection t = Ptr c" "displays t = [d]"
    "core t = emit [CreateColormap (colormap t) (visual t)] (core ?a)" "fontDisplays t = []"
    "leftModules t = ls" "rightModules t = rls" "restSlot t = Null"
    using xconn_connects [of w ?a d c] assms(2) a by auto
  have "load_fonts w ps ?a = load_fonts w ps t"
    using assms(3) load_font_connects [OF _ a(2) t(1-3) t(5)] a(3) by (cases ps) (simp_all add: MAX_FONT_COUNT_def)
  moreover have "fontList (core t) = []" using t(5) a(3) by (simp add: emit_def)
  ultimately show ?thesis
    using load_fonts_connected [OF t(2,3) assms(5)] assms(4) t by auto
qed

section \<open>Initialising the windows\<close>

text \<open>What finding the monitors and creating the windows leaves alone.\<close>

definition drawing_state ::
  "bar \<Rightarrow> (glyph_cache \<times> font_t list \<times> int \<times> int list \<times> nat) \<times> color \<times> color \<times> color \<times> bool" where
  "drawing_state b = ((cache b, fontList b, fontIndex b, offsetsY b, offsetYIndex b),
     defaultForeground b, defaultBackground b, defaultUnderline b, processingExpose b)"

lemma drawing_state_emit [simp]: "drawing_state (emit rs b) = drawing_state b"
  by (simp add: drawing_state_def emit_def)

lemma drawing_state_addMonitor [simp]: "drawing_state (addMonitor (monitorNew gen x y w h b)) = drawing_state b"
  by (simp add: addMonitor_def monitorNew_def Let_def drawing_state_def emit_def)

lemma drawing_state_adjust [simp]: "drawing_state (adjust_geometry w h fh b) = drawing_state b"
  by (simp add: adjust_geometry_def Let_def drawing_state_def)

lemma drawing_state_chain [simp]: "drawing_state (chain_loop gen left w rs b) = drawing_state b"
  by (induction rs arbitrary: left w b) (simp_all add: Let_def)

lemma monitors_emit [simp]: "monitors (emit rs b) = monitors b" "fontList (emit rs b) = fontList b"
  by (simp_all add: emit_def)

lemma show_windows_emit: "\<exists>rs. fold (show_window wm_name wm_instance) ms b = emit rs b"
proof (induction ms arbitrary: b)
  case Nil
  have "fold (show_window wm_name wm_instance) [] b = emit [] b" by (simp add: emit_def)
  then show ?case by blast
next
  case (Cons m ms)
  obtain rs where "show_window wm_name wm_instance m b = emit rs b"
    by (simp add: show_window_def fillRect_def emit_def)
  moreover obtain rs' where "fold (show_window wm_name wm_instance) ms (emit rs b) = emit rs' (emit rs b)"
    using Cons by blast
  ultimately show ?case by (auto simp: emit_def intro!: exI [of _ "rs @ rs'"])
qed

definition outputs_usable :: "output_info list option \<Rightarrow> bool" where
  "outputs_usable randr = (case randr of None \<Rightarrow> True
     | Some outs \<Rightarrow> list_all (\<lambda>out. case out of Crtc r \<Rightarrow> 0 < rw r | _ \<Rightarrow> True) outs)"

lemma active_Cons: "active (r # rs) = (if rw r \<noteq> 0 then {0} else {}) \<union> Suc ` active rs"
proof (rule set_eqI)
  show "i \<in> active (r # rs) \<longleftrightarrow> i \<in> (if rw r \<noteq> 0 then {0} else {}) \<union> Suc ` active rs" for i
    by (cases i) (auto simp: active_def)
qed

lemma output_rects_active:
  "list_all (\<lambda>out. case out of Crtc r \<Rightarrow> 0 < rw r | _ \<Rightarrow> True) outs \<Longrightarrow> output_rects outs = Some (rs, v) \<Longrightarrow>
   v = int (card (active rs))"
proof (induction outs arbitrary: rs v)
  case Nil
  then show ?case by (simp add: active_def)
next
  case (Cons out outs)
  have c: "card (insert 0 (Suc ` active ts)) = Suc (card (active ts))" for ts
    by (simp add: card_image)
  show ?case
    using Cons by (cases out) (auto simp: active_Cons card_image c)
qed

lemma drop_clones_count:
  assumes "drop_clones (rs, int (card (active rs))) = (rs', valid)"
  shows "length (filter (\<lambda>r. rw r \<noteq> 0) rs') = nat valid"
proof -
  obtain A where A: "drop_clones (rs, int (card (active rs))) = (mask rs A, int (card A))" "A \<subseteq> active rs"
    by (rule drop_clones_active)
  have a: "active (mask rs A) = A" using A(2) rw_mask [OF A(2)] by (auto simp: active_def)
  have "length (filter (\<lambda>r. rw r \<noteq> 0) (mask rs A)) = card (active (mask rs A))"
    by (simp add: length_filter_conv_card active_def)
  then show ?thesis using A(1) assms a by simp
qed

lemma monitorCreateChain_cases:
  assumes "fontList b \<noteq> []"
  shows "case monitorCreateChain gen qsort rects b of Inl e \<Rightarrow> e = Exit_Failure
    | Inr b' \<Rightarrow> drawing_state b' = drawing_state b"
  using assms by (auto simp: monitorCreateChain_def Let_def split: list.splits prod.splits)

lemma getRandrMonitors_cases:
  assumes "fontList b \<noteq> []" "outputs_usable (Some outs)"
  shows "case getRandrMonitors gen qsort outs b of Inl e \<Rightarrow> e = Exit_Failure
    | Inr b' \<Rightarrow> drawing_state b' = drawing_state b"
proof (cases "outs = [] \<or> output_rects outs = None")
  case True
  then show ?thesis by (auto simp: getRandrMonitors_def)
next
  case False
  then obtain rs v where o: "outs \<noteq> []" "output_rects outs = Some (rs, v)" by auto
  obtain rs' valid where d: "drop_clones (rs, v) = (rs', valid)" by fastforce
  have "v = int (card (active rs))"
    using output_rects_active o(2) assms(2) by (simp add: outputs_usable_def)
  then have "length (filter (\<lambda>r. rw r \<noteq> 0) rs') = nat valid" using drop_clones_count d by blast
  then show ?thesis
    using o d monitorCreateChain_cases [OF assms(1)] by (simp add: getRandrMonitors_def Let_def)
qed

lemma drawing_state_fonts: "drawing_state b' = drawing_state b \<Longrightarrow> fontList b' = fontList b"
  by (simp add: drawing_state_def)

lemma drawing_state_with:
  "drawing_state (b\<lparr>fontList := fs, monitors := ms\<rparr>) = drawing_state (b\<lparr>fontList := fs\<rparr>)"
  by (simp add: drawing_state_def)

lemma unify_heights_Nil [simp]: "unify_heights fs = [] \<longleftrightarrow> fs = []"
  by (simp add: unify_heights_def Let_def split: list.splits)

text \<open>After the monitors are known, \<open>init\<close> only adds the whole screen if there is none, and draws.\<close>

lemma init_cases:
  assumes "fontList b \<noteq> []" "outputs_usable randr"
  shows "case init gen qsort dflt randr W H nm inst b of Inl e \<Rightarrow> e = Exit_Failure
    | Inr b' \<Rightarrow> monitors b' \<noteq> [] \<and> drawing_state b' = drawing_state (b\<lparr>fontList := unify_heights (fontList b)\<rparr>)"
proof -
  let ?b1 = "b\<lparr>fontList := unify_heights (fontList b), monitors := []\<rparr>"
  let ?found = "case randr of Some outs \<Rightarrow> getRandrMonitors gen qsort outs ?b1 | None \<Rightarrow> Inr ?b1"
  have found: "case ?found of Inl e \<Rightarrow> e = Exit_Failure | Inr b2 \<Rightarrow> drawing_state b2 = drawing_state ?b1"
    using getRandrMonitors_cases [of ?b1] assms by (cases randr) auto
  show ?thesis
  proof (cases ?found)
    case (Inl e)
    then show ?thesis using found assms(1) by (simp add: init_def Let_def)
  next
    case (Inr b2)
    let ?fb = "if monitors b2 = [] then init_fallback gen W H (fheight (hd (fontList b2))) b2 else Inr b2"
    have b2: "drawing_state b2 = drawing_state ?b1" using found Inr by simp
    have fb: "case ?fb of Inl e \<Rightarrow> e = Exit_Failure
        | Inr b3 \<Rightarrow> monitors b3 \<noteq> [] \<and> drawing_state b3 = drawing_state b2"
      by (auto simp: init_fallback_def Let_def)
    show ?thesis
    proof (cases ?fb)
      case (Inl e)
      then show ?thesis using fb \<open>?found = Inr b2\<close> assms(1) by (simp add: init_def Let_def)
    next
      case (Inr b3)
      obtain b5 rs where b5: "init gen qsort dflt randr W H nm inst b = Inr (emit rs b5)"
        "drawing_state b5 = drawing_state b3" "monitors b5 = monitors b3"
      proof -
        let ?b4 = "emit [CreateGC GC_DRAW (curForeground b3), CreateGC GC_CLEAR (curBackground b3),
          CreateGC GC_ATTR (curUnderline b3)] (setEwmhAtoms b3)"
        obtain rs where "fold (show_window nm inst) (monitors ?b4) ?b4 = emit rs ?b4"
          using show_windows_emit by blast
        then have "init gen qsort dflt randr W H nm inst b =
            Inr (emit [XftAllocColor (color_name (curForeground (emit rs ?b4))), Flush] (emit rs ?b4))"
          using \<open>?found = Inr b2\<close> Inr assms(1) by (simp add: init_def Let_def)
        then show thesis
          by (rule that) (simp_all add: setEwmhAtoms_def)
      qed
      then show ?thesis using fb Inr b2 by (simp add: drawing_state_with)
    qed
  qed
qed

lemma init_without_randr:
  assumes "fontList b \<noteq> []" "bw b = - 1" "bh b = - 1" "bx b = 0" "bar_y b = 0" "bu b = 1"
  shows "(\<exists>b'. init gen qsort dflt None W H nm inst b = Inr b') \<longleftrightarrow>
    fheight (hd (unify_heights (fontList b))) + 3 \<le> H"
  using assms by (auto simp: init_def init_fallback_def Let_def adjust_geometry_def fits_def algebra_simps)

section \<open>The constructor establishes a bar that can be drawn\<close>

text \<open>
  The assumptions on the surroundings: the memory of the object is zeroed (as large blocks from
  the system are), both calls of \<open>xconn\<close> connect, all fonts open as Xft fonts on the first
  display, the separator has glyphs, and every output in use has a width.
\<close>

definition zeroed :: "raw_memory \<Rightarrow> bool" where
  "zeroed mem \<longleftrightarrow> rawPointer mem = Null \<and> rawTable mem = empty_cache \<and>
     rawOffsets mem = replicate MAX_FONT_COUNT 0"

definition opened_fonts :: "xworld \<Rightarrow> nat \<Rightarrow> byte list list \<Rightarrow> font_t list" where
  "opened_fonts w d fonts = unify_heights (map (\<lambda>p. xft_font (openFont w d p)) fonts)"

definition server_ok ::
  "xworld \<Rightarrow> 32 word set \<Rightarrow> byte list list \<Rightarrow> nat \<Rightarrow> nat \<Rightarrow> nat \<Rightarrow> nat \<Rightarrow> bool" where
  "server_ok w V fonts d0 c0 d1 c1 \<longleftrightarrow> connects w 0 d0 c0 \<and> connects w 1 d1 c1 \<and>
     fonts \<noteq> [] \<and> length fonts \<le> MAX_FONT_COUNT \<and> (\<forall>p\<in>set fonts. opens_xft w d0 p) \<and>
     sep_glyph (glyphServer w) (opened_fonts w d0 fonts) 32 \<and>
     sep_glyph (glyphServer w) (opened_fonts w d0 fonts) 0x258f \<and>
     outputs_usable (randrOutputs w c1) \<and> vocabulary V"

definition bar_ready :: "xworld \<Rightarrow> 32 word set \<Rightarrow> ('h, 'cb) bar_object \<Rightarrow> bool" where
  "bar_ready w V s \<longleftrightarrow> bar_ok (glyphServer w) V (core s) \<and> separator_ok (glyphServer w) (core s) \<and>
     monitors (core s) \<noteq> [] \<and> modules_displayable V (leftModules s) \<and>
     modules_displayable V (rightModules s)"

lemma length_unify_heights [simp]: "length (unify_heights fs) = length fs"
  by (simp add: unify_heights_def Let_def split: list.splits)

lemma xft_unify_heights: "f \<in> set (unify_heights fs) \<Longrightarrow> xft_ft f \<in> xft_ft ` set fs"
  by (auto simp: unify_heights_def Let_def split: list.splits)

lemma bar_ok_initial:
  assumes "vocabulary V" "fontList b \<noteq> []" "length (fontList b) \<le> MAX_FONT_COUNT"
    and "\<forall>f\<in>set (fontList b). xft_ft f \<noteq> None"
    and "fontIndex b = - 1" "length (offsetsY b) = MAX_FONT_COUNT" "offsetYIndex b = 0" "cache b = empty_cache"
  shows "bar_ok x V b"
  using assms by (simp add: bar_ok_def MAX_FONT_COUNT_def)

text \<open>The state in which \<open>init\<close> is called.\<close>

lemma newBar_before_init:
  assumes "zeroed mem" "server_ok w V fonts d0 c0 d1 c1"
  obtains s :: "('h, 'cb) bar_object" where
    "newBar w mem barName bg fg topBar fonts ls rs =
      (case init_object w barName s of Inl e \<Rightarrow> Inl e
       | Inr t \<Rightarrow> (case initSeparator (glyphServer w) (core t) of
           None \<Rightarrow> Inl Undefined | Some b \<Rightarrow> Inr (t\<lparr>core := b\<rparr>)))"
    "dpy s = Ptr d1" "connection s = Ptr c1" "displays s = [d0, d1]"
    "fontDisplays s = replicate (length fonts) d0" "leftModules s = ls" "rightModules s = rs" "restSlot s = Null"
    "fontList (core s) = map (\<lambda>p. xft_font (openFont w d0 p)) fonts"
    "bw (core s) = - 1" "bh (core s) = - 1" "bx (core s) = 0" "bar_y (core s) = 0" "bu (core s) = 1"
    "fontIndex (core s) = - 1" "offsetsY (core s) = replicate MAX_FONT_COUNT 0" "offsetYIndex (core s) = 0"
    "cache (core s) = empty_cache"
    "defaultBackground (core s) = fst (parse_color (Some bg) 0)"
    "defaultForeground (core s) = fst (parse_color (Some fg) 0x11111111)"
proof -
  have srv: "connects w 0 d0 c0" "connects w 1 d1 c1" "fonts \<noteq> []" "length fonts \<le> MAX_FONT_COUNT"
    "\<forall>p\<in>set fonts. opens_xft w d0 p" and mem: "rawPointer mem = Null" "rawTable mem = empty_cache"
    "rawOffsets mem = replicate MAX_FONT_COUNT 0"
    using assms by (auto simp: server_ok_def zeroed_def)
  obtain s1 :: "('h, 'cb) bar_object" and es where s1: "load_fonts w fonts (allocated mem topBar ls rs) = Inr s1"
    "displays s1 = [d0]" "fontDisplays s1 = replicate (length fonts) d0"
    "leftModules s1 = ls" "rightModules s1 = rs" "restSlot s1 = Null"
    "core s1 = emit es (core (allocated mem topBar ls rs :: ('h, 'cb) bar_object))
      \<lparr>fontList := map (\<lambda>p. xft_font (openFont w d0 p)) fonts\<rparr>"
    using load_fonts_allocated [OF mem(1) srv(1,3,4,5)] by blast
  let ?s = "s1\<lparr>core := set_default_colors bg fg (core s1)\<rparr>"
  have "connects w (length (displays ?s)) d1 c1" using srv(2) s1(2) by simp
  from xconn_connects [OF this] obtain s2 where s2: "xconn w ?s = Inr s2" "dpy s2 = Ptr d1"
    "connection s2 = Ptr c1" "displays s2 = [d0] @ [d1]"
    "core s2 = emit [CreateColormap (colormap s2) (visual s2)] (set_default_colors bg fg (core s1))"
    "fontDisplays s2 = replicate (length fonts) d0" "leftModules s2 = ls" "rightModules s2 = rs" "restSlot s2 = Null"
    using s1(2-6) by auto
  show thesis
    by (rule that [of s2])
      (use s1(1,7) s2 mem in \<open>simp_all add: newBar_def allocated_def set_default_colors_def emit_def Let_def\<close>)
qed

lemma newBar_cases:
  assumes mem: "zeroed mem" and server: "server_ok w V fonts d0 c0 d1 c1"
    and disp: "modules_displayable V ls" "modules_displayable V rs"
  shows "case (newBar w mem barName bg fg topBar fonts ls rs :: failure + ('h, 'cb) bar_object) of
      Inl e \<Rightarrow> e = Exit_Failure \<and>
        (randrOutputs w c1 = None \<longrightarrow>
          snd (screen_pixels w c1) < fheight (hd (opened_fonts w d0 fonts)) + 3)
    | Inr s \<Rightarrow> bar_ready w V s \<and> fontList (core s) = opened_fonts w d0 fonts \<and>
        defaultBackground (core s) = fst (parse_color (Some bg) 0) \<and>
        defaultForeground (core s) = fst (parse_color (Some fg) 0x11111111) \<and>
        leftModules s = ls \<and> rightModules s = rs \<and> restSlot s = Null \<and>
        displays s = [d0, d1] \<and> dpy s = Ptr d1 \<and> connection s = Ptr c1 \<and>
        fontDisplays s = replicate (length fonts) d0 \<and>
        (randrOutputs w c1 = None \<longrightarrow>
          fheight (hd (opened_fonts w d0 fonts)) + 3 \<le> snd (screen_pixels w c1))"
proof -
  obtain s :: "('h, 'cb) bar_object" where s: "newBar w mem barName bg fg topBar fonts ls rs =
      (case init_object w barName s of Inl e \<Rightarrow> Inl e
       | Inr t \<Rightarrow> (case initSeparator (glyphServer w) (core t) of
           None \<Rightarrow> Inl Undefined | Some b \<Rightarrow> Inr (t\<lparr>core := b\<rparr>)))"
    "dpy s = Ptr d1" "connection s = Ptr c1" "displays s = [d0, d1]"
    "fontDisplays s = replicate (length fonts) d0" "leftModules s = ls" "rightModules s = rs" "restSlot s = Null"
    and b: "fontList (core s) = map (\<lambda>p. xft_font (openFont w d0 p)) fonts"
    "bw (core s) = - 1" "bh (core s) = - 1" "bx (core s) = 0" "bar_y (core s) = 0" "bu (core s) = 1"
    "fontIndex (core s) = - 1" "offsetsY (core s) = replicate MAX_FONT_COUNT 0" "offsetYIndex (core s) = 0"
    "cache (core s) = empty_cache"
    "defaultBackground (core s) = fst (parse_color (Some bg) 0)"
    "defaultForeground (core s) = fst (parse_color (Some fg) 0x11111111)"
    by (rule newBar_before_init [OF mem server])
  have srv: "fonts \<noteq> []" "length fonts \<le> MAX_FONT_COUNT" "\<forall>p\<in>set fonts. opens_xft w d0 p"
    "sep_glyph (glyphServer w) (opened_fonts w d0 fonts) 32"
    "sep_glyph (glyphServer w) (opened_fonts w d0 fonts) 0x258f"
    "outputs_usable (randrOutputs w c1)" "vocabulary V"
    using server by (simp_all add: server_ok_def)
  let ?init = "init (newId w) (qsortRects w) (openFont w d1 (bytes ''fixed'')) (randrOutputs w c1)
    (fst (screen_pixels w c1)) (snd (screen_pixels w c1)) (Some barName) (Some barName) (core s)"
  have f: "fontList (core s) \<noteq> []" using b(1) srv(1) by simp
  note init = init_cases [OF f srv(6), of "newId w" "qsortRects w" "openFont w d1 (bytes ''fixed'')"
      "fst (screen_pixels w c1)" "snd (screen_pixels w c1)" "Some barName" "Some barName"]
  show ?thesis
  proof (cases ?init)
    case (Inl e)
    then show ?thesis
      using init s(1-3) init_without_randr [OF f b(2-6), of "newId w" "qsortRects w" "openFont w d1 (bytes ''fixed'')"
          "fst (screen_pixels w c1)" "snd (screen_pixels w c1)" "Some barName" "Some barName"]
      by (auto simp: init_object_def opened_fonts_def b(1))
  next
    case (Inr b')
    have b': "monitors b' \<noteq> []" "fontList b' = opened_fonts w d0 fonts" "cache b' = empty_cache"
      "fontIndex b' = - 1" "offsetsY b' = replicate MAX_FONT_COUNT 0" "offsetYIndex b' = 0"
      "defaultBackground b' = fst (parse_color (Some bg) 0)"
      "defaultForeground b' = fst (parse_color (Some fg) 0x11111111)"
      using init Inr b by (simp_all add: drawing_state_def opened_fonts_def)
    have len: "length (fontList b') = length fonts" "length (fontList (core s)) = length fonts"
      using b'(2) b(1) by (simp_all add: opened_fonts_def)
    have "xft_ft g \<noteq> None" if "g \<in> set (fontList b')" for g
      using xft_unify_heights that srv(3) opens_xft_font unfolding b'(2) opened_fonts_def by fastforce
    then have ok: "bar_ok (glyphServer w) V b'"
      using b' srv(2,7) len(1) srv(1) by (intro bar_ok_initial) auto
    obtain b'' where b'': "initSeparator (glyphServer w) b' = Some b''" "bar_ok (glyphServer w) V b''"
      "separator_ok (glyphServer w) b''" "fixed (b''\<lparr>separator := separator b'\<rparr>) = fixed b'"
      using initSeparator_establishes [OF ok] srv(4,5) b'(2) by auto
    then have "fontList b'' = fontList b'" "monitors b'' = monitors b'"
      "defaultBackground b'' = defaultBackground b'" "defaultForeground b'' = defaultForeground b'"
      by (simp_all add: fixed_def)
    then show ?thesis
      using s b' b'' len Inr disp init_without_randr [OF f b(2-6), of "newId w" "qsortRects w"
          "openFont w d1 (bytes ''fixed'')" "fst (screen_pixels w c1)" "snd (screen_pixels w c1)" "Some barName" "Some barName"]
      by (auto simp: init_object_def bar_ready_def opened_fonts_def b(1))
  qed
qed

lemma newBar_ready:
  fixes s :: "('h, 'cb) bar_object"
  assumes "zeroed mem" "server_ok w V fonts d0 c0 d1 c1"
    and "modules_displayable V ls" "modules_displayable V rs"
    and "newBar w mem barName bg fg topBar fonts ls rs = Inr s"
  shows "bar_ready w V s \<and> fontList (core s) = opened_fonts w d0 fonts \<and> connection s = Ptr c1 \<and> restSlot s = Null"
  using newBar_cases [OF assms(1-4), where 'cb = 'cb and barName = barName and bg = bg and fg = fg and topBar = topBar] assms(5) by simp


section \<open>The life of a bar\<close>

text \<open>What stays as the constructor has left it.\<close>

definition bar_resources ::
  "('h, 'cb) bar_object \<Rightarrow> (nat cell \<times> nat cell \<times> nat cell \<times> (gc_kind \<Rightarrow> 32 word) \<times> nat list)
    \<times> font_t list \<times> monitor_t list \<times> nat list" where
  "bar_resources s = ((dpy s, connection s, restSlot s, gcs s, displays s),
     fontList (core s), monitors (core s), fontDisplays s)"

lemma feed_object_ready:
  assumes "bar_ready w V s"
  shows "\<exists>s'. feed_object w s = Some s' \<and> bar_ready w V s' \<and> bar_resources s' = bar_resources s"
proof -
  obtain mon mons where mon: "monitors (core s) = mon # mons"
    using assms by (cases "monitors (core s)") (auto simp: bar_ready_def)
  have ok: "bar_ok (glyphServer w) V (core s)" "separator_ok (glyphServer w) (core s)"
    "modules_displayable V (leftModules s)" "modules_displayable V (rightModules s)"
    using assms by (simp_all add: bar_ready_def)
  obtain ls rs b where f: "feed (glyphServer w) True (leftModules s) (rightModules s) (core s) = Some (ls, rs, b)"
    "bar_ok (glyphServer w) V b" "separator_ok (glyphServer w) b" "modules_displayable V ls"
    "modules_displayable V rs" "fixed b = fixed (core s)"
    using feed_layout_ok [OF ok(1,2) mon ok(3,4)] by blast
  then show ?thesis
    using mon by (auto simp: feed_object_def bar_ready_def bar_resources_def fixed_def)
qed

lemma processXEvents_ready:
  assumes "bar_ok x V b" "separator_ok x b" "processXEvents mods run evs st b = (st', b')"
  shows "bar_ok x V b' \<and> separator_ok x b' \<and> fontList b' = fontList b \<and> monitors b' = monitors b"
proof -
  let ?c = "copy_windows (b\<lparr>processingExpose := True\<rparr>)"
  have "bar_ok x V (b\<lparr>processingExpose := True\<rparr>)" using assms(1) by simp
  then have s: "steps_to x V (b\<lparr>processingExpose := True\<rparr>) ?c" by auto
  then have "bar_ok x V (?c\<lparr>processingExpose := False\<rparr>)" using steps_to_ok by fastforce
  then show ?thesis
    using assms steps_to_fixed [OF s]
    by (auto simp: processXEvents_def separator_ok_def split: prod.splits if_splits)
qed

lemma events_object_ready:
  assumes "bar_ready w V s" "modules_displayable V (leftModules (events_object run evs s))"
    "modules_displayable V (rightModules (events_object run evs s))"
  shows "bar_ready w V (events_object run evs s) \<and> bar_resources (events_object run evs s) = bar_resources s"
proof -
  obtain ls rs b where e: "processXEvents (\<lambda>(ls, rs). ls @ rs) run evs (leftModules s, rightModules s) (core s) = ((ls, rs), b)"
    by (metis surj_pair)
  have "bar_ok (glyphServer w) V b \<and> separator_ok (glyphServer w) b \<and> fontList b = fontList (core s) \<and>
      monitors b = monitors (core s)"
    by (rule processXEvents_ready [OF _ _ e]) (use assms(1) in \<open>simp_all add: bar_ready_def\<close>)
  then show ?thesis
    using assms by (simp add: bar_ready_def events_object_def bar_resources_def e)
qed

lemma bar_life_ready:
  assumes "bar_life w V s0 s" "bar_ready w V s0"
  shows "bar_ready w V s \<and> bar_resources s = bar_resources s0"
  using assms
proof (induction rule: bar_life.induct)
  case (drawn s s')
  then show ?case using feed_object_ready [of w V s] by auto
next
  case (changed s ls rs)
  then show ?case by (simp add: bar_ready_def bar_resources_def)
next
  case (events_done s s' run evs)
  then show ?case using events_object_ready by metis
next
  case (callback_set s cb)
  then show ?case by (simp add: bar_ready_def bar_resources_def setClickHandler_def)
qed simp

text \<open>
  C5 (invariant): In every state a bar of the program reaches, whatever the order of redraws, X
  events, changes of the texts and callbacks, the bar is ready: the next redraw succeeds.  Its
  windows and fonts are those the constructor has made, and the file descriptor it is waited for
  with is that of the second connection.
\<close>

theorem bar_life_invariant:
  assumes "zeroed mem" "server_ok w V fonts d0 c0 d1 c1"
    and "modules_displayable V ls" "modules_displayable V rs"
    and "newBar w mem barName bg fg topBar fonts ls rs = Inr s0" "bar_life w V s0 s"
  shows "bar_ready w V s \<and> (\<exists>s'. feed_object w s = Some s' \<and> bar_ready w V s') \<and>
    monitors (core s) = monitors (core s0) \<and> fontList (core s) = opened_fonts w d0 fonts \<and>
    getXcbFd w s = Some (xcb_get_file_descriptor w c1)"
proof -
  have s0: "bar_ready w V s0" "fontList (core s0) = opened_fonts w d0 fonts" "connection s0 = Ptr c1"
    using newBar_ready [OF assms(1-5)] by simp_all
  have s: "bar_ready w V s" "bar_resources s = bar_resources s0"
    using bar_life_ready [OF assms(6) s0(1)] by simp_all
  then show ?thesis
    using feed_object_ready [OF s(1)] s0 by (auto simp: bar_resources_def getXcbFd_def)
qed

section \<open>The destructor\<close>

lemma close_fonts_eq:
  "close_fonts rest i fs = (if i + length fs < MAX_FONT_COUNT \<and> rest = Null then Inr (map close_font fs) else Inl Undefined)"
  by (induction fs arbitrary: i) auto

text \<open>
  C16 (safety): Destroying a bar of the program closes each of its fonts once, in the order of the
  list, then destroys each window and frees its pixmap, and closes the second connection; the
  first connection stays open.  With as many fonts as the list holds the destructor reads behind
  the end of the array instead.
\<close>

theorem destructor_releases:
  assumes "zeroed mem" "server_ok w V fonts d0 c0 d1 c1"
    and "modules_displayable V ls" "modules_displayable V rs"
    and "newBar w mem barName bg fg topBar fonts ls rs = Inr s0" "bar_life w V s0 s"
  shows "deleteBar s =
    (if length fonts = MAX_FONT_COUNT then Inl Undefined
     else Inr (xlog (core s) @ map close_font (opened_fonts w d0 fonts) @
       concat (map (\<lambda>m. [DestroyWindow (mon_window m), FreePixmap (mon_pixmap m)]) (monitors (core s0))) @
       [XftFreeColor] @ map FreeGC (filter (\<lambda>g. gcs s0 g \<noteq> 0) [GC_DRAW, GC_CLEAR, GC_ATTR]) @
       [Disconnect c1]))"
proof -
  have s0: "bar_ready w V s0" "fontList (core s0) = opened_fonts w d0 fonts" "connection s0 = Ptr c1"
    "restSlot s0 = Null"
    using newBar_ready [OF assms(1-5)] by simp_all
  have "bar_resources s = bar_resources s0" using bar_life_ready [OF assms(6) s0(1)] by simp
  moreover have "length (opened_fonts w d0 fonts) = length fonts" "length fonts \<le> MAX_FONT_COUNT"
    using assms(2) by (simp_all add: opened_fonts_def server_ok_def)
  ultimately show ?thesis
    using s0 by (auto simp: deleteBar_def close_fonts_eq bar_resources_def)
qed

section \<open>An instance\<close>

text \<open>A screen of 1366 by 768 pixels without RandR; every pattern opens as an Xft font 13 pixels high.\<close>

definition demo_world :: xworld where
  "demo_world = \<lparr>XOpenDisplay = Some, XGetXCBConnection = Some, xcb_connection_has_error = (\<lambda>_. False),
     xcb_get_file_descriptor = (\<lambda>c. int c + 3), XGetVisualInfo = (\<lambda>_. []), DefaultVisual = (\<lambda>_. 7),
     root_visual = (\<lambda>_. 33), screen_pixels = (\<lambda>_. (1366, 768)), openFont = (\<lambda>_ _. XftFont 1 10 3),
     randrOutputs = (\<lambda>_. None), qsortRects = id, newId = of_nat, colormapId = (\<lambda>_. 32),
     gcId = (\<lambda>_ g. case g of GC_DRAW \<Rightarrow> 40 | GC_CLEAR \<Rightarrow> 41 | GC_ATTR \<Rightarrow> 42), glyphServer = demo_x\<rparr>"

definition zero_memory :: raw_memory where
  "zero_memory = \<lparr>rawPointer = Null, rawTable = empty_cache, rawOffsets = replicate MAX_FONT_COUNT 0\<rparr>"

definition demo_patterns :: "byte list list" where
  "demo_patterns = [bytes ''text'', bytes ''icon'']"

definition demo_made :: "failure + (nat, unit) bar_object" where
  "demo_made = newBar demo_world zero_memory (bytes ''topBar'') (bytes ''#1A1A1A'') (bytes ''#FFF'') True
     demo_patterns [demo_module [65]] [demo_module [66]]"

lemma demo_server: "zeroed zero_memory" "server_ok demo_world demo_V demo_patterns 0 0 1 1"
proof -
  have "vocabulary demo_V" using bar_ok_vocabulary demo_bar_ok by blast
  then show "server_ok demo_world demo_V demo_patterns 0 0 1 1"
    by (simp add: server_ok_def demo_patterns_def demo_world_def connects_def opens_xft_def MAX_FONT_COUNT_def
        opened_fonts_def unify_heights_def xft_font_def sep_glyph_def sel_font_def demo_x_def outputs_usable_def)
  show "zeroed zero_memory" by (simp add: zeroed_def zero_memory_def)
qed

lemma demo_fonts_height: "fheight (hd (opened_fonts demo_world 0 demo_patterns)) = 13"
  by (simp add: opened_fonts_def demo_patterns_def demo_world_def unify_heights_def xft_font_def Let_def)

lemma demo_texts: "modules_displayable demo_V [demo_module [65]]" "modules_displayable demo_V [demo_module [66]]"
  using demo_modules modules_displayable_Cons by blast+

lemma demo_screen: "randrOutputs demo_world (Suc 0) = None" "snd (screen_pixels demo_world (Suc 0)) = 768"
  by (simp_all add: demo_world_def)


lemma demo_made_ready: "\<exists>s. demo_made = Inr s \<and> bar_ready demo_world demo_V s"
proof -
  note c = newBar_cases [OF demo_server demo_texts, where 'cb = unit and barName = "bytes ''topBar''" and
      bg = "bytes ''#1A1A1A''" and fg = "bytes ''#FFF''" and topBar = True, folded demo_made_def]
  show ?thesis
  proof (cases demo_made)
    case (Inl e)
    then show ?thesis using c unfolding Inl by (simp add: demo_screen demo_fonts_height)
  next
    case (Inr s)
    then show ?thesis using c unfolding Inr by simp
  qed
qed

theorem bar_life_invariant_witness:
  "\<exists>s s'. demo_made = Inr s \<and> feed_object demo_world s = Some s' \<and>
     getXcbFd demo_world (setClickHandler () s') = Some 4"
proof -
  obtain s where s: "demo_made = Inr s" "bar_ready demo_world demo_V s" using demo_made_ready by blast
  obtain s' where s': "feed_object demo_world s = Some s'" using feed_object_ready [OF s(2)] by blast
  have "bar_life demo_world demo_V s (setClickHandler () s')"
    by (rule callback_set [OF drawn [OF constructed s']])
  from bar_life_invariant [OF demo_server demo_texts s(1) [unfolded demo_made_def] this] s(1) s'
  show ?thesis by (auto simp: demo_world_def)
qed

theorem destructor_releases_witness:
  "\<exists>s rs. demo_made = Inr s \<and> deleteBar s = Inr (rs @ [Disconnect 1])"
proof -
  obtain s where s: "demo_made = Inr s" "bar_ready demo_world demo_V s" using demo_made_ready by blast
  have len: "length demo_patterns \<noteq> MAX_FONT_COUNT" by (simp add: demo_patterns_def MAX_FONT_COUNT_def)
  note d = destructor_releases [OF demo_server demo_texts s(1) [unfolded demo_made_def] constructed]
  obtain rs where "deleteBar s = Inr (rs @ [Disconnect 1])"
    by (rule that, use d len in \<open>simp only: if_False append_assoc [symmetric]\<close>)
  then show ?thesis using s(1) by blast
qed

end
