(* ===== verification/Notify_Manager.thy ===== *)
theory Notify_Manager
  imports Prelude
begin

text \<open>
  \<open>notifyManeger.h\<close>: the wrapper of libnotify that sends desktop notifications.  The library is
  not part of the program: its functions are the argument \<open>libnotify\<close>, and they work on a state of
  a type \<open>'l\<close> of their own.  What its documentation promises is the hypothesis \<open>libnotify_spec\<close>.
\<close>

section \<open>The wrapper\<close>

datatype urgency = URGENCY_LOW | URGENCY_NORMAL | URGENCY_CRITICAL

record 'l libnotify =
  notify_init :: "byte list \<Rightarrow> 'l \<Rightarrow> 'l"
  notify_is_initted :: "'l \<Rightarrow> bool"
  notify_uninit :: "'l \<Rightarrow> 'l"
  notify_notification_new :: "byte list \<Rightarrow> byte list \<Rightarrow> byte list option \<Rightarrow> 'l \<Rightarrow> nat \<times> 'l"
  notify_notification_set_urgency :: "nat \<Rightarrow> urgency \<Rightarrow> 'l \<Rightarrow> 'l"
  notify_notification_show :: "nat \<Rightarrow> 'l \<Rightarrow> 'l"
  g_object_unref :: "nat \<Rightarrow> 'l \<Rightarrow> 'l"

definition newNotifyManager :: "'l libnotify \<Rightarrow> byte list \<Rightarrow> 'l \<Rightarrow> 'l" where
  "newNotifyManager L appName l = notify_init L appName l"

definition deleteNotifyManager :: "'l libnotify \<Rightarrow> 'l \<Rightarrow> 'l" where
  "deleteNotifyManager L l = (if notify_is_initted L l then notify_uninit L l else l)"

text \<open>The texts are C strings, and an empty icon is passed as the null pointer.\<close>

definition send ::
  "'l libnotify \<Rightarrow> byte list \<Rightarrow> byte list \<Rightarrow> urgency \<Rightarrow> byte list \<Rightarrow> 'l \<Rightarrow> 'l" where
  "send L title body urgency icon l =
     (let (n, l1) = notify_notification_new L (cstr title) (cstr body)
                      (if icon = [] then None else Some (cstr icon)) l;
          l2 = notify_notification_set_urgency L n urgency l1;
          l3 = notify_notification_show L n l2
      in g_object_unref L n l3)"

text \<open>The static object of \<open>instance()\<close> is constructed when the function is called first.\<close>

definition notify_instance :: "'l libnotify \<Rightarrow> bool \<times> 'l \<Rightarrow> bool \<times> 'l" where
  "notify_instance L st =
     (if fst st then st else (True, newNotifyManager L (bytes ''PhotonBar'') (snd st)))"

text \<open>\<open>NotifyManager::instance().send(title, body, urgency, icon)\<close>, and a sequence of such calls.\<close>

type_synonym message = "byte list \<times> byte list \<times> urgency \<times> byte list"

definition notify :: "'l libnotify \<Rightarrow> message \<Rightarrow> bool \<times> 'l \<Rightarrow> bool \<times> 'l" where
  "notify L msg st =
     (let (created, l) = notify_instance L st; (title, body, urgency, icon) = msg
      in (created, send L title body urgency icon l))"

section \<open>What libnotify promises\<close>

text \<open>
  \<open>live\<close> are the notification objects that have not been released, with their contents, \<open>shown\<close>
  what the server was asked to show, and \<open>inits\<close> the names of the applications it was
  initialised for.  Showing needs an initialised library.
\<close>

type_synonym contents = "byte list \<times> byte list \<times> byte list option \<times> urgency"

record 'l view =
  live :: "'l \<Rightarrow> nat \<rightharpoonup> contents"
  shown :: "'l \<Rightarrow> contents list"
  inits :: "'l \<Rightarrow> byte list list"

definition libnotify_spec :: "'l libnotify \<Rightarrow> 'l view \<Rightarrow> bool" where
  "libnotify_spec L v \<longleftrightarrow>
     (\<forall>a l. live v (notify_init L a l) = live v l \<and> shown v (notify_init L a l) = shown v l \<and>
        inits v (notify_init L a l) = inits v l @ [a]) \<and>
     (\<forall>t b i l n l'. notify_notification_new L t b i l = (n, l') \<longrightarrow> live v l n = None \<and>
        live v l' = (live v l)(n \<mapsto> (t, b, i, URGENCY_NORMAL)) \<and> shown v l' = shown v l \<and> inits v l' = inits v l) \<and>
     (\<forall>n u l t b i u'. live v l n = Some (t, b, i, u') \<longrightarrow>
        live v (notify_notification_set_urgency L n u l) = (live v l)(n \<mapsto> (t, b, i, u)) \<and>
        shown v (notify_notification_set_urgency L n u l) = shown v l \<and>
        inits v (notify_notification_set_urgency L n u l) = inits v l) \<and>
     (\<forall>n l c. live v l n = Some c \<and> inits v l \<noteq> [] \<longrightarrow>
        live v (notify_notification_show L n l) = live v l \<and>
        shown v (notify_notification_show L n l) = shown v l @ [c] \<and>
        inits v (notify_notification_show L n l) = inits v l) \<and>
     (\<forall>n l c. live v l n = Some c \<longrightarrow> live v (g_object_unref L n l) = (live v l)(n := None) \<and>
        shown v (g_object_unref L n l) = shown v l \<and> inits v (g_object_unref L n l) = inits v l)"

section \<open>Properties\<close>

definition contents_of :: "message \<Rightarrow> contents" where
  "contents_of msg = (case msg of (title, body, urgency, icon) \<Rightarrow>
     (cstr title, cstr body, if icon = [] then None else Some (cstr icon), urgency))"

lemma libnotify_new:
  "libnotify_spec L v \<Longrightarrow> notify_notification_new L t b i l = (n, l') \<Longrightarrow> live v l n = None \<and>
   live v l' = (live v l)(n \<mapsto> (t, b, i, URGENCY_NORMAL)) \<and> shown v l' = shown v l \<and> inits v l' = inits v l"
  by (simp add: libnotify_spec_def)

lemma libnotify_urgency:
  "libnotify_spec L v \<Longrightarrow> live v l n = Some (t, b, i, u') \<Longrightarrow>
   live v (notify_notification_set_urgency L n u l) = (live v l)(n \<mapsto> (t, b, i, u)) \<and>
   shown v (notify_notification_set_urgency L n u l) = shown v l \<and>
   inits v (notify_notification_set_urgency L n u l) = inits v l"
  by (simp add: libnotify_spec_def)

lemma libnotify_show:
  "libnotify_spec L v \<Longrightarrow> live v l n = Some c \<Longrightarrow> inits v l \<noteq> [] \<Longrightarrow>
   live v (notify_notification_show L n l) = live v l \<and>
   shown v (notify_notification_show L n l) = shown v l @ [c] \<and>
   inits v (notify_notification_show L n l) = inits v l"
  by (cases c) (simp add: libnotify_spec_def)

lemma libnotify_unref:
  "libnotify_spec L v \<Longrightarrow> live v l n = Some c \<Longrightarrow> live v (g_object_unref L n l) = (live v l)(n := None) \<and>
   shown v (g_object_unref L n l) = shown v l \<and> inits v (g_object_unref L n l) = inits v l"
  by (cases c) (simp add: libnotify_spec_def)

lemma send_effect:
  assumes spec: "libnotify_spec L v" and up: "inits v l \<noteq> []"
  shows "live v (send L t b u i l) = live v l \<and> inits v (send L t b u i l) = inits v l \<and>
    shown v (send L t b u i l) = shown v l @ [contents_of (t, b, u, i)]"
proof -
  let ?i = "if i = [] then None else Some (cstr i)"
  obtain n l1 where new: "notify_notification_new L (cstr t) (cstr b) ?i l = (n, l1)"
    by fastforce
  let ?l2 = "notify_notification_set_urgency L n u l1"
  let ?l3 = "notify_notification_show L n ?l2"
  note 1 = libnotify_new [OF spec new]
  then have "live v l1 n = Some (cstr t, cstr b, ?i, URGENCY_NORMAL)" by simp
  note 2 = libnotify_urgency [OF spec this, of u]
  then have l2: "live v ?l2 n = Some (cstr t, cstr b, ?i, u)" "inits v ?l2 \<noteq> []" using 1 up by simp_all
  note 3 = libnotify_show [OF spec l2]
  then have "live v ?l3 n = Some (cstr t, cstr b, ?i, u)" using l2 by simp
  note 4 = libnotify_unref [OF spec this]
  have "send L t b u i l = g_object_unref L n ?l3" by (simp add: send_def new)
  moreover have "(live v l)(n := None) = live v l" using 1 by (simp add: fun_upd_idem)
  ultimately show ?thesis using 1 2 3 4 by (simp add: contents_of_def)
qed

text \<open>
  C40 (invariant): However many notifications the modules send through the singleton, libnotify is
  initialised exactly once, under the name of the program; every notification is shown in the
  order they were sent, with its urgency and icon; and no notification object is left over.
\<close>

theorem notifications_are_sent:
  assumes spec: "libnotify_spec L v" and fresh: "inits v l = []"
  shows "live v (snd (fold (notify L) (m # msgs) (False, l))) = live v l \<and>
    inits v (snd (fold (notify L) (m # msgs) (False, l))) = [bytes ''PhotonBar''] \<and>
    shown v (snd (fold (notify L) (m # msgs) (False, l))) = shown v l @ map contents_of (m # msgs)"
proof -
  have step: "\<exists>l'. fold (notify L) ms (True, l0) = (True, l') \<and> live v l' = live v l0 \<and>
      inits v l' = inits v l0 \<and> shown v l' = shown v l0 @ map contents_of ms"
    if "inits v l0 \<noteq> []" for ms l0
    using that
  proof (induction ms arbitrary: l0)
    case (Cons msg ms)
    obtain t b u i where msg: "msg = (t, b, u, i)" by (cases msg)
    note s = send_effect [OF spec Cons.prems, of t b u i]
    have "notify L msg (True, l0) = (True, send L t b u i l0)"
      by (simp add: notify_def notify_instance_def msg)
    then show ?case using Cons.IH [of "send L t b u i l0"] s Cons.prems msg by auto
  qed simp
  let ?l1 = "notify_init L (bytes ''PhotonBar'') l"
  have l1: "inits v ?l1 = [bytes ''PhotonBar'']" "live v ?l1 = live v l" "shown v ?l1 = shown v l"
    using spec fresh unfolding libnotify_spec_def by simp_all
  have "notify L m (False, l) = notify L m (True, ?l1)"
    by (simp add: notify_def notify_instance_def newNotifyManager_def)
  then show ?thesis using step [of ?l1 "m # msgs"] l1 by auto
qed

section \<open>An instance\<close>

text \<open>A library that keeps its objects in a list.\<close>

type_synonym demo_lib = "contents option list \<times> contents list \<times> byte list list"

definition demo_libnotify :: "demo_lib libnotify" where
  "demo_libnotify = \<lparr>notify_init = (\<lambda>a (os, sh, ns). (os, sh, ns @ [a])),
     notify_is_initted = (\<lambda>(os, sh, ns). ns \<noteq> []), notify_uninit = (\<lambda>(os, sh, ns). (os, sh, [])),
     notify_notification_new = (\<lambda>t b i (os, sh, ns). (length os, os @ [Some (t, b, i, URGENCY_NORMAL)], sh, ns)),
     notify_notification_set_urgency = (\<lambda>n u (os, sh, ns).
       (os[n := map_option (\<lambda>(t, b, i, _). (t, b, i, u)) (os ! n)], sh, ns)),
     notify_notification_show = (\<lambda>n (os, sh, ns). (os, sh @ (case os ! n of Some c \<Rightarrow> [c] | None \<Rightarrow> []), ns)),
     g_object_unref = (\<lambda>n (os, sh, ns). (os[n := None], sh, ns))\<rparr>"

definition demo_view :: "demo_lib view" where
  "demo_view = \<lparr>live = (\<lambda>(os, _, _) n. if n < length os then os ! n else None),
     shown = (\<lambda>(_, sh, _). sh), inits = (\<lambda>(_, _, ns). ns)\<rparr>"

lemma demo_libnotify_spec: "libnotify_spec demo_libnotify demo_view"
  unfolding libnotify_spec_def demo_libnotify_def demo_view_def
  by (auto simp: fun_eq_iff nth_append nth_list_update split: if_splits)

theorem notifications_are_sent_witness:
  "shown demo_view (snd (fold (notify demo_libnotify)
     [(bytes ''Battery'', bytes ''low'', URGENCY_CRITICAL, []), (bytes ''Timer'', bytes ''done'', URGENCY_NORMAL, bytes ''clock'')]
     (False, [], [], []))) =
   [(bytes ''Battery'', bytes ''low'', None, URGENCY_CRITICAL), (bytes ''Timer'', bytes ''done'', Some (bytes ''clock''), URGENCY_NORMAL)]"
proof -
  have "inits demo_view ([], [], []) = []" "shown demo_view ([], [], []) = []" by (simp_all add: demo_view_def)
  then show ?thesis
    using notifications_are_sent [OF demo_libnotify_spec, of "([], [], [])"
        "(bytes ''Battery'', bytes ''low'', URGENCY_CRITICAL, [])"
        "[(bytes ''Timer'', bytes ''done'', URGENCY_NORMAL, bytes ''clock'')]"]
    by (simp add: contents_of_def bytes_def cstr_def)
qed

end
