(* ===== verification/Clocks.thy ===== *)
theory Clocks
  imports Element
begin

text \<open>
  What \<open>timer.h\<close> and \<open>stopwatch.h\<close> share: time points of the steady clock in nanoseconds,
  durations in milliseconds, hours, minutes and seconds, and the contract of a clock that one
  button starts, pauses and resumes.
\<close>

section \<open>Durations\<close>

text \<open>\<open>duration_cast<milliseconds>\<close> truncates.\<close>

definition ms :: "int \<Rightarrow> int" where
  "ms d = cdiv d 1000000"

definition hours_of :: "int \<Rightarrow> int" where
  "hours_of t = cdiv t 3600000"

definition minutes_of :: "int \<Rightarrow> int" where
  "minutes_of t = cdiv (cmod t 3600000) 60000"

definition seconds_of :: "int \<Rightarrow> int" where
  "seconds_of t = cdiv (cmod t 60000) 1000"

lemma ms_nonneg: "0 \<le> d \<Longrightarrow> ms d = d div 1000000"
  by (simp add: ms_def)

lemma ms_ge_0 [simp]: "0 \<le> d \<Longrightarrow> 0 \<le> ms d"
  by (simp add: ms_nonneg)

lemma ms_0 [simp]: "ms 0 = 0"
  by (simp add: ms_def cdiv_def)

lemma ms_mono: "0 \<le> c \<Longrightarrow> c \<le> d \<Longrightarrow> ms c \<le> ms d"
  by (simp add: ms_nonneg zdiv_mono1)

lemma ms_add3:
  assumes "0 \<le> a" "0 \<le> b" "0 \<le> c"
  shows "ms a + ms b + ms c \<le> ms (a + b + c) \<and> ms (a + b + c) \<le> ms a + ms b + ms c + 2"
  using assms unfolding ms_nonneg [OF assms(1)] ms_nonneg [OF assms(2)] ms_nonneg [OF assms(3)]
    ms_nonneg [OF add_nonneg_nonneg [OF add_nonneg_nonneg [OF assms(1,2)] assms(3)]]
  by linarith

text \<open>The three fields of a displayed time put together again.\<close>

lemma clock_fields:
  assumes "0 \<le> t"
  shows "0 \<le> hours_of t \<and> 0 \<le> minutes_of t \<and> minutes_of t < 60 \<and> 0 \<le> seconds_of t \<and> seconds_of t < 60 \<and>
    3600 * hours_of t + 60 * minutes_of t + seconds_of t = t div 1000"
proof -
  have "hours_of t = t div 3600000" "minutes_of t = (t mod 3600000) div 60000"
    "seconds_of t = (t mod 60000) div 1000"
    using assms by (simp_all add: hours_of_def minutes_of_def seconds_of_def)
  note f = this
  define h where "h = t div 3600000"
  define r where "r = t mod 3600000"
  define m where "m = r div 60000"
  define q where "q = r mod 60000"
  have t: "t = 3600000 * h + r" "0 \<le> r" "r < 3600000" by (simp_all add: h_def r_def)
  have r: "r = 60000 * m + q" "0 \<le> q" "q < 60000" by (simp_all add: m_def q_def)
  have q: "t mod 60000 = q" unfolding q_def r_def by (rule mod_mod_cancel [symmetric]) simp
  define s where "s = q div 1000"
  define w where "w = q mod 1000"
  have s: "q = 1000 * s + w" "0 \<le> w" "w < 1000" by (simp_all add: s_def w_def)
  have "t = 1000 * (3600 * h + 60 * m + s) + w" using t(1) r(1) s(1) by (simp add: algebra_simps)
  then have "t div 1000 = 3600 * h + 60 * m + s" using s(2,3) by (rule int_div_pos_eq)
  moreover have "0 \<le> h" using assms by (simp add: h_def pos_imp_zdiv_nonneg_iff)
  moreover have "0 \<le> m \<and> m < 60" using t(2,3) r by linarith
  moreover have "0 \<le> s \<and> s < 60" using r(2,3) s by linarith
  moreover have "hours_of t = h" "minutes_of t = m" "seconds_of t = s"
    using f unfolding h_def m_def r_def s_def q by blast+
  ultimately show ?thesis by simp
qed

text \<open>The printed fields are short.\<close>

lemma length_fmt_02d: "0 \<le> i \<Longrightarrow> i < 10 ^ Suc (Suc k) \<Longrightarrow> length (fmt_02d i) \<le> Suc (Suc k)"
  using length_dec [of "nat i" "Suc k"] by (auto simp: fmt_02d_def fmt_d_def nat_less_iff)

lemma length_fmt_02d_60: "0 \<le> i \<Longrightarrow> i < 60 \<Longrightarrow> length (fmt_02d i) = 2"
  by (cases "i < 10") (auto simp: fmt_02d_def fmt_d_def dec_step)

section \<open>Start, pause, resume\<close>

text \<open>
  The time a clock should show: \<open>es\<close> are the times at which the button was pressed, the first
  one starting the clock.
\<close>

fun run_time :: "int list \<Rightarrow> int \<Rightarrow> int" where
  "run_time [] u = 0"
| "run_time [a] u = ms (u - a)"
| "run_time (a # b # ts) u = ms (b - a) + run_time ts u"

text \<open>
  A press \<open>e\<close> of the button happens at the clock reading \<open>at e\<close>.  Starting begins at zero, a pause
  freezes the time shown, and after resuming the time goes on from there; the three divisions
  that are rounded separately cost at most two milliseconds.
\<close>

locale pausable_clock =
  fixes elapsed :: "int \<Rightarrow> 's \<Rightarrow> int"
    and press :: "'e \<Rightarrow> 's \<Rightarrow> 's"
    and at :: "'e \<Rightarrow> int"
    and running :: "'s \<Rightarrow> bool"
    and paused :: "'s \<Rightarrow> bool"
    and startable :: "'s \<Rightarrow> bool"
    and stamped :: "int \<Rightarrow> 's \<Rightarrow> bool"
  assumes start: "\<not> running s \<Longrightarrow> startable s \<Longrightarrow>
      running (press e s) \<and> \<not> paused (press e s) \<and> stamped (at e) (press e s) \<and>
      (\<forall>u\<ge>at e. elapsed u (press e s) = ms (u - at e))"
    and pause: "running s \<Longrightarrow> \<not> paused s \<Longrightarrow> stamped (at e) s \<Longrightarrow>
      running (press e s) \<and> paused (press e s) \<and> stamped (at e) (press e s) \<and>
      (\<forall>u. elapsed u (press e s) = elapsed (at e) s)"
    and resume: "running s \<Longrightarrow> paused s \<Longrightarrow> stamped (at e) s \<Longrightarrow>
      running (press e s) \<and> \<not> paused (press e s) \<and> stamped (at e) (press e s) \<and>
      (\<forall>u\<ge>at e. elapsed (at e) s + ms (u - at e) \<le> elapsed u (press e s) \<and>
                elapsed u (press e s) \<le> elapsed (at e) s + ms (u - at e) + 2)"
    and stamped_later: "stamped t s \<Longrightarrow> t \<le> u \<Longrightarrow> stamped u s"
begin

text \<open>Once the clock runs, its time is the running time up to two milliseconds for each resume.\<close>

lemma elapsed_presses:
  assumes "running s" "\<not> paused s" "stamped a s" "sorted (a # map at es @ [u])"
    and "\<forall>v\<ge>a. p + ms (v - a) \<le> elapsed v s \<and> elapsed v s \<le> p + ms (v - a) + d"
  shows "running (fold press es s) \<and> (paused (fold press es s) \<longleftrightarrow> odd (length es)) \<and>
    p + run_time (a # map at es) u \<le> elapsed u (fold press es s) \<and>
    elapsed u (fold press es s) \<le> p + run_time (a # map at es) u + d + 2 * int (length es div 2)"
  using assms
proof (induction es arbitrary: s a p d rule: induct_list012)
  case 1
  then show ?case by auto
next
  case (2 e)
  have "stamped (at e) s" using stamped_later [OF 2(3)] 2(4) by simp
  from pause [OF 2(1,2) this] show ?case using 2(4,5) by auto
next
  case (3 e e' es)
  let ?s1 = "press e s" and ?s2 = "press e' (press e s)"
  have order: "a \<le> at e" "at e \<le> at e'" "sorted (at e' # map at es @ [u])" using "3.prems"(4) by auto
  have 1: "running ?s1" "paused ?s1" "stamped (at e) ?s1" "elapsed v ?s1 = elapsed (at e) s" for v
    using pause [OF "3.prems"(1,2) stamped_later [OF "3.prems"(3) order(1)]] by auto
  have 2: "running ?s2" "\<not> paused ?s2" "stamped (at e') ?s2"
    "\<forall>v\<ge>at e'. elapsed (at e) s + ms (v - at e') \<le> elapsed v ?s2 \<and>
       elapsed v ?s2 \<le> elapsed (at e) s + ms (v - at e') + 2"
    using resume [OF 1(1,2) stamped_later [OF 1(3) order(2)]] unfolding 1(4) by blast+
  have e: "p + ms (at e - a) \<le> elapsed (at e) s" "elapsed (at e) s \<le> p + ms (at e - a) + d"
    using "3.prems"(5) order(1) by auto
  have "\<forall>v\<ge>at e'. (p + ms (at e - a)) + ms (v - at e') \<le> elapsed v ?s2 \<and>
      elapsed v ?s2 \<le> (p + ms (at e - a)) + ms (v - at e') + (d + 2)"
    using 2(4) e by (smt (verit, best))
  from "3.IH"(1) [OF 2(1,2,3) order(3) this] show ?case by (simp add: add.assoc)
qed

lemma elapsed_run_time:
  assumes "\<not> running s" "startable s" "es \<noteq> []" "sorted (map at es @ [u])"
  shows "running (fold press es s) \<and> (paused (fold press es s) \<longleftrightarrow> even (length es)) \<and>
    run_time (map at es) u \<le> elapsed u (fold press es s) \<and>
    elapsed u (fold press es s) \<le> run_time (map at es) u + 2 * int ((length es - 1) div 2)"
proof -
  obtain e es' where es: "es = e # es'" using assms(3) by (cases es) auto
  from start [OF assms(1,2), of e] have s: "running (press e s)" "\<not> paused (press e s)"
    "stamped (at e) (press e s)"
    "\<forall>v\<ge>at e. 0 + ms (v - at e) \<le> elapsed v (press e s) \<and> elapsed v (press e s) \<le> 0 + ms (v - at e) + 0"
    by auto
  from elapsed_presses [OF s(1,2,3) _ s(4), of es' u] show ?thesis using assms(4) es by simp
qed

end

end
