(* ===== verification/Timer.thy ===== *)
theory Timer
  imports Clocks
begin

text \<open>
  \<open>modules/timer.h\<close>.  Every reading of the steady clock is an argument: \<open>clk i\<close> is the reading at
  the program point \<open>i\<close> of a handler: 0 the handler's own, 1 to 5 those of \<open>applyColors\<close> for the
  five elements, 6 and 7 those of \<open>checkTimerAlert\<close>, 8 the one whose time is displayed.
  \<open>wall\<close> is \<open>time(nullptr)\<close>.  Sent notifications are counted.
\<close>

section \<open>Definitions\<close>

datatype timer_handler = PlayPause | Reset | ToggleDetails | AdjustTime int

record timer = module_base +
  baseElement :: "timer_handler barElement"
  playIconElement :: "timer_handler barElement"
  hourElement :: "timer_handler barElement"
  minuteElement :: "timer_handler barElement"
  secondElement :: "timer_handler barElement"
  startTime :: int
  pauseTime :: int
  isRunning :: bool
  isPaused :: bool
  showDetails :: bool
  accumulatedPauseTime :: int
  targetDurationMs :: int
  notificationSent :: bool
  sent :: nat

definition ICON_PLAY :: "byte list" where "ICON_PLAY = [0x20, 0xef, 0x81, 0x8b]"
definition ICON_PAUSE :: "byte list" where "ICON_PAUSE = [0x20, 0xef, 0x81, 0x8c]"
definition ICON_LOGO :: "byte list" where "ICON_LOGO = [0xf3, 0xb0, 0x9a, 0xad]"

definition actualElapsed :: "int \<Rightarrow> timer \<Rightarrow> int" where
  "actualElapsed now m =
     (if isPaused m then ms (pauseTime m - startTime m) - accumulatedPauseTime m
      else ms (now - startTime m) - accumulatedPauseTime m)"

definition getRemainingMs :: "int \<Rightarrow> timer \<Rightarrow> int" where
  "getRemainingMs now m =
     (if \<not> isRunning m then targetDurationMs m
      else let remaining = targetDurationMs m - actualElapsed now m
           in if remaining > 0 then remaining else 0)"

definition state_color :: "int \<Rightarrow> timer \<Rightarrow> color" where
  "state_color now m =
     (if \<not> isRunning m then color_of ''#E0AAFF'' (mk_color 224 170 255 255)
      else if isPaused m then color_of ''#FFA500'' (mk_color 255 165 0 255)
      else if getRemainingMs now m = 0 then color_of ''#FF0000'' (mk_color 255 0 0 255)
      else color_of ''#90EE90'' (mk_color 144 238 144 255))"

definition applyColors :: "(nat \<Rightarrow> int) \<Rightarrow> timer \<Rightarrow> timer" where
  "applyColors clk m =
     m\<lparr>baseElement := (baseElement m)\<lparr>foregroundColor := state_color (clk 1) m\<rparr>,
       playIconElement := (playIconElement m)\<lparr>foregroundColor := state_color (clk 2) m\<rparr>,
       hourElement := (hourElement m)\<lparr>foregroundColor := state_color (clk 3) m\<rparr>,
       minuteElement := (minuteElement m)\<lparr>foregroundColor := state_color (clk 4) m\<rparr>,
       secondElement := (secondElement m)\<lparr>foregroundColor := state_color (clk 5) m\<rparr>\<rparr>"

definition checkTimerAlert :: "(nat \<Rightarrow> int) \<Rightarrow> timer \<Rightarrow> timer" where
  "checkTimerAlert clk m =
     (let m1 = (if getRemainingMs (clk 6) m = 0 \<and> isRunning m \<and> \<not> isPaused m \<and> \<not> notificationSent m
                then m\<lparr>sent := Suc (sent m), notificationSent := True\<rparr> else m)
      in if getRemainingMs (clk 7) m1 > 0 \<or> \<not> isRunning m1 \<or> isPaused m1
         then m1\<lparr>notificationSent := False\<rparr> else m1)"

definition play_text :: "timer \<Rightarrow> byte list" where
  "play_text m =
     (if showDetails m
      then (if \<not> isRunning m then ICON_PLAY else if isPaused m then ICON_PLAY else ICON_PAUSE) @ [32]
      else [])"

definition show_field :: "timer \<Rightarrow> byte list \<Rightarrow> byte list" where
  "show_field m s = (if showDetails m then s else [])"

definition update :: "(nat \<Rightarrow> int) \<Rightarrow> int \<Rightarrow> timer \<Rightarrow> timer" where
  "update clk wall m =
     (let m1 = checkTimerAlert clk (applyColors clk m);
          remaining = getRemainingMs (clk 8) m1;
          hours = hours_of remaining; minutes = minutes_of remaining; seconds = seconds_of remaining
      in m1\<lparr>baseElement := set_content ICON_LOGO (baseElement m1),
            playIconElement := set_content (play_text m1) (playIconElement m1),
            hourElement := set_content (show_field m1 ([45] @ fmt_02d hours @ [58])) (hourElement m1),
            minuteElement := set_content (show_field m1 (fmt_02d minutes @ [58])) (minuteElement m1),
            secondElement := set_content (show_field m1 (fmt_02d seconds)) (secondElement m1),
            lastUpdate := wall\<rparr>)"

definition adjustTime :: "int \<Rightarrow> (nat \<Rightarrow> int) \<times> int \<Rightarrow> timer \<Rightarrow> timer" where
  "adjustTime amount cw m =
     (if isRunning m then m
      else let t = targetDurationMs m + amount;
               m1 = m\<lparr>targetDurationMs := (if t < 0 then 0 else t)\<rparr>
           in callRender (update (fst cw) (snd cw) m1))"

definition playPause :: "(nat \<Rightarrow> int) \<times> int \<Rightarrow> timer \<Rightarrow> timer" where
  "playPause cw m =
     (let (clk, wall) = cw;
          m1 = (if \<not> isRunning m then
                  if targetDurationMs m > 0 then
                    m\<lparr>startTime := clk 0, isRunning := True, isPaused := False, accumulatedPauseTime := 0\<rparr>
                  else m
                else if isPaused m then
                  m\<lparr>accumulatedPauseTime := accumulatedPauseTime m + ms (clk 0 - pauseTime m),
                    isPaused := False\<rparr>
                else m\<lparr>pauseTime := clk 0, isPaused := True\<rparr>)
      in callRender (update clk wall m1))"

definition reset :: "(nat \<Rightarrow> int) \<times> int \<Rightarrow> timer \<Rightarrow> timer" where
  "reset cw m =
     (if isRunning m \<and> \<not> isPaused m \<and> getRemainingMs (fst cw 0) m > 0 then m
      else callRender (update (fst cw) (snd cw)
             (m\<lparr>accumulatedPauseTime := 0, targetDurationMs := 0, isRunning := False,
                isPaused := False\<rparr>)))"

definition toggleDetails :: "(nat \<Rightarrow> int) \<times> int \<Rightarrow> timer \<Rightarrow> timer" where
  "toggleDetails cw m =
     callRender (update (fst cw) (snd cw) (m\<lparr>showDetails := \<not> showDetails m\<rparr>))"

fun run_handler :: "timer_handler \<Rightarrow> (nat \<Rightarrow> int) \<times> int \<Rightarrow> timer \<Rightarrow> timer" where
  "run_handler PlayPause = playPause"
| "run_handler Reset = reset"
| "run_handler ToggleDetails = toggleDetails"
| "run_handler (AdjustTime amount) = adjustTime amount"

definition configureClicks :: "timer_handler barElement \<Rightarrow> timer_handler barElement" where
  "configureClicks e =
     setEvent (setEvent (setEvent e CLICK_LEFT PlayPause) CLICK_MIDDLE Reset) CLICK_RIGHT ToggleDetails"

definition configureScroll :: "int \<Rightarrow> timer_handler barElement \<Rightarrow> timer_handler barElement" where
  "configureScroll amount e =
     setEvent (setEvent e SCROLL_UP (AdjustTime amount)) SCROLL_DOWN (AdjustTime (- amount))"

definition newTimer :: "32 word \<Rightarrow> int \<Rightarrow> int \<Rightarrow> timer" where
  "newTimer window0 start0 pause0 =
     (let e = configureClicks (staticElement\<lparr>moduleName := bytes ''timer''\<rparr>)
      in module_base.extend (newModule (bytes ''timer'') False 1 window0)
           \<lparr>baseElement = e, playIconElement = e, hourElement = configureScroll 3600000 e,
            minuteElement = configureScroll 60000 e, secondElement = configureScroll 1000 e,
            startTime = start0, pauseTime = pause0, isRunning = False, isPaused = False,
            showDetails = False, accumulatedPauseTime = 0, targetDurationMs = 0,
            notificationSent = False, sent = 0\<rparr>)"

definition elements :: "timer \<Rightarrow> timer_handler barElement list" where
  "elements m = [baseElement m, playIconElement m, hourElement m, minuteElement m, secondElement m]"

section \<open>The clock\<close>

lemma newTimer_sel [simp]:
  "isRunning (newTimer w s p) = False" "isPaused (newTimer w s p) = False"
  "showDetails (newTimer w s p) = False" "accumulatedPauseTime (newTimer w s p) = 0"
  "targetDurationMs (newTimer w s p) = 0" "notificationSent (newTimer w s p) = False"
  "sent (newTimer w s p) = 0"
  by (simp_all add: newTimer_def Let_def module_base.defs)

lemma applyColors_sel [simp]:
  "startTime (applyColors clk m) = startTime m" "pauseTime (applyColors clk m) = pauseTime m"
  "isRunning (applyColors clk m) = isRunning m" "isPaused (applyColors clk m) = isPaused m"
  "accumulatedPauseTime (applyColors clk m) = accumulatedPauseTime m"
  "targetDurationMs (applyColors clk m) = targetDurationMs m"
  "showDetails (applyColors clk m) = showDetails m"
  "notificationSent (applyColors clk m) = notificationSent m" "sent (applyColors clk m) = sent m"
  "secondsPerUpdate (applyColors clk m) = secondsPerUpdate m" "autoUpdate (applyColors clk m) = autoUpdate m"
  by (simp_all add: applyColors_def)

lemma checkTimerAlert_sel [simp]:
  "startTime (checkTimerAlert clk m) = startTime m" "pauseTime (checkTimerAlert clk m) = pauseTime m"
  "isRunning (checkTimerAlert clk m) = isRunning m" "isPaused (checkTimerAlert clk m) = isPaused m"
  "accumulatedPauseTime (checkTimerAlert clk m) = accumulatedPauseTime m"
  "targetDurationMs (checkTimerAlert clk m) = targetDurationMs m"
  "showDetails (checkTimerAlert clk m) = showDetails m"
  "secondsPerUpdate (checkTimerAlert clk m) = secondsPerUpdate m"
  "autoUpdate (checkTimerAlert clk m) = autoUpdate m"
  by (simp_all add: checkTimerAlert_def Let_def)

lemma update_sel [simp]:
  "startTime (update clk wall m) = startTime m" "pauseTime (update clk wall m) = pauseTime m"
  "isRunning (update clk wall m) = isRunning m" "isPaused (update clk wall m) = isPaused m"
  "accumulatedPauseTime (update clk wall m) = accumulatedPauseTime m"
  "targetDurationMs (update clk wall m) = targetDurationMs m"
  "showDetails (update clk wall m) = showDetails m" "lastUpdate (update clk wall m) = wall"
  "secondsPerUpdate (update clk wall m) = secondsPerUpdate m"
  "autoUpdate (update clk wall m) = autoUpdate m"
  by (simp_all add: update_def Let_def)

lemma callRender_sel [simp]:
  "startTime (callRender m) = startTime m" "pauseTime (callRender m) = pauseTime m"
  "isRunning (callRender m) = isRunning m" "isPaused (callRender m) = isPaused m"
  "accumulatedPauseTime (callRender m) = accumulatedPauseTime m"
  "targetDurationMs (callRender m) = targetDurationMs m"
  "showDetails (callRender m) = showDetails m" "sent (callRender m) = sent m"
  "notificationSent (callRender m) = notificationSent m"
  "hourElement (callRender m) = hourElement m" "minuteElement (callRender m) = minuteElement m"
  "secondElement (callRender m) = secondElement m"
  by (simp_all add: callRender_def)

lemma remaining_cong [simp]:
  "getRemainingMs now (update clk wall m) = getRemainingMs now m"
  "getRemainingMs now (callRender m) = getRemainingMs now m"
  "getRemainingMs now (applyColors clk m) = getRemainingMs now m"
  "getRemainingMs now (checkTimerAlert clk m) = getRemainingMs now m"
  "getRemainingMs now (m\<lparr>notificationSent := b\<rparr>) = getRemainingMs now m"
  "getRemainingMs now (m\<lparr>sent := k\<rparr>) = getRemainingMs now m"
  by (simp_all add: getRemainingMs_def actualElapsed_def)

definition stamped :: "int \<Rightarrow> timer \<Rightarrow> bool" where
  "stamped t m \<longleftrightarrow> startTime m \<le> t \<and> (isPaused m \<longrightarrow> startTime m \<le> pauseTime m \<and> pauseTime m \<le> t)"

interpretation countdown: pausable_clock actualElapsed playPause "\<lambda>cw. fst cw 0" isRunning isPaused
  "\<lambda>m. targetDurationMs m > 0" stamped
proof unfold_locales
  fix m :: timer and cw :: "(nat \<Rightarrow> int) \<times> int"
  assume m: "isRunning m" "isPaused m" "stamped (fst cw 0) m"
  let ?t = "fst cw 0"
  have "actualElapsed ?t m + ms (u - ?t) \<le> actualElapsed u (playPause cw m) \<and>
      actualElapsed u (playPause cw m) \<le> actualElapsed ?t m + ms (u - ?t) + 2" if "?t \<le> u" for u
    using ms_add3 [of "pauseTime m - startTime m" "?t - pauseTime m" "u - ?t"] m that
    by (simp add: playPause_def actualElapsed_def stamped_def split_beta)
  then show "isRunning (playPause cw m) \<and> \<not> isPaused (playPause cw m) \<and>
      stamped ?t (playPause cw m) \<and>
      (\<forall>u\<ge>?t. actualElapsed ?t m + ms (u - ?t) \<le> actualElapsed u (playPause cw m) \<and>
         actualElapsed u (playPause cw m) \<le> actualElapsed ?t m + ms (u - ?t) + 2)"
    using m by (simp add: playPause_def stamped_def split_beta)
qed (auto simp: playPause_def actualElapsed_def stamped_def split_beta)

interpretation periodic: periodic_module "update clk" "\<lambda>_. True" for clk
  by unfold_locales simp_all

lemma target_presses [simp]: "targetDurationMs (fold playPause es m) = targetDurationMs m"
proof -
  have "targetDurationMs (playPause e m) = targetDurationMs m" for e m
    by (simp add: playPause_def split_beta)
  then show ?thesis by (induction es arbitrary: m) simp_all
qed

section \<open>Properties\<close>

text \<open>
  C23 (functional): The countdown counts running time only.  After any sequence of presses of the button, at
  times that do not decrease, the timer runs, is paused exactly after an even number of presses,
  and what remains is the target less the intervals in which it was not paused, down to zero, up
  to two milliseconds of rounding for each time it was resumed.
\<close>

theorem timer_counts_running_time:
  assumes "\<not> isRunning m" "targetDurationMs m > 0" "es \<noteq> []" "sorted (map (\<lambda>cw. fst cw 0) es @ [u])"
  shows "isRunning (fold playPause es m) \<and> (isPaused (fold playPause es m) \<longleftrightarrow> even (length es)) \<and>
    getRemainingMs u (fold playPause es m) \<le> max 0 (targetDurationMs m - run_time (map (\<lambda>cw. fst cw 0) es) u) \<and>
    max 0 (targetDurationMs m - run_time (map (\<lambda>cw. fst cw 0) es) u - 2 * int ((length es - 1) div 2))
      \<le> getRemainingMs u (fold playPause es m)"
  using countdown.elapsed_run_time [OF assms] by (auto simp: getRemainingMs_def)

theorem timer_counts_running_time_witness:
  "getRemainingMs 12000000000
      (fold playPause [((\<lambda>_. 1000000000), 0), ((\<lambda>_. 4000000000), 0), ((\<lambda>_. 10000000000), 0)]
        (adjustTime 60000 ((\<lambda>_. 0), 0) (newTimer 0 0 0))) \<in> {54998..55000}"
  using timer_counts_running_time [of "adjustTime 60000 ((\<lambda>_. 0), 0) (newTimer 0 0 0)"
      "[((\<lambda>_. 1000000000), 0), ((\<lambda>_. 4000000000), 0), ((\<lambda>_. 10000000000), 0)]" 12000000000]
  by (simp add: adjustTime_def ms_def)

text \<open>
  The invariant of a timer at time \<open>t\<close>: the target is not negative, a running timer has one, its
  time stamps are in order, and the elapsed time is not negative.
\<close>

definition timer_inv :: "int \<Rightarrow> timer \<Rightarrow> bool" where
  "timer_inv t m \<longleftrightarrow> 0 \<le> targetDurationMs m \<and>
     (isRunning m \<longrightarrow> 0 < targetDurationMs m \<and> stamped t m \<and> (\<forall>u\<ge>t. 0 \<le> actualElapsed u m))"

lemma timer_inv_same:
  assumes "startTime m' = startTime m" "pauseTime m' = pauseTime m" "isRunning m' = isRunning m"
    "isPaused m' = isPaused m" "accumulatedPauseTime m' = accumulatedPauseTime m"
    "targetDurationMs m' = targetDurationMs m"
  shows "timer_inv t m' = timer_inv t m"
  using assms by (simp add: timer_inv_def stamped_def actualElapsed_def)

lemma timer_inv_update [simp]:
  "timer_inv t (update clk wall m) = timer_inv t m" "timer_inv t (callRender m) = timer_inv t m"
  by (rule timer_inv_same; simp)+

lemma timer_inv_later: "timer_inv t m \<Longrightarrow> t \<le> u \<Longrightarrow> timer_inv u m"
  by (auto simp: timer_inv_def stamped_def)

lemma timer_inv_playPause:
  assumes inv: "timer_inv (fst cw 0) m"
  shows "timer_inv (fst cw 0) (playPause cw m)"
proof -
  have t: "targetDurationMs (playPause cw m) = targetDurationMs m" using target_presses [of "[cw]" m] by simp
  consider "\<not> isRunning m" "\<not> targetDurationMs m > 0" | "\<not> isRunning m" "targetDurationMs m > 0"
    | "isRunning m" "\<not> isPaused m" | "isRunning m" "isPaused m" by blast
  then show ?thesis
  proof cases
    case 1
    then have "isRunning (playPause cw m) = False" by (simp add: playPause_def split_beta)
    then show ?thesis using inv t by (simp add: timer_inv_def)
  next
    case 2
    then show ?thesis using countdown.start [OF 2, of cw] t by (auto simp: timer_inv_def)
  next
    case 3
    then show ?thesis using countdown.pause [OF 3, of cw] inv t by (auto simp: timer_inv_def)
  next
    case 4
    then have s: "stamped (fst cw 0) m" "0 \<le> actualElapsed (fst cw 0) m"
      using inv by (auto simp: timer_inv_def)
    have "0 \<le> actualElapsed u (playPause cw m)" if u: "fst cw 0 \<le> u" for u
    proof -
      have "actualElapsed (fst cw 0) m + ms (u - fst cw 0) \<le> actualElapsed u (playPause cw m)"
        using countdown.resume [OF 4 s(1)] u by blast
      moreover have "0 \<le> ms (u - fst cw 0)" using u by simp
      ultimately show ?thesis using s(2) by linarith
    qed
    then show ?thesis using countdown.resume [OF 4 s(1)] 4(1) inv t by (auto simp: timer_inv_def)
  qed
qed

lemma timer_inv_run_handler:
  assumes inv: "timer_inv (fst cw 0) m"
  shows "timer_inv (fst cw 0) (run_handler h cw m)"
proof (cases h)
  case PlayPause
  then show ?thesis using timer_inv_playPause [OF inv] by simp
next
  case Reset
  then show ?thesis using inv by (simp add: reset_def) (simp add: timer_inv_def)
next
  case ToggleDetails
  have "timer_inv (fst cw 0) (m\<lparr>showDetails := \<not> showDetails m\<rparr>) = timer_inv (fst cw 0) m"
    by (rule timer_inv_same) simp_all
  then show ?thesis using ToggleDetails inv by (simp add: toggleDetails_def)
next
  case (AdjustTime amount)
  then show ?thesis using inv by (simp add: adjustTime_def Let_def) (auto simp: timer_inv_def)
qed

lemma timer_inv_handlers:
  assumes "timer_inv a m" "sorted (a # map (\<lambda>(h, cw). fst cw 0) hs @ [u])"
  shows "timer_inv u (fold (\<lambda>(h, cw). run_handler h cw) hs m)"
  using assms
proof (induction hs arbitrary: a m)
  case Nil
  then show ?case by (auto intro: timer_inv_later)
next
  case (Cons x hs)
  obtain h cw where x: "x = (h, cw)" by (cases x)
  have "timer_inv (fst cw 0) (run_handler h cw m)"
    using timer_inv_run_handler timer_inv_later Cons.prems x by simp
  then show ?case using Cons.IH Cons.prems(2) x by simp
qed

lemma timer_inv_remaining:
  assumes "timer_inv t m"
  shows "0 \<le> getRemainingMs t m \<and> getRemainingMs t m \<le> targetDurationMs m"
proof -
  have "isRunning m \<longrightarrow> 0 \<le> actualElapsed t m" using assms by (simp add: timer_inv_def)
  then show ?thesis using assms by (auto simp: getRemainingMs_def timer_inv_def Let_def)
qed

text \<open>
  Whatever buttons are pressed and wheels turned on a new timer, in whatever
  order, the target never gets negative, a running timer has a positive target, and the remaining
  time lies between zero and the target.
\<close>

theorem timer_remaining_in_range:
  assumes "sorted (map (\<lambda>(h, cw). fst cw 0) hs @ [u])"
    and "m = fold (\<lambda>(h, cw). run_handler h cw) hs (newTimer w s p)"
  shows "0 \<le> getRemainingMs u m \<and> getRemainingMs u m \<le> targetDurationMs m \<and>
    (isRunning m \<longrightarrow> 0 < targetDurationMs m)"
proof -
  define a where "a = (if hs = [] then u else fst (snd (hd hs)) 0)"
  have "timer_inv a (newTimer w s p)" by (simp add: timer_inv_def)
  moreover have "sorted (a # map (\<lambda>(h, cw). fst cw 0) hs @ [u])"
    using assms(1) by (cases hs) (auto simp: a_def)
  ultimately have "timer_inv u m" unfolding assms(2) by (rule timer_inv_handlers)
  then show ?thesis using timer_inv_remaining by (simp add: timer_inv_def)
qed

theorem timer_remaining_in_range_witness:
  "0 \<le> getRemainingMs 9000000 (fold (\<lambda>(h, cw). run_handler h cw)
     [(AdjustTime 1000, ((\<lambda>_. 5), 0)), (PlayPause, ((\<lambda>_. 6), 0)), (Reset, ((\<lambda>_. 7), 0))] (newTimer 0 0 0))"
  using timer_remaining_in_range [of "[(AdjustTime 1000, ((\<lambda>_. 5), 0)), (PlayPause, ((\<lambda>_. 6), 0)),
      (Reset, ((\<lambda>_. 7), 0))]" 9000000 _ 0 0 0] by simp

text \<open>The remaining time of a running timer goes down.\<close>

lemma remaining_antimono:
  assumes "isRunning m" "\<not> isPaused m" "startTime m \<le> t" "t \<le> u"
  shows "getRemainingMs u m \<le> getRemainingMs t m"
  using ms_mono [of "t - startTime m" "u - startTime m"] assms
  by (auto simp: getRemainingMs_def actualElapsed_def Let_def)

lemma getRemainingMs_ge_0: "isRunning m \<Longrightarrow> 0 \<le> getRemainingMs t m"
  by (simp add: getRemainingMs_def Let_def)

lemma sent_update [simp]:
  "sent (update clk wall m) = sent (checkTimerAlert clk m)"
  "notificationSent (update clk wall m) = notificationSent (checkTimerAlert clk m)"
  by (auto simp: update_def checkTimerAlert_def Let_def)

lemma alert_running:
  assumes "isRunning m" "\<not> isPaused m" "startTime m \<le> clk 6" "clk 6 \<le> clk 7"
  shows "sent (checkTimerAlert clk m) =
      (if getRemainingMs (clk 6) m = 0 \<and> \<not> notificationSent m then Suc (sent m) else sent m) \<and>
    notificationSent (checkTimerAlert clk m) =
      ((notificationSent m \<or> getRemainingMs (clk 6) m = 0) \<and> getRemainingMs (clk 7) m = 0)"
proof -
  have "getRemainingMs (clk 6) m = 0 \<longrightarrow> getRemainingMs (clk 7) m = 0"
    using remaining_antimono [OF assms(1-4)] getRemainingMs_ge_0 [OF assms(1), of "clk 7"] by auto
  then show ?thesis
    using assms(1,2) getRemainingMs_ge_0 [OF assms(1), of "clk 7"]
    by (auto simp: checkTimerAlert_def Let_def)
qed

definition updates :: "((nat \<Rightarrow> int) \<times> int) list \<Rightarrow> timer \<Rightarrow> timer" where
  "updates es = fold (\<lambda>(clk, wall). update clk wall) es"

lemma updates_after:
  assumes "isRunning m" "\<not> isPaused m" "notificationSent m" "getRemainingMs a m = 0" "startTime m \<le> a"
    and "sorted (a # concat (map (\<lambda>(clk, wall). [clk 6, clk 7]) es))"
  shows "sent (updates es m) = sent m"
  using assms
proof (induction es arbitrary: m a)
  case (Cons e es)
  obtain clk wall where e: "e = (clk, wall)" by (cases e)
  have o: "a \<le> clk 6" "clk 6 \<le> clk 7" "sorted (clk 7 # concat (map (\<lambda>(clk, wall). [clk 6, clk 7]) es))"
    using Cons.prems(6) e by auto
  have z: "getRemainingMs (clk 7) m = 0"
    using remaining_antimono [OF Cons.prems(1,2,5), of "clk 7"] Cons.prems(4) o(1,2)
      getRemainingMs_ge_0 [OF Cons.prems(1), of "clk 7"] by simp
  have al: "sent (checkTimerAlert clk m) = sent m" "notificationSent (checkTimerAlert clk m)"
    using alert_running [of m clk] Cons.prems(1,2,3,5) o z by auto
  have "sent (updates es (update clk wall m)) = sent (update clk wall m)"
    using Cons.prems(1,2,5) o al z by (intro Cons.IH [of _ "clk 7"]) auto
  then show ?case using e al by (simp add: updates_def)
qed (simp add: updates_def)

text \<open>
  C22 (safety): While a timer counts down and is only updated, it sends exactly one notification, in the
  first update that finds the time is up, and none before or after, however often it is updated.
\<close>

theorem timer_notifies_once:
  assumes "isRunning m" "\<not> isPaused m" "\<not> notificationSent m"
    and "sorted (startTime m # concat (map (\<lambda>(clk, wall). [clk 6, clk 7]) es))"
  shows "sent (updates es m) =
    sent m + (if \<exists>(clk, wall)\<in>set es. getRemainingMs (clk 6) m = 0 then 1 else 0)"
proof -
  have "sorted (a # concat (map (\<lambda>(clk, wall). [clk 6, clk 7]) es)) \<Longrightarrow> startTime m \<le> a \<Longrightarrow>
      sent (updates es m) = sent m + (if \<exists>(clk, wall)\<in>set es. getRemainingMs (clk 6) m = 0 then 1 else 0)"
    for a
    using assms(1,2,3)
  proof (induction es arbitrary: m a)
    case (Cons e es)
    obtain clk wall where e: "e = (clk, wall)" by (cases e)
    have o: "a \<le> clk 6" "clk 6 \<le> clk 7" "sorted (clk 7 # concat (map (\<lambda>(clk, wall). [clk 6, clk 7]) es))"
      using Cons.prems(1) e by auto
    have u: "updates (e # es) m = updates es (update clk wall m)" by (simp add: updates_def e)
    show ?case
    proof (cases "getRemainingMs (clk 6) m = 0")
      case True
      then have al: "sent (checkTimerAlert clk m) = Suc (sent m)"
        using alert_running [of m clk] Cons.prems o by auto
      have z: "getRemainingMs (clk 7) m = 0"
        using remaining_antimono [of m "clk 6" "clk 7"] Cons.prems o True
          getRemainingMs_ge_0 [OF Cons.prems(3), of "clk 7"] by auto
      have "notificationSent (checkTimerAlert clk m)"
        using alert_running [of m clk] Cons.prems o True z by auto
      then have "sent (updates es (update clk wall m)) = sent (update clk wall m)"
        using Cons.prems o z by (intro updates_after [of _ "clk 7"]) auto
      then show ?thesis using al True e u by auto
    next
      case False
      then have al: "sent (checkTimerAlert clk m) = sent m" "\<not> notificationSent (checkTimerAlert clk m)"
        using alert_running [of m clk] Cons.prems o by auto
      have "sent (updates es (update clk wall m)) = sent (update clk wall m) +
          (if \<exists>(clk, wall)\<in>set es. getRemainingMs (clk 6) (update clk wall m) = 0 then 1 else 0)"
        using Cons.IH [of "clk 7" "update clk wall m"] Cons.prems o al by simp
      then show ?thesis using al False e u by simp
    qed
  qed (simp add: updates_def)
  from this [of "startTime m"] show ?thesis using assms(4) by simp
qed

theorem timer_notifies_once_witness:
  "sent (updates [((\<lambda>_. 1000000000), 0), ((\<lambda>_. 62000000000), 0), ((\<lambda>_. 63000000000), 0)]
     (playPause ((\<lambda>_. 0), 0) (adjustTime 60000 ((\<lambda>_. 0), 0) (newTimer 0 0 0)))) = 1"
proof -
  let ?m = "playPause ((\<lambda>_. 0), 0) (adjustTime 60000 ((\<lambda>_. 0), 0) (newTimer 0 0 0))"
  have m: "isRunning ?m" "\<not> isPaused ?m" "startTime ?m = 0" "targetDurationMs ?m = 60000"
    "accumulatedPauseTime ?m = 0"
    by (simp_all add: playPause_def adjustTime_def)
  have n: "\<not> notificationSent ?m" "sent ?m = 0"
    by (simp_all add: playPause_def adjustTime_def checkTimerAlert_def getRemainingMs_def actualElapsed_def)
  have r: "getRemainingMs 62000000000 ?m = 0"
    using m by (simp add: getRemainingMs_def actualElapsed_def ms_def)
  show ?thesis
    using timer_notifies_once [OF m(1,2) n(1),
        of "[((\<lambda>_. 1000000000), 0), ((\<lambda>_. 62000000000), 0), ((\<lambda>_. 63000000000), 0)]"]
      m(3) n(2) r by simp
qed

text \<open>
  The wheel does nothing while the timer runs, and otherwise changes the target by the amount
  of the element it is turned on, but never below zero; the middle button clears the target
  unless the timer is running down.
\<close>

theorem timer_adjust_reset:
  "targetDurationMs (adjustTime amount cw m) =
     (if isRunning m then targetDurationMs m else max 0 (targetDurationMs m + amount)) \<and>
   isRunning (adjustTime amount cw m) = isRunning m \<and>
   (targetDurationMs (reset cw m), isRunning (reset cw m)) =
     (if isRunning m \<and> \<not> isPaused m \<and> getRemainingMs (fst cw 0) m > 0
      then (targetDurationMs m, True) else (0, False)) \<and>
   events (hourElement (newTimer w s p)) SCROLL_UP = Some (AdjustTime 3600000) \<and>
   events (minuteElement (newTimer w s p)) SCROLL_DOWN = Some (AdjustTime (- 60000)) \<and>
   events (secondElement (newTimer w s p)) CLICK_MIDDLE = Some Reset"
  by (auto simp: adjustTime_def reset_def newTimer_def Let_def module_base.defs configureScroll_def
      configureClicks_def)

text \<open>
  In the detailed mode the three elements show hours, minutes below 60 and seconds below 60 of
  the remaining time read last; in the compact mode they are empty.
\<close>

theorem timer_display:
  assumes "timer_inv (clk 8) m" "targetDurationMs m < 3600000 * 10 ^ 6"
  shows "\<exists>h mi s. (element_text (hourElement (update clk wall m)), element_text (minuteElement (update clk wall m)),
       element_text (secondElement (update clk wall m))) =
     (if showDetails m then ([45] @ fmt_02d h @ [58], fmt_02d mi @ [58], fmt_02d s) else ([], [], [])) \<and>
    3600 * h + 60 * mi + s = getRemainingMs (clk 8) m div 1000 \<and> 0 \<le> mi \<and> mi < 60 \<and> 0 \<le> s \<and> s < 60"
proof -
  define t where "t = getRemainingMs (clk 8) m"
  let ?h = "hours_of t" and ?mi = "minutes_of t" and ?s = "seconds_of t"
  have t: "0 \<le> t" "t < 3600000 * 10 ^ 6"
    using timer_inv_remaining [OF assms(1)] assms(2) by (simp_all add: t_def)
  note f = clock_fields [OF t(1)]
  have "?h < 10 ^ 6" using t by (simp add: hours_of_def)
  then have len: "length (fmt_02d ?h) \<le> 6" "length (fmt_02d ?mi) = 2" "length (fmt_02d ?s) = 2"
    using f length_fmt_02d [of "?h" 4] length_fmt_02d_60 by simp_all
  have "element_text (hourElement (update clk wall m)) = (if showDetails m then [45] @ fmt_02d ?h @ [58] else [])"
    "element_text (minuteElement (update clk wall m)) = (if showDetails m then fmt_02d ?mi @ [58] else [])"
    "element_text (secondElement (update clk wall m)) = (if showDetails m then fmt_02d ?s else [])"
    using len by (simp_all add: update_def Let_def show_field_def cstring CONTENT_MAX_LEN_def t_def)
  then show ?thesis using f by (auto simp: t_def)
qed

theorem timer_display_witness:
  "\<exists>h mi s. element_text (hourElement (update (\<lambda>_. 0) 0
      (toggleDetails ((\<lambda>_. 0), 0) (adjustTime 3725000 ((\<lambda>_. 0), 0) (newTimer 0 0 0))))) =
    [45] @ fmt_02d h @ [58] \<and> 3600 * h + 60 * mi + s = 3725"
proof -
  let ?m = "toggleDetails ((\<lambda>_. 0), 0) (adjustTime 3725000 ((\<lambda>_. 0), 0) (newTimer 0 0 0))"
  have m: "\<not> isRunning ?m" "showDetails ?m" "targetDurationMs ?m = 3725000"
    by (simp_all add: toggleDetails_def adjustTime_def)
  then have "timer_inv 0 ?m" "getRemainingMs 0 ?m = 3725000" by (simp_all add: timer_inv_def getRemainingMs_def)
  then show ?thesis using timer_display [of "\<lambda>_. 0" ?m 0] m by simp blast
qed

end
