(* ===== verification/Stopwatch.thy ===== *)
theory Stopwatch
  imports Clocks
begin

text \<open>
  \<open>modules/stopwatch.h\<close>.  Every reading of the steady clock is an argument: a handler takes the
  reading \<open>clk 0\<close>, and the update it ends with the reading \<open>clk 1\<close>; \<open>wall\<close> is \<open>time(nullptr)\<close>.
\<close>

section \<open>Definitions\<close>

datatype stopwatch_handler = PlayPause | Reset | ToggleDetails

record stopwatch = module_base +
  baseElement :: "stopwatch_handler barElement"
  timeElement :: "stopwatch_handler barElement"
  startTime :: int
  pauseTime :: int
  isRunning :: bool
  isPaused :: bool
  showDetails :: bool
  accumulatedPauseTime :: int

definition ICON_PLAY :: "byte list" where "ICON_PLAY = [0x20, 0xef, 0x81, 0x8b]"
definition ICON_PAUSE :: "byte list" where "ICON_PAUSE = [0x20, 0xef, 0x81, 0x8c]"
definition ICON_LOGO :: "byte list" where "ICON_LOGO = [0xef, 0x8b, 0xb2]"

definition get_elapsed_ms :: "int \<Rightarrow> stopwatch \<Rightarrow> int" where
  "get_elapsed_ms now m =
     (if \<not> isRunning m then 0
      else if isPaused m then ms (pauseTime m - startTime m) - accumulatedPauseTime m
      else ms (now - startTime m) - accumulatedPauseTime m)"

definition formatTime :: "int \<Rightarrow> byte list" where
  "formatTime t = fmt_02d (hours_of t) @ [58] @ fmt_02d (minutes_of t) @ [58] @ fmt_02d (seconds_of t)"

definition state_color :: "stopwatch \<Rightarrow> color" where
  "state_color m =
     (if \<not> isRunning m then color_of ''#E0AAFF'' (mk_color 224 170 255 255)
      else if isPaused m then color_of ''#FFA500'' (mk_color 255 165 0 255)
      else color_of ''#90EE90'' (mk_color 144 238 144 255))"

definition applyColors :: "stopwatch \<Rightarrow> stopwatch" where
  "applyColors m =
     m\<lparr>baseElement := (baseElement m)\<lparr>foregroundColor := state_color m\<rparr>,
       timeElement := (timeElement m)\<lparr>foregroundColor := state_color m\<rparr>\<rparr>"

text \<open>The time goes through a buffer of 64 bytes.\<close>

definition time_text :: "int \<Rightarrow> stopwatch \<Rightarrow> byte list" where
  "time_text now m =
     (if showDetails m
      then (if isRunning m then if isPaused m then ICON_PLAY else ICON_PAUSE else []) @ [32] @
             take 63 (formatTime (get_elapsed_ms now m))
      else [])"

definition update :: "int \<Rightarrow> int \<Rightarrow> stopwatch \<Rightarrow> stopwatch" where
  "update now wall m =
     (let m1 = applyColors m
      in m1\<lparr>baseElement := set_content ICON_LOGO (baseElement m1),
            timeElement := set_content (time_text now m1) (timeElement m1),
            lastUpdate := wall\<rparr>)"

definition playPause :: "(nat \<Rightarrow> int) \<times> int \<Rightarrow> stopwatch \<Rightarrow> stopwatch" where
  "playPause cw m =
     (let (clk, wall) = cw;
          m1 = (if \<not> isRunning m then
                  m\<lparr>startTime := clk 0, isRunning := True, isPaused := False, accumulatedPauseTime := 0\<rparr>
                else if isPaused m then
                  m\<lparr>accumulatedPauseTime := accumulatedPauseTime m + ms (clk 0 - pauseTime m),
                    isPaused := False\<rparr>
                else m\<lparr>pauseTime := clk 0, isPaused := True\<rparr>)
      in callRender (update (clk 1) wall m1))"

definition reset :: "(nat \<Rightarrow> int) \<times> int \<Rightarrow> stopwatch \<Rightarrow> stopwatch" where
  "reset cw m =
     callRender (update (fst cw 1) (snd cw)
       (m\<lparr>isRunning := False, isPaused := False, accumulatedPauseTime := 0\<rparr>))"

definition toggleDetails :: "(nat \<Rightarrow> int) \<times> int \<Rightarrow> stopwatch \<Rightarrow> stopwatch" where
  "toggleDetails cw m =
     callRender (update (fst cw 1) (snd cw) (m\<lparr>showDetails := \<not> showDetails m\<rparr>))"

fun run_handler :: "stopwatch_handler \<Rightarrow> (nat \<Rightarrow> int) \<times> int \<Rightarrow> stopwatch \<Rightarrow> stopwatch" where
  "run_handler PlayPause = playPause"
| "run_handler Reset = reset"
| "run_handler ToggleDetails = toggleDetails"

definition configureEvents :: "stopwatch_handler barElement \<Rightarrow> stopwatch_handler barElement" where
  "configureEvents e =
     setEvent (setEvent (setEvent e CLICK_LEFT PlayPause) CLICK_MIDDLE Reset) CLICK_RIGHT ToggleDetails"

definition newStopwatch :: "32 word \<Rightarrow> int \<Rightarrow> int \<Rightarrow> stopwatch" where
  "newStopwatch window0 start0 pause0 =
     (let e = configureEvents (staticElement\<lparr>moduleName := bytes ''stopwatch''\<rparr>)
      in module_base.extend (newModule (bytes ''stopwatch'') False 1 window0)
           \<lparr>baseElement = e, timeElement = e, startTime = start0, pauseTime = pause0,
            isRunning = False, isPaused = False, showDetails = False, accumulatedPauseTime = 0\<rparr>)"

lemma newStopwatch_sel [simp]:
  "isRunning (newStopwatch w s p) = False" "isPaused (newStopwatch w s p) = False"
  "showDetails (newStopwatch w s p) = False" "accumulatedPauseTime (newStopwatch w s p) = 0"
  by (simp_all add: newStopwatch_def Let_def module_base.defs)

definition elements :: "stopwatch \<Rightarrow> stopwatch_handler barElement list" where
  "elements m = [baseElement m, timeElement m]"

section \<open>The clock\<close>

lemma update_watch [simp]:
  "startTime (update now wall m) = startTime m" "pauseTime (update now wall m) = pauseTime m"
  "isRunning (update now wall m) = isRunning m" "isPaused (update now wall m) = isPaused m"
  "accumulatedPauseTime (update now wall m) = accumulatedPauseTime m"
  "showDetails (update now wall m) = showDetails m" "lastUpdate (update now wall m) = wall"
  "secondsPerUpdate (update now wall m) = secondsPerUpdate m"
  "autoUpdate (update now wall m) = autoUpdate m"
  by (simp_all add: update_def applyColors_def Let_def)

lemma callRender_watch [simp]:
  "startTime (callRender m) = startTime m" "pauseTime (callRender m) = pauseTime m"
  "isRunning (callRender m) = isRunning m" "isPaused (callRender m) = isPaused m"
  "accumulatedPauseTime (callRender m) = accumulatedPauseTime m"
  "showDetails (callRender m) = showDetails m"
  "baseElement (callRender m) = baseElement m" "timeElement (callRender m) = timeElement m"
  by (simp_all add: callRender_def)

lemma get_elapsed_ms_cong [simp]:
  "get_elapsed_ms now (update now' wall m) = get_elapsed_ms now m"
  "get_elapsed_ms now (callRender m) = get_elapsed_ms now m"
  by (simp_all add: get_elapsed_ms_def)

text \<open>The times stored are not after \<open>t\<close>, and in their order.\<close>

definition stamped :: "int \<Rightarrow> stopwatch \<Rightarrow> bool" where
  "stamped t m \<longleftrightarrow> startTime m \<le> t \<and> (isPaused m \<longrightarrow> startTime m \<le> pauseTime m \<and> pauseTime m \<le> t)"

interpretation watch: pausable_clock get_elapsed_ms playPause "\<lambda>cw. fst cw 0" isRunning isPaused
  "\<lambda>m. True" stamped
proof unfold_locales
  fix m :: stopwatch and cw :: "(nat \<Rightarrow> int) \<times> int"
  assume m: "isRunning m" "isPaused m" "stamped (fst cw 0) m"
  let ?t = "fst cw 0"
  have "get_elapsed_ms ?t m + ms (u - ?t) \<le> get_elapsed_ms u (playPause cw m) \<and>
      get_elapsed_ms u (playPause cw m) \<le> get_elapsed_ms ?t m + ms (u - ?t) + 2" if "?t \<le> u" for u
    using ms_add3 [of "pauseTime m - startTime m" "?t - pauseTime m" "u - ?t"] m that
    by (simp add: playPause_def get_elapsed_ms_def stamped_def split_beta)
  then show "isRunning (playPause cw m) \<and> \<not> isPaused (playPause cw m) \<and>
      stamped ?t (playPause cw m) \<and>
      (\<forall>u\<ge>?t. get_elapsed_ms ?t m + ms (u - ?t) \<le> get_elapsed_ms u (playPause cw m) \<and>
         get_elapsed_ms u (playPause cw m) \<le> get_elapsed_ms ?t m + ms (u - ?t) + 2)"
    using m by (simp add: playPause_def stamped_def split_beta)
qed (auto simp: playPause_def get_elapsed_ms_def stamped_def split_beta)

interpretation periodic: periodic_module "update now" "\<lambda>_. True" for now
  by unfold_locales simp_all

lemma isRunning_presses:
  assumes "\<not> isRunning m" "es \<noteq> []" "sorted (map (\<lambda>cw. fst cw 0) es @ [u])"
  shows "isRunning (fold playPause es m) \<and> (isPaused (fold playPause es m) \<longleftrightarrow> even (length es)) \<and>
    run_time (map (\<lambda>cw. fst cw 0) es) u \<le> get_elapsed_ms u (fold playPause es m) \<and>
    get_elapsed_ms u (fold playPause es m) \<le>
      run_time (map (\<lambda>cw. fst cw 0) es) u + 2 * int ((length es - 1) div 2)"
  by (rule watch.elapsed_run_time [OF assms(1) TrueI assms(2,3)])

section \<open>Properties\<close>

text \<open>
  C24 (functional): A stopwatch measures the time it runs.  Whatever the sequence of presses of its button, at
  times that do not decrease, it runs from the first one on and is paused exactly after an even
  number of presses; the time it shows is the sum of the intervals in which it was not paused,
  up to two milliseconds of rounding for each time it was resumed.
\<close>

theorem stopwatch_measures_running_time:
  assumes "\<not> isRunning m" "es \<noteq> []" "sorted (map (\<lambda>cw. fst cw 0) es @ [u])"
  shows "isRunning (fold playPause es m) \<and> (isPaused (fold playPause es m) \<longleftrightarrow> even (length es)) \<and>
    run_time (map (\<lambda>cw. fst cw 0) es) u \<le> get_elapsed_ms u (fold playPause es m) \<and>
    get_elapsed_ms u (fold playPause es m) \<le>
      run_time (map (\<lambda>cw. fst cw 0) es) u + 2 * int ((length es - 1) div 2)"
  by (rule isRunning_presses [OF assms])

theorem stopwatch_measures_running_time_witness:
  "5000 \<le> get_elapsed_ms 12000000000
      (fold playPause [((\<lambda>_. 1000000000), 0), ((\<lambda>_. 4000000000), 0), ((\<lambda>_. 10000000000), 0)]
        (newStopwatch 0 0 0))"
  using stopwatch_measures_running_time [of "newStopwatch 0 0 0"
      "[((\<lambda>_. 1000000000), 0), ((\<lambda>_. 4000000000), 0), ((\<lambda>_. 10000000000), 0)]" 12000000000]
  by (simp add: ms_def)

text \<open>
  In the detailed mode the element shows hours, minutes below 60 and seconds below 60 that
  add up to the whole seconds of the elapsed time; the compact mode shows nothing.
\<close>

theorem stopwatch_display:
  assumes "0 \<le> get_elapsed_ms now m" "get_elapsed_ms now m < 3600000 * 10 ^ 6"
  shows "\<exists>h mi s. element_text (timeElement (update now wall m)) =
      (if showDetails m then (if isRunning m then if isPaused m then ICON_PLAY else ICON_PAUSE else []) @
         [32] @ fmt_02d h @ [58] @ fmt_02d mi @ [58] @ fmt_02d s else []) \<and>
    3600 * h + 60 * mi + s = get_elapsed_ms now m div 1000 \<and> 0 \<le> mi \<and> mi < 60 \<and> 0 \<le> s \<and> s < 60"
proof -
  define t where "t = get_elapsed_ms now m"
  let ?h = "hours_of t" and ?mi = "minutes_of t" and ?s = "seconds_of t"
  have f: "0 \<le> ?h \<and> 0 \<le> ?mi \<and> ?mi < 60 \<and> 0 \<le> ?s \<and> ?s < 60 \<and> 3600 * ?h + 60 * ?mi + ?s = t div 1000"
    using assms(1) unfolding t_def by (rule clock_fields)
  have "?h < 10 ^ 6" using assms by (simp add: hours_of_def t_def)
  then have len: "length (formatTime t) \<le> 12"
    using f length_fmt_02d [of "?h" 4] length_fmt_02d_60 by (simp add: formatTime_def)
  let ?icon = "if isRunning m then if isPaused m then ICON_PLAY else ICON_PAUSE else []"
  have icon: "0 \<notin> set ?icon" "length ?icon \<le> 4" by (simp_all add: ICON_PLAY_def ICON_PAUSE_def)
  have "get_elapsed_ms now (applyColors m) = t"
    by (simp add: get_elapsed_ms_def applyColors_def t_def)
  then have shown: "time_text now (applyColors m) = (if showDetails m then ?icon @ [32] @ formatTime t else [])"
    using len by (simp add: time_text_def applyColors_def)
  have "0 \<notin> set (time_text now (applyColors m))" "length (time_text now (applyColors m)) < CONTENT_MAX_LEN"
    using icon len by (auto simp: shown formatTime_def CONTENT_MAX_LEN_def)
  then have "element_text (timeElement (update now wall m)) = time_text now (applyColors m)"
    by (simp add: update_def Let_def cstring)
  then show ?thesis using f by (auto simp: shown formatTime_def t_def)
qed

theorem stopwatch_display_witness:
  "\<exists>h mi s. element_text (timeElement (update 3725000000000 0
      (toggleDetails ((\<lambda>_. 0), 0) (playPause ((\<lambda>_. 0), 0) (newStopwatch 0 0 0))))) =
    ICON_PAUSE @ [32] @ fmt_02d h @ [58] @ fmt_02d mi @ [58] @ fmt_02d s \<and>
    3600 * h + 60 * mi + s = 3725"
proof -
  let ?m = "toggleDetails ((\<lambda>_. 0), 0) (playPause ((\<lambda>_. 0), 0) (newStopwatch 0 0 0))"
  have m: "isRunning ?m" "\<not> isPaused ?m" "showDetails ?m" "get_elapsed_ms 3725000000000 ?m = 3725000"
    by (simp_all add: toggleDetails_def playPause_def get_elapsed_ms_def ms_def)
  then show ?thesis using stopwatch_display [of 3725000000000 ?m 0] by simp blast
qed

end
