(* ===== verification/Process_Manager.thy ===== *)
theory Process_Manager
  imports Prelude
begin

text \<open>
  \<open>process_manager.cpp\<close> and the use \<open>main\<close> makes of it: the lock file that shall keep a second bar
  from starting.  The \<open>world\<close> is the lock file and the set of running processes; a process manager
  is the state of one process.  An unset path cannot be opened or unlinked.  What an
  uninitialised variable holds is the argument \<open>junk\<close>; which processes end within two seconds of
  a \<open>SIGTERM\<close> is the argument \<open>obeys\<close>.
\<close>

section \<open>Definitions\<close>

record world =
  lockfile :: "byte list option"
  alive :: "int set"
  writable :: bool

record process_manager =
  lockFilePath :: bool

definition newProcessManager :: process_manager where
  "newProcessManager = \<lparr>lockFilePath = False\<rparr>"

definition isProcessRunning :: "int \<Rightarrow> world \<Rightarrow> bool" where
  "isProcessRunning pid w \<longleftrightarrow> pid \<in> alive w"

text \<open>
  \<open>lock_file >> pid\<close>: at the end of the file the variable keeps its value, and it becomes 0 when
  there is no number.
\<close>

definition read_pid :: "int \<Rightarrow> byte list \<Rightarrow> int" where
  "read_pid junk s =
     (if \<forall>b\<in>set s. is_space b then junk
      else let (v, n, erange) = strtoul 10 s in if n = 0 then 0 else sint (ucast v :: 32 word))"

definition readLockFile :: "int \<Rightarrow> process_manager \<Rightarrow> world \<Rightarrow> int" where
  "readLockFile junk pm w =
     (if \<not> lockFilePath pm then 0
      else case lockfile w of None \<Rightarrow> 0 | Some s \<Rightarrow> read_pid junk s)"

definition writeLockFile :: "int \<Rightarrow> process_manager \<Rightarrow> world \<Rightarrow> bool \<times> world" where
  "writeLockFile pid pm w =
     (if \<not> lockFilePath pm \<or> \<not> writable w then (False, w)
      else (True, w\<lparr>lockfile := Some (fmt_d pid)\<rparr>))"

definition removeLockFile :: "process_manager \<Rightarrow> world \<Rightarrow> world" where
  "removeLockFile pm w = (if lockFilePath pm then w\<lparr>lockfile := None\<rparr> else w)"

definition cleanup :: "process_manager \<Rightarrow> world \<Rightarrow> world" where
  "cleanup pm w = removeLockFile pm w"

text \<open>A bar that gets a \<open>SIGTERM\<close> cleans up and exits (\<open>signalHandler\<close>).\<close>

definition signalHandler :: "int \<Rightarrow> process_manager \<Rightarrow> world \<Rightarrow> world" where
  "signalHandler me pm w = (let w1 = cleanup pm w in w1\<lparr>alive := alive w1 - {me}\<rparr>)"

definition sigterm :: "(int \<Rightarrow> bool) \<Rightarrow> int \<Rightarrow> world \<Rightarrow> world" where
  "sigterm obeys pid w = (if obeys pid then signalHandler pid \<lparr>lockFilePath = True\<rparr> w else w)"

definition killExistingInstance ::
  "int \<Rightarrow> (int \<Rightarrow> bool) \<Rightarrow> process_manager \<Rightarrow> world \<Rightarrow> bool \<times> world" where
  "killExistingInstance junk obeys pm w =
     (let existingPid = readLockFile junk pm w in
      if existingPid = 0 then (False, w)
      else if \<not> isProcessRunning existingPid w then (False, removeLockFile pm w)
      else (let w1 = sigterm obeys existingPid w;
                w2 = (if isProcessRunning existingPid w1
                      then w1\<lparr>alive := alive w1 - {existingPid}\<rparr> else w1)
            in (True, removeLockFile pm w2)))"

definition handleExistingInstances ::
  "bool \<Rightarrow> int \<Rightarrow> int \<Rightarrow> (int \<Rightarrow> bool) \<Rightarrow> process_manager \<Rightarrow> world \<Rightarrow> bool \<times> process_manager \<times> world" where
  "handleExistingInstances restartMode me junk obeys pm0 w =
     (let pm = pm0\<lparr>lockFilePath := True\<rparr>;
          existingPid = readLockFile junk pm w in
      if existingPid = 0 then
        (let (ok, w1) = writeLockFile me pm w in (ok, pm, w1))
      else if \<not> isProcessRunning existingPid w then
        (let (ok, w1) = writeLockFile me pm (removeLockFile pm w) in (ok, pm, w1))
      else if restartMode then
        (let (_, w1) = killExistingInstance junk obeys pm w;
             (ok, w2) = writeLockFile me pm w1 in (ok, pm, w2))
      else (False, pm, w))"

section \<open>The command line and the start of the program\<close>

record options =
  restart_mode :: bool
  no_lock :: bool
  kill_only :: bool
  verbose :: bool

text \<open>The loop over the arguments; \<open>--help\<close> ends the program (\<open>None\<close>).\<close>

fun parse_args :: "byte list list \<Rightarrow> options \<Rightarrow> options option" where
  "parse_args [] opts = Some opts"
| "parse_args (a # as) opts =
     (if a = bytes ''--restart'' then parse_args as (opts\<lparr>restart_mode := True\<rparr>)
      else if a = bytes ''--no-lock'' then parse_args as (opts\<lparr>no_lock := True\<rparr>)
      else if a = bytes ''--kill'' then parse_args as (opts\<lparr>kill_only := True\<rparr>)
      else if a = bytes ''--quiet'' then parse_args as (opts\<lparr>verbose := False\<rparr>)
      else if a = bytes ''--help'' then None
      else parse_args as opts)"

datatype launch = Exited int | Running process_manager

text \<open>
  The process \<open>me\<close> is started with the arguments \<open>args\<close>: it exits at once, or goes on to run its
  bars.  On every return from \<open>main\<close> after its construction the process manager is destroyed,
  and its destructor cleans up.
\<close>

definition exits :: "int \<Rightarrow> int \<Rightarrow> process_manager \<Rightarrow> world \<Rightarrow> launch \<times> world" where
  "exits me code pm w = (let w1 = cleanup pm w in (Exited code, w1\<lparr>alive := alive w1 - {me}\<rparr>))"

definition launch_main ::
  "byte list list \<Rightarrow> int \<Rightarrow> int \<Rightarrow> (int \<Rightarrow> bool) \<Rightarrow> world \<Rightarrow> launch \<times> world" where
  "launch_main args me junk obeys w0 =
     (let w = w0\<lparr>alive := insert me (alive w0)\<rparr> in
      case parse_args args \<lparr>restart_mode = False, no_lock = False, kill_only = False, verbose = True\<rparr> of
        None \<Rightarrow> (Exited 0, w0)
      | Some opts \<Rightarrow>
          if kill_only opts then
            (let (killed, w1) = killExistingInstance junk obeys newProcessManager w
             in exits me (if killed then 0 else 1) newProcessManager w1)
          else if no_lock opts then (Running newProcessManager, w)
          else
            (let (ok, pm, w1) = handleExistingInstances (restart_mode opts) me junk obeys newProcessManager w
             in if ok then (Running pm, w1) else exits me 1 pm w1))"

section \<open>The steps of \<open>handleExistingInstances\<close>\<close>

text \<open>
  Without restarting, the call reads the lock, looks at the process, removes a stale lock, and
  writes its own; other processes may run in between.
\<close>

datatype pc = AtRead | AtCheck int | AtRemove | AtWrite | Finished bool

definition lock_step :: "int \<Rightarrow> int \<Rightarrow> pc \<Rightarrow> world \<Rightarrow> pc \<times> world" where
  "lock_step me junk p w =
     (let pm = \<lparr>lockFilePath = True\<rparr> in
      case p of
        AtRead \<Rightarrow> (let pid = readLockFile junk pm w in (if pid = 0 then AtWrite else AtCheck pid, w))
      | AtCheck pid \<Rightarrow> (if isProcessRunning pid w then Finished False else AtRemove, w)
      | AtRemove \<Rightarrow> (AtWrite, removeLockFile pm w)
      | AtWrite \<Rightarrow> (let (ok, w1) = writeLockFile me pm w in (Finished ok, w1))
      | Finished ok \<Rightarrow> (Finished ok, w))"

text \<open>Several processes: the schedule says which one takes the next step.\<close>

fun lock_run :: "int list \<Rightarrow> int \<Rightarrow> (int \<Rightarrow> pc) \<times> world \<Rightarrow> (int \<Rightarrow> pc) \<times> world" where
  "lock_run [] junk st = st"
| "lock_run (me # sched) junk (pcs, w) =
     (let (p, w') = lock_step me junk (pcs me) w in lock_run sched junk (pcs(me := p), w'))"

section \<open>Lemmas\<close>

text \<open>A process identifier is a positive \<open>int\<close>; writing it and reading it back.\<close>

definition pid_ok :: "int \<Rightarrow> bool" where
  "pid_ok p \<longleftrightarrow> 0 < p \<and> p < 2 ^ 31"

lemma read_pid_fmt_d:
  assumes "pid_ok p"
  shows "read_pid junk (fmt_d p) = p"
proof -
  have p: "nat p < 2 ^ 31" "0 < p" using assms by (auto simp: pid_ok_def nat_less_iff)
  obtain c cs where c: "dec (nat p) = c # cs" "48 \<le> unat c" "unat c \<le> 57" by (rule dec_first)
  then have "\<not> is_space c" by (auto simp: is_space_def)
  moreover have "fmt_d p = dec (nat p)" using p by (simp add: fmt_d_def)
  moreover have "strtoul 10 (dec (nat p)) = (of_nat (nat p), length (dec (nat p)), False)"
    using strtoul_dec [of "nat p" "[]"] p by simp
  ultimately show ?thesis
    using c(1) p ucast_of_nat_word [of "nat p"] sint_of_nat_word [OF p(1)] by (simp add: read_pid_def)
qed

lemma world_defs [simp]:
  "alive (removeLockFile pm w) = alive w" "alive (cleanup pm w) = alive w"
  "writable (removeLockFile pm w) = writable w" "writable (cleanup pm w) = writable w"
  "lockfile (removeLockFile \<lparr>lockFilePath = True\<rparr> w) = None"
  "removeLockFile \<lparr>lockFilePath = False\<rparr> w = w"
  by (simp_all add: removeLockFile_def cleanup_def)

lemma readLockFile_written [simp]:
  "pid_ok p \<Longrightarrow> lockfile w = Some (fmt_d p) \<Longrightarrow> readLockFile junk \<lparr>lockFilePath = True\<rparr> w = p"
  by (simp add: readLockFile_def read_pid_fmt_d)

lemma readLockFile_absent [simp]: "lockfile w = None \<Longrightarrow> readLockFile junk pm w = 0"
  by (simp add: readLockFile_def)

lemma lock_run_append: "lock_run (xs @ ys) junk st = lock_run ys junk (lock_run xs junk st)"
  by (induction xs junk st rule: lock_run.induct) (auto split: prod.splits)

lemma lock_steps_alone:
  assumes "pcs me = AtRead"
  shows "lock_run (replicate 4 me) junk (pcs, w) =
    (case handleExistingInstances False me junk obeys pm w of
       (ok, pm', w') \<Rightarrow> (pcs(me := Finished ok), w'))"
proof -
  have pm: "pm\<lparr>lockFilePath := True\<rparr> = \<lparr>lockFilePath = True\<rparr>" by simp
  show ?thesis
    using assms by (simp add: numeral_eq_Suc handleExistingInstances_def lock_step_def pm Let_def
        split: prod.splits)
qed

section \<open>Properties\<close>

text \<open>
  A start that succeeds owns the lock: the file holds its process identifier, no process
  that held the lock before is running besides it, and with \<open>--restart\<close> the old process has been
  ended whether or not it obeyed.  If another bar holds the lock and no restart was asked for,
  the call fails and changes nothing.
\<close>

theorem start_owns_lock:
  assumes "pid_ok me" "pid_ok old" "old \<noteq> me" "writable w"
    and held: "lockfile w = None \<or> lockfile w = Some (fmt_d old)"
    and res: "handleExistingInstances restartMode me junk obeys pm w = (ok, pm', w')"
  shows "(ok \<longrightarrow> readLockFile junk pm' w' = me \<and> (lockfile w \<noteq> None \<longrightarrow> old \<notin> alive w')) \<and>
    (ok \<longleftrightarrow> restartMode \<or> lockfile w = None \<or> \<not> isProcessRunning old w) \<and> (\<not> ok \<longrightarrow> w' = w) \<and>
    (me \<in> alive w \<longrightarrow> me \<in> alive w')"
proof (cases "lockfile w")
  case None
  then show ?thesis
    using assms(1,4) res
    by (auto simp: handleExistingInstances_def writeLockFile_def readLockFile_def read_pid_fmt_d)
next
  case (Some s)
  then have old: "s = fmt_d old" "pid_ok old" using held assms(2) by auto
  then have nz: "old \<noteq> 0" by (simp add: pid_ok_def)
  have rd: "readLockFile junk \<lparr>lockFilePath = True\<rparr> w = old" using Some old by simp
  have pm: "pm\<lparr>lockFilePath := True\<rparr> = \<lparr>lockFilePath = True\<rparr>" by simp
  show ?thesis
    using res Some rd nz assms(1,3,4)
    by (auto simp: handleExistingInstances_def writeLockFile_def Let_def pm killExistingInstance_def
        sigterm_def signalHandler_def isProcessRunning_def removeLockFile_def
        readLockFile_def [of junk _ "_\<lparr>lockfile := _\<rparr>"] read_pid_fmt_d
        split: if_splits)
qed

definition demo_world :: world where
  "demo_world = \<lparr>lockfile = Some (fmt_d 100), alive = {100, 200}, writable = True\<rparr>"

theorem start_owns_lock_witness:
  "handleExistingInstances True 200 0 (\<lambda>_. False) newProcessManager demo_world =
     (True, \<lparr>lockFilePath = True\<rparr>, \<lparr>lockfile = Some (fmt_d 200), alive = {200}, writable = True\<rparr>) \<and>
   readLockFile 0 \<lparr>lockFilePath = True\<rparr> \<lparr>lockfile = Some (fmt_d 200), alive = {200}, writable = True\<rparr> = 200"
proof -
  have r: "handleExistingInstances True 200 0 (\<lambda>_. False) newProcessManager demo_world =
     (True, \<lparr>lockFilePath = True\<rparr>, \<lparr>lockfile = Some (fmt_d 200), alive = {200}, writable = True\<rparr>)"
    by (auto simp: handleExistingInstances_def killExistingInstance_def demo_world_def newProcessManager_def
        readLockFile_def read_pid_fmt_d pid_ok_def isProcessRunning_def sigterm_def writeLockFile_def
        removeLockFile_def)
  show ?thesis
    using start_owns_lock [OF _ _ _ _ _ r, of 100] r
    by (simp add: pid_ok_def demo_world_def)
qed

text \<open>
  A refused start breaks the lock of the bar that is running: the destructor of its
  process manager removes the lock file it does not own, so that after one refused start the
  next one succeeds and two bars run at the same time.
\<close>

theorem refused_start_breaks_lock:
  assumes "pid_ok p" "pid_ok q" "pid_ok r" "p \<noteq> q" "p \<noteq> r" "q \<noteq> r"
    and "lockfile w = Some (fmt_d p)" "p \<in> alive w" "writable w"
  shows "\<exists>w1 w2. launch_main [] q junk obeys w = (Exited 1, w1) \<and> lockfile w1 = None \<and> p \<in> alive w1 \<and>
    launch_main [] r junk obeys w1 = (Running \<lparr>lockFilePath = True\<rparr>, w2) \<and> {p, r} \<subseteq> alive w2"
proof -
  let ?w = "w\<lparr>alive := insert q (alive w)\<rparr>"
  have nz: "p \<noteq> 0" using assms(1) by (simp add: pid_ok_def)
  have rd: "readLockFile junk \<lparr>lockFilePath = True\<rparr> ?w = p" using assms(1,7) by simp
  have "handleExistingInstances False q junk obeys newProcessManager ?w = (False, \<lparr>lockFilePath = True\<rparr>, ?w)"
    using rd nz assms(8) by (simp add: handleExistingInstances_def newProcessManager_def isProcessRunning_def)
  then have 1: "launch_main [] q junk obeys w =
      (Exited 1, ?w\<lparr>lockfile := None, alive := insert q (alive w) - {q}\<rparr>)"
    by (simp add: launch_main_def exits_def cleanup_def removeLockFile_def)
  let ?w1 = "?w\<lparr>lockfile := None, alive := insert q (alive w) - {q}\<rparr>"
  have 2: "launch_main [] r junk obeys ?w1 = (Running \<lparr>lockFilePath = True\<rparr>,
      ?w1\<lparr>alive := insert r (insert q (alive w) - {q}), lockfile := Some (fmt_d r)\<rparr>)"
    using assms(9) by (simp add: launch_main_def handleExistingInstances_def newProcessManager_def
        writeLockFile_def)
  show ?thesis using 1 2 assms(4,8) by simp
qed

theorem refused_start_breaks_lock_witness:
  "\<exists>w1 w2. launch_main [] 300 0 (\<lambda>_. True) demo_world = (Exited 1, w1) \<and>
    launch_main [] 400 0 (\<lambda>_. True) w1 = (Running \<lparr>lockFilePath = True\<rparr>, w2) \<and> {100, 400} \<subseteq> alive w2"
  using refused_start_breaks_lock [of 100 300 400 demo_world 0 "\<lambda>_. True"]
  by (auto simp: pid_ok_def demo_world_def)

text \<open>
  \<open>--kill\<close> never ends a bar: the path of the lock file is only set when a start checks
  for other instances, so no instance is found, whatever runs and holds the lock, and the exit
  status reports a failure.
\<close>

theorem kill_option_never_kills:
  "launch_main [bytes ''--kill''] me junk obeys w =
     (Exited 1, w\<lparr>alive := insert me (alive w) - {me}\<rparr>)"
  by (simp add: launch_main_def killExistingInstance_def newProcessManager_def readLockFile_def
      exits_def cleanup_def bytes_def of_char_def)

text \<open>
  Four steps of a process that is not interrupted do what the call without
  restart does as a whole.
\<close>

theorem uninterrupted_lock_steps:
  "case handleExistingInstances False me junk obeys pm w of
     (ok, pm', w') \<Rightarrow> lock_run (replicate 4 me) junk ((\<lambda>_. AtRead), w) = ((\<lambda>_. AtRead)(me := Finished ok), w')"
  by (simp add: lock_steps_alone [of _ _ _ _ obeys pm] split: prod.splits)

text \<open>
  C27 (error): The steps of two processes that start at the same time can interleave so that
  both go on: each finds no lock file before the other has written it, and the second overwrites
  the lock of the first.
\<close>

theorem lock_race:
  assumes "pid_ok p" "pid_ok q" "p \<noteq> q" "lockfile w = None" "writable w"
  shows "\<exists>sched pcs w'. lock_run sched junk ((\<lambda>_. AtRead), w) = (pcs, w') \<and>
    pcs p = Finished True \<and> pcs q = Finished True \<and> lockfile w' = Some (fmt_d q)"
  using assms
  by (intro exI [of _ "[p, q, p, q]"])
    (auto simp: lock_step_def writeLockFile_def Let_def)

theorem lock_race_witness:
  "\<exists>sched pcs w'. lock_run sched 0 ((\<lambda>_. AtRead), demo_world\<lparr>lockfile := None\<rparr>) = (pcs, w') \<and>
    pcs 100 = Finished True \<and> pcs 200 = Finished True \<and> lockfile w' = Some (fmt_d 200)"
  by (rule lock_race) (simp_all add: pid_ok_def demo_world_def)



end
