(* ===== verification/Bar_Manager.thy ===== *)
theory Bar_Manager
  imports Element
begin

text \<open>
  \<open>main.cpp\<close>: the \<open>BarManager\<close> that owns a bar and its modules, its main loop, and the start of
  the two bars in their threads.  Modules are values of a type \<open>'m\<close>; what a virtual function does
  to one is an argument.
\<close>

section \<open>The bar manager\<close>

record 'm bar_manager =
  modules :: "'m list"
  workspaceIndex :: "nat option"
  any_updated :: bool
  renderCount :: nat

text \<open>
  The constructor: all modules get the render callback, and the workspace module is the last one
  with that name.
\<close>

definition newBarManager ::
  "('m \<Rightarrow> byte list) \<Rightarrow> ('m \<Rightarrow> 'm) \<Rightarrow> 'm list \<Rightarrow> 'm list \<Rightarrow> 'm bar_manager" where
  "newBarManager getName setRender ls rs =
     (let ms = ls @ rs;
          ix = filter (\<lambda>i. getName (ms ! i) = bytes ''workspace'') [0..<length ms]
      in \<lparr>modules = map setRender ms, workspaceIndex = (if ix = [] then None else Some (last ix)),
          any_updated = False, renderCount = 0\<rparr>)"

fun initializeAllModules :: "('m \<Rightarrow> 'm \<times> bool) \<Rightarrow> 'm list \<Rightarrow> 'm list \<times> bool" where
  "initializeAllModules initm [] = ([], True)"
| "initializeAllModules initm (m # ms) =
     (case initm m of
        (m', True) \<Rightarrow> (case initializeAllModules initm ms of (ms', ok) \<Rightarrow> (m' # ms', ok))
      | (m', False) \<Rightarrow> (m' # ms, False))"

text \<open>
  \<open>initialize\<close> of a manager: when all modules could be initialised, the manager of the top bar
  sets \<open>gTopReady\<close>, which is the last component.
\<close>

definition initialize ::
  "('m \<Rightarrow> 'm \<times> bool) \<Rightarrow> bool \<Rightarrow> 'm bar_manager \<times> bool \<Rightarrow> 'm bar_manager \<times> bool \<times> bool" where
  "initialize initm isTop st =
     (let (b, ready) = st; (ms, ok) = initializeAllModules initm (modules b)
      in (b\<lparr>modules := ms\<rparr>, ok, if \<not> ok then ready else ready \<or> isTop))"

definition registerModule :: "'m \<Rightarrow> 'm bar_manager \<Rightarrow> 'm bar_manager" where
  "registerModule m b = b\<lparr>modules := modules b @ [m]\<rparr>"

fun updateAll :: "('m \<Rightarrow> 'm \<times> bool) \<Rightarrow> 'm list \<Rightarrow> bool \<Rightarrow> 'm list \<times> bool" where
  "updateAll check [] upd = ([], upd)"
| "updateAll check (m # ms) upd =
     (let (m', u) = check m; (ms', upd') = updateAll check ms (upd \<or> u) in (m' # ms', upd'))"

definition updateModules :: "('m \<Rightarrow> 'm \<times> bool) \<Rightarrow> 'm bar_manager \<Rightarrow> 'm bar_manager" where
  "updateModules check b =
     (let (ms, upd) = updateAll check (modules b) False in b\<lparr>modules := ms, any_updated := upd\<rparr>)"

definition hasUpdates :: "'m bar_manager \<Rightarrow> bool" where
  "hasUpdates b = any_updated b"

text \<open>\<open>renderBar\<close> draws with \<open>feed\<close>, which changes the elements of the modules.\<close>

definition renderBar :: "('m list \<Rightarrow> 'm list) \<Rightarrow> 'm bar_manager \<Rightarrow> 'm bar_manager" where
  "renderBar feed b = b\<lparr>renderCount := Suc (renderCount b), modules := feed (modules b)\<rparr>"

section \<open>The main loop\<close>

text \<open>The microseconds of the timeout, from the nanoseconds within the current second.\<close>

definition select_usec :: "int \<Rightarrow> int" where
  "select_usec tv_nsec = 1000000 - cdiv tv_nsec 1000 + 10000"

text \<open>The timeout of \<open>select\<close> in seconds and microseconds, and its first argument.\<close>

definition select_args :: "int \<Rightarrow> int \<Rightarrow> int \<Rightarrow> (int \<times> int) \<times> int" where
  "select_args xcb_fd i3_fd tv_nsec =
     (let max_fd0 = (if xcb_fd \<noteq> - 1 then xcb_fd else - 1);
          max_fd = (if i3_fd > max_fd0 then i3_fd else max_fd0)
      in if max_fd = - 1 then ((1, 0), 0) else ((0, select_usec tv_nsec), max_fd + 1))"

text \<open>
  One iteration after \<open>select\<close> returned \<open>ret\<close>: the events of the workspace, those of X if the
  connection is readable, then the periodic updates.  An error ends the loop (\<open>None\<close>).
\<close>

record 'm loop_calls =
  handleI3Events :: "'m \<Rightarrow> 'm \<times> bool"
  workspaceUpdate :: "'m \<Rightarrow> 'm"
  handleX :: "'m list \<Rightarrow> 'm list"
  checkModule :: "'m \<Rightarrow> 'm \<times> bool"
  feedBar :: "'m list \<Rightarrow> 'm list"

definition i3_events :: "'m loop_calls \<Rightarrow> 'm bar_manager \<Rightarrow> 'm bar_manager \<times> bool" where
  "i3_events c b =
     (case workspaceIndex b of
        None \<Rightarrow> (b, False)
      | Some i \<Rightarrow> (let (m, changed) = handleI3Events c (modules b ! i)
                   in (b\<lparr>modules := (modules b)[i := m]\<rparr>, changed)))"

definition handleXEvents :: "'m loop_calls \<Rightarrow> bool \<Rightarrow> 'm bar_manager \<Rightarrow> 'm bar_manager" where
  "handleXEvents c xready b = (if xready then b\<lparr>modules := handleX c (modules b)\<rparr> else b)"

definition run_iteration :: "'m loop_calls \<Rightarrow> int \<Rightarrow> bool \<Rightarrow> 'm bar_manager \<Rightarrow> 'm bar_manager option" where
  "run_iteration c ret xready b =
     (if ret < 0 then None
      else
        (let (b1, changed) = i3_events c b;
             b2 = (if xready then handleXEvents c xready b1 else b1);
             (b3, should) =
               (if changed then
                  (case workspaceIndex b2 of
                     None \<Rightarrow> b2
                   | Some i \<Rightarrow> b2\<lparr>modules := (modules b2)[i := workspaceUpdate c (modules b2 ! i)]\<rparr>, True)
                else (b2, ret = 0))
         in Some (if should
                  then (let b4 = updateModules (checkModule c) b3
                        in if hasUpdates b4 then renderBar (feedBar c) b4 else b4)
                  else b3)))"

text \<open>The loop over the results of \<open>select\<close>; the flag \<open>gShutdown\<close> is never set.\<close>

fun run_loop :: "'m loop_calls \<Rightarrow> (int \<times> bool) list \<Rightarrow> 'm bar_manager \<Rightarrow> 'm bar_manager \<times> bool" where
  "run_loop c [] b = (b, True)"
| "run_loop c ((ret, xready) # rs) b =
     (case run_iteration c ret xready b of None \<Rightarrow> (b, False) | Some b' \<Rightarrow> run_loop c rs b')"

definition run :: "'m loop_calls \<Rightarrow> (int \<times> bool) list \<Rightarrow> 'm bar_manager \<Rightarrow> 'm bar_manager \<times> bool" where
  "run c rs b = run_loop c rs (renderBar (feedBar c) b)"

section \<open>Starting the two bars\<close>

text \<open>
  The thread of a bar and the main thread; \<open>topReady\<close> is \<open>gTopReady\<close>.  The arguments say whether
  the initialisation of each bar succeeds.
\<close>

datatype bar_thread = NotStarted | Initializing | InLoop | Returned

datatype main_thread = WaitingForTop | Joining | Finished

record startup =
  topReady :: bool
  topThread :: bar_thread
  bottomThread :: bar_thread
  mainThread :: main_thread

definition start :: startup where
  "start = \<lparr>topReady = False, topThread = Initializing, bottomThread = NotStarted,
     mainThread = WaitingForTop\<rparr>"

inductive start_step :: "bool \<Rightarrow> bool \<Rightarrow> startup \<Rightarrow> startup \<Rightarrow> bool" for okTop okBottom where
  top_ready: "okTop \<Longrightarrow> topThread s = Initializing \<Longrightarrow>
    start_step okTop okBottom s (s\<lparr>topReady := True, topThread := InLoop\<rparr>)"
| top_fails: "\<not> okTop \<Longrightarrow> topThread s = Initializing \<Longrightarrow>
    start_step okTop okBottom s (s\<lparr>topThread := Returned\<rparr>)"
| main_wakes: "mainThread s = WaitingForTop \<Longrightarrow> topReady s \<Longrightarrow>
    start_step okTop okBottom s (s\<lparr>mainThread := Joining, bottomThread := Initializing\<rparr>)"
| bottom_ready: "okBottom \<Longrightarrow> bottomThread s = Initializing \<Longrightarrow>
    start_step okTop okBottom s (s\<lparr>bottomThread := InLoop\<rparr>)"
| bottom_fails: "\<not> okBottom \<Longrightarrow> bottomThread s = Initializing \<Longrightarrow>
    start_step okTop okBottom s (s\<lparr>bottomThread := Returned\<rparr>)"
| top_ends: "topThread s = InLoop \<Longrightarrow> start_step okTop okBottom s (s\<lparr>topThread := Returned\<rparr>)"
| bottom_ends: "bottomThread s = InLoop \<Longrightarrow> start_step okTop okBottom s (s\<lparr>bottomThread := Returned\<rparr>)"
| main_joins: "mainThread s = Joining \<Longrightarrow> topThread s = Returned \<Longrightarrow> bottomThread s = Returned \<Longrightarrow>
    start_step okTop okBottom s (s\<lparr>mainThread := Finished\<rparr>)"

inductive reachable :: "bool \<Rightarrow> bool \<Rightarrow> startup \<Rightarrow> bool" for okTop okBottom where
  reach_start: "reachable okTop okBottom start"
| reach_step: "reachable okTop okBottom s \<Longrightarrow> start_step okTop okBottom s s' \<Longrightarrow> reachable okTop okBottom s'"

inductive_cases start_stepE: "start_step okTop okBottom s s'"

section \<open>Lemmas\<close>

lemma updateAll_map: "updateAll check ms upd = (map (fst \<circ> check) ms, upd \<or> (\<exists>m\<in>set ms. snd (check m)))"
  by (induction ms arbitrary: upd) (auto simp: Let_def split: prod.splits)

lemma initializeAllModules_ok: "snd (initializeAllModules initm ms) \<longleftrightarrow> (\<forall>m\<in>set ms. snd (initm m))"
  by (induction ms) (auto split: prod.splits bool.splits)

text \<open>The steps of the bars' initialisations follow from what \<open>initialize\<close> returns and signals.\<close>

lemma initialize_steps:
  assumes "initialize initm True (b, topReady s) = (b', ok, ready)" "topThread s = Initializing" "\<not> topReady s"
  shows "ok = (\<forall>m\<in>set (modules b). snd (initm m))"
    and "start_step ok okBottom s (s\<lparr>topReady := ready, topThread := if ok then InLoop else Returned\<rparr>)"
proof -
  show "ok = (\<forall>m\<in>set (modules b). snd (initm m))"
    using assms(1) by (auto simp: initialize_def Let_def initializeAllModules_ok [symmetric] split: prod.splits)
  have "ready = ok" using assms(1,3) by (auto simp: initialize_def Let_def split: prod.splits if_splits)
  then show "start_step ok okBottom s (s\<lparr>topReady := ready, topThread := if ok then InLoop else Returned\<rparr>)"
    using assms(2,3) top_ready [of True s okBottom] top_fails [of False s okBottom]
    by (cases ok) (simp_all, cases s, simp)
qed

lemma start_invariant:
  "reachable okTop okBottom s \<Longrightarrow>
   (topReady s \<longrightarrow> okTop \<and> topThread s \<in> {InLoop, Returned}) \<and>
   (\<not> topReady s \<longrightarrow> bottomThread s = NotStarted \<and> mainThread s = WaitingForTop \<and>
      (topThread s = Initializing \<or> \<not> okTop)) \<and>
   (bottomThread s = NotStarted \<longleftrightarrow> mainThread s = WaitingForTop)"
proof (induction rule: reachable.induct)
  case (reach_step s s')
  from reach_step.hyps(2) reach_step.IH show ?case by (auto elim!: start_stepE)
qed (simp add: start_def)

lemma main_can_wake:
  assumes "reachable True okBottom s"
  shows "\<exists>s'. (start_step True okBottom)\<^sup>*\<^sup>* s s' \<and> bottomThread s' \<noteq> NotStarted"
proof -
  have wake: "\<exists>s'. (start_step True okBottom)\<^sup>*\<^sup>* t s' \<and> bottomThread s' \<noteq> NotStarted"
    if "reachable True okBottom t" "topReady t" for t
  proof (cases "mainThread t = WaitingForTop")
    case True
    then have "start_step True okBottom t (t\<lparr>mainThread := Joining, bottomThread := Initializing\<rparr>)"
      using that(2) by (rule main_wakes)
    then show ?thesis by (intro exI conjI, rule r_into_rtranclp) auto
  next
    case False
    then show ?thesis using start_invariant [OF that(1)] by blast
  qed
  show ?thesis
  proof (cases "topReady s")
    case True
    then show ?thesis using wake assms by blast
  next
    case False
    then have "topThread s = Initializing" using start_invariant [OF assms] by blast
    then have st: "start_step True okBottom s (s\<lparr>topReady := True, topThread := InLoop\<rparr>)"
      by (intro top_ready) simp_all
    obtain s' where "(start_step True okBottom)\<^sup>*\<^sup>* (s\<lparr>topReady := True, topThread := InLoop\<rparr>) s'"
      "bottomThread s' \<noteq> NotStarted"
      using wake [OF reach_step [OF assms st]] by auto
    then show ?thesis
      using converse_rtranclp_into_rtranclp [where r = "start_step True okBottom", OF st] by blast
  qed
qed

section \<open>Properties\<close>

text \<open>
  the timeout is more than ten milliseconds and at most a second and ten
  milliseconds, and ends ten milliseconds after the start of the next second, so that every
  second has an iteration.
\<close>

theorem select_timeout_bounds:
  assumes "0 \<le> tv_nsec" "tv_nsec < 10 ^ 9"
  shows "10001 \<le> select_usec tv_nsec \<and> select_usec tv_nsec \<le> 1010000 \<and>
    tv_nsec div 1000 + select_usec tv_nsec = 1010000"
proof -
  have "0 \<le> tv_nsec div 1000" using assms(1) by (simp add: pos_imp_zdiv_nonneg_iff)
  moreover have "tv_nsec div 1000 \<le> 999999999 div 1000" using assms(2) by (intro zdiv_mono1) simp_all
  ultimately show ?thesis using assms(1) by (simp add: select_usec_def)
qed

theorem select_timeout_bounds_witness: "10001 \<le> select_usec 999999999"
  using select_timeout_bounds [of 999999999] by simp



text \<open>
  The threads start in order: in every reachable state the bottom bar has only been
  started after the top bar was initialised, and the program only ends after both threads ended.
\<close>

theorem startup_order:
  assumes "reachable okTop okBottom s"
  shows "(bottomThread s \<noteq> NotStarted \<longrightarrow> topReady s \<and> okTop) \<and>
    (topReady s \<longrightarrow> topThread s \<in> {InLoop, Returned})"
  using start_invariant [OF assms] by blast

theorem startup_order_witness:
  "reachable True True \<lparr>topReady = True, topThread = InLoop, bottomThread = NotStarted, mainThread = WaitingForTop\<rparr> \<and>
   topReady \<lparr>topReady = True, topThread = InLoop, bottomThread = NotStarted, mainThread = WaitingForTop\<rparr>"
proof -
  have "start_step True True start (start\<lparr>topReady := True, topThread := InLoop\<rparr>)"
    by (rule top_ready) (simp_all add: start_def)
  then have "reachable True True (start\<lparr>topReady := True, topThread := InLoop\<rparr>)"
    by (rule reach_step [OF reach_start])
  then have r: "reachable True True \<lparr>topReady = True, topThread = InLoop, bottomThread = NotStarted, mainThread = WaitingForTop\<rparr>"
    by (simp add: start_def)
  show ?thesis using startup_order [OF r] r by simp
qed

text \<open>
  C28 (liveness): If the top bar can be initialised, the start of the bottom bar stays possible
  from every reachable state; if it cannot, the main thread waits forever and the bottom bar is
  never started, although nothing is wrong with it.
\<close>

theorem startup_progress:
  "(\<forall>s. reachable True okBottom s \<longrightarrow>
      (\<exists>s'. (start_step True okBottom)\<^sup>*\<^sup>* s s' \<and> bottomThread s' \<noteq> NotStarted)) \<and>
   (\<forall>s. reachable False okBottom s \<longrightarrow> mainThread s = WaitingForTop \<and> bottomThread s = NotStarted)"
  using main_can_wake start_invariant by blast

theorem startup_progress_witness:
  "(\<exists>s'. (start_step True True)\<^sup>*\<^sup>* start s' \<and> bottomThread s' \<noteq> NotStarted) \<and>
   mainThread start = WaitingForTop"
  using startup_progress reach_start by blast

end
