(* ===== verification/I3_Context.thy ===== *)
theory I3_Context
  imports Prelude
begin

text \<open>
  \<open>i3ipc.h\<close>, the connection to the window manager: the library's context and its error states,
  the growing buffers, the names of the message types, how the socket's path is asked for and the
  two connections are opened, and the loops that transfer a whole block over a socket.

  A call of the library ends with a result, stops the process in an \<open>assert\<close> or \<open>abort\<close>, waits
  for ever in a system call or has undefined behaviour; \<open>outcome\<close> keeps these apart.  What the
  system calls answer is a script in the state, so that every answer they can give is one of the
  states.  The text of error messages is not modelled.
\<close>

section \<open>Outcomes\<close>

datatype 'a outcome = Ret 'a | Abort | Block | Undefined

fun obind :: "'a outcome \<Rightarrow> ('a \<Rightarrow> 'b outcome) \<Rightarrow> 'b outcome" where
  "obind (Ret x) f = f x"
| "obind Abort f = Abort"
| "obind Block f = Block"
| "obind Undefined f = Undefined"

text \<open>\<open>assert(c)\<close>.\<close>

definition assert_then :: "bool \<Rightarrow> 'a outcome \<Rightarrow> 'a outcome" where
  "assert_then c k = (if c then k else Abort)"

lemma assert_then_simps [simp]: "assert_then True k = k" "assert_then False k = Abort"
  by (simp_all add: assert_then_def)

lemma obind_Ret: "obind m f = Ret y \<longleftrightarrow> (\<exists>x. m = Ret x \<and> f x = Ret y)"
  by (cases m) auto

lemma obind_cong [fundef_cong]:
  "m = m' \<Longrightarrow> (\<And>x. m' = Ret x \<Longrightarrow> f x = g x) \<Longrightarrow> obind m f = obind m' g"
  by (cases m') auto

lemma assert_then_cong [fundef_cong]:
  "c = c' \<Longrightarrow> (c' \<Longrightarrow> k = k') \<Longrightarrow> assert_then c k = assert_then c' k'"
  by (simp add: assert_then_def)

lemma assert_then_Ret: "assert_then c k = Ret y \<longleftrightarrow> c \<and> k = Ret y"
  by (simp add: assert_then_def)

section \<open>Codes\<close>

named_theorems i3codes \<open>the numbers of the library's enumerations\<close>

definition I3IPC_ERROR_CLOSED :: int where [i3codes]: "I3IPC_ERROR_CLOSED = 256"
definition I3IPC_ERROR_MALFORMED :: int where [i3codes]: "I3IPC_ERROR_MALFORMED = 257"
definition I3IPC_ERROR_IO :: int where [i3codes]: "I3IPC_ERROR_IO = 258"
definition I3IPC_ERROR_FAILED :: int where [i3codes]: "I3IPC_ERROR_FAILED = 259"
definition I3IPC_ERROR_BADSTATE :: int where [i3codes]: "I3IPC_ERROR_BADSTATE = - 1"

definition I3IPC_STATE_UNINITIALIZED :: int where [i3codes]: "I3IPC_STATE_UNINITIALIZED = 0"
definition I3IPC_STATE_READY :: int where [i3codes]: "I3IPC_STATE_READY = 1"
definition I3IPC_STATE_ERROR_BEGIN :: int where
  [i3codes]: "I3IPC_STATE_ERROR_BEGIN = I3IPC_ERROR_CLOSED"

text \<open>The messages, the replies (the same numbers) and the events.\<close>

definition I3IPC_RUN_COMMAND :: int where [i3codes]: "I3IPC_RUN_COMMAND = 0"
definition I3IPC_GET_WORKSPACES :: int where [i3codes]: "I3IPC_GET_WORKSPACES = 1"
definition I3IPC_SUBSCRIBE :: int where [i3codes]: "I3IPC_SUBSCRIBE = 2"
definition I3IPC_GET_BAR_CONFIG :: int where [i3codes]: "I3IPC_GET_BAR_CONFIG = 6"
definition I3IPC_SEND_TICK :: int where [i3codes]: "I3IPC_SEND_TICK = 10"
definition I3IPC_SYNC :: int where [i3codes]: "I3IPC_SYNC = 11"
definition I3IPC_MESSAGE_TYPE_COUNT :: int where [i3codes]: "I3IPC_MESSAGE_TYPE_COUNT = 12"
definition I3IPC_REPLY_SUBSCRIBE :: int where [i3codes]: "I3IPC_REPLY_SUBSCRIBE = 2"
definition I3IPC_EVENT_TYPE_BEGIN :: int where [i3codes]: "I3IPC_EVENT_TYPE_BEGIN = - 2147483648"
definition I3IPC_EVENT_TYPE_END :: int where [i3codes]: "I3IPC_EVENT_TYPE_END = - 2147483640"
definition I3IPC_EVENT_ANY :: int where [i3codes]: "I3IPC_EVENT_ANY = - 2"

definition global_message_type_name :: "string list" where
  "global_message_type_name =
     [''run_command'', ''get_workspaces'', ''subscribe'', ''get_outputs'', ''get_tree'',
      ''get_marks'', ''get_bar_config'', ''get_version'', ''get_binding_modes'', ''get_config'',
      ''send_tick'', ''sync'']"

definition global_reply_type_name :: "string list" where
  "global_reply_type_name =
     [''command'', ''workspaces'', ''subscribe'', ''outputs'', ''tree'', ''marks'', ''bar_config'',
      ''version'', ''binding_modes'', ''config'', ''tick'', ''sync'']"

definition global_event_type_name :: "string list" where
  "global_event_type_name =
     [''workspace'', ''output'', ''mode'', ''window'', ''barconfig_update'', ''binding'',
      ''shutdown'', ''tick'']"

text \<open>
  \<open>i3ipc__message_type_str\<close>; a negative number with its top bit cleared is the index of an event.
  Nothing stands behind the last name of the table.
\<close>

definition message_type_str :: "int \<Rightarrow> bool \<Rightarrow> string outcome" where
  "message_type_str t is_reply =
     (if 0 \<le> t \<and> t < I3IPC_MESSAGE_TYPE_COUNT
      then Ret ((if is_reply then global_message_type_name else global_reply_type_name) ! nat t)
      else if - 2147483648 \<le> t \<and> t \<le> I3IPC_EVENT_TYPE_END
      then (let i = nat (t + 2147483648)
            in if i < length global_event_type_name then Ret (global_event_type_name ! i)
               else Undefined)
      else if t = I3IPC_EVENT_ANY then Ret ''<any-event-or-subscribe>''
      else Ret ''invalid'')"

section \<open>Streams\<close>

text \<open>
  What \<open>read\<close> finds on a descriptor, in the order in which it finds it: segments of bytes, the
  end of the stream, a failure (and whether it is \<open>EWOULDBLOCK\<close>).  A call takes no more than one
  segment; on an empty script it waits.
\<close>

datatype io_in = Bytes "byte list" | Eof | Err bool

datatype read_result = Got "byte list" | Fail bool

fun sys_read :: "nat \<Rightarrow> io_in list \<Rightarrow> (read_result \<times> io_in list) outcome" where
  "sys_read n [] = Block"
| "sys_read n (Bytes bs # r) =
     (if bs = [] then sys_read n r
      else Ret (Got (take n bs), if n < length bs then Bytes (drop n bs) # r else r))"
| "sys_read n (Eof # r) = Ret (Got [], Eof # r)"
| "sys_read n (Err w # r) = Ret (Fail w, r)"

text \<open>What \<open>write\<close> answers: the number of bytes it takes, \<open>EPIPE\<close>, or another failure.\<close>

datatype io_out = Takes nat | Broken | WFail bool

record conn =
  incoming :: "io_in list"
  accepts :: "io_out list"
  sent :: "byte list"

definition I3IPC_WRITE_ALL_ERROR :: int where [i3codes]: "I3IPC_WRITE_ALL_ERROR = 101"
definition I3IPC_WRITE_ALL_EOF :: int where [i3codes]: "I3IPC_WRITE_ALL_EOF = 102"
definition I3IPC_WRITE_ALL_WOULDBLOCK :: int where [i3codes]: "I3IPC_WRITE_ALL_WOULDBLOCK = 103"
definition I3IPC_READ_ALL_ERROR :: int where [i3codes]: "I3IPC_READ_ALL_ERROR = 201"
definition I3IPC_READ_ALL_EOF :: int where [i3codes]: "I3IPC_READ_ALL_EOF = 202"
definition I3IPC_READ_ALL_WOULDBLOCK :: int where [i3codes]: "I3IPC_READ_ALL_WOULDBLOCK = 203"

text \<open>\<open>i3ipc__write_all_try\<close>; \<open>write\<close> takes at most what it is given.\<close>

fun write_all_try :: "byte list \<Rightarrow> io_out list \<Rightarrow> byte list \<Rightarrow> (int \<times> io_out list \<times> byte list) outcome"
where
  "write_all_try [] ws out = Ret (0, ws, out)"
| "write_all_try (b # buf) [] out = Block"
| "write_all_try (b # buf) (Broken # ws) out = Ret (I3IPC_WRITE_ALL_EOF, ws, out)"
| "write_all_try (b # buf) (WFail wouldblock # ws) out =
     Ret (if wouldblock then I3IPC_WRITE_ALL_WOULDBLOCK else I3IPC_WRITE_ALL_ERROR, ws, out)"
| "write_all_try (b # buf) (Takes k # ws) out =
     assert_then (0 < k) (write_all_try (drop k (b # buf)) ws (out @ take k (b # buf)))"

text \<open>\<open>i3ipc__read_all_try\<close>, with the bytes that were stored.\<close>

function read_all_try :: "nat \<Rightarrow> io_in list \<Rightarrow> (int \<times> byte list \<times> io_in list) outcome" where
  "read_all_try buf_size ios =
     (if buf_size = 0 then Ret (0, [], ios)
      else obind (sys_read buf_size ios) (\<lambda>(res, ios').
        case res of
          Fail wouldblock \<Rightarrow>
            Ret (if wouldblock then I3IPC_READ_ALL_WOULDBLOCK else I3IPC_READ_ALL_ERROR, [], ios')
        | Got [] \<Rightarrow> Ret (I3IPC_READ_ALL_EOF, [], ios')
        | Got (b # bs) \<Rightarrow>
            obind (read_all_try (buf_size - length (b # bs)) ios') (\<lambda>(code, cs, ios'').
              Ret (code, b # bs @ cs, ios''))))"
  by auto

termination
  by (relation "measure fst") auto

declare read_all_try.simps [simp del]

text \<open>The bytes that are delivered before the first end or failure.\<close>

fun stream :: "io_in list \<Rightarrow> byte list" where
  "stream (Bytes bs # r) = bs @ stream r"
| "stream _ = []"

lemma sys_read_stream:
  assumes "0 < n" "stream ios \<noteq> []"
  shows "\<exists>bs ios'. sys_read n ios = Ret (Got bs, ios') \<and> bs \<noteq> [] \<and> length bs \<le> n \<and>
           stream ios = bs @ stream ios'"
  using assms
proof (induction n ios rule: sys_read.induct)
  case (2 n bs r)
  then show ?case by (cases "bs = []") auto
qed auto

lemma read_all_stream:
  assumes "n \<le> length (stream ios)"
  shows "\<exists>ios'. read_all_try n ios = Ret (0, take n (stream ios), ios') \<and>
           stream ios' = drop n (stream ios)"
  using assms
proof (induction n arbitrary: ios rule: less_induct)
  case (less n)
  show ?case
  proof (cases "n = 0")
    case True
    then show ?thesis by (simp add: read_all_try.simps)
  next
    case False
    then obtain bs ios1 where 1: "sys_read n ios = Ret (Got bs, ios1)" "bs \<noteq> []" "length bs \<le> n"
      "stream ios = bs @ stream ios1"
      using sys_read_stream [of n ios] less.prems by fastforce
    have "n - length bs < n" "n - length bs \<le> length (stream ios1)"
      using 1(2,4) less.prems False by (cases bs; simp)+
    then obtain ios2 where "read_all_try (n - length bs) ios1 = Ret (0, take (n - length bs) (stream ios1), ios2)"
      "stream ios2 = drop (n - length bs) (stream ios1)"
      using less.IH by blast
    then show ?thesis
      using 1 False by (subst read_all_try.simps) (cases bs; simp add: take_Cons' drop_Cons')
  qed
qed

text \<open>What comes after them, and what a reader reports that wants more than there is.\<close>

fun ending :: "io_in list \<Rightarrow> io_in list" where
  "ending (Bytes bs # r) = ending r"
| "ending ios = ios"

lemma sys_read_ending: "sys_read n ios = Ret (Got (b # bs), ios') \<Longrightarrow> ending ios' = ending ios"
proof (induction n ios rule: sys_read.induct)
  case (2 n cs r)
  then show ?case by (cases "cs = []") (auto split: if_splits)
qed auto

lemma sys_read_empty_stream: "stream ios = [] \<Longrightarrow> sys_read n ios = sys_read n (ending ios)"
  by (induction n ios rule: sys_read.induct) auto

definition read_failure :: "io_in \<Rightarrow> int" where
  "read_failure e = (case e of Err w \<Rightarrow> if w then I3IPC_READ_ALL_WOULDBLOCK else I3IPC_READ_ALL_ERROR
                             | _ \<Rightarrow> I3IPC_READ_ALL_EOF)"

lemma read_all_short:
  assumes "length (stream ios) < n" "ending ios = e # r"
  shows "\<exists>ios'. read_all_try n ios = Ret (read_failure e, stream ios, ios')"
  using assms
proof (induction n arbitrary: ios rule: less_induct)
  case (less n)
  have e: "(\<exists>w. e = Err w) \<or> e = Eof"
    using less.prems(2) by (induction ios rule: ending.induct) auto
  show ?case
  proof (cases "stream ios = []")
    case True
    then have rd: "sys_read n ios = sys_read n (e # r)"
      using sys_read_empty_stream less.prems(2) by metis
    have n: "n \<noteq> 0" using less.prems(1) by simp
    from e have "read_all_try n ios = Ret (read_failure e, [], snd (case e of Eof \<Rightarrow> ((), e # r) | _ \<Rightarrow> ((), r)))"
      by (rule disjE) (subst read_all_try.simps; auto simp: n rd read_failure_def)+
    with True show ?thesis by simp
  next
    case False
    moreover have "0 < n" using less.prems(1) by simp
    ultimately obtain bs1 ios1 where 0: "sys_read n ios = Ret (Got bs1, ios1)" "bs1 \<noteq> []"
      "stream ios = bs1 @ stream ios1"
      using sys_read_stream [of n ios] by blast
    then obtain b bs where 1: "sys_read n ios = Ret (Got (b # bs), ios1)"
      "stream ios = (b # bs) @ stream ios1"
      by (cases bs1) auto
    have "n - length (b # bs) < n" "length (stream ios1) < n - length (b # bs)" "ending ios1 = e # r"
      using 1 less.prems sys_read_ending [OF 1(1)] by auto
    then obtain ios2 where
      "read_all_try (n - length (b # bs)) ios1 = Ret (read_failure e, stream ios1, ios2)"
      using less.IH by blast
    then show ?thesis
      using 1 less.prems(1) by (subst read_all_try.simps) simp
  qed
qed

section \<open>The context\<close>

datatype context_buffer =
  CONTEXT_MSG | CONTEXT_PARSE | CONTEXT_ALLOCS | CONTEXT_REORDER | CONTEXT_JSON | CONTEXT_PAYLOAD

text \<open>
  The answers to the system calls of one attempt to open a socket.  The path is printed by
  \<open>i3 --get-socketpath\<close>, whose output and exit the first fields describe.
\<close>

datatype child_end = Wait_failed | Exited int | Killed | Other_code

record open_run =
  pipe_ok :: bool
  fork_ok :: bool
  close_ok :: bool
  cmd_output :: "io_in list"
  child :: child_end
  socket_result :: int
  connect_ok :: bool

text \<open>
  \<open>I3ipc_context\<close> and the part of the world it is connected to.  A buffer is the list of its
  bytes, so its length is \<open>buffer_sizes\<close>; the messages that \<open>CONTEXT_REORDER\<close> points to are in
  \<open>queued\<close>, their number is \<open>events_queued\<close>.  New memory holds \<open>junk\<close>.
\<close>

record i3 =
  state :: int
  sock :: int
  sock_events :: int
  buffers :: "context_buffer \<Rightarrow> byte list"
  queued :: "byte list list"
  nopanic :: bool
  staticalloc :: bool
  debug_do_not_write_messages :: bool
  debug_nodata_is_error :: bool
  loglevel :: int
  globals_initialized :: bool
  junk :: byte
  conns :: "int \<Rightarrow> conn"
  openings :: "open_run list"
  closed_fds :: "int list"
  caller_path_freed :: bool

definition error_code :: "i3 \<Rightarrow> int" where
  "error_code c = (if state c < I3IPC_STATE_ERROR_BEGIN then 0 else state c)"

definition error_reinitialize :: "bool \<Rightarrow> i3 \<Rightarrow> i3 outcome" where
  "error_reinitialize force_reinit c =
     assert_then (error_code c \<noteq> 0)
       (if error_code c \<noteq> I3IPC_ERROR_FAILED \<or> force_reinit
        then Ret (c\<lparr>state := I3IPC_STATE_UNINITIALIZED,
                    closed_fds := closed_fds c @ [sock c, sock_events c],
                    sock := 0, sock_events := 0, queued := []\<rparr>)
        else Ret (c\<lparr>state := I3IPC_STATE_READY\<rparr>))"

text \<open>\<open>i3ipc__error_handle\<close>, and the same followed by \<open>return code\<close>.\<close>

definition error_handle :: "int \<Rightarrow> i3 \<Rightarrow> (int \<times> i3) outcome" where
  "error_handle code c =
     (if code \<noteq> 0
      then (let c1 = (if code \<noteq> I3IPC_ERROR_BADSTATE then c\<lparr>state := code\<rparr> else c)
            in if \<not> nopanic c then Abort else Ret (code, c1))
      else Ret (code, c))"

definition set_staticalloc :: "bool \<Rightarrow> i3 \<Rightarrow> bool \<times> i3" where
  "set_staticalloc value c = (staticalloc c, c\<lparr>staticalloc := value\<rparr>)"

definition set_loglevel :: "int \<Rightarrow> i3 \<Rightarrow> int \<times> i3" where
  "set_loglevel value c = (loglevel c, c\<lparr>loglevel := value\<rparr>)"

definition set_nopanic :: "bool \<Rightarrow> i3 \<Rightarrow> (bool \<times> i3) outcome" where
  "set_nopanic value c =
     (let prev = nopanic c; c1 = c\<lparr>nopanic := value\<rparr>
      in if \<not> value \<and> error_code c1 \<noteq> 0 then Abort else Ret (prev, c1))"

text \<open>\<open>i3ipc__context_reserve\<close>: grow to twice the size, or to the wanted size.\<close>

definition grown :: "nat \<Rightarrow> nat \<Rightarrow> nat" where
  "grown buf_size size_next =
     (if buf_size < size_next then (if 2 * buf_size < size_next then size_next else 2 * buf_size)
      else buf_size)"

definition realloc :: "byte \<Rightarrow> nat \<Rightarrow> byte list \<Rightarrow> byte list" where
  "realloc x n buf = take n buf @ replicate (n - length buf) x"

definition context_reserve :: "context_buffer \<Rightarrow> nat \<Rightarrow> i3 \<Rightarrow> i3" where
  "context_reserve b size_next c =
     c\<lparr>buffers := (buffers c)(b := realloc (junk c) (grown (length (buffers c b)) size_next) (buffers c b))\<rparr>"

lemma grown_bounds:
  "buf_size \<le> grown buf_size n" "n \<le> grown buf_size n" "grown buf_size n \<le> max (2 * buf_size) n"
  by (auto simp: grown_def)

text \<open>What was in a buffer stays at its front.\<close>

lemma reserve_extends:
  "buffers (context_reserve b n c) =
     (buffers c)(b := buffers c b @ replicate (grown (length (buffers c b)) n - length (buffers c b)) (junk c))"
  using grown_bounds(1) [of "length (buffers c b)" n] by (simp add: context_reserve_def realloc_def)

lemma reserve_length: "n \<le> length (buffers (context_reserve b n c) b)"
  using grown_bounds [where buf_size = "length (buffers c b)" and n = n] by (simp add: reserve_extends)

lemma reserve_simps [simp]:
  "state (context_reserve b n c) = state c" "sock (context_reserve b n c) = sock c"
  "sock_events (context_reserve b n c) = sock_events c" "queued (context_reserve b n c) = queued c"
  "conns (context_reserve b n c) = conns c" "openings (context_reserve b n c) = openings c"
  "nopanic (context_reserve b n c) = nopanic c" "junk (context_reserve b n c) = junk c"
  "debug_do_not_write_messages (context_reserve b n c) = debug_do_not_write_messages c"
  "debug_nodata_is_error (context_reserve b n c) = debug_nodata_is_error c"
  "loglevel (context_reserve b n c) = loglevel c" "staticalloc (context_reserve b n c) = staticalloc c"
  "closed_fds (context_reserve b n c) = closed_fds c"
  by (simp_all add: context_reserve_def)

section \<open>Opening the sockets\<close>

text \<open>
  \<open>i3ipc__socketpath_cmd_try\<close>, in the parent process.  The loop keeps \<open>space_min\<close> bytes free in
  front of every \<open>read\<close>; the pairs are the offset and the size of the buffer at each of them.
\<close>

definition space_min :: nat where
  "space_min = 64"

definition grown_cmd :: "nat \<Rightarrow> nat \<Rightarrow> nat" where
  "grown_cmd off buf_size =
     (if buf_size - off < space_min
      then (if 2 * buf_size - off < space_min then off + space_min else 2 * buf_size)
      else buf_size)"

fun in_size :: "io_in list \<Rightarrow> nat" where
  "in_size [] = 0"
| "in_size (Bytes bs # r) = length bs + 1 + in_size r"
| "in_size (_ # r) = 1 + in_size r"

lemma grown_cmd_space: "off + space_min \<le> grown_cmd off buf_size" if "off \<le> buf_size"
  using that by (auto simp: grown_cmd_def space_min_def)

lemma sys_read_size:
  "sys_read n ios = Ret (Got bs, ios') \<Longrightarrow> bs \<noteq> [] \<Longrightarrow> in_size ios' < in_size ios"
proof (induction n ios rule: sys_read.induct)
  case (2 n cs r)
  then show ?case by (cases "cs = []") (auto split: if_splits)
qed auto

function cmd_read_loop ::
  "byte list \<Rightarrow> nat \<Rightarrow> io_in list \<Rightarrow> (nat \<times> nat) list \<Rightarrow> ((byte list option) \<times> (nat \<times> nat) list) outcome"
where
  "cmd_read_loop buf buf_size ios calls =
     (let off = length buf; size1 = grown_cmd off buf_size; calls1 = calls @ [(off, size1)]
      in obind (sys_read (size1 - off) ios) (\<lambda>(res, ios').
           case res of
             Fail _ \<Rightarrow> Ret (None, calls1)
           | Got [] \<Rightarrow> Ret (Some buf, calls1)
           | Got (b # bs) \<Rightarrow> cmd_read_loop (buf @ b # bs) size1 ios' calls1))"
  by pat_completeness auto

termination
  by (relation "measure (\<lambda>(buf, n, ios, calls). in_size ios)") (auto dest: sys_read_size)

declare cmd_read_loop.simps [simp del]

text \<open>The result: the code, and the path when the code is 0.\<close>

definition socketpath_cmd_try :: "open_run \<Rightarrow> (int \<times> byte list) outcome" where
  "socketpath_cmd_try r =
     (if \<not> pipe_ok r then Ret (1, [])
      else if \<not> fork_ok r then Ret (2, [])
      else if \<not> close_ok r then Ret (3, [])
      else obind (cmd_read_loop [] 0 (cmd_output r) []) (\<lambda>(out, _).
        case out of
          None \<Rightarrow> Ret (4, [])
        | Some buf \<Rightarrow>
            (case child r of
               Wait_failed \<Rightarrow> Ret (5, [])
             | Killed \<Rightarrow> Ret (7, [])
             | _ \<Rightarrow>
                 if (case child r of Exited status \<Rightarrow> status \<noteq> 0 | _ \<Rightarrow> False) then Ret (6, [])
                 else if buf = [] \<or> last buf \<noteq> 10 then Ret (8, [])
                 else Ret (0, cstr (butlast buf @ [0])))))"

text \<open>
  \<open>i3ipc__socket_open_try\<close>: the code, the socket and the path for \<open>*out_socketpath\<close> (when one
  was stored).  \<open>sun_path\<close> has 108 bytes.
\<close>

definition sun_path_size :: nat where
  "sun_path_size = 108"

definition socket_open_try :: "byte list option \<Rightarrow> open_run \<Rightarrow> (int \<times> int option \<times> byte list option) outcome"
where
  "socket_open_try socketpath r =
     obind (case socketpath of Some p \<Rightarrow> Ret (0, p) | None \<Rightarrow> socketpath_cmd_try r) (\<lambda>(code, path).
       if code \<noteq> 0 then Ret (1, None, None)
       else if socket_result r = - 1 then Ret (2, None, Some path)
       else if length path \<ge> sun_path_size then Ret (3, None, Some path)
       else if \<not> connect_ok r then Ret (4, None, Some path)
       else Ret (0, Some (socket_result r), Some path))"

text \<open>
  \<open>i3ipc_init_try\<close>.  The path that the first attempt stores is freed at the end, also when it is
  the pointer the caller passed.
\<close>

definition init_failed :: "bool \<Rightarrow> i3 \<Rightarrow> int \<times> i3" where
  "init_failed caller c =
     (I3IPC_ERROR_CLOSED, c\<lparr>caller_path_freed := caller_path_freed c \<or> caller, state := I3IPC_ERROR_CLOSED\<rparr>)"

definition next_opening :: "i3 \<Rightarrow> (open_run \<times> i3) outcome" where
  "next_opening c = (case openings c of [] \<Rightarrow> Block | r # rs \<Rightarrow> Ret (r, c\<lparr>openings := rs\<rparr>))"

definition init_try :: "byte list option \<Rightarrow> i3 \<Rightarrow> (int \<times> i3) outcome" where
  "init_try socketpath c0 =
     (let c = c0\<lparr>globals_initialized := True\<rparr>;
          caller = (socketpath \<noteq> None)
      in if state c = I3IPC_STATE_READY then Ret (0, c)
         else if error_code c \<noteq> 0 then Ret (I3IPC_ERROR_BADSTATE, c)
         else obind (next_opening c) (\<lambda>(r1, c1).
           obind (socket_open_try socketpath r1) (\<lambda>(code1, fd1, path).
             if code1 \<noteq> 0 then Ret (init_failed caller c1)
             else (let c2 = c1\<lparr>sock := the fd1\<rparr>
                   in obind (next_opening c2) (\<lambda>(r2, c3).
                        obind (socket_open_try path r2) (\<lambda>(code2, fd2, _).
                          if code2 \<noteq> 0 then Ret (init_failed caller c3)
                          else Ret (0, c3\<lparr>sock_events := the fd2,
                                          caller_path_freed := caller_path_freed c3 \<or> caller,
                                          state := I3IPC_STATE_READY\<rparr>)))))))"

text \<open>\<open>i3ipc__message_type_to_socket\<close>.\<close>

definition message_type_to_socket :: "int \<Rightarrow> i3 \<Rightarrow> int outcome" where
  "message_type_to_socket t c =
     (if t = I3IPC_SUBSCRIBE then Ret (sock_events c)
      else if 0 \<le> t \<and> t < I3IPC_MESSAGE_TYPE_COUNT then Ret (sock c)
      else if I3IPC_EVENT_TYPE_BEGIN \<le> t \<and> t < I3IPC_EVENT_TYPE_END then Ret (sock_events c)
      else if t = I3IPC_EVENT_ANY then Ret (sock_events c)
      else Abort)"

section \<open>Facts about the start\<close>

lemma init_try_ready [simp]:
  "state c = I3IPC_STATE_READY \<Longrightarrow> init_try p c = Ret (0, c\<lparr>globals_initialized := True\<rparr>)"
  by (simp add: init_try_def Let_def)

lemma init_try_error:
  "error_code c \<noteq> 0 \<Longrightarrow> init_try p c = Ret (I3IPC_ERROR_BADSTATE, c\<lparr>globals_initialized := True\<rparr>)"
  by (auto simp: init_try_def Let_def error_code_def i3codes split: if_splits)

lemma next_opening_Ret:
  "next_opening c = Ret (r, c') \<longleftrightarrow> (\<exists>rs. openings c = r # rs \<and> c' = c\<lparr>openings := rs\<rparr>)"
  by (auto simp: next_opening_def split: list.splits)

text \<open>The three ways in which \<open>init_try\<close> can end.\<close>

lemma init_try_cases:
  assumes "init_try p c = Ret (k, c')"
  obtains (ready) "state c = I3IPC_STATE_READY" "k = 0" "c' = c\<lparr>globals_initialized := True\<rparr>"
  | (error) "error_code c \<noteq> 0" "k = I3IPC_ERROR_BADSTATE" "c' = c\<lparr>globals_initialized := True\<rparr>"
  | (opened) "error_code c = 0" "k = 0" "state c' = I3IPC_STATE_READY"
      "length (openings c') < length (openings c)" "queued c' = queued c"
  | (failed) "error_code c = 0" "k = I3IPC_ERROR_CLOSED" "state c' = I3IPC_ERROR_CLOSED"
      "queued c' = queued c"
proof (cases "state c = I3IPC_STATE_READY \<or> error_code c \<noteq> 0")
  case True
  then show ?thesis
    using assms that(1,2) init_try_error [of c p] by (cases "error_code c = 0") auto
next
  case False
  then have "error_code c = 0" by simp
  moreover have "k = 0 \<and> state c' = I3IPC_STATE_READY \<and> length (openings c') < length (openings c) \<and> queued c' = queued c \<or>
      k = I3IPC_ERROR_CLOSED \<and> state c' = I3IPC_ERROR_CLOSED \<and> queued c' = queued c"
    using assms False
    by (auto simp: init_try_def Let_def obind_Ret next_opening_Ret init_failed_def error_code_def
        split: if_splits)
  ultimately show ?thesis using that(3,4) by blast
qed

lemma error_handle_nonzero [simp]: "k \<noteq> 0 \<Longrightarrow> error_handle k c = Ret (0, c') \<longleftrightarrow> False"
  by (auto simp: error_handle_def Let_def)

end
