(* ===== verification/I3_Message.thy ===== *)
theory I3_Message
  imports I3_Context
begin

text \<open>
  \<open>i3ipc.h\<close>, the messages: their layout in memory, sending, receiving, and receiving out of order
  with a queue of the messages that were passed over.  A received message stands at the front of
  the buffer \<open>CONTEXT_MSG\<close>, where \<open>*out_reply\<close> points.
\<close>

section \<open>The packed header\<close>

text \<open>A 32-bit integer in memory, least byte first.\<close>

definition le32 :: "int \<Rightarrow> byte list" where
  "le32 i = (let n = unat (word_of_int i :: 32 word)
             in [of_nat n, of_nat (n div 256), of_nat (n div 65536), of_nat (n div 16777216)])"

definition un_le32 :: "byte list \<Rightarrow> int" where
  "un_le32 bs = sint (of_nat (foldr (\<lambda>b v. unat b + 256 * v) bs 0) :: 32 word)"

definition int32 :: "int \<Rightarrow> bool" where
  "int32 i \<longleftrightarrow> - (2 ^ 31) \<le> i \<and> i < 2 ^ 31"

lemma length_le32 [simp]: "length (le32 i) = 4"
  by (simp add: le32_def Let_def)

lemma unat_byte_mod: "unat (of_nat n :: byte) = n mod 256"
  by (simp add: unat_of_nat)

lemma base256:
  assumes n: "n < 4294967296"
  shows "foldr (\<lambda>b v. unat b + 256 * v)
           [of_nat n :: byte, of_nat (n div 256), of_nat (n div 65536), of_nat (n div 16777216)] 0 = n"
proof -
  have d: "n div 65536 = n div 256 div 256" "n div 16777216 = n div 256 div 256 div 256"
    by (simp_all add: div_mult2_eq [symmetric])
  have "n div 256 div 256 div 256 < 256"
    using n by (simp add: div_mult2_eq [symmetric])
  then have "n mod 256 + 256 * (n div 256 mod 256 + 256 * (n div 256 div 256 mod 256 +
      256 * (n div 256 div 256 div 256 mod 256))) = n"
    by simp
  then show ?thesis unfolding d by (simp only: foldr.simps o_apply id_apply unat_byte_mod) simp
qed

lemma un_le32_le32 [simp]: "int32 i \<Longrightarrow> un_le32 (le32 i) = i"
proof -
  assume i: "int32 i"
  have "unat (word_of_int i :: 32 word) < 2 ^ LENGTH(32)" by (rule unsigned_less)
  then have "foldr (\<lambda>b v. unat b + 256 * v) (le32 i) 0 = unat (word_of_int i :: 32 word)"
    unfolding le32_def Let_def by (intro base256) simp
  then show ?thesis
    using i by (simp add: un_le32_def int32_def signed_of_int signed_take_bit_int_eq_self)
qed

definition magic :: "byte list" where
  "magic = bytes ''i3-ipc''"

definition sizeof_message :: nat where
  "sizeof_message = 14"

definition message_length :: "byte list \<Rightarrow> int" where
  "message_length msg = un_le32 (take 4 (drop 6 msg))"

definition message_type :: "byte list \<Rightarrow> int" where
  "message_type msg = un_le32 (take 4 (drop 10 msg))"

definition header :: "int \<Rightarrow> int \<Rightarrow> byte list" where
  "header len t = magic @ le32 len @ le32 t"

text \<open>Storing bytes at an offset of a buffer.\<close>

definition store_at :: "nat \<Rightarrow> byte list \<Rightarrow> byte list \<Rightarrow> byte list" where
  "store_at off bs buf = take off buf @ bs @ drop (off + length bs) buf"

lemma length_header [simp]: "length (header len t) = 14"
  by (simp add: header_def magic_def)

lemma header_fields [simp]:
  "int32 len \<Longrightarrow> message_length (header len t @ r) = len"
  "int32 t \<Longrightarrow> message_type (header len t @ r) = t"
  by (simp_all add: message_length_def message_type_def header_def magic_def)

lemma length_store_at [simp]: "off + length bs \<le> length buf \<Longrightarrow> length (store_at off bs buf) = length buf"
  by (simp add: store_at_def)

section \<open>Sending\<close>

definition set_conn :: "int \<Rightarrow> conn \<Rightarrow> i3 \<Rightarrow> i3" where
  "set_conn s k c = c\<lparr>conns := (conns c)(s := k)\<rparr>"

definition write_to :: "int \<Rightarrow> byte list \<Rightarrow> i3 \<Rightarrow> (int \<times> i3) outcome" where
  "write_to s bs c =
     obind (write_all_try bs (accepts (conns c s)) (sent (conns c s))) (\<lambda>(code, ws, out).
       Ret (code, set_conn s ((conns c s)\<lparr>accepts := ws, sent := out\<rparr>) c))"

definition has_payload :: "int \<Rightarrow> bool" where
  "has_payload t \<longleftrightarrow> t = I3IPC_RUN_COMMAND \<or> t = I3IPC_SUBSCRIBE \<or> t = I3IPC_SEND_TICK \<or>
     t = I3IPC_SYNC \<or> t = I3IPC_GET_BAR_CONFIG"

text \<open>
  The payload is the memory the pointer refers to, or \<open>None\<close> for a null pointer; its size is
  \<open>strlen\<close> when the caller passes -1.
\<close>

definition payload_length :: "byte list option \<Rightarrow> int \<Rightarrow> nat outcome" where
  "payload_length payload payload_size =
     (if payload_size = - 1
      then (case payload of None \<Rightarrow> Ret 0
            | Some p \<Rightarrow> if 0 \<in> set p then Ret (length (cstr p)) else Undefined)
      else Ret (nat payload_size))"

definition fill_message :: "int \<Rightarrow> byte list option \<Rightarrow> nat \<Rightarrow> byte list \<Rightarrow> byte list outcome" where
  "fill_message t payload n buf =
     (if has_payload t
      then (let buf1 = store_at 0 (header (int n) t) buf
            in case payload of
                 None \<Rightarrow> Ret buf1
               | Some p \<Rightarrow> if length p < n then Undefined
                           else Ret (store_at sizeof_message (take n p) buf1))
      else assert_then (n = 0) (Ret (store_at 0 (header 0 t) buf)))"

text \<open>The message is put together in the buffer and written, after the library was started.\<close>

definition send_message :: "int \<Rightarrow> byte list option \<Rightarrow> nat \<Rightarrow> i3 \<Rightarrow> (int \<times> i3) outcome" where
  "send_message t payload n c =
     obind (message_type_to_socket t c) (\<lambda>s.
       let c1 = context_reserve CONTEXT_MSG (sizeof_message + n) c
       in obind (fill_message t payload n (buffers c1 CONTEXT_MSG)) (\<lambda>buf.
         let c2 = c1\<lparr>buffers := (buffers c1)(CONTEXT_MSG := buf)\<rparr>
         in if debug_do_not_write_messages c2 then Ret (0, c2)
            else obind (write_to s (take (sizeof_message + nat (message_length buf)) buf) c2)
              (\<lambda>(code, c3).
                 if code = I3IPC_WRITE_ALL_EOF then error_handle I3IPC_ERROR_CLOSED c3
                 else if code \<noteq> 0 then error_handle I3IPC_ERROR_IO c3
                 else Ret (0, c3))))"

definition message_send_try :: "int \<Rightarrow> byte list option \<Rightarrow> int \<Rightarrow> i3 \<Rightarrow> (int \<times> i3) outcome" where
  "message_send_try t payload payload_size c =
     assert_then (0 \<le> t \<and> t < I3IPC_MESSAGE_TYPE_COUNT)
       (assert_then (- 1 \<le> payload_size)
         (obind (payload_length payload payload_size) (\<lambda>n.
          obind (init_try None c) (\<lambda>(code, c1).
            if code \<noteq> 0 then Ret (code, c1) else send_message t payload n c1))))"

section \<open>Receiving\<close>

text \<open>\<open>i3ipc__read_all_try\<close> into the message buffer.\<close>

definition read_into :: "int \<Rightarrow> nat \<Rightarrow> nat \<Rightarrow> i3 \<Rightarrow> (int \<times> i3) outcome" where
  "read_into s off n c =
     obind (read_all_try n (incoming (conns c s))) (\<lambda>(code, bs, ios).
       Ret (code, (set_conn s ((conns c s)\<lparr>incoming := ios\<rparr>) c)
              \<lparr>buffers := (buffers c)(CONTEXT_MSG := store_at off bs (buffers c CONTEXT_MSG))\<rparr>))"

definition size_max :: int where
  "size_max = 256 * 1024 * 1024"

text \<open>
  The two reads.  The first component of the result says that the function has already returned
  through the error handler.
\<close>

definition receive_block :: "int \<Rightarrow> i3 \<Rightarrow> (bool \<times> int \<times> i3) outcome" where
  "receive_block s c =
     obind (read_into s 0 sizeof_message c) (\<lambda>(code, c1).
       if code \<noteq> 0 then Ret (False, code, c1)
       else let len = message_length (buffers c1 CONTEXT_MSG);
                malformed = obind (error_handle I3IPC_ERROR_MALFORMED c1) (\<lambda>(k, c2). Ret (True, k, c2))
            in if len < 0 then malformed
               else if int sizeof_message + len + 1 > size_max then malformed
               else obind (read_into s sizeof_message (nat len)
                           (context_reserve CONTEXT_MSG (sizeof_message + nat len + 1) c1))
                      (\<lambda>(code, c2). Ret (False, code, c2)))"

definition type_matches :: "int \<Rightarrow> int \<Rightarrow> bool" where
  "type_matches expected got \<longleftrightarrow> got = expected \<or>
     (expected = I3IPC_EVENT_ANY \<and>
       (got = I3IPC_REPLY_SUBSCRIBE \<or> (I3IPC_EVENT_TYPE_BEGIN \<le> got \<and> got < I3IPC_EVENT_TYPE_END)))"

text \<open>What follows the reads: their errors, the final zero byte and the check of the type.\<close>

definition receive_finish :: "int \<Rightarrow> bool \<times> int \<times> i3 \<Rightarrow> (int \<times> i3) outcome" where
  "receive_finish t =
     (\<lambda>(over, code, c).
        if over then Ret (code, c)
        else if code = I3IPC_READ_ALL_EOF then error_handle I3IPC_ERROR_CLOSED c
        else if code = I3IPC_READ_ALL_WOULDBLOCK \<and> debug_nodata_is_error c
        then error_handle I3IPC_ERROR_MALFORMED c
        else if code \<noteq> 0 then error_handle I3IPC_ERROR_IO c
        else let msg = buffers c CONTEXT_MSG;
                 c1 = c\<lparr>buffers := (buffers c)(CONTEXT_MSG :=
                        store_at (sizeof_message + nat (message_length msg)) [0] msg)\<rparr>;
                 got = message_type msg
             in if type_matches t got then Ret (0, c1)
                else obind (message_type_str t True) (\<lambda>_.
                  obind (message_type_str got True) (\<lambda>_. error_handle I3IPC_ERROR_MALFORMED c1)))"

definition message_receive_try :: "int \<Rightarrow> i3 \<Rightarrow> (int \<times> i3) outcome" where
  "message_receive_try t c =
     obind (init_try None c) (\<lambda>(code, c1).
       if code \<noteq> 0 then Ret (code, c1)
       else obind (message_type_to_socket t c1) (\<lambda>s.
         obind (receive_block s (context_reserve CONTEXT_MSG sizeof_message c1)) (receive_finish t)))"

definition message_try :: "int \<Rightarrow> byte list option \<Rightarrow> int \<Rightarrow> i3 \<Rightarrow> (int \<times> i3) outcome" where
  "message_try t payload payload_size c =
     obind (message_send_try t payload payload_size c) (\<lambda>(code, c1).
       if code \<noteq> 0 then Ret (code, c1) else message_receive_try t c1)"

section \<open>Every received message shortens the input\<close>

lemma sys_read_size_le: "sys_read n ios = Ret (res, ios') \<Longrightarrow> in_size ios' \<le> in_size ios"
proof (induction n ios rule: sys_read.induct)
  case (2 n cs r)
  then show ?case by (cases "cs = []") (auto split: if_splits)
qed auto

lemma read_all_cases:
  assumes "read_all_try n ios = Ret (k, bs, ios')"
  obtains (none) "n = 0" "k = 0" "bs = []" "ios' = ios"
  | (stopped) res where "0 < n" "k \<noteq> 0" "bs = []" "sys_read n ios = Ret (res, ios')"
  | (some) b cs ios1 ds where "0 < n" "sys_read n ios = Ret (Got (b # cs), ios1)"
      "read_all_try (n - length (b # cs)) ios1 = Ret (k, ds, ios')" "bs = b # cs @ ds"
proof (cases "n = 0")
  case True
  then show ?thesis using assms none by (simp add: read_all_try.simps)
next
  case False
  with assms obtain res ios1 where 1: "sys_read n ios = Ret (res, ios1)"
    by (subst (asm) read_all_try.simps) (auto simp: obind_Ret)
  show ?thesis
  proof (cases res)
    case (Got cs)
    then show ?thesis
      using assms False 1 stopped some
      by (subst (asm) read_all_try.simps) (cases cs; auto simp: obind_Ret i3codes)
  next
    case (Fail w)
    then show ?thesis
      using assms False 1 stopped
      by (subst (asm) read_all_try.simps) (auto simp: i3codes)
  qed
qed

lemma read_all_size: "read_all_try n ios = Ret (k, bs, ios') \<Longrightarrow> in_size ios' \<le> in_size ios"
proof (induction n arbitrary: ios k bs ios' rule: less_induct)
  case (less n)
  from less.prems show ?case
  proof (cases rule: read_all_cases)
    case (some b cs ios1 ds)
    then show ?thesis
      using less.IH [OF _ some(3)] sys_read_size_le [OF some(2)] by simp
  qed (auto dest: sys_read_size_le)
qed

lemma read_all_progress:
  assumes "read_all_try n ios = Ret (0, bs, ios')" "0 < n"
  shows "in_size ios' < in_size ios"
  using assms(1)
proof (cases rule: read_all_cases)
  case (some b cs ios1 ds)
  then show ?thesis
    using sys_read_size [OF some(2)] read_all_size [OF some(3)] by simp
qed (use assms in auto)

lemma read_into_frame:
  assumes "read_into s off n c = Ret (k, c')"
  shows "openings c' = openings c" "sock_events c' = sock_events c" "sock c' = sock c"
    "queued c' = queued c" "state c' = state c" "nopanic c' = nopanic c"
    "in_size (incoming (conns c' s)) \<le> in_size (incoming (conns c s))"
    "k = 0 \<Longrightarrow> 0 < n \<Longrightarrow> in_size (incoming (conns c' s)) < in_size (incoming (conns c s))"
  using assms
  by (auto simp: read_into_def obind_Ret set_conn_def dest: read_all_size read_all_progress)

lemma receive_block_progress:
  assumes "receive_block s c = Ret (False, 0, c')"
  shows "openings c' = openings c" "sock_events c' = sock_events c" "queued c' = queued c"
    "in_size (incoming (conns c' s)) < in_size (incoming (conns c s))"
proof -
  from assms obtain c1 len where 1: "read_into s 0 sizeof_message c = Ret (0, c1)"
    "read_into s sizeof_message len (context_reserve CONTEXT_MSG (sizeof_message + len + 1) c1) = Ret (0, c')"
    by (auto simp: receive_block_def Let_def obind_Ret split: if_splits)
  have "0 < sizeof_message" by (simp add: sizeof_message_def)
  with read_into_frame [OF 1(1)] read_into_frame [OF 1(2)]
  show "openings c' = openings c" "sock_events c' = sock_events c" "queued c' = queued c"
    "in_size (incoming (conns c' s)) < in_size (incoming (conns c s))"
    by simp_all
qed

lemma receive_block_over: "receive_block s c = Ret (True, k, c') \<Longrightarrow> k \<noteq> 0"
  by (auto simp: receive_block_def Let_def obind_Ret error_handle_nonzero i3codes split: if_splits)

lemma receive_finish_Ret0:
  assumes "receive_finish t (over, code, c) = Ret (0, c')" "over \<Longrightarrow> code \<noteq> 0"
  obtains b where "\<not> over" "code = 0" "type_matches t (message_type (buffers c CONTEXT_MSG))"
    "c' = c\<lparr>buffers := b\<rparr>"
  using assms
  by (auto simp: receive_finish_def Let_def obind_Ret i3codes split: if_splits)

lemma to_socket_any [simp]: "message_type_to_socket I3IPC_EVENT_ANY c = Ret (sock_events c)"
  by (simp add: message_type_to_socket_def i3codes)

lemma to_socket_cong:
  "sock c' = sock c \<Longrightarrow> sock_events c' = sock_events c \<Longrightarrow>
   message_type_to_socket t c' = message_type_to_socket t c"
  by (simp only: message_type_to_socket_def)

lemma to_socket_globals [simp]:
  "message_type_to_socket t (c\<lparr>globals_initialized := g\<rparr>) = message_type_to_socket t c"
  by (rule to_socket_cong) simp_all

lemma receive_any_progress:
  assumes "message_receive_try I3IPC_EVENT_ANY c = Ret (0, c')"
  shows "length (openings c') < length (openings c) \<or>
    openings c' = openings c \<and> sock_events c' = sock_events c \<and>
    in_size (incoming (conns c' (sock_events c'))) < in_size (incoming (conns c (sock_events c)))"
    "queued c' = queued c"
proof -
  from assms obtain k1 c1 where init: "init_try None c = Ret (k1, c1)" "k1 = 0"
    by (auto simp: message_receive_try_def obind_Ret split: if_splits)
  let ?r = "context_reserve CONTEXT_MSG sizeof_message c1"
  from assms init obtain over code c2 where 2: "receive_block (sock_events c1) ?r = Ret (over, code, c2)"
    "receive_finish I3IPC_EVENT_ANY (over, code, c2) = Ret (0, c')"
    by (auto simp: message_receive_try_def obind_Ret)
  from receive_finish_Ret0 [OF 2(2)] receive_block_over 2(1) obtain b where
    3: "\<not> over" "code = 0" "c' = c2\<lparr>buffers := b\<rparr>" by (metis (full_types))
  with 2(1) have blk: "receive_block (sock_events c1) ?r = Ret (False, 0, c2)" by simp
  note blk = receive_block_progress [OF blk]
  from init(1) show "length (openings c') < length (openings c) \<or>
    openings c' = openings c \<and> sock_events c' = sock_events c \<and>
    in_size (incoming (conns c' (sock_events c'))) < in_size (incoming (conns c (sock_events c)))"
    using blk init(2) by (cases rule: init_try_cases) (auto simp: 3 i3codes)
  from init(1) show "queued c' = queued c"
    using blk init(2) by (cases rule: init_try_cases) (auto simp: 3 i3codes)
qed

section \<open>Receiving out of order\<close>

text \<open>A queued message is copied back without the zero byte behind it.\<close>

definition take_queued :: "nat \<Rightarrow> i3 \<Rightarrow> i3" where
  "take_queued i c =
     (let entry = queued c ! i;
          size = sizeof_message + nat (message_length entry);
          c1 = context_reserve CONTEXT_MSG size c
      in c1\<lparr>buffers := (buffers c1)(CONTEXT_MSG := store_at 0 (take size entry) (buffers c1 CONTEXT_MSG)),
            queued := take i (queued c) @ drop (Suc i) (queued c)\<rparr>)"

definition sizeof_pointer :: nat where
  "sizeof_pointer = 8"

definition push_queued :: "i3 \<Rightarrow> i3" where
  "push_queued c =
     (let msg = buffers c CONTEXT_MSG;
          size = sizeof_message + nat (message_length msg);
          c1 = context_reserve CONTEXT_REORDER ((length (queued c) + 1) * sizeof_pointer) c
      in c1\<lparr>queued := queued c @ [take size msg]\<rparr>)"

definition wanted :: "int \<Rightarrow> int \<Rightarrow> bool" where
  "wanted t got \<longleftrightarrow> t = I3IPC_EVENT_ANY \<or> got = t"

lemma push_queued_simps [simp]:
  "openings (push_queued c) = openings c" "sock_events (push_queued c) = sock_events c"
  "sock (push_queued c) = sock c" "conns (push_queued c) = conns c" "state (push_queued c) = state c"
  "queued (push_queued c) =
     queued c @ [take (sizeof_message + nat (message_length (buffers c CONTEXT_MSG))) (buffers c CONTEXT_MSG)]"
  "buffers (push_queued c) CONTEXT_MSG = buffers c CONTEXT_MSG"
  by (simp_all add: push_queued_def Let_def reserve_extends)

function reorder_loop :: "int \<Rightarrow> nat \<Rightarrow> i3 \<Rightarrow> (int \<times> i3) outcome" where
  "reorder_loop t i c =
     (if i < length (queued c)
      then (if wanted t (message_type (queued c ! i)) then Ret (0, take_queued i c)
            else reorder_loop t (Suc i) c)
      else obind (message_receive_try I3IPC_EVENT_ANY c) (\<lambda>(code, c1).
        if code \<noteq> 0 then Ret (code, c1)
        else if wanted t (message_type (buffers c1 CONTEXT_MSG)) then Ret (0, c1)
        else assert_then (i = length (queued c1)) (reorder_loop t (Suc i) (push_queued c1))))"
  by auto

termination
  by (relation "measures [\<lambda>(t, i, c). length (openings c),
        \<lambda>(t, i, c). in_size (incoming (conns c (sock_events c))),
        \<lambda>(t, i, c). length (queued c) - i]")
    (auto dest: receive_any_progress)

declare reorder_loop.simps [simp del]

definition message_receive_reorder_try :: "int \<Rightarrow> i3 \<Rightarrow> (int \<times> i3) outcome" where
  "message_receive_reorder_try t c =
     obind (init_try None c) (\<lambda>(code, c1).
       if code \<noteq> 0 then Ret (code, c1) else reorder_loop t 0 c1)"

end
