(* ===== verification/I3_Protocol.thy ===== *)
theory I3_Protocol
  imports I3_Message
begin

text \<open>
  What the message layer of \<open>i3ipc.h\<close> promises: framing on the wire whatever the sockets do with
  the block sizes, the queue of messages received out of order as a list from which the first
  message of a wanted type is taken, and the error state that blocks every call.
\<close>

section \<open>Framing\<close>

definition wire :: "int \<Rightarrow> byte list \<Rightarrow> byte list" where
  "wire t p = header (int (length p)) t @ p"

definition payload_fits :: "byte list \<Rightarrow> bool" where
  "payload_fits p \<longleftrightarrow> int (length p) + 15 \<le> size_max"

lemma length_wire [simp]: "length (wire t p) = sizeof_message + length p"
  by (simp add: wire_def sizeof_message_def)

lemma payload_fits_int32: "payload_fits p \<Longrightarrow> int32 (int (length p))"
  by (simp add: payload_fits_def int32_def size_max_def)

lemma wire_fields [simp]:
  "payload_fits p \<Longrightarrow> message_length (wire t p @ r) = int (length p)"
  "int32 t \<Longrightarrow> message_type (wire t p @ r) = t"
  by (simp_all add: wire_def payload_fits_int32)

lemma wire_fields_alone [simp]:
  "payload_fits p \<Longrightarrow> message_length (wire t p) = int (length p)"
  "int32 t \<Longrightarrow> message_type (wire t p) = t"
  using wire_fields [where r = "[]"] by simp_all

lemma write_all_sent: "write_all_try buf ws out = Ret (0, ws', out') \<Longrightarrow> out' = out @ buf"
  by (induction buf ws out rule: write_all_try.induct)
    (auto simp: assert_then_Ret i3codes split: if_splits)

text \<open>Nothing but a prefix of the block is ever sent.\<close>

lemma write_all_prefix: "write_all_try buf ws out = Ret (k, ws', out') \<Longrightarrow> \<exists>n. out' = out @ take n buf"
proof (induction buf ws out rule: write_all_try.induct)
  case (5 b buf k ws out)
  then obtain n where "out' = (out @ take k (b # buf)) @ take n (drop k (b # buf))"
    by (auto simp: assert_then_Ret)
  then show ?case by (metis append.assoc take_add)
qed (auto intro: exI [of _ 0])

lemma fill_message_wire:
  assumes "fill_message t (Some p) (length p) buf = Ret buf'" "payload_fits p"
    "sizeof_message + length p \<le> length buf"
  shows "\<exists>r. buf' = wire t p @ r"
  using assms
  by (auto simp: fill_message_def assert_then_Ret Let_def wire_def store_at_def sizeof_message_def
      split: if_splits)

text \<open>A send that succeeds has put exactly one frame on the wire.\<close>

lemma send_sends_wire:
  assumes "message_send_try t (Some p) (int (length p)) c = Ret (0, c')"
    "state c = I3IPC_STATE_READY" "\<not> debug_do_not_write_messages c" "payload_fits p"
    "message_type_to_socket t c = Ret s"
  shows "sent (conns c' s) = sent (conns c s) @ wire t p" "state c' = I3IPC_STATE_READY"
    "incoming (conns c' s) = incoming (conns c s)"
proof -
  let ?c1 = "c\<lparr>globals_initialized := True\<rparr>"
  let ?c2 = "context_reserve CONTEXT_MSG (sizeof_message + length p) ?c1"
  have sock: "message_type_to_socket t ?c1 = Ret s"
    using assms(5) by simp
  from assms(1) obtain buf ws out where fill: "fill_message t (Some p) (length p) (buffers ?c2 CONTEXT_MSG) = Ret buf"
    and w: "write_all_try (take (sizeof_message + nat (message_length buf)) buf) (accepts (conns c s))
              (sent (conns c s)) = Ret (0, ws, out)"
    and c': "sent (conns c' s) = out" "state c' = state c" "incoming (conns c' s) = incoming (conns c s)"
    using assms(2,3) sock
    by (auto simp: message_send_try_def send_message_def payload_length_def assert_then_Ret obind_Ret Let_def
        write_to_def set_conn_def i3codes split: if_splits)
  have "sizeof_message + length p \<le> length (buffers ?c2 CONTEXT_MSG)" by (rule reserve_length)
  from fill_message_wire [OF fill assms(4) this] obtain r where "buf = wire t p @ r" ..
  with w write_all_sent assms(2,4) c'
  show "sent (conns c' s) = sent (conns c s) @ wire t p" "state c' = I3IPC_STATE_READY"
    "incoming (conns c' s) = incoming (conns c s)"
    by auto
qed

text \<open>A frame that arrives is received whole, however it is cut into segments.\<close>

definition received :: "i3 \<Rightarrow> int \<Rightarrow> io_in list \<Rightarrow> byte list \<Rightarrow> i3" where
  "received c s ios msg =
     (set_conn s ((conns c s)\<lparr>incoming := ios\<rparr>) c)
       \<lparr>globals_initialized := True, buffers := (buffers c)(CONTEXT_MSG := msg)\<rparr>"

lemma read_into_stream:
  assumes "n \<le> length (stream (incoming (conns c s)))"
  shows "\<exists>ios. read_into s off n c = Ret (0, (set_conn s ((conns c s)\<lparr>incoming := ios\<rparr>) c)
      \<lparr>buffers := (buffers c)(CONTEXT_MSG :=
         store_at off (take n (stream (incoming (conns c s)))) (buffers c CONTEXT_MSG))\<rparr>) \<and>
      stream ios = drop n (stream (incoming (conns c s)))"
  using read_all_stream [OF assms] by (auto simp: read_into_def)

lemma receive_block_steps:
  assumes "read_into s 0 sizeof_message c = Ret (0, c1)"
    "message_length (buffers c1 CONTEXT_MSG) = int (length p)" "payload_fits p"
    "read_into s sizeof_message (length p) (context_reserve CONTEXT_MSG (sizeof_message + length p + 1) c1)
       = Ret (0, c2)"
  shows "receive_block s c = Ret (False, 0, c2)"
  using assms by (simp add: receive_block_def payload_fits_def sizeof_message_def)

lemma receive_wire:
  assumes st: "state c = I3IPC_STATE_READY"
    and sock: "message_type_to_socket t c = Ret s"
    and str: "stream (incoming (conns c s)) = wire g p @ rest"
    and p: "payload_fits p" and g: "int32 g" and m: "type_matches t g"
  shows "\<exists>ios r. message_receive_try t c = Ret (0, received c s ios (wire g p @ 0 # r)) \<and>
           stream ios = rest"
proof -
  let ?c1 = "c\<lparr>globals_initialized := True\<rparr>"
  let ?c2 = "context_reserve CONTEXT_MSG sizeof_message ?c1"
  let ?b2 = "buffers ?c2 CONTEXT_MSG"
  have s1: "message_type_to_socket t ?c1 = Ret s"
    using sock by simp
  have l2: "sizeof_message \<le> length ?b2" by (rule reserve_length)
  have take_h: "take sizeof_message (wire g p) = header (int (length p)) g"
    "drop sizeof_message (wire g p) = p"
    by (simp_all add: wire_def sizeof_message_def)
  obtain ios1 where 1: "read_into s 0 sizeof_message ?c2 = Ret (0, (set_conn s ((conns c s)\<lparr>incoming := ios1\<rparr>) ?c2)
      \<lparr>buffers := (buffers ?c2)(CONTEXT_MSG := header (int (length p)) g @ drop 14 ?b2)\<rparr>)"
    "stream ios1 = p @ rest"
  proof -
    have "sizeof_message \<le> length (stream (incoming (conns ?c2 s)))" by (simp add: str)
    from read_into_stream [OF this, of 0] that show ?thesis
      by (auto simp: str take_h store_at_def)
  qed
  let ?c3 = "(set_conn s ((conns c s)\<lparr>incoming := ios1\<rparr>) ?c2)
      \<lparr>buffers := (buffers ?c2)(CONTEXT_MSG := header (int (length p)) g @ drop 14 ?b2)\<rparr>"
  let ?c4 = "context_reserve CONTEXT_MSG (sizeof_message + length p + 1) ?c3"
  let ?b4 = "buffers ?c4 CONTEXT_MSG"
  have l4: "sizeof_message + length p + 1 \<le> length ?b4" by (rule reserve_length)
  have "\<exists>tl. ?b4 = header (int (length p)) g @ tl"
    by (simp add: reserve_extends)
  then obtain tl where b4: "?b4 = header (int (length p)) g @ tl" ..
  have tl: "length p + 1 \<le> length tl" using l4 unfolding b4 by (simp add: sizeof_message_def)
  have k4: "conns ?c4 s = (conns c s)\<lparr>incoming := ios1\<rparr>" by (simp add: set_conn_def)
  obtain ios2 where 2: "read_into s sizeof_message (length p) ?c4 = Ret (0,
      (set_conn s ((conns c s)\<lparr>incoming := ios2\<rparr>) ?c4)
      \<lparr>buffers := (buffers ?c4)(CONTEXT_MSG := wire g p @ drop (length p) tl)\<rparr>)" "stream ios2 = rest"
    using read_into_stream [of "length p" ?c4 s sizeof_message] 1(2) unfolding k4 b4
    by (auto simp: store_at_def sizeof_message_def wire_def)
  have blk: "receive_block s ?c2 = Ret (False, 0,
      (set_conn s ((conns c s)\<lparr>incoming := ios2\<rparr>) ?c4)
      \<lparr>buffers := (buffers ?c4)(CONTEXT_MSG := wire g p @ drop (length p) tl)\<rparr>)"
    using payload_fits_int32 [OF p] by (intro receive_block_steps [OF 1(1) _ p 2(1)]) simp
  from tl obtain x tl' where x: "drop (length p) tl = x # tl'"
    by (metis Suc_eq_plus1 Suc_le_lessD Cons_nth_drop_Suc)
  let ?c5 = "(set_conn s ((conns c s)\<lparr>incoming := ios2\<rparr>) ?c4)
      \<lparr>buffers := (buffers ?c4)(CONTEXT_MSG := wire g p @ drop (length p) tl)\<rparr>"
  have "receive_finish t (False, 0, ?c5) =
      Ret (0, ?c5\<lparr>buffers := (buffers ?c5)(CONTEXT_MSG := wire g p @ 0 # tl')\<rparr>)"
    using p g m by (simp add: receive_finish_def x store_at_def Let_def i3codes)
  also have "?c5\<lparr>buffers := (buffers ?c5)(CONTEXT_MSG := wire g p @ 0 # tl')\<rparr> =
      received c s ios2 (wire g p @ 0 # tl')"
    by (simp add: received_def set_conn_def context_reserve_def)
  finally have fin: "receive_finish t (False, 0, ?c5) = Ret (0, received c s ios2 (wire g p @ 0 # tl'))" .
  have "message_receive_try t c = Ret (0, received c s ios2 (wire g p @ 0 # tl'))"
    unfolding message_receive_try_def init_try_ready [OF st] obind.simps split s1 blk fin by simp
  with 2(2) show ?thesis by blast
qed

text \<open>
  C11 (roundtrip): Framing round trip: the bytes that a successful \<open>i3ipc_message_send_try\<close> puts on the wire,
  arriving in segments of any size at the front of a stream, are received by
  \<open>i3ipc_message_receive_try\<close> as a message of the same type with the same payload and a zero byte
  behind it, and the rest of the stream is left for the next call.
\<close>

theorem message_roundtrip:
  assumes "message_send_try t (Some p) (int (length p)) a = Ret (0, a')"
    and "state a = I3IPC_STATE_READY" "\<not> debug_do_not_write_messages a" "payload_fits p"
    and "message_type_to_socket t a = Ret s"
    and "state b = I3IPC_STATE_READY" "message_type_to_socket t b = Ret r"
    and "stream (incoming (conns b r)) = drop (length (sent (conns a s))) (sent (conns a' s)) @ rest"
  shows "\<exists>b' msg. message_receive_try t b = Ret (0, b') \<and> buffers b' CONTEXT_MSG = msg \<and>
    message_type msg = t \<and> message_length msg = int (length p) \<and>
    take (length p + 1) (drop sizeof_message msg) = p @ [0] \<and>
    stream (incoming (conns b' r)) = rest"
proof -
  have t: "int32 t" using assms(1)
    by (auto simp: message_send_try_def assert_then_Ret int32_def i3codes)
  have "sent (conns a' s) = sent (conns a s) @ wire t p"
    using send_sends_wire assms(1-5) by blast
  then have str: "stream (incoming (conns b r)) = wire t p @ rest" using assms(8) by simp
  have "type_matches t t" by (simp add: type_matches_def)
  from receive_wire [OF assms(6,7) str assms(4) t this] obtain ios x where
    rc: "message_receive_try t b = Ret (0, received b r ios (wire t p @ 0 # x))" and "stream ios = rest"
    by blast
  moreover have "drop sizeof_message (wire t p) = p" by (simp add: wire_def sizeof_message_def)
  ultimately show ?thesis
    using assms(4) t by (simp add: received_def set_conn_def)
qed

section \<open>Receiving out of order\<close>

type_synonym i3message = "int \<times> byte list"

definition frame :: "i3message \<Rightarrow> byte list" where
  "frame m = wire (fst m) (snd m)"

definition good_event :: "i3message \<Rightarrow> bool" where
  "good_event m \<longleftrightarrow> int32 (fst m) \<and> type_matches I3IPC_EVENT_ANY (fst m) \<and> payload_fits (snd m)"

text \<open>The messages a context still has to hand out: the queued ones, then those on the wire.\<close>

definition pending :: "i3 \<Rightarrow> i3message list \<Rightarrow> i3message list \<Rightarrow> byte list \<Rightarrow> bool" where
  "pending c q ms rest \<longleftrightarrow> state c = I3IPC_STATE_READY \<and> queued c = map frame q \<and>
     stream (incoming (conns c (sock_events c))) = concat (map frame ms) @ rest \<and>
     list_all good_event q \<and> list_all good_event ms"

definition delivers :: "i3 \<Rightarrow> i3message \<Rightarrow> bool" where
  "delivers c m \<longleftrightarrow> take (length (frame m)) (buffers c CONTEXT_MSG) = frame m"

lemma frame_fields [simp]:
  "good_event m \<Longrightarrow> message_length (frame m) = int (length (snd m))"
  "good_event m \<Longrightarrow> message_type (frame m) = fst m"
  "good_event m \<Longrightarrow> message_length (frame m @ r) = int (length (snd m))"
  "good_event m \<Longrightarrow> message_type (frame m @ r) = fst m"
  "length (frame m) = sizeof_message + length (snd m)"
  by (simp_all add: good_event_def frame_def)

lemma reorder_skip:
  assumes "i \<le> k" "k \<le> length (queued c)" "\<forall>j. i \<le> j \<and> j < k \<longrightarrow> \<not> wanted t (message_type (queued c ! j))"
  shows "reorder_loop t i c = reorder_loop t k c"
  using assms
proof (induction "k - i" arbitrary: i)
  case (Suc n)
  then have "reorder_loop t (Suc i) c = reorder_loop t k c" by simp
  with Suc.prems Suc.hyps(2) show ?case by (subst reorder_loop.simps) auto
qed simp

lemma pending_received:
  assumes "pending c q (m # ms) rest"
  shows "\<exists>c' r. message_receive_try I3IPC_EVENT_ANY c = Ret (0, c') \<and> pending c' q ms rest \<and>
    buffers c' CONTEXT_MSG = frame m @ 0 # r"
proof -
  have "state c = I3IPC_STATE_READY"
    "stream (incoming (conns c (sock_events c))) = wire (fst m) (snd m) @ concat (map frame ms) @ rest"
    "payload_fits (snd m)" "int32 (fst m)" "type_matches I3IPC_EVENT_ANY (fst m)"
    using assms by (auto simp: pending_def frame_def good_event_def)
  from receive_wire [OF this(1) to_socket_any this(2-5)] obtain ios r where
    "message_receive_try I3IPC_EVENT_ANY c =
       Ret (0, received c (sock_events c) ios (wire (fst m) (snd m) @ 0 # r))"
    "stream ios = concat (map frame ms) @ rest" by blast
  then show ?thesis
    using assms by (auto simp: pending_def received_def set_conn_def frame_def)
qed

lemma take_queued_pending:
  assumes "pending c q ms rest" "q = pre @ m # post"
  shows "pending (take_queued (length pre) c) (pre @ post) ms rest" "delivers (take_queued (length pre) c) m"
proof -
  have m: "good_event m" "queued c ! length pre = frame m" "queued c = map frame q"
    using assms by (auto simp: pending_def nth_append)
  then show "pending (take_queued (length pre) c) (pre @ post) ms rest"
    "delivers (take_queued (length pre) c) m"
    using assms
    by (auto simp: take_queued_def Let_def pending_def delivers_def store_at_def)
qed

lemma push_pending:
  assumes "pending c q ms rest" "buffers c CONTEXT_MSG = frame m @ r" "good_event m"
  shows "pending (push_queued c) (q @ [m]) ms rest"
  using assms by (simp add: pending_def)

lemma reorder_wire:
  assumes "pending c q ms rest" "ms = pre @ m # post" "wanted t (fst m)" "\<forall>x \<in> set pre. \<not> wanted t (fst x)"
  shows "\<exists>c'. reorder_loop t (length q) c = Ret (0, c') \<and> pending c' (q @ pre) post rest \<and> delivers c' m"
  using assms
proof (induction pre arbitrary: c q ms)
  case Nil
  then obtain c' r where 1: "message_receive_try I3IPC_EVENT_ANY c = Ret (0, c')" "pending c' q post rest"
    "buffers c' CONTEXT_MSG = frame m @ 0 # r"
    using pending_received [of c q m post rest] by auto
  have "good_event m" "queued c = map frame q" using Nil.prems(1,2) by (simp_all add: pending_def)
  with 1 Nil.prems(3) show ?case
    by (subst reorder_loop.simps) (simp add: delivers_def)
next
  case (Cons x pre)
  then obtain c' r where 1: "message_receive_try I3IPC_EVENT_ANY c = Ret (0, c')"
    "pending c' q (pre @ m # post) rest" "buffers c' CONTEXT_MSG = frame x @ 0 # r"
    using pending_received [of c q x "pre @ m # post" rest] Cons.prems(1,2) by auto
  have x: "good_event x" "queued c = map frame q" "queued c' = map frame q"
    using Cons.prems(1,2) 1(2) by (simp_all add: pending_def)
  have "\<not> wanted t (fst x)" using Cons.prems(4) by simp
  with 1(1,3) x have "reorder_loop t (length q) c = reorder_loop t (length (q @ [x])) (push_queued c')"
    by (subst reorder_loop.simps) simp
  moreover have "pending (push_queued c') (q @ [x]) (pre @ m # post) rest"
    by (rule push_pending [OF 1(2,3) x(1)])
  ultimately show ?case
    using Cons.IH [of "push_queued c'" "q @ [x]" "pre @ m # post"] Cons.prems(3,4) by simp
qed

text \<open>
  C10 (refinement): Receiving out of order: of the messages that are queued or on the wire,
  \<open>i3ipc_message_receive_reorder_try\<close> hands out the first one of the wanted type; all others
  stay pending in their order, none is lost and none is duplicated.
\<close>

theorem reorder_delivers_first:
  assumes "pending c q ms rest" "q @ ms = pre @ m # post" "wanted t (fst m)"
    "\<forall>x \<in> set pre. \<not> wanted t (fst x)"
  shows "\<exists>c' q' ms'. message_receive_reorder_try t c = Ret (0, c') \<and> delivers c' m \<and>
    pending c' q' ms' rest \<and> q' @ ms' = pre @ post"
proof -
  let ?c = "c\<lparr>globals_initialized := True\<rparr>"
  have p: "pending ?c q ms rest" "state c = I3IPC_STATE_READY"
    using assms(1) by (simp_all add: pending_def)
  have q: "queued ?c = map frame q" "list_all good_event q" using p(1) by (simp_all add: pending_def)
  have start: "message_receive_reorder_try t c = reorder_loop t 0 ?c"
    using p(2) by (simp add: message_receive_reorder_try_def)
  show ?thesis
  proof (cases "length pre < length q")
    case True
    then obtain post' where split: "q = pre @ m # post'" "post = post' @ ms"
      using assms(2) by (auto simp: append_eq_append_conv2 append_eq_Cons_conv)
    have "\<not> wanted t (message_type (queued ?c ! j))" if "j < length pre" for j
      using that q assms(4) split(1) by (auto simp: nth_append list_all_iff)
    then have "reorder_loop t 0 ?c = reorder_loop t (length pre) ?c"
      using q(1) split(1) by (intro reorder_skip) auto
    also have "\<dots> = Ret (0, take_queued (length pre) ?c)"
      using q assms(3) split(1) by (subst reorder_loop.simps) (simp add: nth_append)
    finally show ?thesis
      using take_queued_pending [OF p(1) split(1)] start split(2)
      by (intro exI [of _ "take_queued (length pre) ?c"] exI [of _ "pre @ post'"] exI [of _ ms]) simp
  next
    case False
    then obtain pre' where split: "pre = q @ pre'" "ms = pre' @ m # post"
      using assms(2) by (auto simp: append_eq_append_conv2)
    have "\<not> wanted t (message_type (queued ?c ! j))" if "j < length q" for j
      using that q assms(4) split(1) by (auto simp: list_all_iff)
    then have "reorder_loop t 0 ?c = reorder_loop t (length q) ?c"
      using q(1) by (intro reorder_skip) auto
    moreover obtain c' where "reorder_loop t (length q) ?c = Ret (0, c')"
      "pending c' (q @ pre') post rest" "delivers c' m"
      using reorder_wire [OF p(1) split(2) assms(3)] split(1) assms(4) by auto
    ultimately show ?thesis
      using start split(1) by (intro exI [of _ c'] exI [of _ "q @ pre'"] exI [of _ post]) simp
  qed
qed

section \<open>The error state\<close>

definition state_ok :: "i3 \<Rightarrow> bool" where
  "state_ok c \<longleftrightarrow> state c \<in> {I3IPC_STATE_UNINITIALIZED, I3IPC_STATE_READY, I3IPC_ERROR_CLOSED,
     I3IPC_ERROR_MALFORMED, I3IPC_ERROR_IO, I3IPC_ERROR_FAILED}"

text \<open>
  The contract of every \<open>_try\<close> function: in the error state it does nothing and says so; otherwise
  the code it returns is the one \<open>i3ipc_error_code\<close> returns from then on.
\<close>

locale guarded_call =
  fixes call :: "i3 \<Rightarrow> (int \<times> i3) outcome"
  assumes refuses: "error_code c \<noteq> 0 \<Longrightarrow> call c = Ret (I3IPC_ERROR_BADSTATE, c\<lparr>globals_initialized := True\<rparr>)"
    and reports: "error_code c = 0 \<Longrightarrow> call c = Ret (k, c') \<Longrightarrow> error_code c' = k"
    and keeps: "state_ok c \<Longrightarrow> call c = Ret (k, c') \<Longrightarrow> state_ok c'"
begin

lemma failure_is_final:
  assumes "error_code c = 0" "call c = Ret (k, c')" "k \<noteq> 0"
  shows "call c' = Ret (I3IPC_ERROR_BADSTATE, c'\<lparr>globals_initialized := True\<rparr>)"
  using assms reports refuses by metis

lemma success_is_clean:
  assumes "call c = Ret (0, c')"
  shows "error_code c = 0 \<and> error_code c' = 0"
proof (cases "error_code c = 0")
  case True
  then show ?thesis using reports assms by blast
next
  case False
  then show ?thesis using refuses [OF False] assms by (simp add: i3codes)
qed

end

lemma error_handle_Ret:
  assumes "error_handle k c = Ret (k', c')" "k \<in> {I3IPC_ERROR_CLOSED, I3IPC_ERROR_MALFORMED, I3IPC_ERROR_IO, I3IPC_ERROR_FAILED}"
  shows "k' = k" "c' = c\<lparr>state := k\<rparr>" "error_code c' = k"
  using assms by (auto simp: error_handle_def error_code_def i3codes Let_def split: if_splits)

lemma error_code_ready [simp]: "state c = I3IPC_STATE_READY \<Longrightarrow> error_code c = 0"
  by (simp add: error_code_def i3codes)

lemma init_reports:
  assumes "error_code c = 0" "init_try p c = Ret (k, c')"
  shows "error_code c' = k"
  using assms(2)
proof (cases rule: init_try_cases)
  case ready
  then show ?thesis using assms(1) by (simp add: error_code_def i3codes)
qed (use assms(1) in \<open>simp_all add: error_code_def i3codes\<close>)

lemma init_success: "init_try p c = Ret (0, c') \<Longrightarrow> state c' = I3IPC_STATE_READY"
  by (erule init_try_cases) (simp_all add: i3codes)

lemma init_state_ok: "state_ok c \<Longrightarrow> init_try p c = Ret (k, c') \<Longrightarrow> state_ok c'"
  by (erule init_try_cases) (simp_all add: state_ok_def)

text \<open>A step after the start: it ends in the ready state or through the error handler.\<close>

definition settled :: "int \<Rightarrow> i3 \<Rightarrow> bool" where
  "settled k c \<longleftrightarrow> k = 0 \<and> state c = I3IPC_STATE_READY \<or>
     k \<in> {I3IPC_ERROR_CLOSED, I3IPC_ERROR_MALFORMED, I3IPC_ERROR_IO} \<and> state c = k"

lemma settled_0 [simp]: "settled 0 c \<longleftrightarrow> state c = I3IPC_STATE_READY"
  by (auto simp: settled_def i3codes)

lemma settled_code: "settled k c \<Longrightarrow> error_code c = k"
  by (auto simp: settled_def error_code_def i3codes)

lemma settled_ok: "settled k c \<Longrightarrow> state_ok c"
  by (auto simp: settled_def state_ok_def)

lemma error_handle_settled:
  "error_handle k c = Ret (k', c') \<Longrightarrow> k \<in> {I3IPC_ERROR_CLOSED, I3IPC_ERROR_MALFORMED, I3IPC_ERROR_IO} \<Longrightarrow>
   settled k' c'"
  using error_handle_Ret [of k c k' c'] by (auto simp: settled_def)

lemma guarded_callI:
  assumes "\<And>c. call c = obind (init_try None c) (\<lambda>(code, c1). if code \<noteq> 0 then Ret (code, c1) else rest c1)"
    and "\<And>c k c'. state c = I3IPC_STATE_READY \<Longrightarrow> rest c = Ret (k, c') \<Longrightarrow> settled k c'"
  shows "guarded_call call"
proof
  fix c k c'
  show "call c = Ret (I3IPC_ERROR_BADSTATE, c\<lparr>globals_initialized := True\<rparr>)" if "error_code c \<noteq> 0"
    using that by (simp add: assms(1) init_try_error i3codes)
  show "error_code c' = k" if c: "error_code c = 0" and "call c = Ret (k, c')"
    using that(2) init_reports [OF c] assms(2) init_success settled_code
    by (fastforce simp: assms(1) obind_Ret split: if_splits)
  show "state_ok c'" if c: "state_ok c" and "call c = Ret (k, c')"
    using that(2) init_state_ok [OF c] assms(2) init_success settled_ok
    by (fastforce simp: assms(1) obind_Ret split: if_splits)
qed

lemma receive_block_settled:
  assumes "receive_block s c = Ret (over, k, c')" "state c = I3IPC_STATE_READY"
  shows "if over then settled k c' else state c' = I3IPC_STATE_READY"
proof -
  from assms(1) obtain k1 c1 where 1: "read_into s 0 sizeof_message c = Ret (k1, c1)"
    by (auto simp: receive_block_def obind_Ret)
  have st: "state c1 = I3IPC_STATE_READY" using read_into_frame(5) [OF 1] assms(2) by simp
  have eh: "settled k' d" if "error_handle I3IPC_ERROR_MALFORMED c1 = Ret (k', d)" for k' d
    by (rule error_handle_settled [OF that]) simp
  have rd: "state d = I3IPC_STATE_READY" if "read_into s n m (context_reserve b z c1) = Ret (k', d)"
    for n m b z k' d
    using read_into_frame(5) [OF that] st by simp
  show ?thesis
    using assms(1) eh rd st
    by (auto simp: receive_block_def 1 Let_def obind_Ret split: if_splits)
qed

lemma receive_finish_settled:
  assumes "receive_finish t (over, k, c) = Ret (k', c')"
    "if over then settled k c else state c = I3IPC_STATE_READY"
  shows "settled k' c'"
  using assms
  by (auto simp: receive_finish_def Let_def obind_Ret split: if_splits
      elim!: error_handle_settled)

lemma receive_rest_settled:
  assumes "state c = I3IPC_STATE_READY" "obind (message_type_to_socket t c) (\<lambda>s.
      obind (receive_block s (context_reserve CONTEXT_MSG sizeof_message c)) (receive_finish t)) = Ret (k, c')"
  shows "settled k c'"
proof -
  from assms(2) obtain s over k1 c1 where
    1: "receive_block s (context_reserve CONTEXT_MSG sizeof_message c) = Ret (over, k1, c1)"
    and 2: "receive_finish t (over, k1, c1) = Ret (k, c')"
    by (auto simp: obind_Ret)
  from receive_finish_settled [OF 2] receive_block_settled [OF 1] assms(1) show ?thesis by simp
qed

interpretation receive_call: guarded_call "message_receive_try t" for t
  by (rule guarded_callI [OF _ receive_rest_settled]) (simp_all add: message_receive_try_def)

lemma receive_settled:
  assumes "state c = I3IPC_STATE_READY" "message_receive_try t c = Ret (k, c')"
  shows "settled k c'"
proof -
  let ?c = "c\<lparr>globals_initialized := True\<rparr>"
  have "state ?c = I3IPC_STATE_READY" using assms(1) by simp
  from receive_rest_settled [OF this] assms show ?thesis
    by (simp add: message_receive_try_def)
qed

lemma reorder_loop_settled:
  "state c = I3IPC_STATE_READY \<Longrightarrow> reorder_loop t i c = Ret (k, c') \<Longrightarrow> settled k c'"
proof (induction t i c rule: reorder_loop.induct)
  case (1 t i c)
  note loop = 1(4) [unfolded reorder_loop.simps [of t i c]]
  show ?case
  proof (cases "i < length (queued c)")
    case True
    then show ?thesis
      using 1(1,3) loop by (auto simp: take_queued_def Let_def split: if_splits)
  next
    case False
    obtain k1 c1 where 2: "message_receive_try I3IPC_EVENT_ANY c = Ret (k1, c1)"
      using loop False by (auto simp: obind_Ret)
    have s: "settled k1 c1" by (rule receive_settled [OF 1(3) 2])
    show ?thesis
    proof (cases "k1 = 0")
      case True
      then have "state (push_queued c1) = I3IPC_STATE_READY" using s by simp
      then show ?thesis
        using 1(2) [OF False 2 refl] loop False 2 True s
        by (auto simp: assert_then_Ret split: if_splits)
    next
      case nz: False
      then show ?thesis using loop False 2 s by simp
    qed
  qed
qed

interpretation reorder_call: guarded_call "message_receive_reorder_try t" for t
  by (rule guarded_callI [OF _ reorder_loop_settled]) (simp_all add: message_receive_reorder_try_def)

text \<open>The contract for sending holds when the arguments satisfy the assertions.\<close>

definition sendable :: "int \<Rightarrow> byte list option \<Rightarrow> int \<Rightarrow> bool" where
  "sendable t payload n \<longleftrightarrow> 0 \<le> t \<and> t < I3IPC_MESSAGE_TYPE_COUNT \<and> - 1 \<le> n \<and>
     (n = - 1 \<longrightarrow> (\<forall>p. payload = Some p \<longrightarrow> 0 \<in> set p))"

lemma write_to_frame: "write_to s bs c = Ret (k, c') \<Longrightarrow> state c' = state c"
  by (auto simp: write_to_def obind_Ret set_conn_def)

lemma send_message_settled:
  assumes "state c = I3IPC_STATE_READY" "send_message t payload n c = Ret (k, c')"
  shows "settled k c'"
  using assms
  by (auto simp: send_message_def obind_Ret Let_def split: if_splits
      dest!: write_to_frame elim!: error_handle_settled)

lemma send_guarded:
  assumes "sendable t payload n"
  shows "guarded_call (message_send_try t payload n)"
proof -
  from assms obtain m where m: "payload_length payload n = Ret m"
    by (cases "n = - 1"; cases payload) (auto simp: sendable_def payload_length_def)
  show ?thesis
    using assms
    by (intro guarded_callI [OF _ send_message_settled])
      (simp_all add: message_send_try_def sendable_def m)
qed

interpretation query_call: guarded_call "message_send_try I3IPC_GET_WORKSPACES None 0"
  by (rule send_guarded) (simp add: sendable_def i3codes)


section \<open>Reachable contexts\<close>

text \<open>What the program can do with the context; each step is one call that returns.\<close>

inductive i3_step :: "i3 \<Rightarrow> i3 \<Rightarrow> bool" where
  init: "init_try p c = Ret (k, c') \<Longrightarrow> i3_step c c'"
| send: "message_send_try t payload n c = Ret (k, c') \<Longrightarrow> i3_step c c'"
| receive: "message_receive_try t c = Ret (k, c') \<Longrightarrow> i3_step c c'"
| reorder: "message_receive_reorder_try t c = Ret (k, c') \<Longrightarrow> i3_step c c'"
| reinitialize: "error_reinitialize force c = Ret c' \<Longrightarrow> i3_step c c'"
| staticalloc: "i3_step c (snd (set_staticalloc v c))"
| loglevel: "i3_step c (snd (set_loglevel l c))"
| nopanic: "set_nopanic v c = Ret (prev, c') \<Longrightarrow> i3_step c c'"

inductive i3_reachable :: "i3 \<Rightarrow> i3 \<Rightarrow> bool" for c0 where
  start: "i3_reachable c0 c0"
| step: "i3_reachable c0 c \<Longrightarrow> i3_step c c' \<Longrightarrow> i3_reachable c0 c'"

inductive_cases i3_stepE: "i3_step c c'"

text \<open>
  The invariant: the state is one of the enumerated ones, an uninitialised context has no sockets
  and no queue, and every queued block is exactly as long as its own header says, so that copying
  it back stays inside it.
\<close>

definition block_ok :: "byte list \<Rightarrow> bool" where
  "block_ok msg \<longleftrightarrow> 0 \<le> message_length msg \<and> length msg = sizeof_message + nat (message_length msg)"

definition i3_inv :: "i3 \<Rightarrow> bool" where
  "i3_inv c \<longleftrightarrow> state_ok c \<and> (\<forall>msg \<in> set (queued c). block_ok msg) \<and>
     (state c = I3IPC_STATE_UNINITIALIZED \<longrightarrow> sock c = 0 \<and> sock_events c = 0 \<and> queued c = [])"

lemma sys_read_length: "sys_read n ios = Ret (Got bs, ios') \<Longrightarrow> length bs \<le> n"
proof (induction n ios rule: sys_read.induct)
  case (2 n cs r)
  then show ?case by (cases "cs = []") auto
qed auto

lemma read_all_length: "read_all_try n ios = Ret (0, bs, ios') \<Longrightarrow> length bs = n"
proof (induction n arbitrary: ios bs rule: less_induct)
  case (less n)
  from less.prems show ?case
  proof (cases rule: read_all_cases)
    case (some b cs ios1 ds)
    moreover have "length (b # cs) \<le> n" using sys_read_length [OF some(2)] .
    ultimately show ?thesis using less.IH [OF _ some(3)] by simp
  qed auto
qed


lemma store_at_header:
  "sizeof_message \<le> length buf \<Longrightarrow> sizeof_message \<le> off \<Longrightarrow>
   message_length (store_at off bs buf) = message_length buf"
  unfolding le_iff_add [of sizeof_message off]
  by (auto simp: store_at_def message_length_def sizeof_message_def drop_take)

lemma reserve_header:
  "sizeof_message \<le> length (buffers c b) \<Longrightarrow>
   message_length (buffers (context_reserve b n c) b) = message_length (buffers c b)"
  by (simp add: reserve_extends message_length_def sizeof_message_def)

text \<open>After a successful receive the buffer holds the whole message and its zero byte.\<close>

lemma receive_block_buffer:
  assumes "receive_block s c = Ret (False, 0, c')" "sizeof_message \<le> length (buffers c CONTEXT_MSG)"
  shows "0 \<le> message_length (buffers c' CONTEXT_MSG)"
    "sizeof_message + nat (message_length (buffers c' CONTEXT_MSG)) < length (buffers c' CONTEXT_MSG)"
proof -
  from assms(1) obtain c1 len where 1: "read_into s 0 sizeof_message c = Ret (0, c1)"
    and len: "len = nat (message_length (buffers c1 CONTEXT_MSG))" "0 \<le> message_length (buffers c1 CONTEXT_MSG)"
    and 2: "read_into s sizeof_message len (context_reserve CONTEXT_MSG (sizeof_message + len + 1) c1) = Ret (0, c')"
    by (auto simp: receive_block_def Let_def obind_Ret split: if_splits)
  let ?c2 = "context_reserve CONTEXT_MSG (sizeof_message + len + 1) c1"
  have l1: "sizeof_message \<le> length (buffers c1 CONTEXT_MSG)"
    using 1 assms(2) by (auto simp: read_into_def obind_Ret dest: read_all_length)
  have l2: "sizeof_message + len + 1 \<le> length (buffers ?c2 CONTEXT_MSG)" by (rule reserve_length)
  from 2 obtain bs where b: "length bs = len"
    "buffers c' CONTEXT_MSG = store_at sizeof_message bs (buffers ?c2 CONTEXT_MSG)"
    by (auto simp: read_into_def obind_Ret dest: read_all_length)
  have "message_length (buffers c' CONTEXT_MSG) = message_length (buffers c1 CONTEXT_MSG)"
    using l2 unfolding b(2) by (simp add: store_at_header reserve_header l1)
  moreover have "length (buffers c' CONTEXT_MSG) = length (buffers ?c2 CONTEXT_MSG)"
    using l2 b by simp
  ultimately show "0 \<le> message_length (buffers c' CONTEXT_MSG)"
    "sizeof_message + nat (message_length (buffers c' CONTEXT_MSG)) < length (buffers c' CONTEXT_MSG)"
    using len l2 by simp_all
qed

lemma receive_buffer:
  assumes "message_receive_try t c = Ret (0, c')"
  shows "0 \<le> message_length (buffers c' CONTEXT_MSG) \<and>
    sizeof_message + nat (message_length (buffers c' CONTEXT_MSG)) < length (buffers c' CONTEXT_MSG)"
proof -
  from assms obtain c1 s over code c2 where
    1: "receive_block s (context_reserve CONTEXT_MSG sizeof_message c1) = Ret (over, code, c2)"
    and 2: "receive_finish t (over, code, c2) = Ret (0, c')"
    by (auto simp: message_receive_try_def obind_Ret split: if_splits)
  have 3: "\<not> over" "code = 0"
    using receive_finish_Ret0 [OF 2] receive_block_over 1 by (metis (full_types))+
  have l: "sizeof_message \<le> length (buffers (context_reserve CONTEXT_MSG sizeof_message c1) CONTEXT_MSG)"
    by (rule reserve_length)
  note blk = receive_block_buffer [OF 1 [unfolded 3(2) eq_False [THEN iffD2, OF 3(1)]] l]
  have "c' = c2\<lparr>buffers := (buffers c2)(CONTEXT_MSG :=
      store_at (sizeof_message + nat (message_length (buffers c2 CONTEXT_MSG))) [0] (buffers c2 CONTEXT_MSG))\<rparr>"
    using 2 3 by (auto simp: receive_finish_def Let_def obind_Ret i3codes split: if_splits)
  then show ?thesis using blk by (simp add: store_at_header)
qed

lemma error_handle_queued: "error_handle k c = Ret (k', c') \<Longrightarrow> queued c' = queued c"
  by (auto simp: error_handle_def Let_def split: if_splits)

lemma receive_block_queued: "receive_block s c = Ret (over, k, c') \<Longrightarrow> queued c' = queued c"
  by (auto simp: receive_block_def Let_def obind_Ret split: if_splits
      dest!: error_handle_queued read_into_frame(4))

lemma receive_finish_queued: "receive_finish t (over, k, c) = Ret (k', c') \<Longrightarrow> queued c' = queued c"
  by (auto simp: receive_finish_def Let_def obind_Ret split: if_splits dest!: error_handle_queued)

lemma init_queued: "init_try p c = Ret (k, c') \<Longrightarrow> queued c' = queued c"
  by (erule init_try_cases) simp_all

lemma receive_queued:
  assumes "message_receive_try t c = Ret (k, c')"
  shows "queued c' = queued c"
proof -
  from assms obtain k1 c1 where 1: "init_try None c = Ret (k1, c1)"
    by (auto simp: message_receive_try_def obind_Ret)
  show ?thesis
  proof (cases "k1 = 0")
    case True
    with assms 1 obtain s over k2 c2 where
      2: "receive_block s (context_reserve CONTEXT_MSG sizeof_message c1) = Ret (over, k2, c2)"
      "receive_finish t (over, k2, c2) = Ret (k, c')"
      by (auto simp: message_receive_try_def obind_Ret)
    show ?thesis
      using receive_finish_queued [OF 2(2)] receive_block_queued [OF 2(1)] init_queued [OF 1] by simp
  next
    case False
    then show ?thesis using assms 1 init_queued [OF 1] by (simp add: message_receive_try_def)
  qed
qed

lemma write_to_queued: "write_to s bs c = Ret (k, c') \<Longrightarrow> queued c' = queued c"
  by (auto simp: write_to_def obind_Ret set_conn_def)

lemma send_message_queued:
  assumes "send_message t payload n c = Ret (k, c')"
  shows "queued c' = queued c"
proof -
  let ?c1 = "context_reserve CONTEXT_MSG (sizeof_message + n) c"
  from assms obtain buf s where f: "fill_message t payload n (buffers ?c1 CONTEXT_MSG) = Ret buf"
    "message_type_to_socket t c = Ret s"
    by (auto simp: send_message_def obind_Ret Let_def)
  let ?c2 = "?c1\<lparr>buffers := (buffers ?c1)(CONTEXT_MSG := buf)\<rparr>"
  show ?thesis
  proof (cases "debug_do_not_write_messages c")
    case True
    then show ?thesis using assms f by (auto simp: send_message_def Let_def)
  next
    case False
    with assms f obtain k3 c3 where
      w: "write_to s (take (sizeof_message + nat (message_length buf)) buf) ?c2 = Ret (k3, c3)" and
      e: "(if k3 = I3IPC_WRITE_ALL_EOF then error_handle I3IPC_ERROR_CLOSED c3
           else if k3 \<noteq> 0 then error_handle I3IPC_ERROR_IO c3 else Ret (0, c3)) = Ret (k, c')"
      by (auto simp: send_message_def Let_def obind_Ret)
    from write_to_queued [OF w] have "queued c3 = queued c" by simp
    with e show ?thesis by (auto split: if_splits dest!: error_handle_queued)
  qed
qed

lemma send_queued:
  assumes "message_send_try t payload n c = Ret (k, c')"
  shows "queued c' = queued c"
proof -
  from assms obtain m k1 c1 where 1: "init_try None c = Ret (k1, c1)"
    "(if k1 \<noteq> 0 then Ret (k1, c1) else send_message t payload m c1) = Ret (k, c')"
    by (auto simp: message_send_try_def assert_then_Ret obind_Ret)
  then show ?thesis
    using init_queued [OF 1(1)] send_message_queued by (cases "k1 = 0") fastforce+
qed

lemma queued_take_queued [simp]: "queued (take_queued i c) = take i (queued c) @ drop (Suc i) (queued c)"
  by (simp add: take_queued_def Let_def)

lemma block_ok_take:
  assumes "0 \<le> message_length buf" "sizeof_message + nat (message_length buf) < length buf"
  shows "block_ok (take (sizeof_message + nat (message_length buf)) buf)"
proof -
  have "message_length (take (sizeof_message + nat (message_length buf)) buf) = message_length buf"
    by (simp add: message_length_def sizeof_message_def drop_take min_def)
  with assms show ?thesis by (simp add: block_ok_def)
qed

lemma reorder_loop_blocks:
  "\<forall>msg \<in> set (queued c). block_ok msg \<Longrightarrow> reorder_loop t i c = Ret (k, c') \<Longrightarrow>
   \<forall>msg \<in> set (queued c'). block_ok msg"
proof (induction t i c rule: reorder_loop.induct)
  case (1 t i c)
  note loop = 1(4) [unfolded reorder_loop.simps [of t i c]]
  show ?case
  proof (cases "i < length (queued c)")
    case True
    then show ?thesis
      using 1(1,3) loop by (auto split: if_splits dest!: in_set_takeD in_set_dropD)
  next
    case False
    obtain k1 c1 where 2: "message_receive_try I3IPC_EVENT_ANY c = Ret (k1, c1)"
      using loop False by (auto simp: obind_Ret)
    have q: "\<forall>msg \<in> set (queued c1). block_ok msg" using 1(3) receive_queued [OF 2] by simp
    show ?thesis
    proof (cases "k1 = 0")
      case True
      with 2 receive_buffer have "\<forall>msg \<in> set (queued (push_queued c1)). block_ok msg"
        using q by (auto intro!: block_ok_take)
      then show ?thesis
        using 1(2) [OF False 2 refl] loop False 2 True q
        by (auto simp: assert_then_Ret split: if_splits)
    next
      case nz: False
      then show ?thesis using loop False 2 q by simp
    qed
  qed
qed

lemma reorder_blocks:
  assumes "message_receive_reorder_try t c = Ret (k, c')" "\<forall>msg \<in> set (queued c). block_ok msg"
  shows "\<forall>msg \<in> set (queued c'). block_ok msg"
proof -
  from assms(1) obtain k1 c1 where 1: "init_try None c = Ret (k1, c1)"
    "(if k1 \<noteq> 0 then Ret (k1, c1) else reorder_loop t 0 c1) = Ret (k, c')"
    by (auto simp: message_receive_reorder_try_def obind_Ret)
  have "\<forall>msg \<in> set (queued c1). block_ok msg" using init_queued [OF 1(1)] assms(2) by simp
  with 1(2) reorder_loop_blocks show ?thesis by (cases "k1 = 0") auto
qed

text \<open>A call that went through the start does not leave the context uninitialised.\<close>

lemma keeps_inv:
  assumes "guarded_call call" "i3_inv c" "call c = Ret (k, c')" "\<forall>msg \<in> set (queued c'). block_ok msg"
    "error_code c = 0 \<Longrightarrow> state c' \<noteq> I3IPC_STATE_UNINITIALIZED"
  shows "i3_inv c'"
proof -
  have ok: "state_ok c'" using guarded_call.keeps [OF assms(1) _ assms(3)] assms(2) by (simp add: i3_inv_def)
  show ?thesis
  proof (cases "error_code c = 0")
    case True
    then show ?thesis using ok assms(4,5) by (simp add: i3_inv_def)
  next
    case False
    then have "c' = c\<lparr>globals_initialized := True\<rparr>"
      using guarded_call.refuses [OF assms(1) False] assms(3) by simp
    then show ?thesis using assms(2) by (simp add: i3_inv_def state_ok_def)
  qed
qed

lemma settled_not_uninitialized: "settled k c \<Longrightarrow> state c \<noteq> I3IPC_STATE_UNINITIALIZED"
  by (auto simp: settled_def i3codes)

lemma after_init_not_uninitialized:
  assumes "error_code c = 0" "obind (init_try None c) (\<lambda>(code, c1). if code \<noteq> 0 then Ret (code, c1) else rest c1) = Ret (k, c')"
    "\<And>c k c'. state c = I3IPC_STATE_READY \<Longrightarrow> rest c = Ret (k, c') \<Longrightarrow> settled k c'"
  shows "state c' \<noteq> I3IPC_STATE_UNINITIALIZED"
proof -
  from assms(2) obtain k1 c1 where 1: "init_try None c = Ret (k1, c1)"
    "(if k1 \<noteq> 0 then Ret (k1, c1) else rest c1) = Ret (k, c')"
    by (auto simp: obind_Ret)
  show ?thesis
  proof (cases "k1 = 0")
    case True
    then have "rest c1 = Ret (k, c')" "state c1 = I3IPC_STATE_READY"
      using 1 init_success by auto
    then show ?thesis using assms(3) settled_not_uninitialized by blast
  next
    case False
    then show ?thesis
      using 1 init_reports [OF assms(1) 1(1)] by (auto simp: error_code_def i3codes)
  qed
qed

lemma init_keeps_inv: "i3_inv c \<Longrightarrow> init_try p c = Ret (k, c') \<Longrightarrow> i3_inv c'"
  by (erule init_try_cases) (simp_all add: i3_inv_def state_ok_def i3codes)

lemma receive_keeps_inv:
  assumes "i3_inv c" "message_receive_try t c = Ret (k, c')"
  shows "i3_inv c'"
proof (rule keeps_inv [OF receive_call.guarded_call_axioms assms])
  show "\<forall>msg \<in> set (queued c'). block_ok msg"
    using assms receive_queued by (simp add: i3_inv_def)
  show "state c' \<noteq> I3IPC_STATE_UNINITIALIZED" if "error_code c = 0"
    using after_init_not_uninitialized [OF that _ receive_rest_settled] assms(2)
    by (simp add: message_receive_try_def)
qed

lemma reorder_keeps_inv:
  assumes "i3_inv c" "message_receive_reorder_try t c = Ret (k, c')"
  shows "i3_inv c'"
proof (rule keeps_inv [OF reorder_call.guarded_call_axioms assms])
  show "\<forall>msg \<in> set (queued c'). block_ok msg"
    using assms reorder_blocks by (simp add: i3_inv_def)
  show "state c' \<noteq> I3IPC_STATE_UNINITIALIZED" if "error_code c = 0"
    using after_init_not_uninitialized [OF that _ reorder_loop_settled] assms(2)
    by (simp add: message_receive_reorder_try_def)
qed

lemma send_keeps_inv:
  assumes "i3_inv c" "message_send_try t payload n c = Ret (k, c')"
  shows "i3_inv c'"
proof -
  from assms(2) have s: "sendable t payload n"
    by (auto simp: message_send_try_def assert_then_Ret sendable_def obind_Ret payload_length_def split: if_splits)
  then obtain m where m: "payload_length payload n = Ret m"
    by (cases "n = - 1"; cases payload) (auto simp: sendable_def payload_length_def)
  show ?thesis
  proof (rule keeps_inv [OF send_guarded [OF s] assms])
    show "\<forall>msg \<in> set (queued c'). block_ok msg"
      using assms send_queued by (simp add: i3_inv_def)
    show "state c' \<noteq> I3IPC_STATE_UNINITIALIZED" if "error_code c = 0"
    proof (rule after_init_not_uninitialized [OF that])
      show "obind (init_try None c) (\<lambda>(code, c1). if code \<noteq> 0 then Ret (code, c1)
          else send_message t payload m c1) = Ret (k, c')"
        using assms(2) by (simp add: message_send_try_def assert_then_Ret m)
    qed (rule send_message_settled)
  qed
qed

lemma reinitialize_keeps_inv: "i3_inv c \<Longrightarrow> error_reinitialize force c = Ret c' \<Longrightarrow> i3_inv c'"
  by (auto simp: i3_inv_def state_ok_def error_reinitialize_def assert_then_Ret i3codes split: if_splits)

lemma step_keeps_inv: "i3_step c c' \<Longrightarrow> i3_inv c \<Longrightarrow> i3_inv c'"
proof (induction rule: i3_step.induct)
  case (init p c k c')
  then show ?case using init_keeps_inv by blast
next
  case (send t payload n c k c')
  then show ?case using send_keeps_inv by blast
next
  case (receive t c k c')
  then show ?case using receive_keeps_inv by blast
next
  case (reorder t c k c')
  then show ?case using reorder_keeps_inv by blast
next
  case (reinitialize force c c')
  then show ?case using reinitialize_keeps_inv by blast
qed (auto simp: i3_inv_def state_ok_def set_staticalloc_def set_loglevel_def set_nopanic_def Let_def
    split: if_splits)


section \<open>Buffers and the socket path\<close>

text \<open>
  \<open>i3ipc__context_reserve\<close> makes room for what is asked, keeps what the buffer held, never shrinks
  it, at most doubles it unless more is asked, and leaves the other buffers alone.
\<close>

theorem reserve_makes_room:
  "n \<le> length (buffers (context_reserve b n c) b) \<and>
   length (buffers c b) \<le> length (buffers (context_reserve b n c) b) \<and>
   length (buffers (context_reserve b n c) b) \<le> max (2 * length (buffers c b)) (max n (length (buffers c b))) \<and>
   take (length (buffers c b)) (buffers (context_reserve b n c) b) = buffers c b \<and>
   buffers (context_reserve b n c) = (buffers c)(b := buffers (context_reserve b n c) b)"
  using grown_bounds [where buf_size = "length (buffers c b)" and n = n]
  by (auto simp: reserve_extends)

lemma cmd_read_loop_reads:
  assumes "cmd_read_loop buf buf_size ios calls = Ret (Some out, calls')" "length buf \<le> buf_size"
    "\<forall>(off, n) \<in> set calls. off + space_min \<le> n"
  shows "out = buf @ stream ios \<and> (\<forall>(off, n) \<in> set calls'. off + space_min \<le> n)"
  using assms
proof (induction buf buf_size ios calls rule: cmd_read_loop.induct)
  case (1 buf buf_size ios calls)
  let ?n = "grown_cmd (length buf) buf_size"
  have room: "length buf + space_min \<le> ?n" by (rule grown_cmd_space [OF 1(3)])
  note loop = 1(2) [unfolded cmd_read_loop.simps [of buf buf_size ios calls] Let_def]
  then obtain res ios' where 2: "sys_read (?n - length buf) ios = Ret (res, ios')"
    by (auto simp: obind_Ret)
  have calls: "\<forall>(off, n) \<in> set (calls @ [(length buf, ?n)]). off + space_min \<le> n"
    using 1(4) room by auto
  show ?case
  proof (cases res)
    case (Fail w)
    then show ?thesis using loop 2 by simp
  next
    case (Got bs)
    show ?thesis
    proof (cases bs)
      case Nil
      have "stream ios = []"
        using sys_read_stream [of "?n - length buf" ios] 2 Got Nil room by (force simp: space_min_def)
      then show ?thesis using loop 2 Got Nil calls by auto
    next
      case (Cons b cs)
      have "stream ios \<noteq> []"
        using 2 Got Cons by (induction "?n - length buf" ios rule: sys_read.induct) (auto split: if_splits)
      then obtain ds ios2 where "sys_read (?n - length buf) ios = Ret (Got ds, ios2)"
        "length ds \<le> ?n - length buf" "stream ios = ds @ stream ios2"
        using sys_read_stream [of "?n - length buf" ios] room by (auto simp: space_min_def)
      then have ds: "length (b # cs) \<le> ?n - length buf" "stream ios = (b # cs) @ stream ios'"
        using 2 Got Cons by auto
      have "cmd_read_loop (buf @ b # cs) ?n ios' (calls @ [(length buf, ?n)]) = Ret (Some out, calls')"
        using loop 2 Got Cons by simp
      from 1(1) [OF refl refl refl 2 refl Got Cons this] ds calls show ?thesis by auto
    qed
  qed
qed

text \<open>
  \<open>i3ipc__socketpath_cmd_try\<close> collects exactly what the command printed, however it was
  delivered, and every \<open>read\<close> is offered at least 64 free bytes inside the buffer.
\<close>

theorem socketpath_reads_output:
  assumes "cmd_read_loop [] 0 ios [] = Ret (Some out, calls)"
  shows "out = stream ios \<and> (\<forall>(off, buf_size) \<in> set calls. off + space_min \<le> buf_size)"
  using cmd_read_loop_reads [OF assms] by simp

text \<open>
  When the first connection fails, the descriptors in the context are still the zeros it started
  with; reinitialising closes them, so it closes descriptor 0, the standard input, twice.
\<close>

theorem reinitialize_after_failed_connection:
  assumes "state c = I3IPC_STATE_UNINITIALIZED" "sock c = 0" "sock_events c = 0"
    "openings c = r # rs" "pipe_ok r" "fork_ok r" "close_ok r" "child r = Exited 1"
    "cmd_output r = [Eof]" "error_reinitialize force (snd (init_failed False (c\<lparr>globals_initialized := True, openings := rs\<rparr>))) = Ret c2"
  shows "init_try None c = Ret (init_failed False (c\<lparr>globals_initialized := True, openings := rs\<rparr>)) \<and>
    closed_fds c2 = closed_fds c @ [0, 0]"
proof -
  have cmd: "cmd_read_loop [] 0 [Eof] [] = Ret (Some [], [(0, 64)])"
    by (simp add: cmd_read_loop.simps grown_cmd_def space_min_def)
  have "socket_open_try None r = Ret (1, None, None)"
    using assms(5-9) by (simp add: socket_open_try_def socketpath_cmd_try_def cmd)
  then have "init_try None c = Ret (init_failed False (c\<lparr>globals_initialized := True, openings := rs\<rparr>))"
    using assms(1,4) by (simp add: init_try_def Let_def i3codes error_code_def next_opening_def)
  moreover have "closed_fds c2 = closed_fds c @ [0, 0]"
    using assms(2,3,10)
    by (auto simp: error_reinitialize_def init_failed_def assert_then_Ret error_code_def i3codes split: if_splits)
  ultimately show ?thesis by simp
qed

section \<open>Concrete runs\<close>

text \<open>A context with the sockets 3 and 4, for what arrives on the second one.\<close>

definition demo_conn :: "io_in list \<Rightarrow> io_out list \<Rightarrow> conn" where
  "demo_conn ios ws = \<lparr>incoming = ios, accepts = ws, sent = []\<rparr>"

definition demo_i3 :: "int \<Rightarrow> io_in list \<Rightarrow> i3" where
  "demo_i3 st ios =
     \<lparr>state = st, sock = (if st = 1 then 3 else 0), sock_events = (if st = 1 then 4 else 0),
      buffers = (\<lambda>_. []), queued = [], nopanic = True,
      staticalloc = False, debug_do_not_write_messages = False, debug_nodata_is_error = False,
      loglevel = 0, globals_initialized = False, junk = 0,
      conns = (\<lambda>_. demo_conn ios [Takes 5, Takes 100]), openings = [], closed_fds = [],
      caller_path_freed = False\<rparr>"

definition demo_payload :: "byte list" where
  "demo_payload = [111, 107]"

lemma demo_simps [simp]:
  "state (demo_i3 1 ios) = I3IPC_STATE_READY" "sock (demo_i3 1 ios) = 3" "sock_events (demo_i3 1 ios) = 4"
  "conns (demo_i3 1 ios) s = demo_conn ios [Takes 5, Takes 100]" "queued (demo_i3 1 ios) = []"
  "\<not> debug_do_not_write_messages (demo_i3 1 ios)" "incoming (demo_conn ios ws) = ios" "sent (demo_conn ios ws) = []"
  "payload_fits demo_payload" "buffers (demo_i3 1 ios) = (\<lambda>_. [])" "accepts (demo_conn ios ws) = ws"
  "message_type_to_socket I3IPC_RUN_COMMAND (demo_i3 1 ios) = Ret 3" "nopanic (demo_i3 1 ios)"
  by (simp_all add: demo_i3_def demo_conn_def i3codes payload_fits_def size_max_def demo_payload_def
      message_type_to_socket_def)

lemma demo_write:
  assumes "length buf = 16"
  shows "write_all_try buf [Takes 5, Takes 100] out = Ret (0, [], out @ buf)"
proof -
  from assms obtain x xs where x: "buf = x # xs" "length xs = 15" by (cases buf) auto
  then have "length (drop 4 xs) = 11" by simp
  then obtain y ys where y: "drop 4 xs = y # ys" "length ys = 10" by (cases "drop 4 xs") auto
  have "take 4 xs @ y # ys = xs" using append_take_drop_id [of 4 xs] y(1) by simp
  then show ?thesis by (simp add: x(1) y)
qed

lemma demo_send: "\<exists>a'. message_send_try I3IPC_RUN_COMMAND (Some demo_payload) 2 (demo_i3 1 []) = Ret (0, a')"
proof -
  let ?c = "context_reserve CONTEXT_MSG (sizeof_message + 2) ((demo_i3 1 [])\<lparr>globals_initialized := True\<rparr>)"
  have f: "fill_message I3IPC_RUN_COMMAND (Some demo_payload) 2 (buffers ?c CONTEXT_MSG) =
      Ret (wire I3IPC_RUN_COMMAND demo_payload)"
    by (simp add: fill_message_def has_payload_def reserve_extends grown_def sizeof_message_def wire_def
        store_at_def demo_payload_def)
  have t: "int32 I3IPC_RUN_COMMAND" by (simp add: int32_def i3codes)
  have l: "length (wire I3IPC_RUN_COMMAND demo_payload) = 16"
    by (simp add: sizeof_message_def demo_payload_def)
  have m: "message_length (wire I3IPC_RUN_COMMAND demo_payload) = 2"
    by (simp add: demo_payload_def [symmetric]) (simp add: demo_payload_def)
  show ?thesis
  proof -
    have "0 \<le> I3IPC_RUN_COMMAND" "I3IPC_RUN_COMMAND < I3IPC_MESSAGE_TYPE_COUNT" "0 \<noteq> I3IPC_WRITE_ALL_EOF"
      by (simp_all add: i3codes)
    moreover have "take (sizeof_message + 2) (wire I3IPC_RUN_COMMAND demo_payload) = wire I3IPC_RUN_COMMAND demo_payload"
      using l by (simp add: sizeof_message_def)
    ultimately show ?thesis
      using f demo_write [OF l] m by (simp add: message_send_try_def payload_length_def send_message_def write_to_def Let_def)
  qed
qed

theorem message_roundtrip_witness:
  "\<exists>b' msg. message_receive_try I3IPC_RUN_COMMAND
      (demo_i3 1 [Bytes (take 5 (wire I3IPC_RUN_COMMAND demo_payload)),
                  Bytes (drop 5 (wire I3IPC_RUN_COMMAND demo_payload) @ [1])]) = Ret (0, b') \<and>
    buffers b' CONTEXT_MSG = msg \<and> message_type msg = I3IPC_RUN_COMMAND \<and> message_length msg = 2 \<and>
    take 3 (drop sizeof_message msg) = demo_payload @ [0] \<and> stream (incoming (conns b' 3)) = [1]"
proof -
  obtain a' where a: "message_send_try I3IPC_RUN_COMMAND (Some demo_payload) (int (length demo_payload)) (demo_i3 1 []) = Ret (0, a')"
    using demo_send by (auto simp: demo_payload_def)
  have s: "sent (conns a' 3) = wire I3IPC_RUN_COMMAND demo_payload"
    using send_sends_wire(1) [OF a] by simp
  have "length demo_payload = 2" by (simp add: demo_payload_def)
  with message_roundtrip [OF a, where s = 3 and r = 3 and rest = "[1]" and
      b = "demo_i3 1 [Bytes (take 5 (wire I3IPC_RUN_COMMAND demo_payload)),
                  Bytes (drop 5 (wire I3IPC_RUN_COMMAND demo_payload) @ [1])]"]
  show ?thesis by (simp add: s)
qed

text \<open>Two events on the wire; the second one is wanted.\<close>

definition demo_events :: "i3message list" where
  "demo_events = [(- 2147483648, [1]), (- 2147483641, [2, 3])]"

lemma demo_events_pending: "pending (demo_i3 1 [Bytes (concat (map frame demo_events)), Eof]) [] demo_events []"
  by (simp add: pending_def demo_events_def good_event_def int32_def type_matches_def i3codes
      payload_fits_def size_max_def)

theorem reorder_delivers_first_witness:
  "\<exists>c' q' ms'. message_receive_reorder_try (- 2147483641)
      (demo_i3 1 [Bytes (concat (map frame demo_events)), Eof]) = Ret (0, c') \<and>
    delivers c' (- 2147483641, [2, 3]) \<and> pending c' q' ms' [] \<and> q' @ ms' = [(- 2147483648, [1])]"
  using reorder_delivers_first [OF demo_events_pending, where pre = "[(- 2147483648, [1])]"
      and m = "(- 2147483641, [2, 3])" and post = "[]" and t = "- 2147483641"]
  by (simp add: demo_events_def wanted_def i3codes)

lemma demo_eof: "message_receive_try 1 (demo_i3 1 [Eof]) = Ret (I3IPC_ERROR_CLOSED,
    (received (demo_i3 1 [Eof]) 3 [Eof] (replicate 14 0))\<lparr>state := I3IPC_ERROR_CLOSED\<rparr>)"
  by (simp add: message_receive_try_def message_type_to_socket_def i3codes receive_block_def read_into_def
      read_all_try.simps sizeof_message_def set_conn_def receive_finish_def error_handle_def
      context_reserve_def realloc_def grown_def store_at_def received_def demo_i3_def Let_def)



theorem socketpath_reads_output_witness:
  "\<exists>calls. cmd_read_loop [] 0 [Bytes [47, 116], Bytes [10], Eof] [] = Ret (Some [47, 116, 10], calls) \<and>
     (\<forall>(off, buf_size) \<in> set calls. off + space_min \<le> buf_size)"
proof -
  have "cmd_read_loop [] 0 [Bytes [47, 116], Bytes [10], Eof] [] =
      Ret (Some [47, 116, 10], [(0, 64), (2, 128), (3, 128)])"
    by (simp add: cmd_read_loop.simps grown_cmd_def space_min_def)
  with socketpath_reads_output [OF this] show ?thesis by blast
qed

definition demo_failed_run :: open_run where
  "demo_failed_run = \<lparr>pipe_ok = True, fork_ok = True, close_ok = True, cmd_output = [Eof],
     child = Exited 1, socket_result = 5, connect_ok = True\<rparr>"

theorem reinitialize_after_failed_connection_witness:
  "\<exists>c2. error_reinitialize False (snd (init_failed False
      ((demo_i3 0 [])\<lparr>globals_initialized := True, openings := []\<rparr>))) = Ret c2 \<and>
    init_try None ((demo_i3 0 [])\<lparr>openings := [demo_failed_run]\<rparr>) =
      Ret (init_failed False ((demo_i3 0 [])\<lparr>globals_initialized := True, openings := []\<rparr>)) \<and>
    closed_fds c2 = [0, 0]"
proof -
  have "\<exists>c2. error_reinitialize False (snd (init_failed False
      ((demo_i3 0 [])\<lparr>globals_initialized := True, openings := []\<rparr>))) = Ret c2"
    by (simp add: error_reinitialize_def init_failed_def error_code_def i3codes)
  then obtain c2 where c2: "error_reinitialize False (snd (init_failed False
      ((demo_i3 0 [])\<lparr>globals_initialized := True, openings := []\<rparr>))) = Ret c2" ..
  moreover have "state (demo_i3 0 []) = I3IPC_STATE_UNINITIALIZED" "sock (demo_i3 0 []) = 0"
    "sock_events (demo_i3 0 []) = 0" "closed_fds (demo_i3 0 []) = []"
    by (simp_all add: demo_i3_def i3codes)
  ultimately show ?thesis
    using reinitialize_after_failed_connection [of "(demo_i3 0 [])\<lparr>openings := [demo_failed_run]\<rparr>"
        demo_failed_run "[]" False c2]
    by (simp add: demo_failed_run_def)
qed

end
