(* ===== verification/I3_Json.thy ===== *)
theory I3_Json
  imports I3_Message Utf8
begin

text \<open>
  \<open>i3ipc.h\<close>, the JSON scanner: strings are decoded in place in the message buffer, numbers are read
  without exponents, the tokens are collected in the buffer \<open>CONTEXT_JSON\<close>, and the parser walks
  over them with the matching, looping and skipping functions.  A pointer into the message is
  modelled by the bytes from there to the end of the message.
\<close>

section \<open>Strings\<close>

text \<open>The value of a hexadecimal digit, -1 for another character, and four of them.\<close>

definition hex_val :: "byte \<Rightarrow> int" where
  "hex_val jc =
     (if 48 \<le> uint jc \<and> uint jc \<le> 57 then uint jc - 48
      else if 65 \<le> uint jc \<and> uint jc \<le> 70 then 10 + uint jc - 65
      else if 97 \<le> uint jc \<and> uint jc \<le> 102 then 10 + uint jc - 97 else - 1)"

definition hex4 :: "byte list \<Rightarrow> nat \<Rightarrow> bool \<times> int" where
  "hex4 cur i =
     fold (\<lambda>j (valid, cp). let val = hex_val (cur ! j) in (valid \<and> val \<noteq> - 1, cp * 16 + val))
       [i..<i + 4] (True, 0)"

text \<open>The UTF-8 encoding of an escaped code point; the last two branches cannot be reached.\<close>

definition json_utf8 :: "int \<Rightarrow> byte list" where
  "json_utf8 cp =
     (if cp \<le> 0x7f then [word_of_int cp]
      else if cp \<le> 0x7ff then [word_of_int (0xc0 OR drop_bit 6 cp), word_of_int (0x80 OR (cp AND 0x3f))]
      else if cp \<le> 0xffff then
        [word_of_int (0xe0 OR drop_bit 12 cp), word_of_int (0x80 OR (drop_bit 6 cp AND 0x3f)),
         word_of_int (0x80 OR (cp AND 0x3f))]
      else if cp \<le> 0x10ffff then
        [word_of_int (0xf0 OR drop_bit 18 cp), word_of_int (0x80 OR (drop_bit 12 cp AND 0x3f)),
         word_of_int (0x80 OR (drop_bit 6 cp AND 0x3f)), word_of_int (0x80 OR (cp AND 0x3f))]
      else [0xef, 0xbf, 0xbd])"

text \<open>The character an escape stands for; \<open>u\<close> for a code point, 0 for an unknown escape.\<close>

definition escape :: "byte \<Rightarrow> byte" where
  "escape c =
     (if c = 34 \<or> c = 92 \<or> c = 47 then c
      else if c = 98 then 8
      else if c = 102 then 12
      else if c = 110 then 10
      else if c = 114 then 13
      else if c = 116 then 9
      else if c = 117 then 117 else 0)"

text \<open>
  The loop of \<open>i3ipc__json_scan_string\<close>: it reads at \<open>i\<close> and writes at \<open>p\<close> of the same memory.
  The result is the memory and the two positions.
\<close>

function scan_string_loop :: "nat \<Rightarrow> byte list \<Rightarrow> nat \<Rightarrow> nat \<Rightarrow> byte list \<times> nat \<times> nat" where
  "scan_string_loop left cur i p =
     (if \<not> i < left then (cur, i, p)
      else if cur ! i = 34 then (cur, i + 1, p)
      else let ic = (if cur ! i = 92 then escape (if i + 1 < left then cur ! (i + 1) else 0) else 0)
           in if ic = 117 \<and> i + 5 < left \<and> fst (hex4 cur (i + 2))
              then let u = json_utf8 (snd (hex4 cur (i + 2)))
                   in scan_string_loop left (store_at p u cur) (i + 6) (p + length u)
              else if ic \<noteq> 117 \<and> ic \<noteq> 0
              then scan_string_loop left (cur[p := ic]) (i + 2) (p + 1)
              else scan_string_loop left (cur[p := cur ! i]) (i + 1) (p + 1))"
  by auto

termination
  by (relation "measure (\<lambda>(left, cur, i, p). left - i)") auto

declare scan_string_loop.simps [simp del]

text \<open>\<open>i3ipc__json_scan_string\<close> at an opening quote: the string and the rest of the message.\<close>

definition scan_string :: "byte list \<Rightarrow> byte list \<times> byte list" where
  "scan_string cur =
     (let (m, i, p) = scan_string_loop (length cur) cur 1 0;
          m1 = m[p := 0]
      in (take p m1, drop i m1))"

text \<open>
  The reference: decoding into a fresh list.  \<open>next_piece\<close> gives the bytes that the front of the
  text stands for and their number there; the second component of \<open>unescape\<close> is the number of
  bytes read after the opening quote.
\<close>

definition next_piece :: "byte list \<Rightarrow> byte list \<times> nat" where
  "next_piece bs =
     (let ic = (if hd bs = 92 then escape (if 1 < length bs then bs ! 1 else 0) else 0)
      in if ic = 117 \<and> 5 < length bs \<and> fst (hex4 bs 2) then (json_utf8 (snd (hex4 bs 2)), 6)
         else if ic \<noteq> 117 \<and> ic \<noteq> 0 then ([ic], 2) else ([hd bs], 1))"

lemma next_piece_pos [simp]: "0 < snd (next_piece bs)"
  by (simp add: next_piece_def Let_def)

function unescape :: "byte list \<Rightarrow> byte list \<times> nat" where
  "unescape bs =
     (if bs = [] then ([], 0)
      else if hd bs = 34 then ([], 1)
      else case unescape (drop (snd (next_piece bs)) bs) of (d, n) \<Rightarrow>
        (fst (next_piece bs) @ d, n + snd (next_piece bs)))"
  by pat_completeness auto

termination
  by (relation "measure length") auto

declare unescape.simps [simp del]

lemma hex4_four: "hex4 cur i =
  (hex_val (cur ! i) \<noteq> - 1 \<and> hex_val (cur ! (i + 1)) \<noteq> - 1 \<and> hex_val (cur ! (i + 2)) \<noteq> - 1 \<and>
     hex_val (cur ! (i + 3)) \<noteq> - 1,
   ((hex_val (cur ! i) * 16 + hex_val (cur ! (i + 1))) * 16 + hex_val (cur ! (i + 2))) * 16 +
     hex_val (cur ! (i + 3)))"
proof -
  have "[i..<i + 4] = [i, i + 1, i + 2, i + 3]" by (simp add: upt_rec)
  then show ?thesis by (simp add: hex4_def Let_def)
qed

lemma hex_val_bounds: "hex_val c \<le> 15" "- 1 \<le> hex_val c"
  by (auto simp: hex_val_def)

lemma hex4_bounds: "fst (hex4 cur i) \<Longrightarrow> 0 \<le> snd (hex4 cur i) \<and> snd (hex4 cur i) \<le> 0xffff"
proof -
  assume "fst (hex4 cur i)"
  then have "0 \<le> hex_val (cur ! (i + k))" if "k < 4" for k
    using that hex_val_bounds(2) [of "cur ! (i + k)"]
    by (auto simp: hex4_four numeral_eq_Suc less_Suc_eq)
  from this [of 0] this [of 1] this [of 2] this [of 3]
  show ?thesis
    using hex_val_bounds(1) [of "cur ! i"] hex_val_bounds(1) [of "cur ! (i + 1)"]
      hex_val_bounds(1) [of "cur ! (i + 2)"] hex_val_bounds(1) [of "cur ! (i + 3)"]
    by (simp add: hex4_four)
qed

lemma length_json_utf8: "cp \<le> 0xffff \<Longrightarrow> length (json_utf8 cp) \<le> 3" "0 < length (json_utf8 cp)"
  by (auto simp: json_utf8_def)

text \<open>The part of the message between the reading position and its end.\<close>

definition unread :: "nat \<Rightarrow> byte list \<Rightarrow> nat \<Rightarrow> byte list" where
  "unread left cur i = drop i (take left cur)"

lemma unread_Cons: "i < left \<Longrightarrow> left \<le> length cur \<Longrightarrow> unread left cur i = cur ! i # unread left cur (Suc i)"
  unfolding unread_def by (subst Cons_nth_drop_Suc [symmetric]) simp_all

lemma unread_simps [simp]:
  "\<not> i < left \<Longrightarrow> unread left cur i = []"
  "left \<le> length cur \<Longrightarrow> length (unread left cur i) = left - i"
  "drop n (unread left cur i) = unread left cur (i + n)"
  by (simp_all add: unread_def add.commute)

lemma unread_nth: "i + k < left \<Longrightarrow> left \<le> length cur \<Longrightarrow> unread left cur i ! k = cur ! (i + k)"
  by (simp add: unread_def)

lemma unread_cong: "drop j cur' = drop j cur \<Longrightarrow> j \<le> i \<Longrightarrow> unread left cur' i = unread left cur i"
proof -
  assume d: "drop j cur' = drop j cur" and "j \<le> i"
  then obtain k where "i = j + k" using le_Suc_ex by blast
  then have "drop i cur' = drop i cur" using d by (metis add.commute drop_drop)
  then show ?thesis by (simp add: unread_def drop_take)
qed

text \<open>
  Decoding in place: what is written never reaches what is still to be read, and the decoded
  string is the one of the reference.
\<close>

lemma drop_store_at: "p + length u \<le> j \<Longrightarrow> drop j (store_at p u cur) = drop j cur" if "p \<le> length cur"
  using that by (auto simp: store_at_def min_def)

lemma take_store_at: "p \<le> length cur \<Longrightarrow> take (p + length u) (store_at p u cur) = take p cur @ u"
  by (simp add: store_at_def)

lemma list_update_store_at: "p < length cur \<Longrightarrow> cur[p := x] = store_at p [x] cur"
  by (simp add: store_at_def upd_conv_take_nth_drop)

definition in_place :: "nat \<Rightarrow> byte list \<Rightarrow> nat \<Rightarrow> nat \<Rightarrow> byte list \<times> nat \<times> nat \<Rightarrow> bool" where
  "in_place left cur i p res =
     (case res of (m, i', p') \<Rightarrow>
        case unescape (unread left cur i) of (d, n) \<Rightarrow>
          i' = i + n \<and> p' = p + length d \<and> p' < i' \<and> i' \<le> left \<and> length m = length cur \<and>
          take p' m = take p cur @ d \<and> drop i' m = drop i' cur)"

lemma in_place_step:
  assumes "in_place left (store_at p u cur) (i + k) (p + length u) res"
    and "next_piece (unread left cur i) = (u, k)" "i < left" "cur ! i \<noteq> 34" "left \<le> length cur"
    and "p < i" "length u \<le> k" "i + k \<le> length cur"
  shows "in_place left cur i p res"
proof -
  have d: "drop j (store_at p u cur) = drop j cur" if "i + k \<le> j" for j
    using assms(6-8) that by (intro drop_store_at) auto
  have "unread left (store_at p u cur) (i + k) = unread left cur (i + k)"
    using d [of "i + k"] by (intro unread_cong [of "i + k"]) simp_all
  moreover have "take (p + length u) (store_at p u cur) = take p cur @ u"
    using assms(6,8) by (intro take_store_at) simp
  moreover have "length (store_at p u cur) = length cur"
    using assms(6-8) by simp
  moreover have "unescape (unread left cur i) =
      (case unescape (unread left cur (i + k)) of (d, n) \<Rightarrow> (u @ d, n + k))"
  proof -
    have "unread left cur i \<noteq> []" "hd (unread left cur i) \<noteq> 34"
      using assms(3-5) by (simp_all add: unread_Cons)
    then show ?thesis by (subst unescape.simps) (simp add: assms(2))
  qed
  ultimately show ?thesis
    using assms(1) d by (auto simp: in_place_def add_ac split: prod.splits)
qed

lemma scan_string_loop_in_place:
  assumes "p < i" "i \<le> left" "left \<le> length cur"
  shows "in_place left cur i p (scan_string_loop left cur i p)"
  using assms
proof (induction left cur i p rule: scan_string_loop.induct)
  case (1 left cur i p)
  let ?ic = "if cur ! i = 92 then escape (if i + 1 < left then cur ! (i + 1) else 0) else 0"
  let ?h = "hex4 cur (i + 2)"
  note eq = scan_string_loop.simps [of left cur i p]
  show ?case
  proof (cases "i < left \<and> cur ! i \<noteq> 34")
    case False
    then show ?thesis
      using 1(4-6) by (subst eq) (auto simp: in_place_def unread_Cons unescape.simps [of "_ # _"] unescape.simps [of "[]"])
  next
    case True
    then have i: "i < left" "cur ! i \<noteq> 34" by auto
    have pl: "p < length cur" using i(1) 1(4,6) by simp
    define ic where "ic = ?ic"
    define h where "h = ?h"
    have ic: "(if hd (unread left cur i) = 92 then
        escape (if 1 < length (unread left cur i) then unread left cur i ! 1 else 0) else 0) = ic"
      using i(1) 1(6) unread_nth [of i 1 left cur] by (auto simp: unread_Cons ic_def)
    have hx: "hex4 (unread left cur i) 2 = h" if "i + 5 < left"
      using that 1(6) by (simp add: h_def hex4_four unread_nth add.commute [of _ i] numeral_eq_Suc)
    have len: "5 < length (unread left cur i) \<longleftrightarrow> i + 5 < left" using 1(6) by auto
    have hd: "hd (unread left cur i) = cur ! i" using i(1) 1(6) by (simp add: unread_Cons)
    have np: "next_piece (unread left cur i) =
        (if ic = 117 \<and> i + 5 < left \<and> fst h then (json_utf8 (snd h), 6)
         else if ic \<noteq> 117 \<and> ic \<noteq> 0 then ([ic], 2) else ([cur ! i], 1))"
      unfolding next_piece_def ic unfolding Let_def hd len by (simp add: hx cong: conj_cong)
    note step = eq [folded ic_def h_def, unfolded Let_def]
    note IH = 1(1-3) [OF _ i(2) ic_def]
    consider (code) "ic = 117 \<and> i + 5 < left \<and> fst h"
      | (simple) "\<not> (ic = 117 \<and> i + 5 < left \<and> fst h)" "ic \<noteq> 117 \<and> ic \<noteq> 0"
      | (plain) "\<not> (ic = 117 \<and> i + 5 < left \<and> fst h)" "\<not> (ic \<noteq> 117 \<and> ic \<noteq> 0)"
      by blast
    then show ?thesis
    proof cases
      case code
      let ?u = "json_utf8 (snd h)"
      have u: "length ?u \<le> 6" "p + length ?u < i + 6"
        using length_json_utf8(1) [of "snd h"] hex4_bounds [of cur "i + 2"] code 1(4)
        by (auto simp: h_def)
      have "in_place left (store_at p ?u cur) (i + 6) (p + length ?u)
          (scan_string_loop left (store_at p ?u cur) (i + 6) (p + length ?u))"
        using IH(1) [OF _ code [unfolded h_def] refl] u(2) 1(4-6) code i(1) by (simp add: h_def)
      from in_place_step [OF this _ i 1(6,4) u(1)] code 1(6) show ?thesis
        by (simp add: np step i)
    next
      case simple
      have e: "i + 1 < left"
        using simple(2) i(1) by (auto simp: ic_def escape_def split: if_splits)
      have "in_place left (store_at p [ic] cur) (i + 2) (p + length [ic])
          (scan_string_loop left (store_at p [ic] cur) (i + 2) (p + length [ic]))"
        using IH(2) [OF _ simple(1) [unfolded h_def] simple(2)] e 1(4-6) i(1) by (simp add: list_update_store_at [OF pl])
      from in_place_step [OF this _ i 1(6,4)] e 1(4-6) simple show ?thesis
        by (simp add: np step i list_update_store_at [OF pl])
    next
      case plain
      have "in_place left (store_at p [cur ! i] cur) (i + 1) (p + length [cur ! i])
          (scan_string_loop left (store_at p [cur ! i] cur) (i + 1) (p + length [cur ! i]))"
        using IH(3) [OF _ plain(1) [unfolded h_def] plain(2)] 1(4-6) i(1) by (simp add: list_update_store_at [OF pl])
      from in_place_step [OF this _ i 1(6,4)] 1(6) i(1) plain show ?thesis
        by (auto simp: np step i list_update_store_at [OF pl])
    qed
  qed
qed

lemma scan_string_reference:
  "scan_string (q # rest) = (fst (unescape rest), drop (snd (unescape rest)) rest)"
proof -
  let ?cur = "q # rest"
  obtain m i p where r: "scan_string_loop (length ?cur) ?cur 1 0 = (m, i, p)" by (cases "scan_string_loop (length ?cur) ?cur 1 0")
  have "in_place (length ?cur) ?cur 1 0 (m, i, p)"
    using scan_string_loop_in_place [of 0 1 "length ?cur" ?cur] r by simp
  moreover have "unread (length ?cur) ?cur 1 = rest" by (simp add: unread_def)
  ultimately have "i = 1 + snd (unescape rest)" "p = length (fst (unescape rest))" "p < i"
    "take p m = fst (unescape rest)" "drop i m = drop i ?cur"
    by (auto simp: in_place_def split: prod.splits)
  then show ?thesis unfolding scan_string_def r by simp
qed

section \<open>Printing strings\<close>

definition lower_hex :: "nat \<Rightarrow> byte" where
  "lower_hex d = (if d < 10 then of_nat (48 + d) else of_nat (87 + d))"

text \<open>The text of one character and the number that is added to \<open>written\<close>.\<close>

definition print_char :: "byte \<Rightarrow> byte list \<times> nat" where
  "print_char b =
     (if b = 92 \<or> b = 34 then ([92, b], 2)
      else if b = 10 then ([92, 110], 1)
      else if unat b < 32 then ([92, 117, 48, 48, lower_hex (unat b div 16), lower_hex (unat b mod 16)], 6)
      else ([b], 1))"

definition print_chars :: "byte list \<Rightarrow> byte list" where
  "print_chars cs = concat (map (\<lambda>b. fst (print_char b)) cs)"

definition printjson_string :: "byte list \<Rightarrow> int \<Rightarrow> bool \<Rightarrow> byte list \<times> nat" where
  "printjson_string str str_size for_human =
     (let n0 = (if str_size = - 1 then length (cstr str) else nat str_size);
          flag_dots = (200 < n0 \<and> for_human);
          n = (if flag_dots then 31 else n0);
          cs = take n str
      in ([34] @ print_chars cs @ [34] @ (if flag_dots then [46, 46, 46] else []),
          2 + sum_list (map (\<lambda>b. snd (print_char b)) cs) + (if flag_dots then 3 else 0)))"

lemma hex_val_lower: "d < 16 \<Longrightarrow> hex_val (lower_hex d) = int d"
proof -
  have "list_all (\<lambda>d. hex_val (lower_hex d) = int d) [0..<16]" by code_simp
  then show "d < 16 \<Longrightarrow> hex_val (lower_hex d) = int d" by (simp add: list_all_iff)
qed

lemma next_piece_plain: "b \<noteq> 92 \<Longrightarrow> next_piece (b # bs) = ([b], 1)"
  by (simp add: next_piece_def)

lemma next_piece_escape:
  "escape c \<noteq> 0 \<Longrightarrow> escape c \<noteq> 117 \<Longrightarrow> next_piece (92 # c # bs) = ([escape c], 2)"
  by (simp add: next_piece_def)

lemma next_piece_control:
  assumes "unat b < 32"
  shows "next_piece ([92, 117, 48, 48, lower_hex (unat b div 16), lower_hex (unat b mod 16)] @ bs) = ([b], 6)"
proof -
  let ?t = "[92, 117, 48, 48, lower_hex (unat b div 16), lower_hex (unat b mod 16)] @ bs"
  have "unat b div 16 < 16" "unat b mod 16 < 16" using assms by auto
  moreover have "0 \<le> uint b div 16" "0 \<le> uint b mod 16" by (simp_all add: pos_imp_zdiv_nonneg_iff)
  then have "uint b div 16 \<noteq> - 1" "uint b mod 16 \<noteq> - 1" by linarith+
  ultimately have h: "hex4 ?t 2 = (True, int (unat b))"
    using hex_val_lower [of "unat b div 16"] hex_val_lower [of "unat b mod 16"]
    by (simp add: hex4_four hex_val_def [of 48] zdiv_int zmod_int)
  have "int (unat b) < 32" using assms by linarith
  then have "json_utf8 (int (unat b)) = [b]" by (simp add: json_utf8_def)
  with h show ?thesis by (simp add: next_piece_def escape_def)
qed

lemma print_chars_simps [simp]:
  "print_chars [] = []" "print_chars (b # s) = fst (print_char b) @ print_chars s"
  by (simp_all add: print_chars_def)

lemma unescape_printed:
  "unescape (print_chars s @ 34 # rest) =
     (s, length (print_chars s) + 1)"
proof (induction s)
  case Nil
  then show ?case by (simp add: unescape.simps)
next
  case (Cons b s)
  let ?r = "print_chars s @ 34 # rest"
  have step: "unescape (fst (print_char b) @ ?r) = (b # s, length (fst (print_char b)) + length (print_chars s) + 1)"
    if "next_piece (fst (print_char b) @ ?r) = ([b], length (fst (print_char b)))"
      "hd (fst (print_char b)) \<noteq> 34" "fst (print_char b) \<noteq> []"
    using that Cons.IH by (subst unescape.simps) simp
  consider "b = 92 \<or> b = 34" | "b = 10" | "b \<noteq> 92" "b \<noteq> 34" "b \<noteq> 10" "unat b < 32"
    | "b \<noteq> 92" "b \<noteq> 34" "b \<noteq> 10" "\<not> unat b < 32" by blast
  then have "next_piece (fst (print_char b) @ ?r) = ([b], length (fst (print_char b))) \<and>
      hd (fst (print_char b)) \<noteq> 34 \<and> fst (print_char b) \<noteq> []"
  proof cases
    case 1
    then show ?thesis by (auto simp: print_char_def next_piece_escape escape_def)
  next
    case 2
    then show ?thesis by (simp add: print_char_def next_piece_escape escape_def)
  next
    case 3
    then show ?thesis using next_piece_control [of b ?r] by (simp add: print_char_def)
  next
    case 4
    then show ?thesis by (simp add: print_char_def next_piece_plain)
  qed
  with step show ?case by simp
qed

lemma scan_string_printed: "scan_string (fst (printjson_string str (int (length str)) False) @ rest) = (str, rest)"
  using unescape_printed [of str rest]
  by (simp add: printjson_string_def scan_string_reference Let_def)

text \<open>C18 (roundtrip): A string that is printed as JSON and scanned again is unchanged, whatever bytes it has.\<close>

theorem json_string_roundtrip:
  "scan_string (fst (printjson_string str (int (length str)) False) @ rest) = (str, rest)"
  by (rule scan_string_printed)

text \<open>
  The bound that the in-place decoding relies on: the loop writes only behind its reading
  position, stays inside the message and leaves what follows the string untouched.
\<close>

theorem scan_string_stays_behind:
  assumes "scan_string_loop (length cur) cur 1 0 = (m, i, p)" "cur \<noteq> []"
  shows "p < i \<and> i \<le> length cur \<and> length m = length cur \<and> drop i m = drop i cur"
  using scan_string_loop_in_place [of 0 1 "length cur" cur] assms
  by (cases cur) (auto simp: in_place_def split: prod.splits)

theorem scan_string_stays_behind_witness:
  "\<exists>m i p. scan_string_loop 5 [34, 97, 98, 34, 44] 1 0 = (m, i, p) \<and> p < i \<and> i \<le> 5 \<and> drop i m = drop i [34, 97, 98, 34, 44]"
proof -
  have l: "length [34, 97, 98, 34, 44 :: byte] = 5" by simp
  obtain m i p where r: "scan_string_loop 5 [34, 97, 98, 34, 44 :: byte] 1 0 = (m, i, p)"
    by (metis prod.collapse)
  from scan_string_stays_behind [of "[34, 97, 98, 34, 44]", unfolded l, OF r] r show ?thesis by blast
qed

section \<open>Escaped code points\<close>

lemma or_lead:
  "x < 64 \<Longrightarrow> word_of_int (0x80 OR int x) = (of_nat (0x80 + x) :: byte)"
  "x < 32 \<Longrightarrow> word_of_int (0xc0 OR int x) = (of_nat (0xc0 + x) :: byte)"
  "x < 16 \<Longrightarrow> word_of_int (0xe0 OR int x) = (of_nat (0xe0 + x) :: byte)"
proof -
  have "list_all (\<lambda>x. word_of_int (0x80 OR int x) = (of_nat (0x80 + x) :: byte)) [0..<64]"
    "list_all (\<lambda>x. word_of_int (0xc0 OR int x) = (of_nat (0xc0 + x) :: byte)) [0..<32]"
    "list_all (\<lambda>x. word_of_int (0xe0 OR int x) = (of_nat (0xe0 + x) :: byte)) [0..<16]"
    by code_simp+
  then show "x < 64 \<Longrightarrow> word_of_int (0x80 OR int x) = (of_nat (0x80 + x) :: byte)"
    "x < 32 \<Longrightarrow> word_of_int (0xc0 OR int x) = (of_nat (0xc0 + x) :: byte)"
    "x < 16 \<Longrightarrow> word_of_int (0xe0 OR int x) = (of_nat (0xe0 + x) :: byte)"
    by (simp_all add: list_all_iff del: of_nat_add)
qed

lemma low_six: "(int n AND 0x3f) = int (n mod 64)"
proof -
  have "(int n AND mask 6) = int n mod 2 ^ 6" by (simp only: take_bit_eq_mask [symmetric] take_bit_eq_mod)
  then show ?thesis by (simp add: mask_eq_exp_minus_1 zmod_int)
qed

lemma drop_bit_int: "drop_bit k (int n) = int (n div 2 ^ k)"
  by (simp add: drop_bit_eq_div zdiv_int)

lemma json_utf8_encode:
  assumes "c < 0x10000"
  shows "json_utf8 (int c) = utf8_encode c"
proof -
  consider "c < 0x80" | "0x80 \<le> c" "c < 0x800" | "0x800 \<le> c" by linarith
  then show ?thesis
  proof cases
    case 1
    then show ?thesis by (simp add: json_utf8_def utf8_encode_def)
  next
    case 2
    then have "c div 64 < 32" by (simp add: div_less_iff_less_mult)
    with 2 show ?thesis
      by (simp add: json_utf8_def utf8_encode_def drop_bit_int low_six or_lead tail_byte_def del: of_nat_add)
  next
    case 3
    then have "c div 4096 < 16" using assms by (simp add: div_less_iff_less_mult)
    with 3 assms show ?thesis
      by (simp add: json_utf8_def utf8_encode_def drop_bit_int low_six or_lead tail_byte_def del: of_nat_add)
  qed
qed

text \<open>
  A code point that arrives escaped as \<open>\u\<close> and four hexadecimal digits is decoded by the bar's own
  UTF-8 decoder to that code point.  (Each half of a surrogate pair is such a code point.)
\<close>

theorem escaped_code_point_decodes:
  assumes "fst (hex4 digits 0)" "length digits = 4"
  shows "next_piece (92 # 117 # digits @ rest) = (json_utf8 (snd (hex4 digits 0)), 6) \<and>
    decodeUtf8Char (json_utf8 (snd (hex4 digits 0)) @ tail) =
      Some (word_of_int (snd (hex4 digits 0)), length (json_utf8 (snd (hex4 digits 0))))"
proof -
  define c where "c = nat (snd (hex4 digits 0))"
  have c: "snd (hex4 digits 0) = int c" "c < 0x10000"
    using hex4_bounds [OF assms(1)] unfolding c_def by linarith+
  have "hex4 (92 # 117 # digits @ rest) 2 = hex4 digits 0"
    using assms(2) by (simp add: hex4_four nth_append numeral_eq_Suc)
  then have "next_piece (92 # 117 # digits @ rest) = (json_utf8 (snd (hex4 digits 0)), 6)"
    using assms by (simp add: next_piece_def escape_def)
  moreover have "decodeUtf8Char (utf8_encode c @ tail) = Some (of_nat c, length (utf8_encode c))"
    using c(2) by (intro decode_encode) simp
  ultimately show ?thesis by (simp add: c(1) json_utf8_encode [OF c(2)])
qed

theorem escaped_code_point_decodes_witness:
  "next_piece (92 # 117 # [50, 53, 56, 70] @ [34]) = (json_utf8 (snd (hex4 [50, 53, 56, 70] 0)), 6) \<and>
   snd (hex4 [50, 53, 56, 70] 0) = 0x258f \<and>
   decodeUtf8Char (json_utf8 (snd (hex4 [50, 53, 56, 70] 0)) @ [65]) =
     Some (word_of_int (snd (hex4 [50, 53, 56, 70] 0)), length (json_utf8 (snd (hex4 [50, 53, 56, 70] 0))))"
proof -
  have "fst (hex4 [50, 53, 56, 70] 0)" "length [50, 53, 56, 70 :: byte] = 4" "snd (hex4 [50, 53, 56, 70] 0) = 0x258f"
    by (simp_all add: hex4_four hex_val_def)
  with escaped_code_point_decodes [OF this(1,2), of "[34]" "[65]"] show ?thesis by simp
qed

section \<open>Numbers\<close>

text \<open>
  \<open>i3ipc__json_scan_number\<close> computes the value twice: as a 64-bit integer that wraps around, and as
  a \<open>double\<close>, of which the model keeps the exact numbers it is computed from: the sign, the digits
  in front of the point and the fraction.
\<close>

record json_number =
  negative :: bool
  whole :: nat
  frac_num :: nat
  frac_den :: nat

definition no_number :: json_number where
  "no_number = \<lparr>negative = False, whole = 0, frac_num = 0, frac_den = 1\<rparr>"

definition is_digit :: "byte \<Rightarrow> bool" where
  "is_digit c \<longleftrightarrow> 48 \<le> unat c \<and> unat c \<le> 57"

definition number_char :: "byte \<Rightarrow> bool" where
  "number_char c \<longleftrightarrow> is_digit c \<or> c = 45 \<or> c = 46 \<or> c = 43 \<or> c = 101 \<or> c = 69"

fun scan_digits :: "nat \<Rightarrow> 64 word \<Rightarrow> byte list \<Rightarrow> nat \<times> 64 word \<times> byte list" where
  "scan_digits val val_int [] = (val, val_int, [])"
| "scan_digits val val_int (c # cs) =
     (if is_digit c then scan_digits (10 * val + (unat c - 48)) (10 * val_int + of_nat (unat c - 48)) cs
      else (val, val_int, c # cs))"

fun scan_fraction :: "nat \<Rightarrow> nat \<Rightarrow> nat \<Rightarrow> byte list \<Rightarrow> nat \<times> nat \<times> byte list" where
  "scan_fraction i num den [] = (num, den, [])"
| "scan_fraction i num den (c # cs) =
     (if i < 19 \<and> is_digit c then scan_fraction (i + 1) (10 * num + (unat c - 48)) (den * 10) cs
      else (num, den, c # cs))"

definition scan_number :: "byte list \<Rightarrow> int \<times> json_number \<times> 64 word \<times> byte list" where
  "scan_number cur =
     (let len = length (takeWhile number_char cur)
      in if 256 \<le> len then (1, no_number, 0, cur)
         else let c0 = take len cur; rest = drop len cur;
                  flipsign = (c0 \<noteq> [] \<and> hd c0 = 45);
                  c1 = (if flipsign then tl c0 else c0);
                  (val, val_int, c2) = scan_digits 0 0 c1;
                  (num, den, c3) =
                    (if c2 \<noteq> [] \<and> hd c2 = 46
                     then (case scan_fraction 0 0 1 (tl c2) of (n, d, c) \<Rightarrow> (n, d, dropWhile is_digit c))
                     else (0, 1, c2))
              in if c3 \<noteq> [] then (1, no_number, 0, rest)
                 else (0, \<lparr>negative = flipsign, whole = val, frac_num = num, frac_den = den\<rparr>,
                       if flipsign then - val_int else val_int, rest))"

lemma is_digit_byte: "d < 10 \<Longrightarrow> is_digit (digit_byte d)"
  by (simp add: is_digit_def unat_digit_byte)

lemma dec_digits: "b \<in> set (dec n) \<Longrightarrow> is_digit b"
  using dec_range by (simp add: is_digit_def)

lemma scan_digits_dec:
  "scan_digits v w (dec n @ rest) =
     scan_digits (v * 10 ^ length (dec n) + n) (w * 10 ^ length (dec n) + of_nat n) rest"
proof (induction n arbitrary: v w rest rule: dec.induct)
  case (1 n)
  show ?case
  proof (cases "n < 10")
    case True
    then show ?thesis by (simp add: is_digit_byte unat_digit_byte mult.commute)
  next
    case False
    let ?q = "n div 10" and ?r = "n mod 10"
    have n: "n = 10 * ?q + ?r" by simp
    then have w: "(of_nat n :: 64 word) = 10 * of_nat ?q + of_nat ?r"
      by (metis of_nat_add of_nat_mult of_nat_numeral)
    have "scan_digits v w (dec n @ rest) = scan_digits v w (dec ?q @ digit_byte ?r # rest)"
      using False by (simp add: dec_step)
    also have "\<dots> = scan_digits (v * 10 ^ length (dec ?q) + ?q) (w * 10 ^ length (dec ?q) + of_nat ?q)
        (digit_byte ?r # rest)"
      using 1 False by blast
    also have "\<dots> = scan_digits (10 * (v * 10 ^ length (dec ?q) + ?q) + ?r)
        (10 * (w * 10 ^ length (dec ?q) + of_nat ?q) + of_nat ?r) rest"
      by (simp add: is_digit_byte unat_digit_byte)
    also have "10 * (v * 10 ^ length (dec ?q) + ?q) + ?r = v * 10 ^ length (dec n) + n"
      using False n by (simp add: dec_step algebra_simps)
    also have "10 * (w * 10 ^ length (dec ?q) + of_nat ?q) + of_nat ?r = w * 10 ^ length (dec n) + of_nat n"
      unfolding w using False by (simp add: dec_step algebra_simps)
    finally show ?thesis .
  qed
qed

lemma scan_digits_dec_alone: "scan_digits 0 0 (dec n) = (n, of_nat n, [])"
  using scan_digits_dec [of 0 0 n "[]"] by simp

lemma takeWhile_number: "rest = [] \<or> \<not> number_char (hd rest) \<Longrightarrow> \<forall>b \<in> set s. number_char b \<Longrightarrow>
   takeWhile number_char (s @ rest) = s"
  by (cases rest) (simp_all add: takeWhile_append)

lemma fmt_d_chars: "b \<in> set (fmt_d i) \<Longrightarrow> number_char b"
  by (auto simp: fmt_d_def number_char_def dec_digits split: if_splits)

text \<open>
  A decimal integer is read back as its value modulo \<open>2 ^ 64\<close>, up to the first character that
  cannot belong to a number.
\<close>

theorem json_number_roundtrip:
  assumes "rest = [] \<or> \<not> number_char (hd rest)" "length (fmt_d i) < 256"
  shows "scan_number (fmt_d i @ rest) =
    (0, \<lparr>negative = i < 0, whole = nat \<bar>i\<bar>, frac_num = 0, frac_den = 1\<rparr>, word_of_int i, rest)"
proof -
  define s where "s = fmt_d i"
  have tw: "takeWhile number_char (s @ rest) = s" "length s < 256"
    using assms fmt_d_chars takeWhile_number [OF assms(1), of "fmt_d i"] unfolding s_def by blast+
  obtain c cs where c: "dec (nat i) = c # cs" "48 \<le> unat c" by (rule dec_first)
  then have "c \<noteq> 45" by auto
  show ?thesis
  proof (cases "i < 0")
    case True
    then have "s \<noteq> []" "hd s = 45" "scan_digits 0 0 (tl s) = (nat (- i), - word_of_int i, [])"
      by (simp_all add: s_def fmt_d_def scan_digits_dec_alone of_nat_nat)
    with True tw show ?thesis
      unfolding s_def [symmetric] by (simp add: scan_number_def Let_def)
  next
    case False
    then have "s \<noteq> []" "hd s \<noteq> 45" "scan_digits 0 0 s = (nat i, word_of_int i, [])"
      using c(1) \<open>c \<noteq> 45\<close> scan_digits_dec_alone [of "nat i"] by (simp_all add: s_def fmt_d_def of_nat_nat)
    with False tw show ?thesis
      unfolding s_def [symmetric] by (simp add: scan_number_def Let_def)
  qed
qed

theorem json_number_roundtrip_witness:
  "scan_number (fmt_d (- 42) @ [44, 32]) =
     (0, \<lparr>negative = True, whole = 42, frac_num = 0, frac_den = 1\<rparr>, word_of_int (- 42), [44, 32])"
  using json_number_roundtrip [of "[44, 32]" "- 42"]
  by (simp add: fmt_d_def dec_step number_char_def is_digit_def)

section \<open>Tokens\<close>

definition I3IPC_JSON_BOOL :: int where [i3codes]: "I3IPC_JSON_BOOL = 256"
definition I3IPC_JSON_NULL :: int where [i3codes]: "I3IPC_JSON_NULL = 257"
definition I3IPC_JSON_STRING :: int where [i3codes]: "I3IPC_JSON_STRING = 258"
definition I3IPC_JSON_NUMBER :: int where [i3codes]: "I3IPC_JSON_NUMBER = 259"

text \<open>A token; \<open>str\<close> holds the \<open>str_size\<close> bytes of the decoded string.\<close>

record json_token =
  tok_type :: int
  str :: "byte list"
  number :: json_number
  number_long :: "64 word"
  flag :: bool

definition str_size :: "json_token \<Rightarrow> int" where
  "str_size tok = int (length (str tok))"

definition new_token :: json_token where
  "new_token = \<lparr>tok_type = 0, str = [], number = no_number, number_long = 0, flag = False\<rparr>"

definition json_space :: "byte \<Rightarrow> bool" where
  "json_space c \<longleftrightarrow> c = 32 \<or> c = 9 \<or> c = 10 \<or> c = 13"

definition one_char_token :: "byte \<Rightarrow> bool" where
  "one_char_token c \<longleftrightarrow> c = 91 \<or> c = 93 \<or> c = 123 \<or> c = 125 \<or> c = 58 \<or> c = 44"

text \<open>\<open>memcmp(cur, s, n) == 0\<close> with \<open>cur\<close> known to be long enough.\<close>

definition starts :: "byte list \<Rightarrow> string \<Rightarrow> bool" where
  "starts cur s \<longleftrightarrow> take (length s) cur = bytes s"

text \<open>Of \<open>false\<close> only four characters are compared.\<close>

definition scan_token :: "byte list \<Rightarrow> int \<times> json_token \<times> byte list" where
  "scan_token cur0 =
     (let cur = dropWhile json_space cur0;
          left = length cur; c = hd cur; tok = new_token
      in if left = 0 then (0, tok, cur)
         else if one_char_token c then (0, tok\<lparr>tok_type := uint c\<rparr>, drop 1 cur)
         else if c = 116 then
           (if left < 4 \<or> \<not> starts cur ''true'' then (3, tok, cur)
            else (0, tok\<lparr>tok_type := I3IPC_JSON_BOOL, flag := True\<rparr>, drop 4 cur))
         else if c = 102 then
           (if left < 5 \<or> \<not> starts cur ''fals'' then (4, tok, cur)
            else (0, tok\<lparr>tok_type := I3IPC_JSON_BOOL, flag := False\<rparr>, drop 5 cur))
         else if c = 110 then
           (if left < 4 \<or> \<not> starts cur ''null'' then (5, tok, cur)
            else (0, tok\<lparr>tok_type := I3IPC_JSON_NULL\<rparr>, drop 4 cur))
         else if c = 34 then
           (case scan_string cur of (s, rest) \<Rightarrow>
              (0, tok\<lparr>tok_type := I3IPC_JSON_STRING, str := s\<rparr>, rest))
         else if c = 45 \<or> is_digit c then
           (case scan_number cur of (code, num, long, rest) \<Rightarrow>
              if code \<noteq> 0 then (1, tok, rest)
              else (0, tok\<lparr>tok_type := I3IPC_JSON_NUMBER, number := num, number_long := long\<rparr>, rest))
         else (2, tok, cur))"

text \<open>Every token that is not the end takes at least one byte.\<close>

lemma unescape_pos: "bs \<noteq> [] \<Longrightarrow> 0 < snd (unescape bs)"
  by (subst unescape.simps) (auto split: prod.splits)

lemma scan_string_shorter: "length (snd (scan_string (c # cs))) \<le> length cs"
  by (simp add: scan_string_reference)

lemma scan_number_shorter:
  assumes "scan_number cur = (0, num, long, rest)" "cur \<noteq> []" "number_char (hd cur)"
  shows "length rest < length cur"
proof -
  have "rest = drop (length (takeWhile number_char cur)) cur"
    using assms(1) by (auto simp: scan_number_def Let_def split: if_splits prod.splits)
  moreover have "takeWhile number_char cur \<noteq> []" using assms(2,3) by (cases cur) auto
  ultimately show ?thesis using assms(2) by simp
qed

lemma scan_token_shorter:
  assumes "scan_token cur = (0, tok, rest)" "tok_type tok \<noteq> 0"
  shows "length rest < length cur"
proof -
  have le: "length (dropWhile json_space cur) \<le> length cur" by (rule length_dropWhile_le)
  obtain c cs where c: "dropWhile json_space cur = c # cs"
    using assms by (cases "dropWhile json_space cur") (auto simp: scan_token_def new_token_def)
  have "length rest < length (c # cs)"
  proof (cases "c = 34")
    case True
    then show ?thesis
      using assms(1) scan_string_shorter [of c cs]
      by (auto simp: scan_token_def c one_char_token_def split: prod.splits)
  next
    case False
    show ?thesis
    proof (cases "c = 45 \<or> is_digit c")
      case True
      then have n: "number_char (hd (c # cs))" by (auto simp: number_char_def)
      have "\<not> one_char_token c" "c \<noteq> 116" "c \<noteq> 102" "c \<noteq> 110"
        using True by (auto simp: one_char_token_def is_digit_def)
      with True False assms(1) show ?thesis
        using scan_number_shorter [OF _ _ n]
        by (auto simp: scan_token_def c split: prod.splits if_splits)
    next
      case nd: False
      with False assms(1) show ?thesis
        by (auto simp: scan_token_def c Let_def split: if_splits)
    qed
  qed
  with le c show ?thesis by simp
qed

text \<open>\<open>i3ipc__json_scan\<close>: all tokens up to the end token; their buffer grows by one at a time.\<close>

definition sizeof_token :: nat where
  "sizeof_token = 48"

function json_scan :: "byte list \<Rightarrow> json_token list \<Rightarrow> i3 \<Rightarrow> int \<times> json_token list \<times> i3" where
  "json_scan cur tokens c =
     (case scan_token cur of (code, tok, rest) \<Rightarrow>
        if code \<noteq> 0 then (1, tokens, c)
        else let c1 = context_reserve CONTEXT_JSON ((length tokens + 1) * sizeof_token) c;
                 tokens1 = tokens @ [tok]
             in if tok_type tok = 0 then (0, tokens1, c1) else json_scan rest tokens1 c1)"
  by pat_completeness auto

termination
  by (relation "measure (\<lambda>(cur, tokens, c). length cur)") (auto dest!: sym [of "(_, _, _)"] intro: scan_token_shorter)

declare json_scan.simps [simp del]

section \<open>The grammar\<close>

text \<open>JSON values, their tokens and their text without white space.\<close>

datatype json =
    JBool bool
  | JNull
  | JString "byte list"
  | JNumber int
  | JArr "json list"
  | JObj "(byte list \<times> json) list"

definition char_token :: "int \<Rightarrow> json_token" where
  "char_token c = new_token\<lparr>tok_type := c\<rparr>"

definition string_token :: "byte list \<Rightarrow> json_token" where
  "string_token s = new_token\<lparr>tok_type := I3IPC_JSON_STRING, str := s\<rparr>"

definition number_token :: "int \<Rightarrow> json_token" where
  "number_token i = new_token\<lparr>tok_type := I3IPC_JSON_NUMBER, number_long := word_of_int i,
     number := \<lparr>negative = i < 0, whole = nat \<bar>i\<bar>, frac_num = 0, frac_den = 1\<rparr>\<rparr>"

fun commas :: "'a \<Rightarrow> 'a list list \<Rightarrow> 'a list" where
  "commas c [] = []"
| "commas c [x] = x"
| "commas c (x # y # r) = x @ c # commas c (y # r)"

fun tokens_of :: "json \<Rightarrow> json_token list" where
  "tokens_of (JBool b) = [new_token\<lparr>tok_type := I3IPC_JSON_BOOL, flag := b\<rparr>]"
| "tokens_of JNull = [char_token I3IPC_JSON_NULL]"
| "tokens_of (JString s) = [string_token s]"
| "tokens_of (JNumber i) = [number_token i]"
| "tokens_of (JArr vs) = char_token 91 # commas (char_token 44) (map tokens_of vs) @ [char_token 93]"
| "tokens_of (JObj kvs) = char_token 123 #
     commas (char_token 44) (map (\<lambda>(k, v). string_token k # char_token 58 # tokens_of v) kvs) @ [char_token 125]"

definition print_string :: "byte list \<Rightarrow> byte list" where
  "print_string s = fst (printjson_string s (int (length s)) False)"

fun print_json :: "json \<Rightarrow> byte list" where
  "print_json (JBool b) = bytes (if b then ''true'' else ''false'')"
| "print_json JNull = bytes ''null''"
| "print_json (JString s) = print_string s"
| "print_json (JNumber i) = fmt_d i"
| "print_json (JArr vs) = 91 # commas 44 (map print_json vs) @ [93]"
| "print_json (JObj kvs) = 123 # commas 44 (map (\<lambda>(k, v). print_string k @ 58 # print_json v) kvs) @ [125]"

fun numbers_ok :: "json \<Rightarrow> bool" where
  "numbers_ok (JNumber i) = (- (2 ^ 63) \<le> i \<and> i < 2 ^ 64)"
| "numbers_ok (JArr vs) = list_all numbers_ok vs"
| "numbers_ok (JObj kvs) = list_all (\<lambda>(k, v). numbers_ok v) kvs"
| "numbers_ok _ = True"

text \<open>A text whose first tokens are those, with the rest behind them.\<close>

inductive lexes :: "byte list \<Rightarrow> json_token list \<Rightarrow> byte list \<Rightarrow> bool" where
  none: "lexes cur [] cur"
| more: "scan_token cur = (0, tok, mid) \<Longrightarrow> tok_type tok \<noteq> 0 \<Longrightarrow> lexes mid toks rest \<Longrightarrow>
    lexes cur (tok # toks) rest"

lemma lexes_append: "lexes cur ts mid \<Longrightarrow> lexes mid us rest \<Longrightarrow> lexes cur (ts @ us) rest"
  by (induction rule: lexes.induct) (auto intro: lexes.more)

lemma lexes_one: "scan_token cur = (0, tok, rest) \<Longrightarrow> tok_type tok \<noteq> 0 \<Longrightarrow> lexes cur [tok] rest"
  by (auto intro: lexes.intros)

lemma json_scan_lexes:
  assumes "lexes cur ts []"
  shows "\<exists>c'. json_scan cur tokens c = (0, tokens @ ts @ [new_token], c')"
  using assms
proof (induction cur ts "[] :: byte list" arbitrary: tokens c rule: lexes.induct)
  case none
  have "scan_token [] = (0, new_token, [])" by (simp add: scan_token_def)
  then show ?case by (subst json_scan.simps) (simp add: new_token_def)
next
  case (more cur tok mid toks)
  from more.hyps(4) [of "tokens @ [tok]" "context_reserve CONTEXT_JSON ((length tokens + 1) * sizeof_token) c"] more.hyps(1,2)
  show ?case by (subst json_scan.simps) simp
qed

text \<open>What may follow a number.\<close>

definition stops_number :: "byte list \<Rightarrow> bool" where
  "stops_number rest \<longleftrightarrow> rest = [] \<or> \<not> number_char (hd rest)"

lemma stops_number_simps [simp]:
  "stops_number []" "stops_number (44 # r)" "stops_number (93 # r)" "stops_number (125 # r)"
  by (simp_all add: stops_number_def number_char_def is_digit_def)

lemma lexes_chars [simp]:
  "lexes (91 # rest) [char_token 91] rest" "lexes (93 # rest) [char_token 93] rest"
  "lexes (123 # rest) [char_token 123] rest" "lexes (125 # rest) [char_token 125] rest"
  "lexes (44 # rest) [char_token 44] rest" "lexes (58 # rest) [char_token 58] rest"
  by (rule lexes_one; simp add: scan_token_def char_token_def one_char_token_def json_space_def new_token_def)+

lemma lexes_string: "lexes (print_string s @ rest) [string_token s] rest"
proof (rule lexes_one)
  obtain t where t: "print_string s = 34 # t" by (simp add: print_string_def printjson_string_def Let_def)
  have "scan_string (print_string s @ rest) = (s, rest)"
    unfolding print_string_def by (rule scan_string_printed)
  then show "scan_token (print_string s @ rest) = (0, string_token s, rest)"
    by (simp add: t scan_token_def json_space_def one_char_token_def string_token_def)
qed (simp add: string_token_def i3codes)

lemma fmt_d_short: "- (2 ^ 63) \<le> i \<Longrightarrow> i < 2 ^ 64 \<Longrightarrow> length (fmt_d i) < 256"
  using length_dec [of "nat i" 20] length_dec [of "nat (- i)" 20]
  by (auto simp: fmt_d_def nat_less_iff)

lemma fmt_d_first:
  obtains b s where "fmt_d i = b # s" "b = 45 \<or> is_digit b"
proof -
  obtain c cs where "dec (nat i) = c # cs" "48 \<le> unat c" "unat c \<le> 57" by (rule dec_first)
  then show ?thesis
    using that by (cases "i < 0") (auto simp: fmt_d_def is_digit_def)
qed

lemma lexes_number:
  assumes "- (2 ^ 63) \<le> i" "i < 2 ^ 64" "stops_number rest"
  shows "lexes (fmt_d i @ rest) [number_token i] rest"
proof (rule lexes_one)
  obtain b s where b: "fmt_d i = b # s" "b = 45 \<or> is_digit b" by (rule fmt_d_first)
  have "\<not> json_space b" "\<not> one_char_token b" "b \<noteq> 116" "b \<noteq> 102" "b \<noteq> 110" "b \<noteq> 34"
    using b(2) by (auto simp: json_space_def one_char_token_def is_digit_def)
  moreover have "scan_number (fmt_d i @ rest) =
      (0, \<lparr>negative = i < 0, whole = nat \<bar>i\<bar>, frac_num = 0, frac_den = 1\<rparr>, word_of_int i, rest)"
    using assms by (intro json_number_roundtrip fmt_d_short) (simp_all add: stops_number_def)
  ultimately show "scan_token (fmt_d i @ rest) = (0, number_token i, rest)"
    using b by (simp add: scan_token_def number_token_def)
qed (simp add: number_token_def i3codes)

lemma lexes_words:
  "lexes (bytes ''true'' @ rest) [new_token\<lparr>tok_type := I3IPC_JSON_BOOL, flag := True\<rparr>] rest"
  "lexes (bytes ''false'' @ rest) [new_token\<lparr>tok_type := I3IPC_JSON_BOOL, flag := False\<rparr>] rest"
  "lexes (bytes ''null'' @ rest) [char_token I3IPC_JSON_NULL] rest"
  by (rule lexes_one; simp add: scan_token_def bytes_def json_space_def one_char_token_def starts_def
      char_token_def new_token_def i3codes)+

lemma lexes_commas:
  assumes "list_all2 (\<lambda>s ts. \<forall>rest. stops_number rest \<longrightarrow> lexes (s @ rest) ts rest) ss tss" "stops_number rest"
  shows "lexes (commas 44 ss @ rest) (commas (char_token 44) tss) rest"
  using assms
proof (induction "44 :: byte" ss arbitrary: tss rule: commas.induct)
  case (1)
  then show ?case by (simp add: lexes.none)
next
  case (2 x)
  then show ?case by (auto simp: list_all2_Cons1)
next
  case (3 x y r)
  then obtain tx ty tr where t: "tss = tx # ty # tr"
    "lexes (x @ 44 # commas 44 (y # r) @ rest) tx (44 # commas 44 (y # r) @ rest)"
    by (auto simp: list_all2_Cons1)
  have "lexes (commas 44 (y # r) @ rest) (commas (char_token 44) (ty # tr)) rest"
    using 3 t(1) by (simp add: list_all2_Cons1)
  then have "lexes (44 # commas 44 (y # r) @ rest) ([char_token 44] @ commas (char_token 44) (ty # tr)) rest"
    by (rule lexes_append [OF lexes_chars(5)])
  from lexes_append [OF t(2) this] show ?case by (simp add: t(1))
qed

lemma lexes_bracket:
  assumes "lexes (mid @ [close] @ rest) ts ([close] @ rest)" "lexes (opening # mid @ [close] @ rest) [t1] (mid @ [close] @ rest)"
    "lexes (close # rest) [t2] rest"
  shows "lexes ((opening # mid @ [close]) @ rest) (t1 # ts @ [t2]) rest"
  using lexes_append [OF assms(2) lexes_append [OF assms(1)]] assms(3) by simp

lemma print_json_lexes:
  "numbers_ok v \<Longrightarrow> stops_number rest \<Longrightarrow> lexes (print_json v @ rest) (tokens_of v) rest"
proof (induction v arbitrary: rest rule: print_json.induct)
  case (1 b)
  then show ?case using lexes_words(1,2) [of rest] by (cases b) simp_all
next
  case 2
  then show ?case using lexes_words(3) [of rest] by simp
next
  case (3 s)
  then show ?case by (simp add: lexes_string)
next
  case (4 i)
  then show ?case by (simp add: lexes_number)
next
  case (5 vs)
  have "list_all2 (\<lambda>s ts. \<forall>rest. stops_number rest \<longrightarrow> lexes (s @ rest) ts rest)
      (map print_json vs) (map tokens_of vs)"
    using 5 by (auto simp: list_all2_conv_all_nth list_all_iff)
  then have "lexes (commas 44 (map print_json vs) @ [93] @ rest) (commas (char_token 44) (map tokens_of vs)) ([93] @ rest)"
    by (rule lexes_commas) simp
  from lexes_bracket [OF this] show ?case by simp
next
  case (6 kvs)
  have el: "lexes ((print_string k @ 58 # print_json v) @ r) (string_token k # char_token 58 # tokens_of v) r"
    if "(k, v) \<in> set kvs" "stops_number r" for k v r
  proof -
    have "lexes (print_json v @ r) (tokens_of v) r" using 6 that by (auto simp: list_all_iff)
    from lexes_append [OF lexes_string lexes_append [OF lexes_chars(6) this]] show ?thesis by simp
  qed
  have "list_all2 (\<lambda>s ts. \<forall>rest. stops_number rest \<longrightarrow> lexes (s @ rest) ts rest)
      (map (\<lambda>(k, v). print_string k @ 58 # print_json v) kvs)
      (map (\<lambda>(k, v). string_token k # char_token 58 # tokens_of v) kvs)"
    using el by (auto simp: list_all2_conv_all_nth split: prod.splits) (metis append.assoc append_Cons nth_mem)
  then have "lexes (commas 44 (map (\<lambda>(k, v). print_string k @ 58 # print_json v) kvs) @ [125] @ rest)
      (commas (char_token 44) (map (\<lambda>(k, v). string_token k # char_token 58 # tokens_of v) kvs)) ([125] @ rest)"
    by (rule lexes_commas) simp
  from lexes_bracket [OF this] show ?case by simp
qed

text \<open>
  C12 (roundtrip): Scanning the text of a JSON value gives its tokens and the end token, whatever strings it
  contains and however deeply it is nested.
\<close>

theorem json_scan_printed:
  assumes "numbers_ok v"
  shows "\<exists>c'. json_scan (print_json v) [] c = (0, tokens_of v @ [new_token], c')"
  using json_scan_lexes [of "print_json v" "tokens_of v" "[]"] print_json_lexes [OF assms, of "[]"] by simp

theorem json_scan_printed_witness:
  "\<exists>c'. json_scan (print_json (JObj [([105, 100], JNumber 7), ([34], JArr [JNull, JBool True])])) []
      \<lparr>state = 1, sock = 3, sock_events = 4, buffers = (\<lambda>_. []), queued = [], nopanic = True,
        staticalloc = False, debug_do_not_write_messages = False, debug_nodata_is_error = False,
        loglevel = 0, globals_initialized = True, junk = 0, conns = (\<lambda>_. \<lparr>incoming = [], accepts = [], sent = []\<rparr>),
        openings = [], closed_fds = [], caller_path_freed = False\<rparr> =
    (0, tokens_of (JObj [([105, 100], JNumber 7), ([34], JArr [JNull, JBool True])]) @ [new_token], c')"
  by (rule json_scan_printed) simp

end
