(* ===== verification/I3_Tokens.thy ===== *)
theory I3_Tokens
  imports I3_Json
begin

text \<open>
  \<open>i3ipc.h\<close>, walking over the scanned tokens: peek, pop, match one of several types, the loops over
  arrays and objects, and skipping a value.  An \<open>assert\<close> that would read behind the last token is
  \<open>Abort\<close>; \<open>fuel\<close> bounds the depth of the recursion of \<open>json_skip\<close>, and twice the number of the
  remaining tokens is enough.
\<close>

section \<open>The operations\<close>

record json_state =
  tokens :: "json_token list"
  tokens_cur :: nat
  err_flag :: bool

definition json_peek :: "json_state \<Rightarrow> json_token outcome" where
  "json_peek st = assert_then (tokens_cur st < length (tokens st)) (Ret (tokens st ! tokens_cur st))"

definition json_pop :: "json_state \<Rightarrow> (json_token \<times> json_state) outcome" where
  "json_pop st = assert_then (tokens_cur st < length (tokens st))
     (Ret (tokens st ! tokens_cur st, st\<lparr>tokens_cur := tokens_cur st + 1\<rparr>))"

definition json_trymatchany :: "int list \<Rightarrow> json_state \<Rightarrow> (bool \<times> json_token \<times> json_state) outcome" where
  "json_trymatchany types st =
     assert_then (types \<noteq> [])
       (obind (json_peek st) (\<lambda>tok.
          if tok_type tok \<in> set types
          then obind (json_pop st) (\<lambda>(_, st1). Ret (True, tok, st1))
          else Ret (False, tok, st)))"

definition json_matchany :: "int list \<Rightarrow> json_state \<Rightarrow> (int \<times> json_token \<times> json_state) outcome" where
  "json_matchany types st =
     obind (json_trymatchany types st) (\<lambda>(ok, tok, st1).
       if ok then Ret (0, tok, st1) else Ret (1, tok, st1\<lparr>err_flag := True\<rparr>))"

definition json_trymatch :: "int \<Rightarrow> json_state \<Rightarrow> (bool \<times> json_token \<times> json_state) outcome" where
  "json_trymatch type st = json_trymatchany [type] st"

definition json_match :: "int \<Rightarrow> json_state \<Rightarrow> (int \<times> json_token \<times> json_state) outcome" where
  "json_match type st = json_matchany [type] st"

text \<open>The head of a loop: whether there is another element.\<close>

definition loop_begin :: "int \<Rightarrow> int \<Rightarrow> json_state \<Rightarrow> (bool \<times> json_state) outcome" where
  "loop_begin opening closing st =
     obind (json_match opening st) (\<lambda>(code, _, st1).
       if code \<noteq> 0 then Ret (False, st1\<lparr>err_flag := True\<rparr>)
       else obind (json_trymatch closing st1) (\<lambda>(ok, _, st2). Ret (\<not> ok, st2)))"

definition loop_next :: "int \<Rightarrow> json_state \<Rightarrow> (bool \<times> json_state) outcome" where
  "loop_next closing st =
     obind (json_matchany [44, closing] st) (\<lambda>(code, tok, st1).
       if code \<noteq> 0 then Ret (False, st1\<lparr>err_flag := True\<rparr>) else Ret (tok_type tok = 44, st1))"

definition json_looparr :: "nat \<Rightarrow> json_state \<Rightarrow> (bool \<times> json_state) outcome" where
  "json_looparr iter st = (if iter = 0 then loop_begin 91 93 st else loop_next 93 st)"

definition json_loopobj :: "nat \<Rightarrow> json_state \<Rightarrow> (bool \<times> json_token \<times> json_state) outcome" where
  "json_loopobj iter st =
     obind (if iter = 0 then loop_begin 123 125 st else loop_next 125 st) (\<lambda>(again, st1).
       if \<not> again then Ret (False, new_token, st1)
       else obind (json_match I3IPC_JSON_STRING st1) (\<lambda>(code, key, st2).
         if code \<noteq> 0 then Ret (False, new_token, st2)
         else obind (json_match 58 st2) (\<lambda>(code, _, st3).
           if code \<noteq> 0 then Ret (False, new_token, st3) else Ret (True, key, st3))))"

definition value_types :: "int list" where
  "value_types = [123, 91, I3IPC_JSON_STRING, I3IPC_JSON_NUMBER, I3IPC_JSON_BOOL, I3IPC_JSON_NULL]"

text \<open>\<open>i3ipc__json_skip\<close> and the loops in it, over objects and over arrays.\<close>

fun json_skip :: "nat \<Rightarrow> json_state \<Rightarrow> (int \<times> json_state) outcome"
  and json_skip_loop :: "nat \<Rightarrow> bool \<Rightarrow> nat \<Rightarrow> json_state \<Rightarrow> (int \<times> json_state) outcome"
where
  "json_skip 0 st = Block"
| "json_skip (Suc fuel) st =
     obind (json_matchany value_types st) (\<lambda>(code, tok, st1).
       if code \<noteq> 0 then Ret (1, st1)
       else if tok_type tok = 123 then json_skip_loop fuel True 0 (st1\<lparr>tokens_cur := tokens_cur st1 - 1\<rparr>)
       else if tok_type tok = 91 then json_skip_loop fuel False 0 (st1\<lparr>tokens_cur := tokens_cur st1 - 1\<rparr>)
       else Ret (0, st1))"
| "json_skip_loop 0 is_obj i st = Block"
| "json_skip_loop (Suc fuel) is_obj i st =
     obind (if is_obj then obind (json_loopobj i st) (\<lambda>(again, _, st1). Ret (again, st1))
            else json_looparr i st) (\<lambda>(again, st1).
       if \<not> again then Ret (if err_flag st1 then 9 else 0, st1)
       else obind (json_skip fuel st1) (\<lambda>(code, st2).
         if code \<noteq> 0 then Ret (4, st2) else json_skip_loop fuel is_obj (i + 1) st2))"

definition parse_key :: "json_state \<Rightarrow> (int \<times> json_token \<times> json_state) outcome" where
  "parse_key st =
     obind (json_match I3IPC_JSON_STRING st) (\<lambda>(code, key, st1).
       if code \<noteq> 0 then Ret (1, key, st1)
       else obind (json_match 58 st1) (\<lambda>(code, _, st2).
         if code \<noteq> 0 then Ret (2, key, st2) else Ret (0, key, st2)))"

section \<open>Termination\<close>

text \<open>
  The scanner ends every list of tokens with the end token, which no match of the parser takes; so
  the position stays in front of it.
\<close>

definition terminated :: "json_state \<Rightarrow> bool" where
  "terminated st \<longleftrightarrow> tokens_cur st < length (tokens st) \<and> tok_type (last (tokens st)) = 0"

text \<open>A later state of the same walk.\<close>

definition walked :: "json_state \<Rightarrow> json_state \<Rightarrow> bool" where
  "walked st st' \<longleftrightarrow> terminated st' \<and> tokens st' = tokens st \<and> tokens_cur st \<le> tokens_cur st' \<and>
     (err_flag st \<longrightarrow> err_flag st')"

lemma walked_refl: "terminated st \<Longrightarrow> walked st st"
  by (simp add: walked_def)

lemma walked_trans: "walked st1 st2 \<Longrightarrow> walked st2 st3 \<Longrightarrow> walked st1 st3"
  by (auto simp: walked_def)

lemma walked_err: "walked st st' \<Longrightarrow> walked st (st'\<lparr>err_flag := True\<rparr>)"
  by (auto simp: walked_def terminated_def)

lemma terminated_next:
  assumes "terminated st" "tok_type (tokens st ! tokens_cur st) \<noteq> 0"
  shows "walked st (st\<lparr>tokens_cur := tokens_cur st + 1\<rparr>)"
proof -
  have "tokens_cur st + 1 \<noteq> length (tokens st)"
  proof
    assume e: "tokens_cur st + 1 = length (tokens st)"
    then have "tokens st \<noteq> []" "tokens_cur st = length (tokens st) - 1" by auto
    then show False using assms by (simp add: terminated_def last_conv_nth)
  qed
  then show ?thesis using assms(1) by (auto simp: walked_def terminated_def)
qed

text \<open>The token at the position, and the state behind it.\<close>

definition here :: "json_state \<Rightarrow> json_token" where
  "here st = tokens st ! tokens_cur st"

definition advance :: "json_state \<Rightarrow> json_state" where
  "advance st = st\<lparr>tokens_cur := tokens_cur st + 1\<rparr>"

definition failed :: "json_state \<Rightarrow> json_state" where
  "failed st = st\<lparr>err_flag := True\<rparr>"

lemma trymatchany_eq:
  "terminated st \<Longrightarrow> types \<noteq> [] \<Longrightarrow> json_trymatchany types st =
     (if tok_type (here st) \<in> set types then Ret (True, here st, advance st) else Ret (False, here st, st))"
  by (simp add: json_trymatchany_def json_peek_def json_pop_def terminated_def here_def advance_def)

lemma matchany_eq:
  "terminated st \<Longrightarrow> types \<noteq> [] \<Longrightarrow> json_matchany types st =
     (if tok_type (here st) \<in> set types then Ret (0, here st, advance st) else Ret (1, here st, failed st))"
  by (simp add: json_matchany_def trymatchany_eq failed_def)

lemma walked_advance: "terminated st \<Longrightarrow> tok_type (here st) \<noteq> 0 \<Longrightarrow> walked st (advance st)"
  using terminated_next by (simp add: here_def advance_def)

lemma walked_failed: "terminated st \<Longrightarrow> walked st (failed st)"
  unfolding failed_def by (rule walked_err [OF walked_refl])

lemma walked_terminated: "walked st st' \<Longrightarrow> terminated st'"
  by (simp add: walked_def)

lemma walk_simps [simp]:
  "tokens_cur (advance st) = tokens_cur st + 1" "tokens_cur (failed st) = tokens_cur st"
  "err_flag (failed st)" "err_flag (advance st) = err_flag st"
  by (simp_all add: advance_def failed_def)

text \<open>The head of a loop moves on when there is another element, and reports errors by the flag.\<close>

definition goes_on :: "json_state \<Rightarrow> bool \<times> json_state \<Rightarrow> bool" where
  "goes_on st res = (case res of (again, st') \<Rightarrow> walked st st' \<and> (again \<longrightarrow> tokens_cur st < tokens_cur st'))"

lemma loop_begin_walks:
  assumes "terminated st" "opening \<noteq> 0" "closing \<noteq> 0"
  shows "\<exists>res. loop_begin opening closing st = Ret res \<and> goes_on st res"
proof (cases "tok_type (here st) = opening")
  case True
  have w: "walked st (advance st)" using assms True by (intro walked_advance) auto
  then have t: "terminated (advance st)" by (rule walked_terminated)
  have w2: "walked st (advance (advance st))" if "tok_type (here (advance st)) = closing"
    using walked_trans [OF w walked_advance [OF t]] that assms(3) by simp
  show ?thesis
    using True assms(1) w w2 t
    by (auto simp: loop_begin_def json_match_def json_trymatch_def matchany_eq trymatchany_eq goes_on_def)
next
  case False
  then show ?thesis
    using assms(1) walked_err [OF walked_failed [OF assms(1)]]
    by (simp add: loop_begin_def json_match_def matchany_eq goes_on_def)
qed

lemma loop_next_walks:
  assumes "terminated st" "closing \<noteq> 0"
  shows "\<exists>res. loop_next closing st = Ret res \<and> goes_on st res"
proof (cases "tok_type (here st) = 44 \<or> tok_type (here st) = closing")
  case True
  have "walked st (advance st)" using assms True by (intro walked_advance) auto
  with True assms show ?thesis by (auto simp: loop_next_def matchany_eq goes_on_def)
next
  case False
  then show ?thesis
    using assms(1) walked_err [OF walked_failed [OF assms(1)]]
    by (simp add: loop_next_def matchany_eq goes_on_def)
qed

lemma looparr_walks: "terminated st \<Longrightarrow> \<exists>res. json_looparr i st = Ret res \<and> goes_on st res"
  using loop_begin_walks [of st 91 93] loop_next_walks [of st 93] by (simp add: json_looparr_def)

lemma match_walks:
  assumes "terminated st" "type \<noteq> 0"
  shows "\<exists>code tok st'. json_match type st = Ret (code, tok, st') \<and> walked st st'"
proof (cases "tok_type (here st) = type")
  case True
  then show ?thesis using walked_advance [OF assms(1)] assms by (auto simp: json_match_def matchany_eq)
next
  case False
  then show ?thesis using walked_failed [OF assms(1)] assms by (auto simp: json_match_def matchany_eq)
qed

lemma loopobj_walks:
  assumes "terminated st"
  shows "\<exists>again key st'. json_loopobj i st = Ret (again, key, st') \<and> goes_on st (again, st')"
proof -
  obtain res where "(if i = 0 then loop_begin 123 125 st else loop_next 125 st) = Ret res" "goes_on st res"
    using loop_begin_walks [of st 123 125] loop_next_walks [of st 125] assms by (cases "i = 0") auto
  then obtain again st1 where 1: "(if i = 0 then loop_begin 123 125 st else loop_next 125 st) = Ret (again, st1)"
    "goes_on st (again, st1)"
    by (cases res) simp
  show ?thesis
  proof (cases again)
    case False
    then show ?thesis using 1 by (auto simp: json_loopobj_def)
  next
    case True
    then have w1: "walked st st1" "tokens_cur st < tokens_cur st1" using 1(2) by (auto simp: goes_on_def)
    obtain k2 key st2 where 2: "json_match I3IPC_JSON_STRING st1 = Ret (k2, key, st2)" "walked st1 st2"
      using match_walks [OF walked_terminated [OF w1(1)], of I3IPC_JSON_STRING] by (auto simp: i3codes)
    obtain k3 tok3 st3 where 3: "json_match 58 st2 = Ret (k3, tok3, st3)" "walked st2 st3"
      using match_walks [OF walked_terminated [OF 2(2)], of 58] by auto
    have "walked st st2" "walked st st3" "tokens_cur st < tokens_cur st3"
      using walked_trans [OF w1(1) 2(2)] walked_trans [OF walked_trans [OF w1(1) 2(2)] 3(2)] w1(2) 2(2) 3(2)
      by (auto simp: walked_def)
    then show ?thesis
      using 1(1) True 2(1) 3(1) by (cases "k2 = 0"; cases "k3 = 0") (auto simp: json_loopobj_def goes_on_def)
  qed
qed

lemma loop_head_walks:
  assumes "terminated st"
  shows "\<exists>again st'. (if is_obj then obind (json_loopobj i st) (\<lambda>(again, _, st1). Ret (again, st1))
     else json_looparr i st) = Ret (again, st') \<and> goes_on st (again, st')"
proof (cases is_obj)
  case True
  then show ?thesis using loopobj_walks [OF assms, of i] by auto
next
  case False
  then show ?thesis using looparr_walks [OF assms, of i] by auto
qed

text \<open>With fuel for twice the remaining tokens, skipping returns and stays in front of the end.\<close>

definition remaining_tokens :: "json_state \<Rightarrow> nat" where
  "remaining_tokens st = length (tokens st) - tokens_cur st"

lemma skip_returns:
  "terminated st \<Longrightarrow> 2 * remaining_tokens st + 1 < fuel \<Longrightarrow>
     \<exists>code st'. json_skip fuel st = Ret (code, st') \<and> walked st st'"
  "terminated st \<Longrightarrow> 2 * remaining_tokens st < fuel \<Longrightarrow>
     \<exists>code st'. json_skip_loop fuel is_obj i st = Ret (code, st') \<and> walked st st'"
proof (induction fuel st and fuel is_obj i st rule: json_skip_json_skip_loop.induct)
  case (2 fuel st)
  show ?case
  proof (cases "tok_type (here st) \<in> set value_types")
    case True
    then have w: "walked st (advance st)"
      using 2(3) by (intro walked_advance) (auto simp: value_types_def i3codes)
    have undo: "(advance st)\<lparr>tokens_cur := tokens_cur (advance st) - 1\<rparr> = st" by (simp add: advance_def)
    show ?thesis
      using 2 True w undo by (auto simp: matchany_eq value_types_def)
  next
    case False
    then show ?thesis using 2(3) walked_failed [OF 2(3)] by (simp add: matchany_eq value_types_def)
  qed
next
  case (4 fuel is_obj i st)
  obtain again st1 where 1: "(if is_obj then obind (json_loopobj i st) (\<lambda>(again, _, st1). Ret (again, st1))
     else json_looparr i st) = Ret (again, st1)" "goes_on st (again, st1)"
    using loop_head_walks [OF 4(3)] by blast
  show ?case
  proof (cases again)
    case False
    then show ?thesis using 1 by (auto simp: goes_on_def)
  next
    case True
    then have w1: "walked st st1" "remaining_tokens st1 < remaining_tokens st"
      using 1(2) 4(3) by (auto simp: goes_on_def walked_def remaining_tokens_def terminated_def)
    then obtain k2 st2 where 2: "json_skip fuel st1 = Ret (k2, st2)" "walked st1 st2"
      using 4(1) [OF 1(1) refl] True walked_terminated [OF w1(1)] 4(4) by auto
    have w2: "walked st st2" "remaining_tokens st2 \<le> remaining_tokens st1"
      using walked_trans [OF w1(1) 2(2)] 2(2) by (auto simp: walked_def remaining_tokens_def)
    show ?thesis
    proof (cases "k2 = 0")
      case False
      then show ?thesis using 1(1) True 2(1) w2(1) by simp
    next
      case k: True
      obtain k3 st3 where 3: "json_skip_loop fuel is_obj (i + 1) st2 = Ret (k3, st3)" "walked st2 st3"
        using 4(2) [OF 1(1) refl _ 2(1) refl] True k walked_terminated [OF 2(2)] w1(2) w2(2) 4(4) by auto
      then show ?thesis using 1(1) True 2(1) k walked_trans [OF w2(1) 3(2)] by simp
    qed
  qed
qed simp_all

lemma json_scan_terminated:
  "json_scan cur toks c = (0, toks', c') \<Longrightarrow> toks' \<noteq> [] \<and> tok_type (last toks') = 0"
proof (induction cur toks c rule: json_scan.induct)
  case (1 cur toks c)
  obtain code tok rest where t: "scan_token cur = (code, tok, rest)" by (cases "scan_token cur") auto
  note scan = 1(2) [unfolded json_scan.simps [of cur toks c] t split Let_def]
  show ?case
  proof (cases "code = 0 \<and> tok_type tok \<noteq> 0")
    case True
    with scan 1(1) [OF t [symmetric] refl] show ?thesis by simp
  next
    case False
    with scan show ?thesis by (auto split: if_splits)
  qed
qed


section \<open>Skipping a value\<close>

definition adv :: "nat \<Rightarrow> json_state \<Rightarrow> json_state" where
  "adv n st = st\<lparr>tokens_cur := tokens_cur st + n\<rparr>"

definition ahead :: "json_state \<Rightarrow> json_token list" where
  "ahead st = drop (tokens_cur st) (tokens st)"

lemma adv_simps [simp]:
  "adv 0 st = st" "adv m (adv n st) = adv (n + m) st" "err_flag (adv n st) = err_flag st"
  "ahead (adv n st) = drop n (ahead st)" "advance st = adv 1 st"
  by (simp_all add: adv_def ahead_def advance_def add.commute)

lemma ahead_Cons: "terminated st \<Longrightarrow> ahead st = tok # r \<Longrightarrow> here st = tok"
  by (metis ahead_def here_def hd_drop_conv_nth list.sel(1) terminated_def)

lemma terminated_adv: "terminated st \<Longrightarrow> n < length (ahead st) \<Longrightarrow> terminated (adv n st)"
  by (simp add: terminated_def adv_def ahead_def)

text \<open>One step over a token that is expected.\<close>

lemma match_ahead:
  assumes "terminated st" "ahead st = tok # r" "r \<noteq> []"
  shows "tok_type tok \<in> set types \<Longrightarrow> json_matchany types st = Ret (0, tok, adv 1 st)"
    "terminated (adv 1 st)" "ahead (adv 1 st) = r"
    "tok_type tok \<in> set types \<Longrightarrow> json_trymatchany types st = Ret (True, tok, adv 1 st)"
    "tok_type tok \<notin> set types \<Longrightarrow> types \<noteq> [] \<Longrightarrow> json_trymatchany types st = Ret (False, tok, st)"
proof -
  have h: "here st = tok" using ahead_Cons assms(1,2) by blast
  show "json_matchany types st = Ret (0, tok, adv 1 st)" if "tok_type tok \<in> set types"
    using that h assms(1) by (subst matchany_eq) auto
  show "json_trymatchany types st = Ret (True, tok, adv 1 st)" if "tok_type tok \<in> set types"
    using that h assms(1) by (subst trymatchany_eq) auto
  show "json_trymatchany types st = Ret (False, tok, st)" if "tok_type tok \<notin> set types" "types \<noteq> []"
    using that h assms(1) by (subst trymatchany_eq) auto
  show "terminated (adv 1 st)" using assms by (intro terminated_adv) auto
  show "ahead (adv 1 st) = r" using assms(2) by simp
qed

text \<open>What stands in front of a value in an object and in an array.\<close>

definition prefix_of :: "bool \<Rightarrow> json_token list \<Rightarrow> bool" where
  "prefix_of is_obj pf \<longleftrightarrow> (if is_obj then \<exists>k. pf = [string_token k, char_token 58] else pf = [])"

definition close_char :: "bool \<Rightarrow> int" where
  "close_char is_obj = (if is_obj then 125 else 93)"

definition open_char :: "bool \<Rightarrow> int" where
  "open_char is_obj = (if is_obj then 123 else 91)"

abbreviation loop_head :: "bool \<Rightarrow> nat \<Rightarrow> json_state \<Rightarrow> (bool \<times> json_state) outcome" where
  "loop_head is_obj i st \<equiv> (if is_obj then obind (json_loopobj i st) (\<lambda>(again, _, st1). Ret (again, st1))
     else json_looparr i st)"

lemma type_simps [simp]:
  "tok_type (char_token c) = c" "tok_type (string_token k) = I3IPC_JSON_STRING"
  by (simp_all add: char_token_def string_token_def)

lemma key_matches:
  assumes "terminated st" "ahead st = string_token k # char_token 58 # r" "r \<noteq> []"
  shows "json_match I3IPC_JSON_STRING st = Ret (0, string_token k, adv 1 st)"
    "json_match 58 (adv 1 st) = Ret (0, char_token 58, adv 2 st)"
proof -
  note m = match_ahead [OF assms(1,2)]
  show "json_match I3IPC_JSON_STRING st = Ret (0, string_token k, adv 1 st)"
    unfolding json_match_def using m(1) by simp
  have "terminated (adv 1 st)" "ahead (adv 1 st) = char_token 58 # r" using m(2,3) by simp_all
  from match_ahead(1) [OF this assms(3), of "[58]"]
  show "json_match 58 (adv 1 st) = Ret (0, char_token 58, adv 2 st)"
    unfolding json_match_def by (simp add: numeral_2_eq_2)
qed

lemma head_next:
  assumes "terminated st" "ahead st = char_token 44 # pf @ r" "r \<noteq> []" "prefix_of is_obj pf"
  shows "loop_head is_obj (Suc i) st = Ret (True, adv (1 + length pf) st)"
proof -
  have ne: "pf @ r \<noteq> []" using assms(3) by simp
  note m = match_ahead [OF assms(1,2) ne]
  have n: "loop_next c st = Ret (True, adv 1 st)" for c
    using m(1) [of "[44, c]"] by (simp add: loop_next_def)
  show ?thesis
  proof (cases is_obj)
    case True
    then obtain k where "pf = [string_token k, char_token 58]" using assms(4) by (auto simp: prefix_of_def)
    then show ?thesis
      using True n key_matches [OF m(2), of k r] m(3) assms(3) by (simp add: json_loopobj_def)
  next
    case False
    then show ?thesis using n assms(4) by (simp add: json_looparr_def prefix_of_def)
  qed
qed

lemma head_end:
  assumes "terminated st" "ahead st = char_token (close_char is_obj) # post" "post \<noteq> []"
  shows "loop_head is_obj (Suc i) st = Ret (False, adv 1 st)"
proof -
  note m = match_ahead [OF assms]
  have "loop_next (close_char is_obj) st = Ret (False, adv 1 st)"
    using m(1) [of "[44, close_char is_obj]"] by (simp add: loop_next_def close_char_def)
  then show ?thesis by (simp add: json_loopobj_def json_looparr_def close_char_def split: if_splits)
qed

lemma head_first:
  assumes "terminated st" "ahead st = char_token (open_char is_obj) # pf @ t # r" "r \<noteq> []" "prefix_of is_obj pf"
    "tok_type t \<noteq> close_char is_obj"
  shows "loop_head is_obj 0 st = Ret (True, adv (1 + length pf) st)"
proof -
  have ne: "pf @ t # r \<noteq> []" by simp
  note m = match_ahead [OF assms(1,2) ne]
  obtain u us where u: "pf @ t # r = u # us" "us \<noteq> []" "tok_type u \<noteq> close_char is_obj"
    using assms(3-5) by (cases pf) (auto simp: prefix_of_def close_char_def i3codes split: if_splits)
  have a: "ahead (adv 1 st) = u # us" using m(3) u(1) by simp
  have n: "loop_begin (open_char is_obj) (close_char is_obj) st = Ret (True, adv 1 st)"
    using m(1) [of "[open_char is_obj]"] match_ahead(5) [OF m(2) a u(2), of "[close_char is_obj]"] u(3)
    by (simp add: loop_begin_def json_match_def json_trymatch_def)
  show ?thesis
  proof (cases is_obj)
    case True
    then obtain k where "pf = [string_token k, char_token 58]" using assms(4) by (auto simp: prefix_of_def)
    then show ?thesis
      using True n key_matches [OF m(2), of k "t # r"] m(3) by (simp add: json_loopobj_def open_char_def close_char_def)
  next
    case False
    then show ?thesis using n assms(4) by (simp add: json_looparr_def prefix_of_def open_char_def close_char_def)
  qed
qed

lemma head_empty:
  assumes "terminated st" "ahead st = char_token (open_char is_obj) # char_token (close_char is_obj) # post" "post \<noteq> []"
  shows "loop_head is_obj 0 st = Ret (False, adv 2 st)"
proof -
  note m = match_ahead [OF assms(1,2)]
  have t: "terminated (adv 1 st)" "ahead (adv 1 st) = char_token (close_char is_obj) # post" using m(2,3) by simp_all
  have "loop_begin (open_char is_obj) (close_char is_obj) st = Ret (False, adv 2 st)"
    using m(1) [of "[open_char is_obj]"] match_ahead(4) [OF t assms(3), of "[close_char is_obj]"]
    by (simp add: loop_begin_def json_match_def json_trymatch_def numeral_2_eq_2)
  then show ?thesis by (simp add: json_loopobj_def json_looparr_def open_char_def close_char_def split: if_splits)
qed

definition skips :: "json \<Rightarrow> bool" where
  "skips v \<longleftrightarrow> (\<forall>st post fuel. terminated st \<longrightarrow> \<not> err_flag st \<longrightarrow> ahead st = tokens_of v @ post \<longrightarrow> post \<noteq> [] \<longrightarrow>
     2 * length (tokens_of v) < fuel \<longrightarrow> json_skip fuel st = Ret (0, adv (length (tokens_of v)) st))"

lemma skipsD:
  "skips v \<Longrightarrow> terminated st \<Longrightarrow> \<not> err_flag st \<Longrightarrow> ahead st = tokens_of v @ post \<Longrightarrow> post \<noteq> [] \<Longrightarrow>
   2 * length (tokens_of v) < fuel \<Longrightarrow> json_skip fuel st = Ret (0, adv (length (tokens_of v)) st)"
  by (auto simp: skips_def)

text \<open>The elements of an array or object behind the first one, each with its comma.\<close>

type_synonym element = "json_token list \<times> json"

definition element_tokens :: "element \<Rightarrow> json_token list" where
  "element_tokens e = fst e @ tokens_of (snd e)"

definition more_elements :: "element list \<Rightarrow> json_token list" where
  "more_elements els = concat (map (\<lambda>e. char_token 44 # element_tokens e) els)"

lemma commas_Cons: "commas c (x # xs) = x @ concat (map (\<lambda>y. c # y) xs)"
  by (induction xs arbitrary: x) simp_all

lemma more_elements_simps [simp]:
  "more_elements [] = []"
  "more_elements (e # els) = char_token 44 # element_tokens e @ more_elements els"
  by (simp_all add: more_elements_def)

lemma skip_more_elements:
  assumes "list_all (\<lambda>(pf, v). prefix_of is_obj pf \<and> skips v) els"
    "terminated st" "\<not> err_flag st" "ahead st = more_elements els @ char_token (close_char is_obj) # post"
    "post \<noteq> []" "2 * length (more_elements els) + 1 < fuel"
  shows "json_skip_loop fuel is_obj (Suc i) st = Ret (0, adv (length (more_elements els) + 1) st)"
  using assms
proof (induction els arbitrary: st i fuel)
  case Nil
  then obtain n where n: "fuel = Suc n" by (cases fuel) auto
  have "loop_head is_obj (Suc i) st = Ret (False, adv 1 st)"
    using Nil.prems by (intro head_end) simp_all
  then show ?case using Nil.prems(3) by (simp add: n)
next
  case (Cons e els)
  obtain pf v where e: "e = (pf, v)" by (cases e)
  obtain n where n: "fuel = Suc n" using Cons.prems(6) by (cases fuel) auto
  let ?r = "more_elements els @ char_token (close_char is_obj) # post"
  let ?st1 = "adv (1 + length pf) st" and ?st2 = "adv (1 + length pf + length (tokens_of v)) st"
  have a: "ahead st = char_token 44 # pf @ tokens_of v @ ?r"
    using Cons.prems(4) by (simp add: e element_tokens_def)
  have h: "loop_head is_obj (Suc i) st = Ret (True, ?st1)"
    using Cons.prems(1) by (intro head_next [OF Cons.prems(2) a]) (simp_all add: e)
  have t: "terminated ?st1" "terminated ?st2"
    using Cons.prems(2) a by (auto intro!: terminated_adv)
  have s1: "json_skip n ?st1 = Ret (0, adv (length (tokens_of v)) ?st1)"
    using Cons.prems(1,3,6) t(1) a
    by (intro skipsD [where post = ?r]) (auto simp: e n element_tokens_def)
  have s2: "json_skip_loop n is_obj (Suc (Suc i)) ?st2 = Ret (0, adv (length (more_elements els) + 1) ?st2)"
    using Cons.prems t(2) a by (intro Cons.IH) (auto simp: e n element_tokens_def)
  show ?case using h s1 s2 by (simp add: n e element_tokens_def add_ac)
qed

lemma tokens_of_first: "\<exists>t r. tokens_of v = t # r \<and> tok_type t \<in> set value_types"
  by (cases v) (auto simp: value_types_def string_token_def number_token_def char_token_def)

lemma skip_elements:
  assumes "list_all (\<lambda>(pf, v). prefix_of is_obj pf \<and> skips v) els"
    "terminated st" "\<not> err_flag st"
    "ahead st = char_token (open_char is_obj) # commas (char_token 44) (map element_tokens els) @
       char_token (close_char is_obj) # post"
    "post \<noteq> []" "2 * length (commas (char_token 44) (map element_tokens els)) + 3 < fuel"
  shows "json_skip fuel st = Ret (0, adv (length (commas (char_token 44) (map element_tokens els)) + 2) st)"
proof -
  obtain n where n: "fuel = Suc (Suc n)" using assms(6) by (cases fuel; cases "fuel - 1") auto
  have open_type: "open_char is_obj \<in> set value_types" by (simp add: value_types_def open_char_def)
  have undo: "(adv 1 st)\<lparr>tokens_cur := tokens_cur (adv 1 st) - 1\<rparr> = st" by (simp add: adv_def)
  have "json_matchany value_types st = Ret (0, char_token (open_char is_obj), adv 1 st)"
    using match_ahead(1) [OF assms(2,4), of value_types] open_type by simp
  then have start: "json_skip fuel st = json_skip_loop (Suc n) is_obj 0 st"
    using undo by (cases is_obj) (simp_all add: n open_char_def)
  show ?thesis
  proof (cases els)
    case Nil
    then have "ahead st = char_token (open_char is_obj) # char_token (close_char is_obj) # post"
      using assms(4) by simp
    from head_empty [OF assms(2) this assms(5)] show ?thesis
      using assms(3) start Nil by (simp add: numeral_2_eq_2)
  next
    case (Cons e es)
    obtain pf v where e: "e = (pf, v)" by (cases e)
    have all: "commas (char_token 44) (map element_tokens els) = pf @ tokens_of v @ more_elements es"
      by (simp add: Cons e commas_Cons element_tokens_def more_elements_def comp_def)
    have len: "2 * (length pf + length (tokens_of v) + length (more_elements es)) + 3 < fuel"
      using assms(6) unfolding all by simp
    let ?r = "more_elements es @ char_token (close_char is_obj) # post"
    let ?st1 = "adv (1 + length pf) st" and ?st2 = "adv (1 + length pf + length (tokens_of v)) st"
    obtain t tr where tv: "tokens_of v = t # tr" "tok_type t \<in> set value_types" using tokens_of_first by blast
    have a: "ahead st = char_token (open_char is_obj) # pf @ tokens_of v @ ?r"
      using assms(4) by (simp add: all)
    have h: "loop_head is_obj 0 st = Ret (True, ?st1)"
    proof (rule head_first [OF assms(2)])
      show "ahead st = char_token (open_char is_obj) # pf @ t # tr @ ?r" using a tv(1) by simp
      show "tok_type t \<noteq> close_char is_obj"
        using tv(2) by (auto simp: value_types_def close_char_def i3codes)
    qed (use assms(1) in \<open>simp_all add: Cons e\<close>)
    have tm: "terminated ?st1" "terminated ?st2"
      using assms(2) a by (auto intro!: terminated_adv)
    have s1: "json_skip n ?st1 = Ret (0, adv (length (tokens_of v)) ?st1)"
      using assms(1,3) len tm(1) a by (intro skipsD [where post = ?r]) (auto simp: Cons e n)
    have s2: "json_skip_loop n is_obj (Suc 0) ?st2 = Ret (0, adv (length (more_elements es) + 1) ?st2)"
      using assms(1,3,5) len tm(2) a by (intro skip_more_elements) (auto simp: Cons e n)
    show ?thesis
      using h s1 s2 start by (simp add: all add_ac numeral_2_eq_2)
  qed
qed

lemma skip_atom:
  assumes "tokens_of v = [t]" "tok_type t \<noteq> 123" "tok_type t \<noteq> 91"
  shows "skips v"
  unfolding skips_def
proof (intro allI impI)
  fix st post fuel
  assume p: "terminated st" "\<not> err_flag st" "ahead st = tokens_of v @ post" "post \<noteq> []" "2 * length (tokens_of v) < fuel"
  then obtain n where n: "fuel = Suc n" by (cases fuel) auto
  have "tok_type t \<in> set value_types" using tokens_of_first [of v] assms(1) by auto
  then have "json_matchany value_types st = Ret (0, t, adv 1 st)"
    using match_ahead(1) [OF p(1) _ p(4), of t value_types] p(3) assms(1) by simp
  then show "json_skip fuel st = Ret (0, adv (length (tokens_of v)) st)"
    using assms by (simp add: n)
qed

lemma skips_any: "skips v"
proof (induction v rule: tokens_of.induct)
  case (5 vs)
  let ?els = "map (Pair []) vs"
  have c: "map element_tokens ?els = map tokens_of vs" by (simp add: element_tokens_def)
  have "list_all (\<lambda>(pf, v). prefix_of False pf \<and> skips v) ?els"
    using 5 by (auto simp: list_all_iff prefix_of_def)
  from skip_elements [OF this, unfolded c] show ?case
    by (auto simp: skips_def open_char_def close_char_def)
next
  case (6 kvs)
  let ?els = "map (\<lambda>(k, v). ([string_token k, char_token 58], v)) kvs"
  have c: "map element_tokens ?els = map (\<lambda>(k, v). string_token k # char_token 58 # tokens_of v) kvs"
    by (auto simp: element_tokens_def)
  have "list_all (\<lambda>(pf, v). prefix_of True pf \<and> skips v) ?els"
    using 6 by (auto simp: list_all_iff prefix_of_def)
  from skip_elements [OF this, unfolded c] show ?case
    by (auto simp: skips_def open_char_def close_char_def)
qed (rule skip_atom, simp, simp_all add: char_token_def string_token_def number_token_def i3codes)+

text \<open>
  C17 (functional): Skipping steps over exactly one value: on the scanned tokens of a JSON value, however deep it
  is, \<open>i3ipc__json_skip\<close> succeeds and stops on the end token.
\<close>

theorem json_skip_value:
  assumes "numbers_ok v" "2 * length (tokens_of v) < fuel"
  shows "\<exists>toks c'. json_scan (print_json v) [] c = (0, toks, c') \<and>
    json_skip fuel \<lparr>tokens = toks, tokens_cur = 0, err_flag = False\<rparr> =
      Ret (0, \<lparr>tokens = toks, tokens_cur = length (tokens_of v), err_flag = False\<rparr>) \<and>
    tok_type (toks ! length (tokens_of v)) = 0"
proof -
  let ?st = "\<lparr>tokens = tokens_of v @ [new_token], tokens_cur = 0, err_flag = False\<rparr>"
  obtain c' where c: "json_scan (print_json v) [] c = (0, tokens_of v @ [new_token], c')"
    using json_scan_lexes [of "print_json v" "tokens_of v" "[]"] print_json_lexes [OF assms(1), of "[]"] by auto
  have "terminated ?st" by (simp add: terminated_def new_token_def)
  then have "json_skip fuel ?st = Ret (0, adv (length (tokens_of v)) ?st)"
    using assms(2) by (intro skipsD [OF skips_any, where post = "[new_token]"]) (simp_all add: ahead_def)
  with c show ?thesis
    by (intro exI [of _ "tokens_of v @ [new_token]"] exI [of _ c']) (simp add: adv_def new_token_def)
qed

definition demo_json :: json where
  "demo_json = JObj [([105, 100], JNumber 7), ([34], JArr [JNull, JBool True])]"

theorem json_skip_value_witness:
  "\<forall>c. \<exists>toks c'. json_scan (print_json demo_json) [] c = (0, toks, c') \<and>
    json_skip 30 \<lparr>tokens = toks, tokens_cur = 0, err_flag = False\<rparr> =
      Ret (0, \<lparr>tokens = toks, tokens_cur = length (tokens_of demo_json), err_flag = False\<rparr>) \<and>
    tok_type (toks ! length (tokens_of demo_json)) = 0"
  by (intro allI json_skip_value) (simp_all add: demo_json_def)


end
