(* ===== verification/Floats.thy ===== *)
theory Floats
  imports Complex_Main Prelude
begin

text \<open>
  The floating point arithmetic of the modules.  A finite \<open>float\<close> or \<open>double\<close> is the rational
  number it stands for; every operation rounds its exact result to 24 or 53 binary digits, to
  nearest with ties to even, as IEEE 754 prescribes.  The values of the modules are quotients and
  products of 64-bit integers, so exponents never overflow and no subnormal number arises.
  \<open>%.kf\<close> prints the exact value of its argument, rounded to \<open>k\<close> decimals.
\<close>

section \<open>Definitions\<close>

definition round_even :: "rat \<Rightarrow> int" where
  "round_even x =
     (let f = \<lfloor>x\<rfloor>; d = x - of_int f
      in if d < 1 / 2 then f else if d > 1 / 2 then f + 1 else if even f then f else f + 1)"

text \<open>The exponent of a positive number: the largest power of two that is not above it.\<close>

function bit_log :: "int \<Rightarrow> nat" where
  "bit_log n = (if n < 2 then 0 else Suc (bit_log (n div 2)))"
  by auto
termination by (relation "measure nat") auto

declare bit_log.simps [simp del]

lemma bit_log_eval: "n < 2 \<Longrightarrow> bit_log n = 0" "2 \<le> n \<Longrightarrow> bit_log n = Suc (bit_log (n div 2))"
  by (simp_all add: bit_log.simps)

definition ilog2 :: "rat \<Rightarrow> int" where
  "ilog2 x = (if 1 \<le> x then int (bit_log \<lfloor>x\<rfloor>) else - int (bit_log (\<lceil>1 / x\<rceil> - 1)) - 1)"

definition round_pos :: "nat \<Rightarrow> rat \<Rightarrow> rat" where
  "round_pos p x = (let e = ilog2 x - int p + 1 in of_int (round_even (x / 2 powi e)) * 2 powi e)"

definition rounded :: "nat \<Rightarrow> rat \<Rightarrow> rat" where
  "rounded p x = (if x = 0 then 0 else if x < 0 then - round_pos p (- x) else round_pos p x)"

abbreviation fl :: "rat \<Rightarrow> rat" where "fl \<equiv> rounded 24"
abbreviation db :: "rat \<Rightarrow> rat" where "db \<equiv> rounded 53"

text \<open>A conversion to an integer type drops the fraction.\<close>

definition trunc :: "rat \<Rightarrow> int" where
  "trunc x = (if x < 0 then \<lceil>x\<rceil> else \<lfloor>x\<rfloor>)"

text \<open>\<open>%.kf\<close>.\<close>

definition dec_padded :: "nat \<Rightarrow> nat \<Rightarrow> byte list" where
  "dec_padded k n = replicate (k - length (dec n)) 48 @ dec n"

definition fmt_f :: "nat \<Rightarrow> rat \<Rightarrow> byte list" where
  "fmt_f k x =
     (let n = nat (round_even (\<bar>x\<bar> * 10 ^ k))
      in (if x < 0 then [45] else []) @ dec (n div 10 ^ k) @
         (if k = 0 then [] else 46 # dec_padded k (n mod 10 ^ k)))"

text \<open>The exact value of an unsigned integer.\<close>

definition word_rat :: "'a::len word \<Rightarrow> rat" where
  "word_rat w = of_int (uint w)"

lemma word_rat_simps [simp]:
  "0 \<le> word_rat w" "word_rat w = 0 \<longleftrightarrow> w = 0" "0 < word_rat w \<longleftrightarrow> w \<noteq> 0" "word_rat 0 = 0"
  "\<not> word_rat w < 0"
proof -
  have z: "uint w = 0 \<longleftrightarrow> w = 0" using word_uint_eq_iff [of w 0] by simp
  show "0 \<le> word_rat w" "word_rat w = 0 \<longleftrightarrow> w = 0" "word_rat 0 = 0" "\<not> word_rat w < 0"
    using z by (simp_all add: word_rat_def del: of_int_uint)
  show "0 < word_rat w \<longleftrightarrow> w \<noteq> 0"
    using z uint_ge_0 [of w] unfolding word_rat_def of_int_0_less_iff by linarith
qed

lemma word_rat_mono: "a \<le> b \<Longrightarrow> word_rat a \<le> word_rat b"
  by (simp add: word_rat_def word_le_def del: of_int_uint)

lemma word_rat_less: "word_rat (w :: 'a::len word) < 2 ^ LENGTH('a)"
proof -
  have "uint w < 2 ^ LENGTH('a)" by (rule uint_lt2p)
  then have "(of_int (uint w) :: rat) < of_int (2 ^ LENGTH('a))" unfolding of_int_less_iff .
  then show ?thesis by (simp add: word_rat_def del: of_int_uint)
qed

section \<open>Rounding to an integer\<close>

lemma floor_numerals [simp]: "\<lfloor>numeral a / numeral b :: rat\<rfloor> = numeral a div numeral b"
  using floor_divide_of_int_eq [of "numeral a" "numeral b"] by simp

lemma round_even_of_int [simp]: "round_even (of_int n) = n"
  by (simp add: round_even_def)

lemma round_even_of_nat [simp]: "round_even (of_nat n) = int n"
  using round_even_of_int [of "int n"] by (simp del: round_even_of_int)

lemma round_even_mono: "x \<le> y \<Longrightarrow> round_even x \<le> round_even y"
proof -
  assume xy: "x \<le> y"
  then have f: "\<lfloor>x\<rfloor> \<le> \<lfloor>y\<rfloor>" by (rule floor_mono)
  show ?thesis
  proof (cases "\<lfloor>x\<rfloor> = \<lfloor>y\<rfloor>")
    case True
    then show ?thesis using xy by (auto simp: round_even_def Let_def)
  next
    case False
    then have "\<lfloor>x\<rfloor> + 1 \<le> \<lfloor>y\<rfloor>" using f by simp
    then show ?thesis by (auto simp: round_even_def Let_def)
  qed
qed

lemma round_even_le: "x \<le> of_int n \<Longrightarrow> round_even x \<le> n"
  using round_even_mono [of x "of_int n"] by simp

lemma round_even_ge: "of_int n \<le> x \<Longrightarrow> n \<le> round_even x"
  using round_even_mono [of "of_int n" x] by simp

lemma round_even_error: "\<bar>of_int (round_even x) - x\<bar> \<le> 1 / 2"
  unfolding round_even_def Let_def using floor_correct [of x] by (auto simp: abs_if) linarith+

section \<open>The exponent\<close>

lemma powi_less_iff [simp]: "(2 :: rat) powi a < 2 powi b \<longleftrightarrow> a < b"
  using power_int_strict_increasing [of a b "2 :: rat"] power_int_increasing [of b a "2 :: rat"]
  by (auto simp: not_less [symmetric])

lemma powi_le_iff [simp]: "(2 :: rat) powi a \<le> 2 powi b \<longleftrightarrow> a \<le> b"
  by (simp add: linorder_not_less [symmetric])

lemma powi_add_nat: "(2 :: rat) powi (int n + e) = 2 ^ n * 2 powi e"
  by (simp add: power_int_add)

lemma bit_log_bounds: "1 \<le> n \<Longrightarrow> 2 ^ bit_log n \<le> n \<and> n < 2 ^ Suc (bit_log n)"
proof (induction n rule: bit_log.induct)
  case (1 n)
  show ?case
  proof (cases "n < 2")
    case True
    then show ?thesis using 1(2) by (simp add: bit_log.simps)
  next
    case False
    then have "2 ^ bit_log (n div 2) \<le> n div 2" "n div 2 < 2 ^ Suc (bit_log (n div 2))" using 1(1) by auto
    then show ?thesis using False by (subst (1 2) bit_log.simps) (simp, linarith)
  qed
qed

lemma bit_log_rat:
  assumes "1 \<le> n"
  shows "(2 :: rat) ^ bit_log n \<le> of_int n" "of_int n + 1 \<le> (2 :: rat) ^ Suc (bit_log n)"
proof -
  have "of_int (2 ^ bit_log n) \<le> (of_int n :: rat)" "of_int (n + 1) \<le> (of_int (2 ^ Suc (bit_log n)) :: rat)"
    using bit_log_bounds [OF assms] unfolding of_int_le_iff by linarith+
  then show "(2 :: rat) ^ bit_log n \<le> of_int n" "of_int n + 1 \<le> (2 :: rat) ^ Suc (bit_log n)" by simp_all
qed

lemma ilog2_bounds:
  assumes "0 < x"
  shows "2 powi ilog2 x \<le> x" "x < 2 powi (ilog2 x + 1)"
proof -
  have *: "2 powi ilog2 x \<le> x \<and> x < 2 powi (ilog2 x + 1)"
  proof (cases "1 \<le> x")
    case True
    let ?k = "bit_log \<lfloor>x\<rfloor>"
    have "1 \<le> \<lfloor>x\<rfloor>" using True by simp
    then have "(2 :: rat) ^ ?k \<le> of_int \<lfloor>x\<rfloor>" "of_int \<lfloor>x\<rfloor> + 1 \<le> (2 :: rat) ^ Suc ?k" by (rule bit_log_rat)+
    then have "2 ^ ?k \<le> x" "x < 2 ^ Suc ?k" using floor_correct [of x] by linarith+
    moreover have "ilog2 x = int ?k" "ilog2 x + 1 = int (Suc ?k)" using True by (simp_all add: ilog2_def)
    ultimately show ?thesis by (simp only: power_int_of_nat)
  next
    case False
    let ?m = "\<lceil>1 / x\<rceil> - 1" let ?k = "bit_log ?m"
    have "1 \<le> ?m" using assms False by simp
    then have "(2 :: rat) ^ ?k \<le> of_int ?m" "of_int ?m + 1 \<le> (2 :: rat) ^ Suc ?k" by (rule bit_log_rat)+
    then have "2 ^ ?k < 1 / x" "1 / x \<le> 2 ^ Suc ?k"
      using ceiling_correct [of "1 / x"] le_of_int_ceiling [of "1 / x"] unfolding of_int_diff of_int_1 by linarith+
    then have "x < 1 / 2 ^ ?k" "1 / 2 ^ Suc ?k \<le> x" using assms by (simp_all add: field_simps)
    moreover have i: "ilog2 x = - int (Suc ?k)" "ilog2 x + 1 = - int ?k" using False by (simp_all add: ilog2_def)
    ultimately show ?thesis unfolding i(2) unfolding i(1)
      by (simp only: power_int_minus power_int_of_nat inverse_eq_divide)
  qed
  show "2 powi ilog2 x \<le> x" using * by simp
  show "x < 2 powi (ilog2 x + 1)" using * by simp
qed

lemma ilog2_mono: "0 < x \<Longrightarrow> x \<le> y \<Longrightarrow> ilog2 x \<le> ilog2 y"
proof -
  assume x: "0 < x" "x \<le> y"
  then have "(2 :: rat) powi ilog2 x < 2 powi (ilog2 y + 1)" using ilog2_bounds [of x] ilog2_bounds [of y] by linarith
  then show "ilog2 x \<le> ilog2 y" by simp
qed

section \<open>Rounding to binary digits\<close>

text \<open>The significand lies between \<open>2 ^ (p - 1)\<close> and \<open>2 ^ p\<close>.\<close>

lemma significand:
  assumes "0 < x" "0 < p"
  defines "q \<equiv> x / 2 powi (ilog2 x - int p + 1)"
  shows "2 ^ (p - 1) \<le> q" "q < 2 ^ p"
proof -
  let ?e = "ilog2 x - int p + 1"
  have pos: "(0 :: rat) < 2 powi ?e" by simp
  have "int (p - 1) + ?e = ilog2 x" using assms(2) by simp
  then have "2 ^ (p - 1) * 2 powi ?e \<le> x" using ilog2_bounds(1) [OF assms(1)] powi_add_nat [of "p - 1" ?e] by simp
  then show "2 ^ (p - 1) \<le> q" using pos by (simp add: q_def pos_le_divide_eq)
  have "int p + ?e = ilog2 x + 1" by simp
  then have "x < 2 ^ p * 2 powi ?e" using ilog2_bounds(2) [OF assms(1)] powi_add_nat [of p ?e] by simp
  then show "q < 2 ^ p" using pos by (simp add: q_def pos_divide_less_eq)
qed

lemma round_pos_mono:
  assumes "0 < x" "x \<le> y" "0 < p"
  shows "round_pos p x \<le> round_pos p y"
proof -
  let ?ex = "ilog2 x - int p + 1" and ?ey = "ilog2 y - int p + 1"
  have le: "?ex \<le> ?ey" using ilog2_mono [OF assms(1,2)] by simp
  show ?thesis
  proof (cases "?ex = ?ey")
    case True
    have "x / 2 powi ?ex \<le> y / 2 powi ?ey" using assms(2) True by (simp add: divide_right_mono)
    then have "round_even (x / 2 powi ?ex) \<le> round_even (y / 2 powi ?ey)" by (rule round_even_mono)
    then show ?thesis using True by (simp add: round_pos_def Let_def mult_right_mono)
  next
    case False
    then have lt: "?ex + 1 \<le> ?ey" using le by simp
    have "round_even (x / 2 powi ?ex) \<le> 2 ^ p"
      by (rule round_even_le) (use significand(2) [OF assms(1,3)] in simp)
    then have "of_int (round_even (x / 2 powi ?ex)) \<le> (2 :: rat) ^ p"
      by (metis of_int_le_iff of_int_numeral of_int_power)
    then have "round_pos p x \<le> 2 ^ p * 2 powi ?ex"
      by (simp add: round_pos_def Let_def mult_right_mono)
    also have "\<dots> = 2 powi (int p + ?ex)" by (rule powi_add_nat [symmetric])
    also have "\<dots> \<le> 2 powi (int (p - 1) + ?ey)" unfolding powi_le_iff using lt assms(3) by linarith
    also have "\<dots> = 2 ^ (p - 1) * 2 powi ?ey" by (rule powi_add_nat)
    also have "\<dots> \<le> round_pos p y"
    proof -
      have "2 ^ (p - 1) \<le> round_even (y / 2 powi ?ey)"
        by (rule round_even_ge) (use significand(1) [of y p] assms in simp)
      then have "(2 :: rat) ^ (p - 1) \<le> of_int (round_even (y / 2 powi ?ey))"
        by (metis of_int_le_iff of_int_numeral of_int_power)
      then show ?thesis by (simp add: round_pos_def Let_def mult_right_mono)
    qed
    finally show ?thesis .
  qed
qed

lemma round_pos_exact:
  assumes "0 < m" "m < 2 ^ p" "0 < p"
  shows "round_pos p (of_int m * 2 powi k) = of_int m * 2 powi k"
proof -
  define x where "x = (of_int m * 2 powi k :: rat)"
  have x: "0 < x" using assms(1) by (simp add: x_def)
  let ?e = "ilog2 x - int p + 1"
  have "2 powi ilog2 x \<le> x" using ilog2_bounds(1) [OF x] .
  also have "x < 2 ^ p * 2 powi k"
  proof -
    have "(of_int m :: rat) < 2 ^ p" using assms(2) by (metis of_int_less_iff of_int_numeral of_int_power)
    then show ?thesis by (simp add: x_def)
  qed
  also have "\<dots> = 2 powi (int p + k)" by (rule powi_add_nat [symmetric])
  finally have "?e \<le> k" by simp
  then obtain j where j: "k = ?e + int j" using zle_iff_zadd by blast
  have "x / 2 powi ?e = of_int m * (2 powi k / 2 powi ?e)" by (simp add: x_def)
  also have "(2 :: rat) powi k / 2 powi ?e = 2 ^ j"
    using powi_add_nat [of j ?e] by (simp add: j add.commute)
  also have "of_int m * (2 :: rat) ^ j = of_int (m * 2 ^ j)" by simp
  finally have "x / 2 powi ?e = of_int (m * 2 ^ j)" .
  then have "round_pos p x = x / 2 powi ?e * 2 powi ?e"
    by (simp only: round_pos_def Let_def round_even_of_int)
  then show ?thesis by (simp add: x_def)
qed

lemma round_pos_nonneg: "0 < x \<Longrightarrow> 0 < p \<Longrightarrow> 0 < round_pos p x"
proof -
  assume a: "0 < x" "0 < p"
  have "2 ^ (p - 1) \<le> round_even (x / 2 powi (ilog2 x - int p + 1))"
    by (rule round_even_ge) (use significand(1) [OF a] in simp)
  then have "0 < round_even (x / 2 powi (ilog2 x - int p + 1))"
    by (rule less_le_trans [rotated]) simp
  then show ?thesis by (simp add: round_pos_def Let_def)
qed

lemma rounded_0 [simp]: "rounded p 0 = 0"
  by (simp add: rounded_def)

lemma rounded_pos: "0 < x \<Longrightarrow> rounded p x = round_pos p x"
  by (simp add: rounded_def)

lemma rounded_minus: "rounded p (- x) = - rounded p x"
  by (simp add: rounded_def)

lemma rounded_sign [simp]:
  "0 < p \<Longrightarrow> 0 < rounded p x \<longleftrightarrow> 0 < x" "0 < p \<Longrightarrow> rounded p x < 0 \<longleftrightarrow> x < 0"
  using round_pos_nonneg [of x p] round_pos_nonneg [of "- x" p]
  by (auto simp: rounded_def not_less)

lemma rounded_nonneg [simp]: "0 < p \<Longrightarrow> 0 \<le> rounded p x \<longleftrightarrow> 0 \<le> x"
  using rounded_sign(2) [of p x] by (simp add: not_less [symmetric])

lemma rounded_mono: "0 < p \<Longrightarrow> x \<le> y \<Longrightarrow> rounded p x \<le> rounded p y"
proof -
  assume a: "0 < p" "x \<le> y"
  consider "0 < x" | "x \<le> 0" "0 \<le> y" | "y < 0" by linarith
  then show ?thesis
  proof cases
    case 1
    then show ?thesis using a round_pos_mono [of x y p] by (simp add: rounded_def)
  next
    case 2
    then have "rounded p x \<le> 0" "0 \<le> rounded p y" using a(1) by (simp_all add: not_less [symmetric])
    then show ?thesis by simp
  next
    case 3
    then show ?thesis using a round_pos_mono [of "- y" "- x" p] by (simp add: rounded_def)
  qed
qed

lemma rounded_exact:
  assumes "\<bar>m\<bar> < 2 ^ p" "0 < p"
  shows "rounded p (of_int m * 2 powi k) = of_int m * 2 powi k"
proof -
  consider "m = 0" | "0 < m" | "m < 0" by linarith
  then show ?thesis
  proof cases
    case 2
    then have "0 < of_int m * (2 :: rat) powi k" by simp
    then show ?thesis using round_pos_exact [of m p k] assms 2 by (simp only: rounded_pos abs_of_pos)
  next
    case 3
    then have "0 < of_int (- m) * (2 :: rat) powi k" by (simp add: mult_neg_pos)
    then have "rounded p (of_int (- m) * 2 powi k) = of_int (- m) * 2 powi k"
      using round_pos_exact [of "- m" p k] assms 3 by (simp only: rounded_pos abs_of_neg neg_0_less_iff_less)
    then show ?thesis using rounded_minus [of p "of_int (- m) * 2 powi k"] by simp
  qed simp
qed

lemma rounded_of_int: "\<bar>m\<bar> < 2 ^ p \<Longrightarrow> 0 < p \<Longrightarrow> rounded p (of_int m) = of_int m"
  using rounded_exact [of m p 0] by simp

text \<open>Rounding stays between representable bounds.\<close>

lemma rounded_between:
  assumes "rounded p a = a" "rounded p b = b" "a \<le> x" "x \<le> b" "0 < p"
  shows "a \<le> rounded p x \<and> rounded p x \<le> b"
  using rounded_mono [OF assms(5,3)] rounded_mono [OF assms(5,4)] assms(1,2) by simp

text \<open>Evaluation on given numbers: the result is given and checked.\<close>

lemma powi_eval: "(2 :: rat) powi e = (if 0 \<le> e then 2 ^ nat e else 1 / 2 ^ nat (- e))"
  by (simp add: power_int_def power_one_over)

lemma round_even_eqI: "\<bar>x - of_int n\<bar> < 1 / 2 \<Longrightarrow> round_even x = n"
proof -
  assume a: "\<bar>x - of_int n\<bar> < 1 / 2"
  then have "\<bar>(of_int (round_even x) :: rat) - of_int n\<bar> < 1" using round_even_error [of x] by linarith
  then have "\<bar>of_int (round_even x - n)\<bar> < (1 :: rat)" by simp
  then have "\<bar>round_even x - n\<bar> < 1" unfolding of_int_abs [symmetric] of_int_less_1_iff .
  then show ?thesis by simp
qed

lemma ilog2_eqI: "2 powi e \<le> x \<Longrightarrow> x < 2 powi (e + 1) \<Longrightarrow> ilog2 x = e"
proof -
  assume a: "2 powi e \<le> x" "x < 2 powi (e + 1)"
  have "(0 :: rat) < 2 powi e" by simp
  then have "0 < x" using a(1) by linarith
  then have "2 powi ilog2 x \<le> x" "x < 2 powi (ilog2 x + 1)" by (rule ilog2_bounds)+
  then have "(2 :: rat) powi ilog2 x < 2 powi (e + 1)" "(2 :: rat) powi e < 2 powi (ilog2 x + 1)"
    using a by linarith+
  then show ?thesis by simp
qed

lemma rounded_eqI:
  assumes "2 ^ (p - 1) < n" "n < 2 ^ p" "0 < p" "\<bar>x - of_int n * 2 powi k\<bar> < 2 powi k / 2"
  shows "rounded p x = of_int n * 2 powi k"
proof -
  let ?u = "(2 :: rat) powi k"
  have u: "0 < ?u" by simp
  have "(of_int (2 ^ (p - 1) + 1) :: rat) \<le> of_int n" "(of_int (n + 1) :: rat) \<le> of_int (2 ^ p)"
    using assms(1,2) unfolding of_int_le_iff by linarith+
  then have n: "(2 ^ (p - 1) + 1) * ?u \<le> of_int n * ?u" "(of_int n + 1) * ?u \<le> 2 ^ p * ?u"
    using u by (auto intro!: mult_right_mono)
  have p: "(2 :: rat) powi (int (p - 1) + k) = 2 ^ (p - 1) * ?u" "(2 :: rat) powi (int p + k) = 2 ^ p * ?u"
    by (rule powi_add_nat)+
  have x: "2 ^ (p - 1) * ?u \<le> x" "x < 2 ^ p * ?u"
    using n assms(4) u unfolding distrib_right abs_less_iff by linarith+
  have "ilog2 x = int (p - 1) + k"
  proof (rule ilog2_eqI)
    show "2 powi (int (p - 1) + k) \<le> x" using x(1) p(1) by simp
    have "int (p - 1) + k + 1 = int p + k" using assms(3) by simp
    then show "x < 2 powi (int (p - 1) + k + 1)" using x(2) p(2) by simp
  qed
  then have e: "ilog2 x - int p + 1 = k" using assms(3) by simp
  have "x / ?u - of_int n = (x - of_int n * ?u) / ?u" by (simp add: diff_divide_distrib)
  then have "\<bar>x / ?u - of_int n\<bar> = \<bar>x - of_int n * ?u\<bar> / ?u" by (simp add: abs_divide)
  also have "\<dots> < 1 / 2" using assms(4) u by (simp add: pos_divide_less_eq)
  finally have "round_even (x / ?u) = n" by (rule round_even_eqI)
  moreover have "0 < 2 ^ (p - 1) * ?u" using u by simp
  then have "0 < x" using x(1) by linarith
  ultimately show ?thesis by (simp add: rounded_pos round_pos_def Let_def e)
qed

section \<open>Printing\<close>

lemma zero_notin_dec_padded [simp]: "0 \<notin> set (dec_padded k n)"
  by (auto simp: dec_padded_def)

lemma zero_notin_fmt_f [simp]: "0 \<notin> set (fmt_f k x)"
  by (auto simp: fmt_f_def Let_def)

lemma length_dec_padded: "m < 10 ^ k \<Longrightarrow> 0 < k \<Longrightarrow> length (dec_padded k m) = k"
  using length_dec [of m "k - 1"] by (cases k) (simp_all add: dec_padded_def)

lemma length_fmt_f:
  assumes "\<bar>x\<bar> \<le> 10 ^ n"
  shows "length (fmt_f k x) \<le> n + k + 3"
proof -
  define r where "r = nat (round_even (\<bar>x\<bar> * 10 ^ k))"
  have "\<bar>x\<bar> * 10 ^ k \<le> of_int (10 ^ (n + k))"
    using assms by (simp add: power_add mult_right_mono)
  then have "round_even (\<bar>x\<bar> * 10 ^ k) \<le> 10 ^ (n + k)" by (rule round_even_le)
  then have "r \<le> nat (10 ^ (n + k))" unfolding r_def by (rule nat_mono)
  also have "nat (10 ^ (n + k)) = 10 ^ (n + k)" by (simp add: nat_power_eq)
  also have "\<dots> = 10 ^ n * 10 ^ k" by (rule power_add)
  finally have "r div 10 ^ k \<le> 10 ^ n" using div_le_mono [of r _ "10 ^ k"] by fastforce
  then have "length (dec (r div 10 ^ k)) \<le> Suc n" by (intro length_dec) (simp add: le_less_trans)
  moreover have "length (if k = 0 then [] else 46 # dec_padded k (r mod 10 ^ k)) \<le> Suc k"
    by (simp add: length_dec_padded)
  moreover have "length (if x < 0 then [45] else ([] :: byte list)) \<le> 1" by simp
  moreover have "fmt_f k x = (if x < 0 then [45] else []) @ dec (r div 10 ^ k) @
      (if k = 0 then [] else 46 # dec_padded k (r mod 10 ^ k))"
    by (simp only: fmt_f_def Let_def r_def)
  ultimately show ?thesis by (simp only: length_append)
qed

end
