(* ===== verification/I3_Types.thy ===== *)
theory I3_Types
  imports I3_Tokens
begin

text \<open>
  \<open>i3ipc.h\<close>, the structures that replies and events are parsed into and the table that describes
  them: for every type its size and alignment, and for every field its type, flags, name and
  offset.  Sizes and offsets are those of the C language on a 64-bit machine, computed from the
  declarations of the structures.  A set of flags is the set of the bits.
\<close>

section \<open>Layout of structures\<close>

datatype c_layout = C_bool | C_char | C_int | C_float | C_size | C_ptr
  | C_struct "(string \<times> c_layout) list" | C_union "(string \<times> c_layout) list"

type_synonym c_type = "string \<times> c_layout"

definition align_up :: "nat \<Rightarrow> nat \<Rightarrow> nat" where
  "align_up off a = (off + a - 1) div a * a"

fun alignof :: "c_layout \<Rightarrow> nat"
  and members_align :: "(string \<times> c_layout) list \<Rightarrow> nat"
where
  "alignof C_bool = 1"
| "alignof C_char = 1"
| "alignof C_int = 4"
| "alignof C_float = 4"
| "alignof C_size = 8"
| "alignof C_ptr = 8"
| "alignof (C_struct ms) = members_align ms"
| "alignof (C_union ms) = members_align ms"
| "members_align [] = 1"
| "members_align ((n, t) # ms) = max (alignof t) (members_align ms)"

fun sizeof :: "c_layout \<Rightarrow> nat"
  and members_end :: "nat \<Rightarrow> (string \<times> c_layout) list \<Rightarrow> nat"
  and members_max :: "(string \<times> c_layout) list \<Rightarrow> nat"
where
  "sizeof C_bool = 1"
| "sizeof C_char = 1"
| "sizeof C_int = 4"
| "sizeof C_float = 4"
| "sizeof C_size = 8"
| "sizeof C_ptr = 8"
| "sizeof (C_struct ms) = align_up (members_end 0 ms) (members_align ms)"
| "sizeof (C_union ms) = align_up (members_max ms) (members_align ms)"
| "members_end off [] = off"
| "members_end off ((n, t) # ms) = members_end (align_up off (alignof t) + sizeof t) ms"
| "members_max [] = 0"
| "members_max ((n, t) # ms) = max (sizeof t) (members_max ms)"

fun members :: "c_layout \<Rightarrow> (string \<times> c_layout) list" where
  "members (C_struct ms) = ms"
| "members _ = []"

text \<open>\<open>offsetof\<close>, for the name of a member.\<close>

fun member_offset :: "nat \<Rightarrow> (string \<times> c_layout) list \<Rightarrow> string \<Rightarrow> nat" where
  "member_offset off [] n = off"
| "member_offset off ((k, t) # ms) n =
     (let off1 = align_up off (alignof t)
      in if k = n then off1 else member_offset (off1 + sizeof t) ms n)"

definition offsetof :: "c_layout \<Rightarrow> string \<Rightarrow> nat" where
  "offsetof t n = member_offset 0 (members t) n"

section \<open>The structures\<close>

definition I3ipc_rect :: c_type where
  "I3ipc_rect = (''I3ipc_rect'', C_struct [
     (''x'', C_int), (''y'', C_int), (''width'', C_int), (''height'', C_int)])"

definition I3ipc_string :: c_type where
  "I3ipc_string = (''I3ipc_string'', C_struct [
     (''str'', C_ptr), (''str_size'', C_int)])"

definition I3ipc_node_window_properties :: c_type where
  "I3ipc_node_window_properties = (''I3ipc_node_window_properties'', C_struct [
     (''title'', C_ptr), (''title_size'', C_int), (''instance'', C_ptr),
     (''instance_size'', C_int), (''window_class'', C_ptr), (''window_class_size'', C_int),
     (''window_role'', C_ptr), (''window_role_size'', C_int), (''transient_for'', C_int),
     (''transient_for_set'', C_bool)])"

definition I3ipc_node :: c_type where
  "I3ipc_node = (''I3ipc_node'', C_struct [
     (''id'', C_size), (''name'', C_ptr), (''name_size'', C_int), (''type'', C_ptr),
     (''type_size'', C_int), (''type_enum'', C_int), (''border'', C_ptr), (''border_size'', C_int),
     (''border_enum'', C_int), (''current_border_width'', C_int), (''layout'', C_ptr),
     (''layout_size'', C_int), (''layout_enum'', C_int), (''orientation'', C_ptr),
     (''orientation_size'', C_int), (''orientation_enum'', C_int), (''percent'', C_float),
     (''percent_set'', C_bool), (''rect'', snd I3ipc_rect), (''window_rect'', snd I3ipc_rect),
     (''deco_rect'', snd I3ipc_rect), (''geometry'', snd I3ipc_rect), (''window'', C_int),
     (''window_set'', C_bool), (''window_properties'', C_ptr), (''window_type'', C_ptr),
     (''window_type_size'', C_int), (''window_type_enum'', C_int), (''urgent'', C_bool),
     (''marks'', C_ptr), (''marks_size'', C_int), (''focused'', C_bool), (''focus'', C_ptr),
     (''focus_size'', C_int), (''fullscreen_mode'', C_int), (''nodes'', C_ptr),
     (''nodes_size'', C_int), (''floating_nodes'', C_ptr), (''floating_nodes_size'', C_int)])"

definition I3ipc_bar_config_colors :: c_type where
  "I3ipc_bar_config_colors = (''I3ipc_bar_config_colors'', C_struct [
     (''background'', C_ptr), (''background_size'', C_int), (''statusline'', C_ptr),
     (''statusline_size'', C_int), (''separator'', C_ptr), (''separator_size'', C_int),
     (''focused_background'', C_ptr), (''focused_background_size'', C_int),
     (''focused_statusline'', C_ptr), (''focused_statusline_size'', C_int),
     (''focused_separator'', C_ptr), (''focused_separator_size'', C_int),
     (''focused_workspace_text'', C_ptr), (''focused_workspace_text_size'', C_int),
     (''focused_workspace_bg'', C_ptr), (''focused_workspace_bg_size'', C_int),
     (''focused_workspace_border'', C_ptr), (''focused_workspace_border_size'', C_int),
     (''active_workspace_text'', C_ptr), (''active_workspace_text_size'', C_int),
     (''active_workspace_bg'', C_ptr), (''active_workspace_bg_size'', C_int),
     (''active_workspace_border'', C_ptr), (''active_workspace_border_size'', C_int),
     (''inactive_workspace_text'', C_ptr), (''inactive_workspace_text_size'', C_int),
     (''inactive_workspace_bg'', C_ptr), (''inactive_workspace_bg_size'', C_int),
     (''inactive_workspace_border'', C_ptr), (''inactive_workspace_border_size'', C_int),
     (''urgent_workspace_text'', C_ptr), (''urgent_workspace_text_size'', C_int),
     (''urgent_workspace_bg'', C_ptr), (''urgent_workspace_bg_size'', C_int),
     (''urgent_workspace_border'', C_ptr), (''urgent_workspace_border_size'', C_int),
     (''binding_mode_text'', C_ptr), (''binding_mode_text_size'', C_int),
     (''binding_mode_bg'', C_ptr), (''binding_mode_bg_size'', C_int),
     (''binding_mode_border'', C_ptr), (''binding_mode_border_size'', C_int)])"

definition I3ipc_bar_config :: c_type where
  "I3ipc_bar_config = (''I3ipc_bar_config'', C_struct [
     (''id'', C_ptr), (''id_size'', C_int), (''mode'', C_ptr), (''mode_size'', C_int),
     (''mode_enum'', C_int), (''position'', C_ptr), (''position_size'', C_int),
     (''position_enum'', C_int), (''status_command'', C_ptr), (''status_command_size'', C_int),
     (''font'', C_ptr), (''font_size'', C_int), (''workspace_buttons'', C_bool),
     (''binding_mode_indicator'', C_bool), (''verbose'', C_bool),
     (''colors'', snd I3ipc_bar_config_colors)])"

definition I3ipc_reply_command_el :: c_type where
  "I3ipc_reply_command_el = (''I3ipc_reply_command_el'', C_struct [
     (''success'', C_bool), (''error'', C_ptr), (''error_size'', C_int)])"

definition I3ipc_reply_command :: c_type where
  "I3ipc_reply_command = (''I3ipc_reply_command'', C_struct [
     (''commands'', C_ptr), (''commands_size'', C_int)])"

definition I3ipc_reply_workspaces_el :: c_type where
  "I3ipc_reply_workspaces_el = (''I3ipc_reply_workspaces_el'', C_struct [
     (''id'', C_size), (''num'', C_int), (''name'', C_ptr), (''name_size'', C_int),
     (''visible'', C_bool), (''focused'', C_bool), (''urgent'', C_bool),
     (''rect'', snd I3ipc_rect), (''output'', C_ptr), (''output_size'', C_int)])"

definition I3ipc_reply_workspaces :: c_type where
  "I3ipc_reply_workspaces = (''I3ipc_reply_workspaces'', C_struct [
     (''workspaces'', C_ptr), (''workspaces_size'', C_int)])"

definition I3ipc_reply_subscribe :: c_type where
  "I3ipc_reply_subscribe = (''I3ipc_reply_subscribe'', C_struct [
     (''success'', C_bool)])"

definition I3ipc_reply_outputs_el :: c_type where
  "I3ipc_reply_outputs_el = (''I3ipc_reply_outputs_el'', C_struct [
     (''name'', C_ptr), (''name_size'', C_int), (''active'', C_bool), (''primary'', C_bool),
     (''current_workspace'', C_ptr), (''current_workspace_size'', C_int), (''rect'', snd I3ipc_rect)])"

definition I3ipc_reply_outputs :: c_type where
  "I3ipc_reply_outputs = (''I3ipc_reply_outputs'', C_struct [
     (''outputs'', C_ptr), (''outputs_size'', C_int)])"

definition I3ipc_reply_tree :: c_type where
  "I3ipc_reply_tree = (''I3ipc_reply_tree'', C_struct [
     (''root'', snd I3ipc_node)])"

definition I3ipc_reply_marks :: c_type where
  "I3ipc_reply_marks = (''I3ipc_reply_marks'', C_struct [
     (''marks'', C_ptr), (''marks_size'', C_int)])"

definition I3ipc_reply_bar_config_ids :: c_type where
  "I3ipc_reply_bar_config_ids = (''I3ipc_reply_bar_config_ids'', C_struct [
     (''ids'', C_ptr), (''ids_size'', C_int)])"

definition I3ipc_reply_bar_config :: c_type where
  "I3ipc_reply_bar_config = (''I3ipc_reply_bar_config'', C_struct [
     (''cfg'', snd I3ipc_bar_config)])"

definition I3ipc_reply_version :: c_type where
  "I3ipc_reply_version = (''I3ipc_reply_version'', C_struct [
     (''major'', C_int), (''minor'', C_int), (''patch'', C_int), (''human_readable'', C_ptr),
     (''human_readable_size'', C_int), (''loaded_config_file_name'', C_ptr),
     (''loaded_config_file_name_size'', C_int)])"

definition I3ipc_reply_binding_modes :: c_type where
  "I3ipc_reply_binding_modes = (''I3ipc_reply_binding_modes'', C_struct [
     (''modes'', C_ptr), (''modes_size'', C_int)])"

definition I3ipc_reply_config :: c_type where
  "I3ipc_reply_config = (''I3ipc_reply_config'', C_struct [
     (''config'', C_ptr), (''config_size'', C_int)])"

definition I3ipc_reply_tick :: c_type where
  "I3ipc_reply_tick = (''I3ipc_reply_tick'', C_struct [
     (''success'', C_bool)])"

definition I3ipc_reply_sync :: c_type where
  "I3ipc_reply_sync = (''I3ipc_reply_sync'', C_struct [
     (''success'', C_bool)])"

definition I3ipc_event_workspace :: c_type where
  "I3ipc_event_workspace = (''I3ipc_event_workspace'', C_struct [
     (''type'', C_int), (''change'', C_ptr), (''change_size'', C_int), (''change_enum'', C_int),
     (''current'', C_ptr), (''old'', C_ptr)])"

definition I3ipc_event_output :: c_type where
  "I3ipc_event_output = (''I3ipc_event_output'', C_struct [
     (''type'', C_int), (''change'', C_ptr), (''change_size'', C_int), (''change_enum'', C_int)])"

definition I3ipc_event_mode :: c_type where
  "I3ipc_event_mode = (''I3ipc_event_mode'', C_struct [
     (''type'', C_int), (''change'', C_ptr), (''change_size'', C_int), (''pango_markup'', C_bool)])"

definition I3ipc_event_window :: c_type where
  "I3ipc_event_window = (''I3ipc_event_window'', C_struct [
     (''type'', C_int), (''change'', C_ptr), (''change_size'', C_int), (''change_enum'', C_int),
     (''container'', snd I3ipc_node)])"

definition I3ipc_event_barconfig_update :: c_type where
  "I3ipc_event_barconfig_update = (''I3ipc_event_barconfig_update'', C_struct [
     (''type'', C_int), (''cfg'', snd I3ipc_bar_config)])"

definition I3ipc_event_binding_binding :: c_type where
  "I3ipc_event_binding_binding = (''I3ipc_event_binding_binding'', C_struct [
     (''command'', C_ptr), (''command_size'', C_int), (''event_state_mask'', C_ptr),
     (''event_state_mask_size'', C_int), (''input_code'', C_int), (''symbol'', C_ptr),
     (''symbol_size'', C_int), (''input_type'', C_ptr), (''input_type_size'', C_int),
     (''input_type_enum'', C_int)])"

definition I3ipc_event_binding :: c_type where
  "I3ipc_event_binding = (''I3ipc_event_binding'', C_struct [
     (''type'', C_int), (''change'', C_ptr), (''change_size'', C_int), (''change_enum'', C_int),
     (''binding'', snd I3ipc_event_binding_binding)])"

definition I3ipc_event_shutdown :: c_type where
  "I3ipc_event_shutdown = (''I3ipc_event_shutdown'', C_struct [
     (''type'', C_int), (''change'', C_ptr), (''change_size'', C_int), (''change_enum'', C_int)])"

definition I3ipc_event_tick :: c_type where
  "I3ipc_event_tick = (''I3ipc_event_tick'', C_struct [
     (''type'', C_int), (''first'', C_bool), (''payload'', C_ptr), (''payload_size'', C_int)])"

definition I3ipc_event :: c_type where
  "I3ipc_event = (''I3ipc_event'', C_union [
     (''type'', C_int), (''workspace'', snd I3ipc_event_workspace),
     (''output'', snd I3ipc_event_output), (''mode'', snd I3ipc_event_mode),
     (''window'', snd I3ipc_event_window),
     (''barconfig_update'', snd I3ipc_event_barconfig_update),
     (''binding'', snd I3ipc_event_binding), (''shutdown'', snd I3ipc_event_shutdown),
     (''tick'', snd I3ipc_event_tick)])"

section \<open>Types and fields\<close>

datatype type_id =
    I3IPC_TYPE_BOOL
  | I3IPC_TYPE_CHAR
  | I3IPC_TYPE_INT
  | I3IPC_TYPE_FLOAT
  | I3IPC_TYPE_SIZET
  | I3IPC_TYPE_RECT
  | I3IPC_TYPE_STRING
  | I3IPC_TYPE_NODE
  | I3IPC_TYPE_BAR_CONFIG
  | I3IPC_TYPE_NODE_WINDOW_PROPERTIES
  | I3IPC_TYPE_BAR_CONFIG_COLORS
  | I3IPC_TYPE_REPLY_COMMAND_EL
  | I3IPC_TYPE_REPLY_OUTPUTS_EL
  | I3IPC_TYPE_REPLY_WORKSPACES_EL
  | I3IPC_TYPE_EVENT_BINDING_BINDING
  | I3IPC_TYPE_REPLY_COMMAND
  | I3IPC_TYPE_REPLY_WORKSPACES
  | I3IPC_TYPE_REPLY_SUBSCRIBE
  | I3IPC_TYPE_REPLY_OUTPUTS
  | I3IPC_TYPE_REPLY_TREE
  | I3IPC_TYPE_REPLY_MARKS
  | I3IPC_TYPE_REPLY_BAR_CONFIG_IDS
  | I3IPC_TYPE_REPLY_BAR_CONFIG
  | I3IPC_TYPE_REPLY_VERSION
  | I3IPC_TYPE_REPLY_BINDING_MODES
  | I3IPC_TYPE_REPLY_CONFIG
  | I3IPC_TYPE_REPLY_TICK
  | I3IPC_TYPE_REPLY_SYNC
  | I3IPC_TYPE_EVENT
  | I3IPC_TYPE_EVENT_WORKSPACE
  | I3IPC_TYPE_EVENT_OUTPUT
  | I3IPC_TYPE_EVENT_MODE
  | I3IPC_TYPE_EVENT_WINDOW
  | I3IPC_TYPE_EVENT_BARCONFIG_UPDATE
  | I3IPC_TYPE_EVENT_BINDING
  | I3IPC_TYPE_EVENT_SHUTDOWN
  | I3IPC_TYPE_EVENT_TICK

datatype type_flag = ISARRAY | ISSIZE | ISENUM | ISPTR | ISOPT | ISOMIT | ISFLAG

type_synonym type_flags = "type_flag set"

definition GROUP_DERIVED :: type_flags where
  "GROUP_DERIVED = {ISSIZE, ISENUM, ISFLAG}"

definition GROUP_MAYBE :: type_flags where
  "GROUP_MAYBE = {ISPTR, ISOPT}"

record i3_field =
  ftype :: type_id
  flags :: type_flags
  fname :: string
  foffset :: nat
  full_name :: string
  json_name :: "string option"

definition derived :: "i3_field \<Rightarrow> bool" where
  "derived f \<longleftrightarrow> flags f \<inter> GROUP_DERIVED \<noteq> {}"

definition DOFIELD2 :: "c_type \<Rightarrow> type_id \<Rightarrow> string \<Rightarrow> type_flags \<Rightarrow> i3_field list" where
  "DOFIELD2 T subtype nm fl =
     [\<lparr>ftype = subtype, flags = fl, fname = nm, foffset = offsetof (snd T) nm,
       full_name = fst T @ ''.'' @ nm, json_name = None\<rparr>]"

definition DOFIELD :: "c_type \<Rightarrow> type_id \<Rightarrow> string \<Rightarrow> i3_field list" where
  "DOFIELD T subtype nm = DOFIELD2 T subtype nm {}"

definition DOPTR :: "c_type \<Rightarrow> type_id \<Rightarrow> string \<Rightarrow> i3_field list" where
  "DOPTR T subtype nm = DOFIELD2 T subtype nm {ISPTR}"

definition DOMAYBE :: "c_type \<Rightarrow> type_id \<Rightarrow> string \<Rightarrow> i3_field list" where
  "DOMAYBE T subtype nm =
     DOFIELD2 T subtype nm {ISOPT} @ DOFIELD2 T I3IPC_TYPE_BOOL (nm @ ''_set'') {ISFLAG}"

definition DOARRAY2 :: "c_type \<Rightarrow> type_id \<Rightarrow> string \<Rightarrow> type_flags \<Rightarrow> i3_field list" where
  "DOARRAY2 T subtype nm fl =
     DOFIELD2 T subtype nm (insert ISARRAY fl) @ DOFIELD2 T I3IPC_TYPE_INT (nm @ ''_size'') {ISSIZE}"

definition DOARRAY3 :: "c_type \<Rightarrow> type_id \<Rightarrow> string \<Rightarrow> i3_field list" where
  "DOARRAY3 T subtype nm = DOARRAY2 T subtype nm {ISOPT, ISOMIT}"

definition DOENUM2 :: "c_type \<Rightarrow> type_id \<Rightarrow> string \<Rightarrow> type_flags \<Rightarrow> i3_field list" where
  "DOENUM2 T subtype nm fl =
     DOARRAY2 T subtype nm fl @ DOFIELD2 T I3IPC_TYPE_INT (nm @ ''_enum'') {ISENUM}"

definition DOARRAY :: "c_type \<Rightarrow> type_id \<Rightarrow> string \<Rightarrow> i3_field list" where
  "DOARRAY T subtype nm = DOARRAY2 T subtype nm {}"

definition DOENUM :: "c_type \<Rightarrow> type_id \<Rightarrow> string \<Rightarrow> i3_field list" where
  "DOENUM T subtype nm = DOENUM2 T subtype nm {}"

definition fields_rect :: "i3_field list" where
  "fields_rect = concat [
     DOFIELD I3ipc_rect I3IPC_TYPE_INT ''x'', DOFIELD I3ipc_rect I3IPC_TYPE_INT ''y'',
     DOFIELD I3ipc_rect I3IPC_TYPE_INT ''width'', DOFIELD I3ipc_rect I3IPC_TYPE_INT ''height'']"

definition fields_string :: "i3_field list" where
  "fields_string = concat [
     DOARRAY I3ipc_string I3IPC_TYPE_CHAR ''str'']"

definition fields_node_window_properties :: "i3_field list" where
  "fields_node_window_properties = concat [
     DOARRAY2 I3ipc_node_window_properties I3IPC_TYPE_CHAR ''title'' {ISOPT},
     DOARRAY2 I3ipc_node_window_properties I3IPC_TYPE_CHAR ''instance'' {ISOPT},
     DOARRAY2 I3ipc_node_window_properties I3IPC_TYPE_CHAR ''window_class'' {ISOPT},
     DOARRAY2 I3ipc_node_window_properties I3IPC_TYPE_CHAR ''window_role'' {ISOPT},
     DOMAYBE I3ipc_node_window_properties I3IPC_TYPE_INT ''transient_for'']"

definition fields_node :: "i3_field list" where
  "fields_node = concat [
     DOFIELD I3ipc_node I3IPC_TYPE_SIZET ''id'',
     DOARRAY2 I3ipc_node I3IPC_TYPE_CHAR ''name'' {ISOPT},
     DOENUM I3ipc_node I3IPC_TYPE_CHAR ''type'', DOENUM I3ipc_node I3IPC_TYPE_CHAR ''border'',
     DOFIELD I3ipc_node I3IPC_TYPE_INT ''current_border_width'',
     DOENUM I3ipc_node I3IPC_TYPE_CHAR ''layout'',
     DOENUM I3ipc_node I3IPC_TYPE_CHAR ''orientation'',
     DOMAYBE I3ipc_node I3IPC_TYPE_FLOAT ''percent'', DOFIELD I3ipc_node I3IPC_TYPE_RECT ''rect'',
     DOFIELD I3ipc_node I3IPC_TYPE_RECT ''window_rect'',
     DOFIELD I3ipc_node I3IPC_TYPE_RECT ''deco_rect'',
     DOFIELD I3ipc_node I3IPC_TYPE_RECT ''geometry'', DOMAYBE I3ipc_node I3IPC_TYPE_INT ''window'',
     DOPTR I3ipc_node I3IPC_TYPE_NODE_WINDOW_PROPERTIES ''window_properties'',
     DOENUM2 I3ipc_node I3IPC_TYPE_CHAR ''window_type'' {ISOPT},
     DOFIELD I3ipc_node I3IPC_TYPE_BOOL ''urgent'',
     DOARRAY3 I3ipc_node I3IPC_TYPE_STRING ''marks'',
     DOFIELD I3ipc_node I3IPC_TYPE_BOOL ''focused'', DOARRAY I3ipc_node I3IPC_TYPE_SIZET ''focus'',
     DOFIELD I3ipc_node I3IPC_TYPE_INT ''fullscreen_mode'',
     DOARRAY I3ipc_node I3IPC_TYPE_NODE ''nodes'',
     DOARRAY I3ipc_node I3IPC_TYPE_NODE ''floating_nodes'']"

definition fields_bar_config_colors :: "i3_field list" where
  "fields_bar_config_colors = concat [
     DOARRAY3 I3ipc_bar_config_colors I3IPC_TYPE_CHAR ''background'',
     DOARRAY3 I3ipc_bar_config_colors I3IPC_TYPE_CHAR ''statusline'',
     DOARRAY3 I3ipc_bar_config_colors I3IPC_TYPE_CHAR ''separator'',
     DOARRAY3 I3ipc_bar_config_colors I3IPC_TYPE_CHAR ''focused_background'',
     DOARRAY3 I3ipc_bar_config_colors I3IPC_TYPE_CHAR ''focused_statusline'',
     DOARRAY3 I3ipc_bar_config_colors I3IPC_TYPE_CHAR ''focused_separator'',
     DOARRAY3 I3ipc_bar_config_colors I3IPC_TYPE_CHAR ''focused_workspace_text'',
     DOARRAY3 I3ipc_bar_config_colors I3IPC_TYPE_CHAR ''focused_workspace_bg'',
     DOARRAY3 I3ipc_bar_config_colors I3IPC_TYPE_CHAR ''focused_workspace_border'',
     DOARRAY3 I3ipc_bar_config_colors I3IPC_TYPE_CHAR ''active_workspace_text'',
     DOARRAY3 I3ipc_bar_config_colors I3IPC_TYPE_CHAR ''active_workspace_bg'',
     DOARRAY3 I3ipc_bar_config_colors I3IPC_TYPE_CHAR ''active_workspace_border'',
     DOARRAY3 I3ipc_bar_config_colors I3IPC_TYPE_CHAR ''inactive_workspace_text'',
     DOARRAY3 I3ipc_bar_config_colors I3IPC_TYPE_CHAR ''inactive_workspace_bg'',
     DOARRAY3 I3ipc_bar_config_colors I3IPC_TYPE_CHAR ''inactive_workspace_border'',
     DOARRAY3 I3ipc_bar_config_colors I3IPC_TYPE_CHAR ''urgent_workspace_text'',
     DOARRAY3 I3ipc_bar_config_colors I3IPC_TYPE_CHAR ''urgent_workspace_bg'',
     DOARRAY3 I3ipc_bar_config_colors I3IPC_TYPE_CHAR ''urgent_workspace_border'',
     DOARRAY3 I3ipc_bar_config_colors I3IPC_TYPE_CHAR ''binding_mode_text'',
     DOARRAY3 I3ipc_bar_config_colors I3IPC_TYPE_CHAR ''binding_mode_bg'',
     DOARRAY3 I3ipc_bar_config_colors I3IPC_TYPE_CHAR ''binding_mode_border'']"

definition fields_bar_config :: "i3_field list" where
  "fields_bar_config = concat [
     DOARRAY I3ipc_bar_config I3IPC_TYPE_CHAR ''id'',
     DOENUM I3ipc_bar_config I3IPC_TYPE_CHAR ''mode'',
     DOENUM I3ipc_bar_config I3IPC_TYPE_CHAR ''position'',
     DOARRAY I3ipc_bar_config I3IPC_TYPE_CHAR ''status_command'',
     DOARRAY I3ipc_bar_config I3IPC_TYPE_CHAR ''font'',
     DOFIELD I3ipc_bar_config I3IPC_TYPE_BOOL ''workspace_buttons'',
     DOFIELD I3ipc_bar_config I3IPC_TYPE_BOOL ''binding_mode_indicator'',
     DOFIELD I3ipc_bar_config I3IPC_TYPE_BOOL ''verbose'',
     DOFIELD I3ipc_bar_config I3IPC_TYPE_BAR_CONFIG_COLORS ''colors'']"

definition fields_reply_command_el :: "i3_field list" where
  "fields_reply_command_el = concat [
     DOFIELD I3ipc_reply_command_el I3IPC_TYPE_BOOL ''success'',
     DOARRAY3 I3ipc_reply_command_el I3IPC_TYPE_CHAR ''error'']"

definition fields_reply_command :: "i3_field list" where
  "fields_reply_command = concat [
     DOARRAY I3ipc_reply_command I3IPC_TYPE_REPLY_COMMAND_EL ''commands'']"

definition fields_reply_workspaces_el :: "i3_field list" where
  "fields_reply_workspaces_el = concat [
     DOFIELD I3ipc_reply_workspaces_el I3IPC_TYPE_SIZET ''id'',
     DOFIELD I3ipc_reply_workspaces_el I3IPC_TYPE_INT ''num'',
     DOARRAY I3ipc_reply_workspaces_el I3IPC_TYPE_CHAR ''name'',
     DOFIELD I3ipc_reply_workspaces_el I3IPC_TYPE_BOOL ''visible'',
     DOFIELD I3ipc_reply_workspaces_el I3IPC_TYPE_BOOL ''focused'',
     DOFIELD I3ipc_reply_workspaces_el I3IPC_TYPE_BOOL ''urgent'',
     DOFIELD I3ipc_reply_workspaces_el I3IPC_TYPE_RECT ''rect'',
     DOARRAY I3ipc_reply_workspaces_el I3IPC_TYPE_CHAR ''output'']"

definition fields_reply_workspaces :: "i3_field list" where
  "fields_reply_workspaces = concat [
     DOARRAY I3ipc_reply_workspaces I3IPC_TYPE_REPLY_WORKSPACES_EL ''workspaces'']"

definition fields_reply_subscribe :: "i3_field list" where
  "fields_reply_subscribe = concat [
     DOFIELD I3ipc_reply_subscribe I3IPC_TYPE_BOOL ''success'']"

definition fields_reply_outputs_el :: "i3_field list" where
  "fields_reply_outputs_el = concat [
     DOARRAY I3ipc_reply_outputs_el I3IPC_TYPE_CHAR ''name'',
     DOFIELD I3ipc_reply_outputs_el I3IPC_TYPE_BOOL ''active'',
     DOFIELD I3ipc_reply_outputs_el I3IPC_TYPE_BOOL ''primary'',
     DOARRAY2 I3ipc_reply_outputs_el I3IPC_TYPE_CHAR ''current_workspace'' {ISOPT},
     DOFIELD I3ipc_reply_outputs_el I3IPC_TYPE_RECT ''rect'']"

definition fields_reply_outputs :: "i3_field list" where
  "fields_reply_outputs = concat [
     DOARRAY I3ipc_reply_outputs I3IPC_TYPE_REPLY_OUTPUTS_EL ''outputs'']"

definition fields_reply_tree :: "i3_field list" where
  "fields_reply_tree = concat [
     DOFIELD I3ipc_reply_tree I3IPC_TYPE_NODE ''root'']"

definition fields_reply_marks :: "i3_field list" where
  "fields_reply_marks = concat [
     DOARRAY I3ipc_reply_marks I3IPC_TYPE_STRING ''marks'']"

definition fields_reply_bar_config_ids :: "i3_field list" where
  "fields_reply_bar_config_ids = concat [
     DOARRAY I3ipc_reply_bar_config_ids I3IPC_TYPE_STRING ''ids'']"

definition fields_reply_bar_config :: "i3_field list" where
  "fields_reply_bar_config = concat [
     DOFIELD I3ipc_reply_bar_config I3IPC_TYPE_BAR_CONFIG ''cfg'']"

definition fields_reply_version :: "i3_field list" where
  "fields_reply_version = concat [
     DOFIELD I3ipc_reply_version I3IPC_TYPE_INT ''major'',
     DOFIELD I3ipc_reply_version I3IPC_TYPE_INT ''minor'',
     DOFIELD I3ipc_reply_version I3IPC_TYPE_INT ''patch'',
     DOARRAY I3ipc_reply_version I3IPC_TYPE_CHAR ''human_readable'',
     DOARRAY I3ipc_reply_version I3IPC_TYPE_CHAR ''loaded_config_file_name'']"

definition fields_reply_binding_modes :: "i3_field list" where
  "fields_reply_binding_modes = concat [
     DOARRAY I3ipc_reply_binding_modes I3IPC_TYPE_STRING ''modes'']"

definition fields_reply_config :: "i3_field list" where
  "fields_reply_config = concat [
     DOARRAY I3ipc_reply_config I3IPC_TYPE_CHAR ''config'']"

definition fields_reply_tick :: "i3_field list" where
  "fields_reply_tick = concat [
     DOFIELD I3ipc_reply_tick I3IPC_TYPE_BOOL ''success'']"

definition fields_reply_sync :: "i3_field list" where
  "fields_reply_sync = concat [
     DOFIELD I3ipc_reply_sync I3IPC_TYPE_BOOL ''success'']"

definition fields_event_workspace :: "i3_field list" where
  "fields_event_workspace = concat [
     DOENUM I3ipc_event_workspace I3IPC_TYPE_CHAR ''change'',
     DOPTR I3ipc_event_workspace I3IPC_TYPE_NODE ''current'',
     DOPTR I3ipc_event_workspace I3IPC_TYPE_NODE ''old'']"

definition fields_event_output :: "i3_field list" where
  "fields_event_output = concat [
     DOENUM I3ipc_event_output I3IPC_TYPE_CHAR ''change'']"

definition fields_event_mode :: "i3_field list" where
  "fields_event_mode = concat [
     DOARRAY I3ipc_event_mode I3IPC_TYPE_CHAR ''change'',
     DOFIELD I3ipc_event_mode I3IPC_TYPE_BOOL ''pango_markup'']"

definition fields_event_window :: "i3_field list" where
  "fields_event_window = concat [
     DOENUM I3ipc_event_window I3IPC_TYPE_CHAR ''change'',
     DOFIELD I3ipc_event_window I3IPC_TYPE_NODE ''container'']"

definition fields_event_barconfig_update :: "i3_field list" where
  "fields_event_barconfig_update = concat [
     DOFIELD I3ipc_event_barconfig_update I3IPC_TYPE_BAR_CONFIG ''cfg'']"

definition fields_event_binding_binding :: "i3_field list" where
  "fields_event_binding_binding = concat [
     DOARRAY I3ipc_event_binding_binding I3IPC_TYPE_CHAR ''command'',
     DOARRAY I3ipc_event_binding_binding I3IPC_TYPE_STRING ''event_state_mask'',
     DOFIELD I3ipc_event_binding_binding I3IPC_TYPE_INT ''input_code'',
     DOARRAY2 I3ipc_event_binding_binding I3IPC_TYPE_CHAR ''symbol'' {ISOPT},
     DOENUM I3ipc_event_binding_binding I3IPC_TYPE_CHAR ''input_type'']"

definition fields_event_binding :: "i3_field list" where
  "fields_event_binding = concat [
     DOENUM I3ipc_event_binding I3IPC_TYPE_CHAR ''change'',
     DOFIELD I3ipc_event_binding I3IPC_TYPE_EVENT_BINDING_BINDING ''binding'']"

definition fields_event_shutdown :: "i3_field list" where
  "fields_event_shutdown = concat [
     DOENUM I3ipc_event_shutdown I3IPC_TYPE_CHAR ''change'']"

definition fields_event_tick :: "i3_field list" where
  "fields_event_tick = concat [
     DOFIELD I3ipc_event_tick I3IPC_TYPE_BOOL ''first'',
     DOARRAY I3ipc_event_tick I3IPC_TYPE_CHAR ''payload'']"

text \<open>For every type whether it is inline, its declaration and its fields, and the order of the table.\<close>

fun type_group :: "type_id \<Rightarrow> bool \<times> c_type \<times> i3_field list" where
  "type_group I3IPC_TYPE_BOOL = (False, (''bool'', C_bool), [])"
| "type_group I3IPC_TYPE_CHAR = (False, (''char'', C_char), [])"
| "type_group I3IPC_TYPE_INT = (False, (''int'', C_int), [])"
| "type_group I3IPC_TYPE_FLOAT = (False, (''float'', C_float), [])"
| "type_group I3IPC_TYPE_SIZET = (False, (''size_t'', C_size), [])"
| "type_group I3IPC_TYPE_RECT = (False, I3ipc_rect, fields_rect)"
| "type_group I3IPC_TYPE_STRING = (False, I3ipc_string, fields_string)"
| "type_group I3IPC_TYPE_NODE_WINDOW_PROPERTIES = (False, I3ipc_node_window_properties, fields_node_window_properties)"
| "type_group I3IPC_TYPE_NODE = (False, I3ipc_node, fields_node)"
| "type_group I3IPC_TYPE_BAR_CONFIG_COLORS = (False, I3ipc_bar_config_colors, fields_bar_config_colors)"
| "type_group I3IPC_TYPE_BAR_CONFIG = (False, I3ipc_bar_config, fields_bar_config)"
| "type_group I3IPC_TYPE_REPLY_COMMAND_EL = (False, I3ipc_reply_command_el, fields_reply_command_el)"
| "type_group I3IPC_TYPE_REPLY_COMMAND = (True, I3ipc_reply_command, fields_reply_command)"
| "type_group I3IPC_TYPE_REPLY_WORKSPACES_EL = (False, I3ipc_reply_workspaces_el, fields_reply_workspaces_el)"
| "type_group I3IPC_TYPE_REPLY_WORKSPACES = (True, I3ipc_reply_workspaces, fields_reply_workspaces)"
| "type_group I3IPC_TYPE_REPLY_SUBSCRIBE = (False, I3ipc_reply_subscribe, fields_reply_subscribe)"
| "type_group I3IPC_TYPE_REPLY_OUTPUTS_EL = (False, I3ipc_reply_outputs_el, fields_reply_outputs_el)"
| "type_group I3IPC_TYPE_REPLY_OUTPUTS = (True, I3ipc_reply_outputs, fields_reply_outputs)"
| "type_group I3IPC_TYPE_REPLY_TREE = (True, I3ipc_reply_tree, fields_reply_tree)"
| "type_group I3IPC_TYPE_REPLY_MARKS = (True, I3ipc_reply_marks, fields_reply_marks)"
| "type_group I3IPC_TYPE_REPLY_BAR_CONFIG_IDS = (True, I3ipc_reply_bar_config_ids, fields_reply_bar_config_ids)"
| "type_group I3IPC_TYPE_REPLY_BAR_CONFIG = (True, I3ipc_reply_bar_config, fields_reply_bar_config)"
| "type_group I3IPC_TYPE_REPLY_VERSION = (False, I3ipc_reply_version, fields_reply_version)"
| "type_group I3IPC_TYPE_REPLY_BINDING_MODES = (True, I3ipc_reply_binding_modes, fields_reply_binding_modes)"
| "type_group I3IPC_TYPE_REPLY_CONFIG = (False, I3ipc_reply_config, fields_reply_config)"
| "type_group I3IPC_TYPE_REPLY_TICK = (False, I3ipc_reply_tick, fields_reply_tick)"
| "type_group I3IPC_TYPE_REPLY_SYNC = (False, I3ipc_reply_sync, fields_reply_sync)"
| "type_group I3IPC_TYPE_EVENT = (False, I3ipc_event, [])"
| "type_group I3IPC_TYPE_EVENT_WORKSPACE = (False, I3ipc_event_workspace, fields_event_workspace)"
| "type_group I3IPC_TYPE_EVENT_OUTPUT = (False, I3ipc_event_output, fields_event_output)"
| "type_group I3IPC_TYPE_EVENT_MODE = (False, I3ipc_event_mode, fields_event_mode)"
| "type_group I3IPC_TYPE_EVENT_WINDOW = (False, I3ipc_event_window, fields_event_window)"
| "type_group I3IPC_TYPE_EVENT_BARCONFIG_UPDATE = (True, I3ipc_event_barconfig_update, fields_event_barconfig_update)"
| "type_group I3IPC_TYPE_EVENT_BINDING_BINDING = (False, I3ipc_event_binding_binding, fields_event_binding_binding)"
| "type_group I3IPC_TYPE_EVENT_BINDING = (False, I3ipc_event_binding, fields_event_binding)"
| "type_group I3IPC_TYPE_EVENT_SHUTDOWN = (False, I3ipc_event_shutdown, fields_event_shutdown)"
| "type_group I3IPC_TYPE_EVENT_TICK = (False, I3ipc_event_tick, fields_event_tick)"

definition type_order :: "type_id list" where
  "type_order = [
     I3IPC_TYPE_BOOL, I3IPC_TYPE_CHAR, I3IPC_TYPE_INT, I3IPC_TYPE_FLOAT, I3IPC_TYPE_SIZET,
     I3IPC_TYPE_RECT, I3IPC_TYPE_STRING, I3IPC_TYPE_NODE_WINDOW_PROPERTIES, I3IPC_TYPE_NODE,
     I3IPC_TYPE_BAR_CONFIG_COLORS, I3IPC_TYPE_BAR_CONFIG, I3IPC_TYPE_REPLY_COMMAND_EL,
     I3IPC_TYPE_REPLY_COMMAND, I3IPC_TYPE_REPLY_WORKSPACES_EL, I3IPC_TYPE_REPLY_WORKSPACES,
     I3IPC_TYPE_REPLY_SUBSCRIBE, I3IPC_TYPE_REPLY_OUTPUTS_EL, I3IPC_TYPE_REPLY_OUTPUTS,
     I3IPC_TYPE_REPLY_TREE, I3IPC_TYPE_REPLY_MARKS, I3IPC_TYPE_REPLY_BAR_CONFIG_IDS,
     I3IPC_TYPE_REPLY_BAR_CONFIG, I3IPC_TYPE_REPLY_VERSION, I3IPC_TYPE_REPLY_BINDING_MODES,
     I3IPC_TYPE_REPLY_CONFIG, I3IPC_TYPE_REPLY_TICK, I3IPC_TYPE_REPLY_SYNC, I3IPC_TYPE_EVENT,
     I3IPC_TYPE_EVENT_WORKSPACE, I3IPC_TYPE_EVENT_OUTPUT, I3IPC_TYPE_EVENT_MODE,
     I3IPC_TYPE_EVENT_WINDOW, I3IPC_TYPE_EVENT_BARCONFIG_UPDATE, I3IPC_TYPE_EVENT_BINDING_BINDING,
     I3IPC_TYPE_EVENT_BINDING, I3IPC_TYPE_EVENT_SHUTDOWN, I3IPC_TYPE_EVENT_TICK]"

section \<open>The table and its initialisation\<close>

text \<open>
  \<open>i3ipc__global_fields\<close>: the marker of a type stands in front of its fields, and a marker without
  a type behind the last one.
\<close>

datatype i3_entry = Marker "type_id option" bool c_type | Field i3_field

definition table_rows :: "type_id \<Rightarrow> i3_entry list" where
  "table_rows T = (case type_group T of (inl, C, fs) \<Rightarrow> Marker (Some T) inl C # map Field fs)"

definition global_fields :: "i3_entry list" where
  "global_fields = concat (map table_rows type_order) @ [Marker None False (''char'', C_char)]"

record i3_type =
  type_no :: type_id
  is_primitive :: bool
  is_inline :: bool
  tsize :: nat
  alignment :: nat
  type_fields :: "i3_field list"
  type_name :: string

definition primitive_types :: "type_id list" where
  "primitive_types =
     [I3IPC_TYPE_BOOL, I3IPC_TYPE_CHAR, I3IPC_TYPE_INT, I3IPC_TYPE_FLOAT, I3IPC_TYPE_SIZET]"

text \<open>The fields up to the next marker, and the name of one that differs in JSON.\<close>

definition set_json_name :: "i3_field \<Rightarrow> i3_field" where
  "set_json_name f =
     f\<lparr>json_name := Some (if full_name f = ''I3ipc_node_window_properties.window_class'' then ''class'' else fname f)\<rparr>"

fun fields_behind :: "i3_entry list \<Rightarrow> i3_field list" where
  "fields_behind (Field f # r) = set_json_name f # fields_behind r"
| "fields_behind _ = []"

fun init_loop :: "i3_entry list \<Rightarrow> (type_id \<Rightarrow> i3_type option) \<Rightarrow> type_id \<Rightarrow> i3_type option" where
  "init_loop [] ts = ts"
| "init_loop (Marker None inl C # r) ts = init_loop r ts"
| "init_loop (Marker (Some T) inl C # r) ts =
     init_loop r (ts(T \<mapsto> \<lparr>type_no = T, is_primitive = T \<in> set primitive_types, is_inline = inl,
       tsize = sizeof (snd C), alignment = alignof (snd C), type_fields = fields_behind r, type_name = fst C\<rparr>))"
| "init_loop (Field f # r) ts = init_loop r ts"

definition global_types :: "type_id \<Rightarrow> i3_type option" where
  "global_types = init_loop global_fields (\<lambda>_. None)"

definition type_get :: "type_id \<Rightarrow> i3_type outcome" where
  "type_get T = (case global_types T of None \<Rightarrow> Abort | Some t \<Rightarrow> assert_then (type_no t = T) (Ret t))"

text \<open>The values of the fields that are enumerations, in the order of their numbers.\<close>

definition global_enums :: "string option list" where
  "global_enums = [
     Some ''$I3ipc_node.type'', Some ''root'', Some ''output'', Some ''con'',
     Some ''floating_con'', Some ''workspace'', Some ''dockarea'', Some ''$I3ipc_node.border'',
     Some ''normal'', Some ''none'', Some ''pixel'', Some ''$I3ipc_node.layout'', Some ''splith'',
     Some ''splitv'', Some ''stacked'', Some ''tabbed'', Some ''dockarea'', Some ''output'',
     Some ''$I3ipc_node.orientation'', Some ''none'', Some ''horizontal'', Some ''vertical'',
     Some ''$I3ipc_node.window_type'', None, Some ''normal'', Some ''dialog'', Some ''utility'',
     Some ''toolbar'', Some ''splash'', Some ''menu'', Some ''dropdown_menu'', Some ''popup_menu'',
     Some ''tooltip'', Some ''notification'', Some ''dock'', Some ''unknown'',
     Some ''$I3ipc_bar_config.mode'', Some ''dock'', Some ''hide'',
     Some ''$I3ipc_bar_config.position'', Some ''bottom'', Some ''top'',
     Some ''$I3ipc_event_workspace.change'', Some ''focus'', Some ''init'', Some ''empty'',
     Some ''urgent'', Some ''reload'', Some ''rename'', Some ''restored'', Some ''move'',
     Some ''$I3ipc_event_output.change'', Some ''unspecified'',
     Some ''$I3ipc_event_window.change'', Some ''new'', Some ''close'', Some ''focus'',
     Some ''title'', Some ''fullscreen_mode'', Some ''move'', Some ''floating'', Some ''urgent'',
     Some ''mark'', Some ''$I3ipc_event_binding.change'', Some ''run'',
     Some ''$I3ipc_event_binding.input_type'', Some ''keyboard'', Some ''mouse'',
     Some ''$I3ipc_event_shutdown.change'', Some ''restart'', Some ''exit'', Some ''$$'']"

section \<open>The lookup succeeds\<close>

definition described :: "type_id \<Rightarrow> i3_type" where
  "described T = (case type_group T of (inl, C, fs) \<Rightarrow>
     \<lparr>type_no = T, is_primitive = T \<in> set primitive_types, is_inline = inl, tsize = sizeof (snd C),
      alignment = alignof (snd C), type_fields = map set_json_name fs, type_name = fst C\<rparr>)"

lemma fields_behind_map: "fields_behind (map Field fs @ Marker a b c # r) = map set_json_name fs"
  by (induction fs) simp_all

lemma init_loop_fields: "init_loop (map Field fs @ r) ts = init_loop r ts"
  by (induction fs) simp_all

lemma init_loop_rows:
  "init_loop (concat (map table_rows Ts) @ [Marker None a b]) ts T =
     (if T \<in> set Ts then Some (described T) else ts T)"
proof (induction Ts arbitrary: ts)
  case (Cons U Us)
  obtain inl C fs where g: "type_group U = (inl, C, fs)" by (cases "type_group U") auto
  obtain m n k r where r: "concat (map table_rows Us) @ [Marker None a b] = Marker m n k # r"
  proof (cases Us)
    case (Cons V Vs)
    then show ?thesis using that by (cases "type_group V") (simp add: table_rows_def)
  qed (use that in simp)
  have row: "table_rows U = Marker (Some U) inl C # map Field fs" by (simp add: table_rows_def g)
  have "fields_behind (map Field fs @ concat (map table_rows Us) @ [Marker None a b]) = map set_json_name fs"
    unfolding r by (rule fields_behind_map)
  then have step: "init_loop (concat (map table_rows (U # Us)) @ [Marker None a b]) ts =
      init_loop (concat (map table_rows Us) @ [Marker None a b]) (ts(U \<mapsto> described U))"
    by (simp add: row described_def g init_loop_fields)
  show ?case unfolding step Cons by auto
qed simp

lemma type_order_all: "T \<in> set type_order"
  by (cases T) (simp_all add: type_order_def)

lemma type_get_described [simp]: "type_get T = Ret (described T)"
proof -
  have "global_types T = Some (described T)"
    unfolding global_types_def global_fields_def init_loop_rows by (simp add: type_order_all)
  then show ?thesis by (simp add: type_get_def described_def split: prod.split)
qed

end
