(* ===== verification/I3_Table.thy ===== *)
theory I3_Table
  imports I3_Types
begin

text \<open>
  \<open>i3ipc.h\<close>, what the table of types promises to the parser: every field lies inside its structure, no
  two overlap, and the combinations of types and flags are ones that the parser handles.
\<close>

section \<open>Members stay inside their structure and do not overlap\<close>

lemma align_up_ge: "0 < a \<Longrightarrow> off \<le> align_up off a"
proof -
  assume a: "0 < a"
  have "off + a - 1 = (off + a - 1) div a * a + (off + a - 1) mod a" by simp
  moreover have "(off + a - 1) mod a \<le> a - 1" using a mod_less_divisor [of a "off + a - 1"] by linarith
  ultimately show ?thesis using a unfolding align_up_def by linarith
qed

lemma align_up_dvd [simp]: "a dvd align_up off a"
  by (simp add: align_up_def)

lemma alignof_pos: "0 < alignof t" "0 < members_align ms"
  by (induction t and ms rule: alignof_members_align.induct) auto

lemma members_end_ge: "off \<le> members_end off ms"
proof (induction ms arbitrary: off)
  case (Cons m ms)
  obtain n t where m: "m = (n, t)" by (cases m)
  have "off \<le> align_up off (alignof t) + sizeof t" using align_up_ge [OF alignof_pos(1), of off t] by simp
  also have "\<dots> \<le> members_end (align_up off (alignof t) + sizeof t) ms" by (rule Cons)
  finally show ?case by (simp add: m)
qed simp

lemma member_offset_inside:
  assumes "distinct (map fst ms)" "(n, t) \<in> set ms"
  shows "off \<le> member_offset off ms n \<and> member_offset off ms n + sizeof t \<le> members_end off ms"
  using assms
proof (induction ms arbitrary: off)
  case (Cons m ms)
  obtain k u where m: "m = (k, u)" by (cases m)
  let ?o = "align_up off (alignof u)"
  note ge = align_up_ge [OF alignof_pos(1), of off u] members_end_ge [of "?o + sizeof u" ms]
  show ?case
  proof (cases "k = n")
    case True
    then have "t = u" using Cons.prems m by (auto intro: rev_image_eqI)
    then show ?thesis using ge True by (simp add: m Let_def)
  next
    case False
    then show ?thesis using Cons.IH [of "?o + sizeof u"] Cons.prems ge by (simp add: m Let_def)
  qed
qed simp

lemma member_offset_disjoint:
  assumes "distinct (map fst ms)" "(n, t) \<in> set ms" "(n', t') \<in> set ms" "n \<noteq> n'"
  shows "member_offset off ms n + sizeof t \<le> member_offset off ms n' \<or>
    member_offset off ms n' + sizeof t' \<le> member_offset off ms n"
  using assms
proof (induction ms arbitrary: off)
  case (Cons m ms)
  obtain k u where m: "m = (k, u)" by (cases m)
  let ?o = "align_up off (alignof u)"
  have d: "distinct (map fst ms)" "k \<notin> fst ` set ms" using Cons.prems(1) by (simp_all add: m)
  consider "k = n" | "k = n'" | "k \<noteq> n" "k \<noteq> n'" by blast
  then show ?case
  proof cases
    case 1
    then have "t = u" "(n', t') \<in> set ms" using Cons.prems d by (auto simp: m intro: rev_image_eqI)
    then show ?thesis
      using member_offset_inside [OF d(1), of n' t' "?o + sizeof u"] 1 Cons.prems(4) by (simp add: m Let_def)
  next
    case 2
    then have "t' = u" "(n, t) \<in> set ms" using Cons.prems d by (auto simp: m intro: rev_image_eqI)
    then show ?thesis
      using member_offset_inside [OF d(1), of n t "?o + sizeof u"] 2 Cons.prems(4) by (simp add: m Let_def)
  next
    case 3
    then show ?thesis using Cons.IH [of "?o + sizeof u"] Cons.prems d by (simp add: m Let_def)
  qed
qed simp

section \<open>The table describes the structures\<close>

text \<open>The bytes a field of these flags takes.\<close>

definition room :: "type_id \<Rightarrow> type_flags \<Rightarrow> nat" where
  "room T fl = (if ISARRAY \<in> fl \<or> ISPTR \<in> fl then 8 else tsize (described T))"

text \<open>The fields stand for the last members of the structure, in their order; in front of them the events have their type.\<close>

definition fields_match :: "c_layout \<Rightarrow> i3_field list \<Rightarrow> bool" where
  "fields_match C fs \<longleftrightarrow>
     map (\<lambda>f. (fname f, room (ftype f) (flags f))) fs =
     map (\<lambda>(n, t). (n, sizeof t)) (drop (length (members C) - length fs) (members C))"

lemma tsize_described: "tsize (described T) = sizeof (snd (fst (snd (type_group T))))"
  by (simp add: described_def split: prod.split)

lemmas field_defs = DOFIELD2_def DOFIELD_def DOPTR_def DOMAYBE_def DOARRAY2_def DOARRAY3_def DOENUM2_def
  DOARRAY_def DOENUM_def

lemma I3ipc_rect_size [simp]: "sizeof (snd I3ipc_rect) = 16" "alignof (snd I3ipc_rect) = 4"
  by (simp_all add: I3ipc_rect_def align_up_def)

lemma I3ipc_node_size [simp]: "sizeof (snd I3ipc_node) = 272" "alignof (snd I3ipc_node) = 8"
  by (simp_all add: I3ipc_node_def align_up_def)

lemma I3ipc_bar_config_colors_size [simp]: "sizeof (snd I3ipc_bar_config_colors) = 336" "alignof (snd I3ipc_bar_config_colors) = 8"
  by (simp_all add: I3ipc_bar_config_colors_def align_up_def)

lemma I3ipc_bar_config_size [simp]: "sizeof (snd I3ipc_bar_config) = 416" "alignof (snd I3ipc_bar_config) = 8"
  by (simp_all add: I3ipc_bar_config_def align_up_def)

lemma I3ipc_event_binding_binding_size [simp]: "sizeof (snd I3ipc_event_binding_binding) = 64" "alignof (snd I3ipc_event_binding_binding) = 8"
  by (simp_all add: I3ipc_event_binding_binding_def align_up_def)

lemmas inner_structs =
  I3ipc_rect_def I3ipc_node_def I3ipc_bar_config_colors_def I3ipc_bar_config_def
  I3ipc_event_binding_binding_def

lemmas outer_structs =
  I3ipc_string_def I3ipc_node_window_properties_def I3ipc_reply_command_el_def
  I3ipc_reply_command_def I3ipc_reply_workspaces_el_def I3ipc_reply_workspaces_def
  I3ipc_reply_subscribe_def I3ipc_reply_outputs_el_def I3ipc_reply_outputs_def
  I3ipc_reply_tree_def I3ipc_reply_marks_def I3ipc_reply_bar_config_ids_def
  I3ipc_reply_bar_config_def I3ipc_reply_version_def I3ipc_reply_binding_modes_def
  I3ipc_reply_config_def I3ipc_reply_tick_def I3ipc_reply_sync_def I3ipc_event_workspace_def
  I3ipc_event_output_def I3ipc_event_mode_def I3ipc_event_window_def
  I3ipc_event_barconfig_update_def I3ipc_event_binding_def I3ipc_event_shutdown_def
  I3ipc_event_tick_def I3ipc_event_def

lemmas inner_fields =
  fields_rect_def fields_node_def fields_bar_config_colors_def fields_bar_config_def
  fields_event_binding_binding_def

lemmas outer_fields =
  fields_string_def fields_node_window_properties_def fields_reply_command_el_def
  fields_reply_command_def fields_reply_workspaces_el_def fields_reply_workspaces_def
  fields_reply_subscribe_def fields_reply_outputs_el_def fields_reply_outputs_def
  fields_reply_tree_def fields_reply_marks_def fields_reply_bar_config_ids_def
  fields_reply_bar_config_def fields_reply_version_def fields_reply_binding_modes_def
  fields_reply_config_def fields_reply_tick_def fields_reply_sync_def
  fields_event_workspace_def fields_event_output_def fields_event_mode_def
  fields_event_window_def fields_event_barconfig_update_def fields_event_binding_def
  fields_event_shutdown_def fields_event_tick_def

lemma rect_match: "fields_match (snd I3ipc_rect) fields_rect"
  by (simp add: I3ipc_rect_def fields_rect_def field_defs fields_match_def room_def tsize_described)

lemma node_match: "fields_match (snd I3ipc_node) fields_node"
  by (simp add: I3ipc_node_def fields_node_def field_defs fields_match_def room_def tsize_described)

lemma bar_config_colors_match: "fields_match (snd I3ipc_bar_config_colors) fields_bar_config_colors"
  by (simp add: I3ipc_bar_config_colors_def fields_bar_config_colors_def field_defs fields_match_def room_def tsize_described)

lemma bar_config_match: "fields_match (snd I3ipc_bar_config) fields_bar_config"
  by (simp add: I3ipc_bar_config_def fields_bar_config_def field_defs fields_match_def room_def tsize_described)

lemma event_binding_binding_match: "fields_match (snd I3ipc_event_binding_binding) fields_event_binding_binding"
  by (simp add: I3ipc_event_binding_binding_def fields_event_binding_binding_def field_defs fields_match_def room_def tsize_described)

lemmas inner_match = rect_match node_match bar_config_colors_match bar_config_match event_binding_binding_match

text \<open>Checked for every type in turn.\<close>

lemma table_matches: "case type_group T of (inl, C, fs) \<Rightarrow> fields_match (snd C) fs"
  by (cases T) (simp_all add: inner_match, simp_all add: outer_structs outer_fields field_defs fields_match_def room_def tsize_described)

lemma members_distinct: "case type_group T of (inl, C, fs) \<Rightarrow> distinct (map fst (members (snd C)))"
  by (cases T) (simp_all add: inner_structs outer_structs)


lemma offsets_from_struct:
  "case type_group T of (inl, C, fs) \<Rightarrow> list_all (\<lambda>f. foffset f = offsetof (snd C) (fname f)) fs"
  by (cases T) (simp_all add: field_defs, simp_all add: inner_fields outer_fields field_defs)

section \<open>What the table promises\<close>

text \<open>The combinations of type and flags that the parser can handle.\<close>

definition usable :: "type_id \<Rightarrow> type_flags \<Rightarrow> bool" where
  "usable T fg \<longleftrightarrow> T \<noteq> I3IPC_TYPE_EVENT \<and> (T = I3IPC_TYPE_CHAR \<longrightarrow> ISARRAY \<in> fg) \<and>
     fg \<inter> GROUP_DERIVED = {} \<and> (ISARRAY \<in> fg \<or> fg - GROUP_MAYBE = {}) \<and> \<not> (ISPTR \<in> fg \<and> ISARRAY \<in> fg)"

definition derived_ok :: "i3_field \<Rightarrow> bool" where
  "derived_ok f \<longleftrightarrow> (ftype f = I3IPC_TYPE_INT \<and> (flags f = {ISSIZE} \<or> flags f = {ISENUM})) \<or>
     (ftype f = I3IPC_TYPE_BOOL \<and> flags f = {ISFLAG})"

definition field_ok :: "i3_field \<Rightarrow> bool" where
  "field_ok f \<longleftrightarrow> (if derived f then derived_ok f else usable (ftype f) (flags f))"

lemma described_fields: "type_fields (described T) = map set_json_name (snd (snd (type_group T)))"
  by (simp add: described_def split: prod.split)

lemma set_json_name_simps [simp]:
  "ftype (set_json_name f) = ftype f" "flags (set_json_name f) = flags f" "fname (set_json_name f) = fname f"
  "foffset (set_json_name f) = foffset f" "derived (set_json_name f) = derived f"
  "field_ok (set_json_name f) = field_ok f"
  by (simp_all add: set_json_name_def derived_def field_ok_def derived_ok_def)

lemma flag_sets [simp]:
  "ISSIZE \<in> GROUP_DERIVED" "ISENUM \<in> GROUP_DERIVED" "ISFLAG \<in> GROUP_DERIVED"
  "ISARRAY \<notin> GROUP_DERIVED" "ISPTR \<notin> GROUP_DERIVED" "ISOPT \<notin> GROUP_DERIVED" "ISOMIT \<notin> GROUP_DERIVED"
  "ISPTR \<in> GROUP_MAYBE" "ISOPT \<in> GROUP_MAYBE" "ISARRAY \<notin> GROUP_MAYBE" "ISOMIT \<notin> GROUP_MAYBE"
  by (simp_all add: GROUP_DERIVED_def GROUP_MAYBE_def)

lemma table_fields_ok: "list_all field_ok (type_fields (described T))"
  unfolding described_fields list_all_iff
  by (cases T) (simp_all add: inner_fields outer_fields field_defs field_ok_def usable_def derived_ok_def derived_def)

lemma table_inline:
  assumes "is_inline (described T)"
  shows "\<exists>f fs. type_fields (described T) = f # fs \<and> list_all derived fs \<and> usable (ftype f) (flags f) \<and> \<not> derived f \<and>
    flags f \<inter> GROUP_MAYBE = {} \<and> (ISARRAY \<in> flags f \<or> \<not> is_inline (described (ftype f)))"
  using assms
  by (cases T) (simp_all add: described_def outer_fields field_defs usable_def derived_def set_json_name_def)


text \<open>Where the fields lie.\<close>

lemma field_row:
  assumes "f \<in> set (type_fields (described T))"
  shows "\<exists>t. (fname f, t) \<in> set (members (snd (fst (snd (type_group T))))) \<and> sizeof t = room (ftype f) (flags f) \<and>
    foffset f = member_offset 0 (members (snd (fst (snd (type_group T))))) (fname f)"
proof -
  obtain inl C fs where g: "type_group T = (inl, C, fs)" by (cases "type_group T") auto
  let ?ms = "members (snd C)"
  obtain f0 where f0: "f0 \<in> set fs" "f = set_json_name f0" using assms by (auto simp: described_fields g)
  have m: "map (\<lambda>f. (fname f, room (ftype f) (flags f))) fs =
      map (\<lambda>(n, t). (n, sizeof t)) (drop (length ?ms - length fs) ?ms)"
    using table_matches [of T] by (simp add: g fields_match_def)
  have "(fname f0, room (ftype f0) (flags f0)) \<in> set (map (\<lambda>f. (fname f, room (ftype f) (flags f))) fs)"
    using f0(1) by auto
  then obtain t where "(fname f0, t) \<in> set ?ms" "sizeof t = room (ftype f0) (flags f0)"
    unfolding m by (auto dest: in_set_dropD)
  moreover have "foffset f0 = offsetof (snd C) (fname f0)"
    using offsets_from_struct [of T] f0(1) by (simp add: g list_all_iff)
  ultimately show ?thesis by (auto simp: f0(2) g offsetof_def)
qed

lemma struct_of_fields:
  assumes "type_fields (described T) \<noteq> []"
  shows "\<exists>ms. snd (fst (snd (type_group T))) = C_struct ms"
  using assms
  by (cases T) (simp_all add: described_fields inner_structs outer_structs)

lemma field_inside:
  assumes "f \<in> set (type_fields (described T))"
  shows "foffset f + room (ftype f) (flags f) \<le> tsize (described T)"
proof -
  obtain ms where ms: "snd (fst (snd (type_group T))) = C_struct ms"
    using struct_of_fields [of T] assms by (cases "type_fields (described T)") auto
  have d: "distinct (map fst ms)" using members_distinct [of T] ms by (cases "type_group T") auto
  obtain t where t: "(fname f, t) \<in> set ms" "sizeof t = room (ftype f) (flags f)" "foffset f = member_offset 0 ms (fname f)"
    using field_row [OF assms] ms by auto
  have "foffset f + room (ftype f) (flags f) \<le> members_end 0 ms"
    using member_offset_inside [OF d t(1), of 0] t(2,3) by simp
  also have "\<dots> \<le> sizeof (C_struct ms)" using align_up_ge [OF alignof_pos(2)] by simp
  finally show ?thesis by (simp add: tsize_described ms)
qed

lemma fields_apart:
  assumes "f \<in> set (type_fields (described T))" "g \<in> set (type_fields (described T))" "fname f \<noteq> fname g"
  shows "foffset f + room (ftype f) (flags f) \<le> foffset g \<or> foffset g + room (ftype g) (flags g) \<le> foffset f"
proof -
  obtain inl C fs where g: "type_group T = (inl, C, fs)" by (cases "type_group T") auto
  have d: "distinct (map fst (members (snd C)))" using members_distinct [of T] by (simp add: g)
  obtain t u where tu: "(fname f, t) \<in> set (members (snd C))" "(fname g, u) \<in> set (members (snd C))"
    "sizeof t = room (ftype f) (flags f)" "sizeof u = room (ftype g) (flags g)"
    "foffset f = member_offset 0 (members (snd C)) (fname f)" "foffset g = member_offset 0 (members (snd C)) (fname g)"
    using field_row [OF assms(1)] field_row [OF assms(2)] by (auto simp: g)
  show ?thesis using member_offset_disjoint [OF d tu(1,2) assms(3), of 0] tu(3-6) by simp
qed

lemma primitive_sizes [simp]:
  "tsize (described I3IPC_TYPE_BOOL) = 1" "tsize (described I3IPC_TYPE_INT) = 4" "tsize (described I3IPC_TYPE_CHAR) = 1"
  "tsize (described I3IPC_TYPE_FLOAT) = 4" "tsize (described I3IPC_TYPE_SIZET) = 8" "tsize (described I3IPC_TYPE_STRING) = 16"
  by (simp_all add: tsize_described outer_structs align_up_def)

lemma string_fields [simp]:
  "foffset (type_fields (described I3IPC_TYPE_STRING) ! 0) = 0" "foffset (type_fields (described I3IPC_TYPE_STRING) ! Suc 0) = 8"
  by (simp_all add: described_fields outer_structs outer_fields field_defs offsetof_def align_up_def Let_def)

end
