(* ===== verification/I3_Parse.thy ===== *)
theory I3_Parse
  imports Floats I3_Table
begin

text \<open>
  \<open>i3ipc.h\<close>, the parser of replies and events.  It walks over the tokens of a message twice: the
  first pass collects the sizes of the blocks of memory that are needed, which are then laid out
  behind each other; the second one fills them.  Memory is the list of its cells; a pointer or a
  \<open>float\<close> takes several of them.  An address is an offset from the start of that memory, and a
  pointer into the message is the text it points to, which a zero byte follows.  An access outside
  the memory is \<open>Undefined\<close>.  \<open>fuel\<close> bounds the depth of the recursion.
\<close>

section \<open>Memory\<close>

datatype pointer = Null | At nat | Text "byte list"

datatype cell = Byte byte | Pointer_part pointer nat | Float_part rat nat

definition put :: "nat \<Rightarrow> cell list \<Rightarrow> cell list \<Rightarrow> cell list outcome" where
  "put off cs mem =
     (if off + length cs \<le> length mem then Ret (take off mem @ cs @ drop (off + length cs) mem) else Undefined)"

definition get_cells :: "nat \<Rightarrow> nat \<Rightarrow> cell list \<Rightarrow> cell list outcome" where
  "get_cells off n mem = (if off + n \<le> length mem then Ret (take n (drop off mem)) else Undefined)"

definition bool_cells :: "bool \<Rightarrow> cell list" where
  "bool_cells b = [Byte (if b then 1 else 0)]"

definition int_cells :: "int \<Rightarrow> cell list" where
  "int_cells i = map Byte (le32 i)"

definition size_cells :: "64 word \<Rightarrow> cell list" where
  "size_cells w = map (\<lambda>i. Byte (ucast (drop_bit (8 * i) w))) [0..<8]"

definition float_cells :: "rat \<Rightarrow> cell list" where
  "float_cells x = map (Float_part x) [0..<4]"

definition pointer_cells :: "pointer \<Rightarrow> cell list" where
  "pointer_cells p = (if p = Null then replicate 8 (Byte 0) else map (Pointer_part p) [0..<8])"

text \<open>The string at an address.\<close>

fun c_string :: "cell list \<Rightarrow> byte list outcome" where
  "c_string (Byte b # r) = (if b = 0 then Ret [] else obind (c_string r) (\<lambda>s. Ret (b # s)))"
| "c_string _ = Undefined"

text \<open>
  The \<open>double\<close> that the scanner computes for a number: digit by digit, then the fraction.
\<close>

definition token_double :: "json_number \<Rightarrow> rat" where
  "token_double n =
     (let val = fold (\<lambda>d v. db (db (10 * v) + of_nat (unat d - 48))) (dec (whole n)) 0;
          x = (if frac_den n = 1 then val else db (val + db (db (of_nat (frac_num n)) / db (of_nat (frac_den n)))))
      in if negative n then - x else x)"

section \<open>The state\<close>

record parse_state =
  p_context :: i3
  p_state :: json_state
  p_allocs :: "(nat \<times> nat) list"
  p_allocs_size :: nat
  p_memory :: "cell list option"
  p_copy_strings :: bool
  p_next_size :: int
  p_next_enum :: pointer
  p_next_set :: bool

text \<open>A store, which only the second pass makes.\<close>

definition store :: "nat \<Rightarrow> cell list \<Rightarrow> parse_state \<Rightarrow> parse_state outcome" where
  "store off cs p =
     (case p_memory p of
        None \<Rightarrow> Undefined
      | Some mem \<Rightarrow> obind (put off cs mem) (\<lambda>mem1. Ret (p\<lparr>p_memory := Some mem1\<rparr>)))"

definition store_if :: "nat option \<Rightarrow> cell list \<Rightarrow> parse_state \<Rightarrow> parse_state outcome" where
  "store_if base cs p = (case base of None \<Rightarrow> Ret p | Some b \<Rightarrow> store b cs p)"

definition string_at :: "pointer \<Rightarrow> parse_state \<Rightarrow> byte list outcome" where
  "string_at ptr p =
     (case ptr of
        Null \<Rightarrow> Undefined
      | Text s \<Rightarrow> Ret (cstr s)
      | At a \<Rightarrow> (case p_memory p of None \<Rightarrow> Undefined | Some mem \<Rightarrow> c_string (drop a mem)))"

section \<open>Fields\<close>

text \<open>The first field of that name that is not derived.\<close>

fun find_field :: "nat \<Rightarrow> i3_field list \<Rightarrow> byte list \<Rightarrow> nat option" where
  "find_field i [] key = None"
| "find_field i (f # fs) key =
     (if \<not> derived f \<and> map_option bytes (json_name f) = Some (cstr key) then Some i else find_field (Suc i) fs key)"

definition skip_fuel :: "json_state \<Rightarrow> nat" where
  "skip_fuel st = 2 * length (tokens st) + 2"

text \<open>\<open>i3ipc__parse_loopfields\<close>; \<open>j\<close> is zero in front of the first field.\<close>

fun loopfields :: "nat \<Rightarrow> i3_field list \<Rightarrow> nat \<Rightarrow> json_state \<Rightarrow> (nat option \<times> json_state) outcome" where
  "loopfields 0 fs j st = Block"
| "loopfields (Suc fuel) fs j st =
     obind (json_loopobj j st) (\<lambda>(again, key, st1).
       if \<not> again then Ret (None, st1)
       else case find_field 0 fs (str key) of
              Some i \<Rightarrow> Ret (Some i, st1)
            | None \<Rightarrow> obind (json_skip (skip_fuel st1) st1) (\<lambda>(code, st2).
                if code \<noteq> 0 then Ret (None, st2) else loopfields fuel fs 1 st2))"

text \<open>The number of an enumeration's value: the place among the names behind the marker of the field.\<close>

fun enum_start :: "nat \<Rightarrow> string option list \<Rightarrow> string \<Rightarrow> nat option" where
  "enum_start j [] nm = None"
| "enum_start j (s # r) nm = (if s = Some (CHR ''$'' # nm) then Some (Suc j) else enum_start (Suc j) r nm)"

definition is_marker :: "string option \<Rightarrow> bool" where
  "is_marker s \<longleftrightarrow> (case s of Some (c # _) \<Rightarrow> c = CHR ''$'' | _ \<Rightarrow> False)"

fun enum_loop :: "int \<Rightarrow> string option list \<Rightarrow> byte list option \<Rightarrow> int outcome" where
  "enum_loop k [] val = Undefined"
| "enum_loop k (s # r) val =
     (if is_marker s then Ret (- 1)
      else if map_option bytes s = val then Ret k else enum_loop (k + 1) r val)"

definition enum_value :: "string \<Rightarrow> byte list option \<Rightarrow> int option outcome" where
  "enum_value nm val =
     (case enum_start 0 global_enums nm of
        None \<Rightarrow> Ret None
      | Some start \<Rightarrow> obind (enum_loop 0 (drop start global_enums) val) (\<lambda>v. Ret (Some v)))"

text \<open>\<open>i3ipc__parse_doderived\<close>: the fields behind the one that was parsed.\<close>

definition next_enum_text :: "parse_state \<Rightarrow> byte list option outcome" where
  "next_enum_text p =
     (if p_next_enum p = Null then Ret None else obind (string_at (p_next_enum p) p) (\<lambda>s. Ret (Some s)))"

definition store_derived :: "string \<Rightarrow> nat \<Rightarrow> i3_field \<Rightarrow> parse_state \<Rightarrow> parse_state outcome" where
  "store_derived nm base f p =
     (if ISSIZE \<in> flags f then
        assert_then (ftype f = I3IPC_TYPE_INT) (store (base + foffset f) (int_cells (p_next_size p)) p)
      else if ISFLAG \<in> flags f then
        assert_then (ftype f = I3IPC_TYPE_BOOL) (store (base + foffset f) (bool_cells (p_next_set p)) p)
      else if ISENUM \<in> flags f then
        assert_then (ftype f = I3IPC_TYPE_INT)
          (obind (next_enum_text p) (\<lambda>val.
           obind (enum_value nm val) (\<lambda>v.
             case v of None \<Rightarrow> Ret p | Some k \<Rightarrow> store (base + foffset f) (int_cells k) p)))
      else Abort)"

fun doderived_loop :: "string \<Rightarrow> nat \<Rightarrow> i3_field list \<Rightarrow> parse_state \<Rightarrow> parse_state outcome" where
  "doderived_loop nm base [] p = Ret p"
| "doderived_loop nm base (f # fs) p =
     (if \<not> derived f then Ret p else obind (store_derived nm base f p) (doderived_loop nm base fs))"

definition doderived :: "i3_type \<Rightarrow> nat \<Rightarrow> nat option \<Rightarrow> parse_state \<Rightarrow> parse_state outcome" where
  "doderived type field base p =
     (case base of
        None \<Rightarrow> Ret p
      | Some b \<Rightarrow> doderived_loop (full_name (type_fields type ! field)) b (drop (Suc field) (type_fields type)) p)"

section \<open>Blocks\<close>

definition sizeof_alloc :: nat where
  "sizeof_alloc = 16"

text \<open>\<open>i3ipc__parse_alloc\<close>: the first pass notes the block and returns the null pointer.\<close>

definition parse_alloc :: "nat \<Rightarrow> nat \<Rightarrow> parse_state \<Rightarrow> (nat option \<times> parse_state) outcome" where
  "parse_alloc sz align p =
     (let k = p_allocs_size p
      in case p_memory p of
           None \<Rightarrow>
             Ret (None, p\<lparr>p_context := context_reserve CONTEXT_ALLOCS ((k + 1) * sizeof_alloc) (p_context p),
                          p_allocs := take k (p_allocs p) @ [(sz, align)], p_allocs_size := k + 1\<rparr>)
         | Some mem \<Rightarrow>
             if k < length (p_allocs p) then Ret (Some (fst (p_allocs p ! k)), p\<lparr>p_allocs_size := k + 1\<rparr>)
             else Undefined)"

text \<open>The size of an array's block is not yet known when it is noted; its mark is -1.\<close>

definition unknown_size :: nat where
  "unknown_size = 2 ^ 64 - 1"

section \<open>The two passes\<close>

definition is_string_type :: "type_id \<Rightarrow> type_flags \<Rightarrow> bool" where
  "is_string_type T fg \<longleftrightarrow>
     (T = I3IPC_TYPE_STRING \<and> fg = {}) \<or> (T = I3IPC_TYPE_CHAR \<and> ISARRAY \<in> fg)"

definition address :: "nat option \<Rightarrow> pointer" where
  "address a = (case a of None \<Rightarrow> Null | Some x \<Rightarrow> At x)"

definition finish :: "bool \<Rightarrow> pointer \<Rightarrow> parse_state \<Rightarrow> (int \<times> parse_state) outcome" where
  "finish was_set was_enum p = Ret (0, p\<lparr>p_next_set := was_set, p_next_enum := was_enum\<rparr>)"

text \<open>The branch of strings: the characters are copied, or the pointer into the message is kept.\<close>

definition parse_string :: "type_id \<Rightarrow> i3_type \<Rightarrow> nat option \<Rightarrow> parse_state \<Rightarrow> (int \<times> parse_state) outcome" where
  "parse_string T type base p =
     obind (json_match I3IPC_JSON_STRING (p_state p)) (\<lambda>(code, tok, st).
       let p0 = p\<lparr>p_state := st\<rparr>
       in if code \<noteq> 0 then Ret (1, p0)
          else obind
            (if p_copy_strings p0
             then obind (parse_alloc (nat (str_size tok) + 1) 1 p0) (\<lambda>(a, p1).
                  obind (if base = None then Ret p1 else store_if a (map Byte (str tok @ [0])) p1) (\<lambda>p2.
                    Ret (address a, p2)))
             else Ret (Text (str tok), p0)) (\<lambda>(str_base, p1).
            case base of
              None \<Rightarrow> finish True Null p1
            | Some b \<Rightarrow>
                if T = I3IPC_TYPE_STRING
                then obind (store (b + foffset (type_fields type ! 0)) (pointer_cells str_base) p1) (\<lambda>p2.
                     obind (store (b + foffset (type_fields type ! 1)) (int_cells (str_size tok)) p2)
                       (finish True str_base))
                else obind (store b (pointer_cells str_base) p1) (\<lambda>p2.
                       finish True str_base (p2\<lparr>p_next_size := str_size tok\<rparr>))))"

definition parse_primitive :: "type_id \<Rightarrow> nat option \<Rightarrow> parse_state \<Rightarrow> (int \<times> parse_state) outcome" where
  "parse_primitive T base p =
     obind (json_match (if T = I3IPC_TYPE_BOOL then I3IPC_JSON_BOOL else I3IPC_JSON_NUMBER) (p_state p))
       (\<lambda>(code, tok, st).
          let p0 = p\<lparr>p_state := st\<rparr>
          in if code \<noteq> 0 then Ret (1, p0)
             else obind
               (case base of
                  None \<Rightarrow> Ret p0
                | Some b \<Rightarrow>
                    if T = I3IPC_TYPE_BOOL then store b (bool_cells (flag tok)) p0
                    else if T = I3IPC_TYPE_SIZET then store b (size_cells (number_long tok)) p0
                    else if T = I3IPC_TYPE_INT then store b (int_cells (uint (number_long tok))) p0
                    else if T = I3IPC_TYPE_FLOAT then store b (float_cells (fl (token_double (number tok)))) p0
                    else Abort) (finish True Null))"

text \<open>
  \<open>i3ipc__parse_helper\<close>.  Each branch is a definition that calls the parser \<open>H\<close> of smaller depth and
  the loops over the elements of an array and the fields of an object.
\<close>

type_synonym helper = "type_id \<Rightarrow> type_flags \<Rightarrow> nat option \<Rightarrow> parse_state \<Rightarrow> (int \<times> parse_state) outcome"
type_synonym elements_loop = "type_id \<Rightarrow> nat \<Rightarrow> nat option \<Rightarrow> parse_state \<Rightarrow> (int \<times> nat \<times> parse_state) outcome"
type_synonym fields_loop = "i3_type \<Rightarrow> nat \<Rightarrow> nat option \<Rightarrow> parse_state \<Rightarrow> (int \<times> parse_state) outcome"

definition parse_maybe :: "helper \<Rightarrow> i3_type \<Rightarrow> helper" where
  "parse_maybe H type T fg base p =
     obind (json_trymatch I3IPC_JSON_NULL (p_state p)) (\<lambda>(is_null, _, st).
       let p0 = p\<lparr>p_state := st\<rparr>
       in if \<not> is_null then
            obind
              (if ISPTR \<in> fg
               then obind (parse_alloc (tsize type) (alignment type) p0) (\<lambda>(a, p1).
                    obind (store_if base (pointer_cells (address a)) p1) (\<lambda>p2. Ret (a, p2)))
               else Ret (base, p0)) (\<lambda>(ptr_base, p1).
            obind (H T (fg - GROUP_MAYBE) ptr_base p1) (\<lambda>(code, p2).
              if code \<noteq> 0 then Ret (6, p2) else finish True (p_next_enum p2) p2))
          else finish False Null (p0\<lparr>p_next_size := 0\<rparr>))"

text \<open>Only the first pass corrects the size of the block of an array.\<close>

definition set_block_size :: "nat \<Rightarrow> nat \<Rightarrow> nat option \<Rightarrow> parse_state \<Rightarrow> parse_state" where
  "set_block_size index sz base p =
     (if base = None then p\<lparr>p_allocs := (p_allocs p)[index := (sz, snd (p_allocs p ! index))]\<rparr> else p)"

definition parse_array :: "elements_loop \<Rightarrow> i3_type \<Rightarrow> type_id \<Rightarrow> nat option \<Rightarrow> parse_state \<Rightarrow> (int \<times> parse_state) outcome" where
  "parse_array E type T base p =
     obind (parse_alloc unknown_size (alignment type) p) (\<lambda>(arr_base, p1).
     obind (store_if base (pointer_cells (address arr_base)) p1) (\<lambda>p2.
     obind (E T 0 (if base = None then None else arr_base) p2) (\<lambda>(code, i, p3).
       if code \<noteq> 0 then Ret (code, p3)
       else finish True Null ((set_block_size (p_allocs_size p) (i * tsize type) base p3)\<lparr>p_next_size := int i\<rparr>))))"

definition parse_inline :: "helper \<Rightarrow> i3_type \<Rightarrow> nat option \<Rightarrow> parse_state \<Rightarrow> (int \<times> parse_state) outcome" where
  "parse_inline H type base p =
     assert_then (type_fields type \<noteq> []) (assert_then (list_all derived (tl (type_fields type)))
       (let f = type_fields type ! 0
        in obind (H (ftype f) (flags f) (map_option (\<lambda>b. b + foffset f) base) p) (\<lambda>(code, p1).
           if code \<noteq> 0 then Ret (17, p1)
           else obind (doderived type 0 base p1) (finish True Null))))"

definition parse_object :: "fields_loop \<Rightarrow> i3_type \<Rightarrow> nat option \<Rightarrow> parse_state \<Rightarrow> (int \<times> parse_state) outcome" where
  "parse_object F type base p =
     obind (F type 0 base p) (\<lambda>(code, p1). if code \<noteq> 0 then Ret (code, p1) else finish True Null p1)"

definition helper_step :: "helper \<Rightarrow> elements_loop \<Rightarrow> fields_loop \<Rightarrow> helper" where
  "helper_step H E F T fg base p =
     assert_then (T \<noteq> I3IPC_TYPE_EVENT) (obind (type_get T) (\<lambda>type.
       if fg \<inter> GROUP_MAYBE \<noteq> {} then parse_maybe H type T fg base p
       else if is_string_type T fg then parse_string T type base p
       else if ISARRAY \<in> fg then parse_array E type T base p
       else if is_inline type then parse_inline H type base p
       else if fg = {} \<and> is_primitive type then parse_primitive T base p
       else if fg = {} then parse_object F type base p
       else Abort))"

definition elements_step :: "helper \<Rightarrow> elements_loop \<Rightarrow> elements_loop" where
  "elements_step H E T i arr_base p =
     obind (json_looparr i (p_state p)) (\<lambda>(again, st).
       let p0 = p\<lparr>p_state := st\<rparr>
       in if \<not> again then Ret (if err_flag st then 9 else 0, i, p0)
          else obind (H T {} (map_option (\<lambda>a. a + i * tsize (described T)) arr_base) p0) (\<lambda>(code, p1).
            if code \<noteq> 0 then Ret (6, i, p1) else E T (Suc i) arr_base p1))"

definition fields_step :: "nat \<Rightarrow> helper \<Rightarrow> fields_loop \<Rightarrow> fields_loop" where
  "fields_step fuel H F type j base p =
     obind (loopfields fuel (type_fields type) j (p_state p)) (\<lambda>(field, st).
       let p0 = p\<lparr>p_state := st\<rparr>
       in case field of
            None \<Rightarrow> Ret (if err_flag st then 9 else 0, p0)
          | Some i \<Rightarrow>
              (let f = type_fields type ! i
               in obind (H (ftype f) (flags f) (map_option (\<lambda>b. b + foffset f) base) p0) (\<lambda>(code, p1).
                  if code \<noteq> 0 then Ret (3, p1)
                  else obind (doderived type i base p1) (\<lambda>p2. F type 1 base p2))))"

fun parse_helper :: "nat \<Rightarrow> helper"
  and parse_elements :: "nat \<Rightarrow> elements_loop"
  and parse_fields :: "nat \<Rightarrow> fields_loop"
where
  "parse_helper 0 T fg base p = Block"
| "parse_helper (Suc fuel) T fg base p =
     helper_step (parse_helper fuel) (parse_elements fuel) (parse_fields fuel) T fg base p"
| "parse_elements 0 T i arr_base p = Block"
| "parse_elements (Suc fuel) T i arr_base p = elements_step (parse_helper fuel) (parse_elements fuel) T i arr_base p"
| "parse_fields 0 type j base p = Block"
| "parse_fields (Suc fuel) type j base p = fields_step fuel (parse_helper fuel) (parse_fields fuel) type j base p"

section \<open>Parsing a message\<close>

text \<open>The blocks behind each other, each at its alignment; what was the size becomes the offset.\<close>

definition align_mask :: "nat \<Rightarrow> nat \<Rightarrow> nat" where
  "align_mask off a = nat ((int off + int a - 1) AND NOT (int a - 1))"

fun place_allocs :: "nat \<Rightarrow> (nat \<times> nat) list \<Rightarrow> (nat \<times> nat) list \<times> nat" where
  "place_allocs off [] = ([], off)"
| "place_allocs off ((sz, align) # r) =
     (let off1 = align_mask off align; (r1, total) = place_allocs (off1 + sz) r in ((off1, align) # r1, total))"

definition parse_fuel :: "nat \<Rightarrow> nat" where
  "parse_fuel n = 4 * n + 8"

text \<open>Both passes on the tokens of a message; the result on success is the memory.\<close>

definition parse_tokens ::
  "type_id \<Rightarrow> json_token list \<Rightarrow> i3 \<Rightarrow> (int \<times> cell list option \<times> i3) outcome" where
  "parse_tokens T toks c =
     (let malformed = (\<lambda>c. obind (error_handle I3IPC_ERROR_MALFORMED c) (\<lambda>(code, c1). Ret (code, None, c1)));
          fuel = parse_fuel (length toks)
      in obind (type_get T) (\<lambda>type.
         obind (parse_alloc (tsize type) (alignment type)
             \<lparr>p_context = c, p_state = \<lparr>tokens = toks, tokens_cur = 0, err_flag = False\<rparr>, p_allocs = [],
              p_allocs_size = 0, p_memory = None, p_copy_strings = \<not> staticalloc c, p_next_size = 0,
              p_next_enum = Null, p_next_set = False\<rparr>) (\<lambda>(_, p).
         obind (parse_helper fuel T {} None p) (\<lambda>(code, p1).
           if code \<noteq> 0 then malformed (p_context p1)
           else obind (json_match 0 (p_state p1)) (\<lambda>(code, _, st).
             if code \<noteq> 0 then malformed (p_context p1)
             else let (places, total) = place_allocs 0 (p_allocs p1);
                      c2 = (if staticalloc c then context_reserve CONTEXT_PARSE total (p_context p1) else p_context p1)
                  in obind (parse_alloc (tsize type) (alignment type)
                         (p1\<lparr>p_context := c2, p_state := st\<lparr>tokens_cur := 0\<rparr>, p_allocs := places, p_allocs_size := 0,
                             p_memory := Some (replicate total (Byte 0))\<rparr>)) (\<lambda>(base, p2).
                     obind (parse_helper fuel T {} base p2) (\<lambda>(code, p3).
                       if code \<noteq> 0 then malformed (p_context p3)
                       else Ret (0, p_memory p3, p_context p3)))))))) "

definition message_payload :: "byte list \<Rightarrow> byte list" where
  "message_payload msg = take (nat (message_length msg)) (drop sizeof_message msg)"

text \<open>
  \<open>i3ipc_parse_try\<close>, of the message in the buffer.  The length in its header is set to zero; that
  its strings have been decoded in place is kept in the tokens.
\<close>

definition parse_try :: "int \<Rightarrow> type_id \<Rightarrow> i3 \<Rightarrow> (int \<times> cell list option \<times> i3) outcome" where
  "parse_try t T c =
     (let malformed = (\<lambda>c. obind (error_handle I3IPC_ERROR_MALFORMED c) (\<lambda>(code, c1). Ret (code, None, c1)))
      in if error_code c \<noteq> 0 then Ret (I3IPC_ERROR_BADSTATE, None, c)
         else obind (init_try None c) (\<lambda>(code, c0).
           if code \<noteq> 0 then Ret (code, None, c0)
           else let msg = buffers c0 CONTEXT_MSG
                in if message_type msg \<noteq> t
                   then obind (message_type_str t True) (\<lambda>_.
                        obind (message_type_str (message_type msg) True) (\<lambda>_. malformed c0))
                   else case json_scan (message_payload msg) [] c0 of (code, toks, c1) \<Rightarrow>
                     if code \<noteq> 0 then malformed c1
                     else parse_tokens T toks
                       (c1\<lparr>buffers := (buffers c1)(CONTEXT_MSG := store_at 6 (le32 0) (buffers c1 CONTEXT_MSG))\<rparr>)))"

end
