(* ===== verification/I3_Passes.thy ===== *)
theory I3_Passes
  imports I3_Parse
begin

text \<open>
  \<open>i3ipc.h\<close>, the two passes of the parser: the first one returns and notes blocks; the second one takes
  the same steps and stores only inside the blocks that the first one noted.
\<close>

section \<open>The first pass only notes_helper blocks and moves on\<close>

definition noting :: "parse_state \<Rightarrow> bool" where
  "noting p \<longleftrightarrow> p_memory p = None \<and> p_allocs_size p = length (p_allocs p) \<and> terminated (p_state p)"

definition noted :: "parse_state \<Rightarrow> parse_state \<Rightarrow> bool" where
  "noted p p' \<longleftrightarrow> noting p' \<and> walked (p_state p) (p_state p') \<and> p_copy_strings p' = p_copy_strings p \<and>
     nopanic (p_context p') = nopanic (p_context p) \<and> staticalloc (p_context p') = staticalloc (p_context p) \<and>
     (\<exists>new. p_allocs p' = p_allocs p @ new \<and> list_all (\<lambda>b. snd b \<in> {1, 4, 8}) new)"

lemma alignof_cases: "alignof t \<in> {1, 4, 8}" "members_align ms \<in> {1, 4, 8}"
  by (induction t and ms rule: alignof_members_align.induct) auto

lemma alignment_cases: "alignment (described T) \<in> {1, 4, 8}"
  using alignof_cases(1) by (simp add: described_def split: prod.split)

lemma notedI:
  "noting p' \<Longrightarrow> walked (p_state p) (p_state p') \<Longrightarrow> p_copy_strings p' = p_copy_strings p \<Longrightarrow>
   p_context p' = p_context p \<Longrightarrow> p_allocs p' = p_allocs p \<Longrightarrow> noted p p'"
  by (simp add: noted_def)

lemma noted_refl: "noting p \<Longrightarrow> noted p p"
  by (rule notedI) (simp_all add: noting_def walked_refl)

lemma noted_trans: "noted p1 p2 \<Longrightarrow> noted p2 p3 \<Longrightarrow> noted p1 p3"
  by (auto simp: noted_def intro: walked_trans)

lemma noted_noting: "noted p p' \<Longrightarrow> noting p'"
  by (simp add: noted_def)

lemma noting_walk:
  assumes "noting p" "walked (p_state p) st"
  shows "noting (p\<lparr>p_state := st\<rparr>)" "noted p (p\<lparr>p_state := st\<rparr>)"
  using assms by (auto simp: noting_def noted_def walked_def)

lemma noting_alloc:
  assumes "noting p" "parse_alloc sz al p = Ret (a, p')" "al \<in> {1, 4, 8}"
  shows "a = None \<and> noted p p' \<and> p_state p' = p_state p \<and> p_allocs p' = p_allocs p @ [(sz, al)] \<and>
    p_next_size p' = p_next_size p"
  using assms by (auto simp: noting_def noted_def parse_alloc_def Let_def walked_refl)

lemma noting_flags [simp]:
  "noting (p\<lparr>p_next_set := s, p_next_enum := e\<rparr>) = noting p" "noting (p\<lparr>p_next_size := k\<rparr>) = noting p"
  "noted p (p'\<lparr>p_next_set := s, p_next_enum := e\<rparr>) = noted p p'" "noted p (p'\<lparr>p_next_size := k\<rparr>) = noted p p'"
  by (simp_all add: noting_def noted_def)

lemma finish_noted: "finish s e p1 = Ret (code, p') \<Longrightarrow> noted p p1 \<Longrightarrow> noted p p'"
  by (auto simp: finish_def)

lemma match_walked: "terminated st \<Longrightarrow> t \<noteq> 0 \<Longrightarrow> json_match t st = Ret (code, tok, st') \<Longrightarrow> walked st st'"
  using match_walks [of st t] by auto

lemma trymatch_walked: "terminated st \<Longrightarrow> t \<noteq> 0 \<Longrightarrow> json_trymatch t st = Ret (ok, tok, st') \<Longrightarrow> walked st st'"
  using walked_advance [of st] walked_refl [of st]
  by (auto simp: json_trymatch_def trymatchany_eq split: if_splits)

definition notes_helper :: "helper \<Rightarrow> bool" where
  "notes_helper H \<longleftrightarrow> (\<forall>T fg p code p'. noting p \<longrightarrow> H T fg None p = Ret (code, p') \<longrightarrow> noted p p')"

definition notes_elements :: "elements_loop \<Rightarrow> bool" where
  "notes_elements E \<longleftrightarrow> (\<forall>T i p code k p'. noting p \<longrightarrow> E T i None p = Ret (code, k, p') \<longrightarrow> noted p p')"

definition notes_fields :: "fields_loop \<Rightarrow> bool" where
  "notes_fields F \<longleftrightarrow> (\<forall>type j p code p'. noting p \<longrightarrow> F type j None p = Ret (code, p') \<longrightarrow> noted p p')"

lemma notes_helperD: "notes_helper H \<Longrightarrow> noting p \<Longrightarrow> H T fg None p = Ret (code, p') \<Longrightarrow> noted p p'"
  by (auto simp: notes_helper_def)

lemma parse_string_notes:
  assumes "noting p" "parse_string T type None p = Ret (code, p')"
  shows "noted p p'"
proof -
  from assms(2) obtain c tok st where m: "json_match I3IPC_JSON_STRING (p_state p) = Ret (c, tok, st)"
    by (auto simp: parse_string_def obind_Ret)
  then have w: "walked (p_state p) st" using assms(1) by (intro match_walked) (auto simp: noting_def i3codes)
  note n = noting_walk [OF assms(1) w]
  have a: "noted p p1" if "parse_alloc s (Suc 0) (p\<lparr>p_state := st\<rparr>) = Ret (a, p1)" for s a p1
    using noting_alloc [OF n(1) that] n(2) by (auto intro: noted_trans)
  show ?thesis
    using assms(2) m n(2) a by (auto simp: parse_string_def obind_Ret Let_def store_if_def intro: finish_noted split: if_splits)
qed

lemma parse_primitive_notes:
  assumes "noting p" "parse_primitive T None p = Ret (code, p')"
  shows "noted p p'"
proof -
  let ?t = "if T = I3IPC_TYPE_BOOL then I3IPC_JSON_BOOL else I3IPC_JSON_NUMBER"
  from assms(2) obtain c tok st where m: "json_match ?t (p_state p) = Ret (c, tok, st)"
    by (auto simp: parse_primitive_def obind_Ret)
  then have w: "walked (p_state p) st" using assms(1) by (intro match_walked) (auto simp: noting_def i3codes)
  note n = noting_walk [OF assms(1) w]
  show ?thesis using assms(2) m n(2) by (auto simp: parse_primitive_def Let_def intro: finish_noted split: if_splits)
qed

lemma parse_maybe_notes:
  assumes "notes_helper H" "noting p" "parse_maybe H (described U) T fg None p = Ret (code, p')"
  shows "noted p p'"
proof -
  from assms(3) obtain ok tok st where m: "json_trymatch I3IPC_JSON_NULL (p_state p) = Ret (ok, tok, st)"
    by (auto simp: parse_maybe_def obind_Ret)
  then have w: "walked (p_state p) st" using assms(2) by (intro trymatch_walked) (auto simp: noting_def i3codes)
  note n = noting_walk [OF assms(2) w]
  have a: "a = None \<and> noted p p1" if "parse_alloc s (alignment (described U)) (p\<lparr>p_state := st\<rparr>) = Ret (a, p1)" for s a p1
    using noting_alloc [OF n(1) that alignment_cases] n(2) by (blast intro: noted_trans)
  have h: "noted p p2" if "H T fg' None p1 = Ret (c, p2)" "noted p p1" for fg' c p1 p2
    using notes_helperD [OF assms(1) noted_noting [OF that(2)] that(1)] that(2) by (blast intro: noted_trans)
  show ?thesis
    using assms(3) m n(2)
    by (auto simp: parse_maybe_def obind_Ret Let_def store_if_def intro: finish_noted split: if_splits dest!: a h)
qed

lemma set_block_size_notes:
  assumes "noting p" "noted p p1" "p_allocs p1 = p_allocs p @ b # new"
  shows "noted p (set_block_size (length (p_allocs p)) sz base p1)"
  using assms by (auto simp: set_block_size_def noted_def noting_def)

lemma parse_array_notes:
  assumes "notes_elements E" "noting p" "parse_array E (described U) T None p = Ret (code, p')"
  shows "noted p p'"
proof -
  from assms(3) obtain a p1 where a: "parse_alloc unknown_size (alignment (described U)) p = Ret (a, p1)"
    by (auto simp: parse_array_def obind_Ret)
  note n = noting_alloc [OF assms(2) a alignment_cases]
  from assms(3) a obtain c i p3 where e: "E T 0 None p1 = Ret (c, i, p3)"
    "p' = p3 \<or> finish True Null ((set_block_size (p_allocs_size p) (i * tsize (described U)) None p3)\<lparr>p_next_size := int i\<rparr>) = Ret (code, p')"
    by (auto simp: parse_array_def obind_Ret store_if_def split: if_splits)
  have e1: "noted p1 p3" using assms(1) e(1) n noted_noting by (auto simp: notes_elements_def)
  then have e2: "noted p p3" using n noted_trans by blast
  obtain new where "p_allocs p3 = p_allocs p @ (unknown_size, alignment (described U)) # new" using e1 n by (auto simp: noted_def)
  from set_block_size_notes [OF assms(2) e2 this] show ?thesis
    using e(2) e2 assms(2) by (auto simp: finish_def noting_def)
qed

lemma doderived_first [simp]: "doderived type i None p = Ret p"
  by (simp add: doderived_def)

lemma helper_step_notes:
  assumes "notes_helper H" "notes_elements E" "notes_fields F"
  shows "notes_helper (helper_step H E F)"
  unfolding notes_helper_def
proof (intro allI impI)
  fix T fg p code p'
  assume p: "noting p" and r: "helper_step H E F T fg None p = Ret (code, p')"
  have inl: "noted p p'" if "parse_inline H (described T) None p = Ret (code, p')"
    using that notes_helperD [OF assms(1) p] by (auto simp: parse_inline_def assert_then_Ret obind_Ret Let_def intro: finish_noted split: if_splits)
  have obj: "noted p p'" if "parse_object F (described T) None p = Ret (code, p')"
    using that assms(3) p by (fastforce simp: parse_object_def obind_Ret notes_fields_def intro: finish_noted split: if_splits)
  show "noted p p'"
    using r parse_maybe_notes [OF assms(1) p] parse_string_notes [OF p] parse_array_notes [OF assms(2) p] inl
      parse_primitive_notes [OF p] obj
    by (auto simp: helper_step_def assert_then_Ret split: if_splits)
qed

lemma looparr_walked: "terminated st \<Longrightarrow> json_looparr i st = Ret (again, st') \<Longrightarrow> walked st st' \<and> (again \<longrightarrow> tokens_cur st < tokens_cur st')"
  using looparr_walks [of st i] by (auto simp: goes_on_def)

lemma elements_step_notes:
  assumes "notes_helper H" "notes_elements E"
  shows "notes_elements (elements_step H E)"
  unfolding notes_elements_def
proof (intro allI impI)
  fix T i p code k p'
  assume p: "noting p" and r: "elements_step H E T i None p = Ret (code, k, p')"
  from r obtain again st where l: "json_looparr i (p_state p) = Ret (again, st)" by (auto simp: elements_step_def obind_Ret)
  have w: "walked (p_state p) st" using looparr_walked [OF _ l] p by (simp add: noting_def)
  note n = noting_walk [OF p w]
  have h: "noted p p1" if "H T {} None (p\<lparr>p_state := st\<rparr>) = Ret (c, p1)" for c p1
    using notes_helperD [OF assms(1) n(1) that] n(2) noted_trans by blast
  have e: "noted p p2" if "E T (Suc i) None p1 = Ret (c, j, p2)" "noted p p1" for c j p1 p2
    using assms(2) that noted_noting [OF that(2)] noted_trans unfolding notes_elements_def by blast
  show "noted p p'"
    using r l n(2) h e by (auto simp: elements_step_def Let_def obind_Ret split: if_splits)
qed

lemma find_field_index: "find_field i fs key = Some k \<Longrightarrow> i \<le> k \<and> k - i < length fs \<and> \<not> derived (fs ! (k - i))"
  by (induction i fs key rule: find_field.induct) (auto simp: nth_Cons' split: if_splits)

lemma skip_walked:
  assumes "terminated st"
  shows "\<exists>code st'. json_skip (skip_fuel st) st = Ret (code, st') \<and> walked st st'"
proof (rule skip_returns(1) [OF assms])
  show "2 * remaining_tokens st + 1 < skip_fuel st" by (simp add: skip_fuel_def remaining_tokens_def)
qed

lemma loopfields_walked:
  "terminated st \<Longrightarrow> loopfields fuel fs j st = Ret (r, st') \<Longrightarrow>
     walked st st' \<and> (r \<noteq> None \<longrightarrow> tokens_cur st < tokens_cur st' \<and> the r < length fs \<and> \<not> derived (fs ! the r))"
proof (induction fuel fs j st arbitrary: r st' rule: loopfields.induct)
  case (2 fuel fs j st)
  obtain again key st1 where l: "json_loopobj j st = Ret (again, key, st1)" "goes_on st (again, st1)"
    using loopobj_walks [OF 2(2)] by blast
  note g = l(2) [unfolded goes_on_def split]
  show ?case
  proof (cases "again \<and> find_field 0 fs (str key) = None")
    case True
    have t: "terminated st1" using g by (simp add: walked_def)
    obtain c st2 where s: "json_skip (skip_fuel st1) st1 = Ret (c, st2)" "walked st1 st2" using skip_walked [OF t] by blast
    have w: "walked st st2" "tokens_cur st < tokens_cur st2"
      using walked_trans [of st st1 st2] g s(2) True by (auto simp: walked_def)
    show ?thesis
    proof (cases "c = 0")
      case c: True
      have "loopfields fuel fs 1 st2 = Ret (r, st')" using 2(3) l(1) True s(1) c by simp
      then have "walked st2 st' \<and> (r \<noteq> None \<longrightarrow> tokens_cur st2 < tokens_cur st' \<and> the r < length fs \<and> \<not> derived (fs ! the r))"
        using 2(1) [OF l(1) refl refl _ _ s(1) refl] True c w(1) by (auto simp: walked_def)
      then show ?thesis using w walked_trans by (auto simp: walked_def)
    next
      case False
      then show ?thesis using 2(3) l(1) True s(1) w by auto
    qed
  next
    case False
    then show ?thesis
      using 2(3) l(1) g find_field_index [of 0 fs "str key"] by (auto split: option.splits if_splits)
  qed
qed simp

lemma fields_step_notes:
  assumes "notes_helper H" "notes_fields F"
  shows "notes_fields (fields_step fuel H F)"
  unfolding notes_fields_def
proof (intro allI impI)
  fix type j p code p'
  assume p: "noting p" and r: "fields_step fuel H F type j None p = Ret (code, p')"
  from r obtain field st where l: "loopfields fuel (type_fields type) j (p_state p) = Ret (field, st)"
    by (auto simp: fields_step_def obind_Ret)
  have w: "walked (p_state p) st" using loopfields_walked [OF _ l] p by (simp add: noting_def)
  note n = noting_walk [OF p w]
  have h: "noted p p1" if "H T fg None (p\<lparr>p_state := st\<rparr>) = Ret (c, p1)" for T fg c p1
    using notes_helperD [OF assms(1) n(1) that] n(2) noted_trans by blast
  have e: "noted p p2" if "F type 1 None p1 = Ret (c, p2)" "noted p p1" for c p1 p2
    using assms(2) that noted_noting [OF that(2)] noted_trans unfolding notes_fields_def by blast
  show "noted p p'"
    using r l n(2) h e by (auto simp: fields_step_def Let_def obind_Ret split: option.splits if_splits)
qed

lemma parse_Suc:
  "parse_helper (Suc n) = helper_step (parse_helper n) (parse_elements n) (parse_fields n)"
  "parse_elements (Suc n) = elements_step (parse_helper n) (parse_elements n)"
  "parse_fields (Suc n) = fields_step n (parse_helper n) (parse_fields n)"
  by (intro ext; simp)+

lemma first_pass_notes: "notes_helper (parse_helper n) \<and> notes_elements (parse_elements n) \<and> notes_fields (parse_fields n)"
proof (induction n)
  case 0
  then show ?case by (simp add: notes_helper_def notes_elements_def notes_fields_def)
next
  case (Suc n)
  then show ?case unfolding parse_Suc using Suc helper_step_notes elements_step_notes fields_step_notes by simp
qed


section \<open>The first pass returns\<close>

text \<open>How many calls may follow before a token is taken.\<close>

definition depth :: "type_id \<Rightarrow> type_flags \<Rightarrow> nat" where
  "depth T fg = (if fg \<inter> GROUP_MAYBE \<noteq> {} then 2 else if is_inline (described T) \<and> ISARRAY \<notin> fg then 1 else 0)"

lemma depth_bounds: "depth T fg \<le> 2" "depth T {} \<le> 1" "depth T (fg - GROUP_MAYBE) \<le> 1"
  by (auto simp: depth_def)

abbreviation rest_of :: "parse_state \<Rightarrow> nat" where
  "rest_of p \<equiv> remaining_tokens (p_state p)"

definition returns_helper :: "nat \<Rightarrow> helper \<Rightarrow> bool" where
  "returns_helper n H \<longleftrightarrow> (\<forall>T fg p. noting p \<longrightarrow> usable T fg \<longrightarrow> 4 * rest_of p + depth T fg < n \<longrightarrow>
     (\<exists>code p'. H T fg None p = Ret (code, p')))"

definition returns_elements :: "nat \<Rightarrow> elements_loop \<Rightarrow> bool" where
  "returns_elements n E \<longleftrightarrow> (\<forall>T i p. noting p \<longrightarrow> usable T {} \<longrightarrow> 4 * rest_of p \<le> n \<longrightarrow>
     (\<exists>code k p'. E T i None p = Ret (code, k, p')))"

definition returns_fields :: "nat \<Rightarrow> fields_loop \<Rightarrow> bool" where
  "returns_fields n F \<longleftrightarrow> (\<forall>T j p. noting p \<longrightarrow> 4 * rest_of p \<le> n \<longrightarrow>
     (\<exists>code p'. F (described T) j None p = Ret (code, p')))"

lemma returns_helperD:
  "returns_helper n H \<Longrightarrow> noting p \<Longrightarrow> usable T fg \<Longrightarrow> 4 * rest_of p + depth T fg < n \<Longrightarrow>
     \<exists>code p'. H T fg None p = Ret (code, p')"
  by (simp add: returns_helper_def)

lemma walked_rest: "walked st st' \<Longrightarrow> remaining_tokens st' \<le> remaining_tokens st"
  by (auto simp: walked_def remaining_tokens_def)

lemma walked_rest_less:
  "walked st st' \<Longrightarrow> tokens_cur st < tokens_cur st' \<Longrightarrow> remaining_tokens st' < remaining_tokens st"
  by (auto simp: walked_def remaining_tokens_def terminated_def)

lemma noted_rest: "noted p p' \<Longrightarrow> rest_of p' \<le> rest_of p"
  by (simp add: noted_def walked_rest)

lemma rest_pos: "terminated st \<Longrightarrow> 0 < remaining_tokens st"
  by (simp add: terminated_def remaining_tokens_def)

lemma first_alloc: "noting p \<Longrightarrow> \<exists>p'. parse_alloc sz al p = Ret (None, p')"
  by (simp add: noting_def parse_alloc_def Let_def)

lemma usable_strip: "usable T fg \<Longrightarrow> usable T (fg - GROUP_MAYBE)"
  by (auto simp: usable_def)

lemma trymatch_returns: "terminated st \<Longrightarrow> \<exists>ok tok st'. json_trymatch t st = Ret (ok, tok, st')"
  by (auto simp: json_trymatch_def trymatchany_eq)

lemma match_returns: "terminated st \<Longrightarrow> \<exists>c tok st'. json_match t st = Ret (c, tok, st')"
  by (simp add: json_match_def matchany_eq)

lemma parse_string_returns:
  assumes "noting p"
  shows "\<exists>code p'. parse_string T type None p = Ret (code, p')"
proof -
  obtain c tok st where m: "json_match I3IPC_JSON_STRING (p_state p) = Ret (c, tok, st)"
    using match_returns assms by (fastforce simp: noting_def)
  then have "walked (p_state p) st" using assms by (intro match_walked) (auto simp: noting_def i3codes)
  from noting_walk(1) [OF assms this] have "noting (p\<lparr>p_state := st\<rparr>)" .
  then obtain p1 where "parse_alloc (nat (str_size tok) + 1) 1 (p\<lparr>p_state := st\<rparr>) = Ret (None, p1)"
    using first_alloc by blast
  then show ?thesis
    using m by (cases "p_copy_strings p") (auto simp: parse_string_def Let_def finish_def)
qed

lemma parse_primitive_returns:
  assumes "noting p"
  shows "\<exists>code p'. parse_primitive T None p = Ret (code, p')"
proof -
  let ?t = "if T = I3IPC_TYPE_BOOL then I3IPC_JSON_BOOL else I3IPC_JSON_NUMBER"
  obtain c tok st where m: "json_match ?t (p_state p) = Ret (c, tok, st)"
    using match_returns assms by (fastforce simp: noting_def)
  then show ?thesis by (auto simp: parse_primitive_def Let_def finish_def)
qed

lemma parse_maybe_returns:
  assumes "returns_helper n H" "noting p" "usable T fg" "4 * rest_of p + 1 < n"
  shows "\<exists>code p'. parse_maybe H (described U) T fg None p = Ret (code, p')"
proof -
  obtain ok tok st where m: "json_trymatch I3IPC_JSON_NULL (p_state p) = Ret (ok, tok, st)"
    using trymatch_returns assms(2) by (fastforce simp: noting_def)
  then have w: "walked (p_state p) st" using assms(2) by (intro trymatch_walked) (auto simp: noting_def i3codes)
  note n = noting_walk [OF assms(2) w]
  have h: "\<exists>code p'. H T (fg - GROUP_MAYBE) None p1 = Ret (code, p')"
    if "noted (p\<lparr>p_state := st\<rparr>) p1" for p1
    using noted_noting [OF that] noted_rest [OF noted_trans [OF n(2) that]] depth_bounds(3) [of T fg] assms(4)
    by (intro returns_helperD [OF assms(1) _ usable_strip [OF assms(3)]]) auto
  obtain p1 where a: "parse_alloc (tsize (described U)) (alignment (described U)) (p\<lparr>p_state := st\<rparr>) = Ret (None, p1)"
    using first_alloc [OF n(1)] by blast
  have "noted (p\<lparr>p_state := st\<rparr>) p1" using noting_alloc [OF n(1) a alignment_cases] by blast
  then obtain c1 q1 where 1: "H T (fg - GROUP_MAYBE) None p1 = Ret (c1, q1)" using h by blast
  obtain c2 q2 where 2: "H T (fg - GROUP_MAYBE) None (p\<lparr>p_state := st\<rparr>) = Ret (c2, q2)"
    using h [OF noted_refl [OF n(1)]] by blast
  show ?thesis
    using m a 1 2 by (cases "ISPTR \<in> fg") (auto simp: parse_maybe_def Let_def store_if_def finish_def)
qed

lemma parse_array_returns:
  assumes "returns_elements n E" "noting p" "usable T {}" "4 * rest_of p \<le> n"
  shows "\<exists>code p'. parse_array E (described U) T None p = Ret (code, p')"
proof -
  obtain p1 where a: "parse_alloc unknown_size (alignment (described U)) p = Ret (None, p1)" using first_alloc [OF assms(2)] by blast
  have "noting p1" "p_state p1 = p_state p" using noting_alloc [OF assms(2) a alignment_cases] noted_noting by auto
  then obtain c k p2 where "E T 0 None p1 = Ret (c, k, p2)"
    using assms(1,3,4) unfolding returns_elements_def by (metis (no_types, lifting))
  then show ?thesis using a by (auto simp: parse_array_def store_if_def finish_def)
qed

lemma parse_inline_returns:
  assumes "returns_helper n H" "noting p" "is_inline (described T)" "4 * rest_of p < n"
  shows "\<exists>code p'. parse_inline H (described T) None p = Ret (code, p')"
proof -
  obtain f fs where f: "type_fields (described T) = f # fs" "list_all derived fs" "usable (ftype f) (flags f)"
    "flags f \<inter> GROUP_MAYBE = {}" "ISARRAY \<in> flags f \<or> \<not> is_inline (described (ftype f))"
    using table_inline [OF assms(3)] by blast
  then have "depth (ftype f) (flags f) = 0" by (auto simp: depth_def)
  then obtain c p1 where "H (ftype f) (flags f) None p = Ret (c, p1)"
    using returns_helperD [OF assms(1,2) f(3)] assms(4) by fastforce
  then show ?thesis using f(1,2) by (auto simp: parse_inline_def Let_def finish_def)
qed

lemma helper_step_returns:
  assumes "returns_helper n H" "returns_elements n E" "returns_fields n F"
  shows "returns_helper (Suc n) (helper_step H E F)"
  unfolding returns_helper_def
proof (intro allI impI)
  fix T fg p
  assume p: "noting p" and u: "usable T fg" and m: "4 * rest_of p + depth T fg < Suc n"
  have ev: "T \<noteq> I3IPC_TYPE_EVENT" using u by (simp add: usable_def)
  consider (maybe) "fg \<inter> GROUP_MAYBE \<noteq> {}"
    | (string) "fg \<inter> GROUP_MAYBE = {}" "is_string_type T fg"
    | (array) "fg \<inter> GROUP_MAYBE = {}" "\<not> is_string_type T fg" "ISARRAY \<in> fg"
    | (inline) "fg \<inter> GROUP_MAYBE = {}" "\<not> is_string_type T fg" "ISARRAY \<notin> fg" "is_inline (described T)"
    | (plain) "fg = {}" "\<not> is_string_type T fg" "\<not> is_inline (described T)"
    using u unfolding usable_def by blast
  then show "\<exists>code p'. helper_step H E F T fg None p = Ret (code, p')"
  proof cases
    case maybe
    then have "4 * rest_of p + 1 < n" using m by (simp add: depth_def)
    then show ?thesis
      using maybe ev parse_maybe_returns [OF assms(1) p u, of T] by (simp add: helper_step_def)
  next
    case string
    then show ?thesis using ev parse_string_returns [OF p] by (simp add: helper_step_def)
  next
    case array
    then have "usable T {}" using u by (auto simp: usable_def is_string_type_def)
    then show ?thesis
      using array ev parse_array_returns [OF assms(2) p, of T T] m by (simp add: helper_step_def)
  next
    case inline
    then have "4 * rest_of p < n" using m by (simp add: depth_def)
    then show ?thesis using inline ev parse_inline_returns [OF assms(1) p inline(4)] by (simp add: helper_step_def)
  next
    case plain
    have "\<exists>code p'. parse_object F (described T) None p = Ret (code, p')"
    proof -
      obtain c p1 where "F (described T) 0 None p = Ret (c, p1)"
        using assms(3) p m unfolding returns_fields_def by (metis add_lessD1 less_Suc_eq_le)
      then show ?thesis by (auto simp: parse_object_def finish_def)
    qed
    then show ?thesis
      using plain ev parse_primitive_returns [OF p, of T] by (simp add: helper_step_def)
  qed
qed

lemma elements_step_returns:
  assumes "notes_helper H" "returns_helper n H" "returns_elements n E"
  shows "returns_elements (Suc n) (elements_step H E)"
  unfolding returns_elements_def
proof (intro allI impI)
  fix T i p
  assume p: "noting p" and u: "usable T {}" and m: "4 * rest_of p \<le> Suc n"
  obtain again st where l: "json_looparr i (p_state p) = Ret (again, st)"
    using looparr_walks [of "p_state p" i] p by (auto simp: noting_def)
  have w: "walked (p_state p) st" "again \<Longrightarrow> tokens_cur (p_state p) < tokens_cur st"
    using looparr_walked [OF _ l] p by (auto simp: noting_def)
  show "\<exists>code k p'. elements_step H E T i None p = Ret (code, k, p')"
  proof (cases again)
    case True
    note n = noting_walk [OF p w(1)]
    have r: "remaining_tokens st < rest_of p" using walked_rest_less [OF w(1)] w(2) True by blast
    then obtain c p1 where h: "H T {} None (p\<lparr>p_state := st\<rparr>) = Ret (c, p1)"
      using returns_helperD [OF assms(2) n(1) u] m depth_bounds(2) [of T] by fastforce
    have n1: "noted (p\<lparr>p_state := st\<rparr>) p1" by (rule notes_helperD [OF assms(1) n(1) h])
    then have "4 * rest_of p1 \<le> n" using noted_rest [OF n1] r m by simp
    then obtain c2 k p2 where "E T (Suc i) None p1 = Ret (c2, k, p2)"
      using assms(3) noted_noting [OF n1] u unfolding returns_elements_def by blast
    then show ?thesis using l True h by (auto simp: elements_step_def Let_def)
  qed (use l in \<open>auto simp: elements_step_def Let_def\<close>)
qed

lemma loopfields_returns:
  "terminated st \<Longrightarrow> remaining_tokens st \<le> fuel \<Longrightarrow> \<exists>r st'. loopfields fuel fs j st = Ret (r, st')"
proof (induction fuel fs j st rule: loopfields.induct)
  case (1 fs j st)
  then show ?case using rest_pos by fastforce
next
  case (2 fuel fs j st)
  obtain again key st1 where l: "json_loopobj j st = Ret (again, key, st1)" "goes_on st (again, st1)"
    using loopobj_walks [OF 2(2)] by blast
  note g = l(2) [unfolded goes_on_def split]
  show ?case
  proof (cases "again \<and> find_field 0 fs (str key) = None")
    case True
    have t: "terminated st1" using g by (simp add: walked_def)
    obtain c st2 where s: "json_skip (skip_fuel st1) st1 = Ret (c, st2)" "walked st1 st2" using skip_walked [OF t] by blast
    have "remaining_tokens st2 \<le> fuel" "terminated st2"
      using walked_rest [OF s(2)] walked_rest_less [of st st1] g True 2(3) s(2) by (auto simp: walked_def)
    then show ?thesis
      using 2(1) [OF l(1) refl refl _ _ s(1) refl] True l(1) s(1) by (cases "c = 0") auto
  next
    case False
    then show ?thesis using l(1) by (auto split: option.split)
  qed
qed

lemma fields_step_returns:
  assumes "notes_helper H" "returns_helper n H" "returns_fields n F"
  shows "returns_fields (Suc n) (fields_step n H F)"
  unfolding returns_fields_def
proof (intro allI impI)
  fix T j p
  let ?type = "described T"
  assume p: "noting p" and m: "4 * rest_of p \<le> Suc n"
  have t: "terminated (p_state p)" using p by (simp add: noting_def)
  have "rest_of p \<le> n" using rest_pos [OF t] m by linarith
  then obtain field st where l: "loopfields n (type_fields ?type) j (p_state p) = Ret (field, st)"
    using loopfields_returns [OF t] by blast
  note w = loopfields_walked [OF t l]
  show "\<exists>code p'. fields_step n H F ?type j None p = Ret (code, p')"
  proof (cases field)
    case (Some i)
    let ?f = "type_fields ?type ! i"
    note n = noting_walk [OF p conjunct1 [OF w]]
    have i: "i < length (type_fields ?type)" "\<not> derived ?f" "remaining_tokens st < rest_of p"
      using w Some walked_rest_less [of "p_state p" st] by auto
    then have u: "usable (ftype ?f) (flags ?f)"
      using table_fields_ok [of T] by (auto simp: list_all_length field_ok_def)
    obtain c p1 where h: "H (ftype ?f) (flags ?f) None (p\<lparr>p_state := st\<rparr>) = Ret (c, p1)"
      using returns_helperD [OF assms(2) n(1) u] i(3) m depth_bounds(1) [of "ftype ?f" "flags ?f"] by fastforce
    have n1: "noted (p\<lparr>p_state := st\<rparr>) p1" by (rule notes_helperD [OF assms(1) n(1) h])
    then have "4 * rest_of p1 \<le> n" using noted_rest [OF n1] i(3) m by simp
    then obtain c2 p2 where "F ?type 1 None p1 = Ret (c2, p2)"
      using assms(3) noted_noting [OF n1] unfolding returns_fields_def by blast
    then show ?thesis using l Some h by (auto simp: fields_step_def Let_def)
  qed (use l in \<open>auto simp: fields_step_def Let_def\<close>)
qed

lemma first_pass_returns:
  "returns_helper n (parse_helper n) \<and> returns_elements n (parse_elements n) \<and> returns_fields n (parse_fields n)"
proof (induction n)
  case 0
  have "0 < rest_of p" if "noting p" for p using that rest_pos by (simp add: noting_def)
  then show ?case by (fastforce simp: returns_helper_def returns_elements_def returns_fields_def)
next
  case (Suc n)
  then show ?case
    unfolding parse_Suc
    using helper_step_returns elements_step_returns fields_step_returns first_pass_notes [of n] by blast
qed

end
