(* ===== verification/I3_Clean.thy ===== *)
theory I3_Clean
  imports I3_Passes
begin

text \<open>
  \<open>i3ipc.h\<close>, the first pass of the parser: when it succeeds, no error flag is left, so that the
  second pass starts from the same state of the tokens.
\<close>

section \<open>A pass that succeeds leaves no error behind\<close>

lemma matchany_clean: "json_matchany types st = Ret (0, tok, st') \<Longrightarrow> err_flag st' = err_flag st"
  by (auto simp: json_matchany_def json_trymatchany_def json_peek_def json_pop_def assert_then_Ret obind_Ret split: if_splits)

lemma match_clean: "json_match t st = Ret (0, tok, st') \<Longrightarrow> err_flag st' = err_flag st"
  unfolding json_match_def by (rule matchany_clean)

lemma trymatch_clean: "json_trymatch t st = Ret (ok, tok, st') \<Longrightarrow> err_flag st' = err_flag st"
  by (auto simp: json_trymatch_def json_trymatchany_def json_peek_def json_pop_def assert_then_Ret obind_Ret split: if_splits)

lemma loop_begin_clean: "loop_begin c d st = Ret (True, st') \<Longrightarrow> err_flag st' = err_flag st"
  by (auto simp: loop_begin_def obind_Ret dest!: match_clean trymatch_clean split: if_splits)

lemma loop_next_clean: "loop_next d st = Ret (True, st') \<Longrightarrow> err_flag st' = err_flag st"
  by (auto simp: loop_next_def obind_Ret dest!: matchany_clean split: if_splits)

lemma looparr_clean: "json_looparr i st = Ret (True, st') \<Longrightarrow> err_flag st' = err_flag st"
  by (auto simp: json_looparr_def dest: loop_begin_clean loop_next_clean split: if_splits)

lemma loopobj_clean: "json_loopobj i st = Ret (True, key, st') \<Longrightarrow> err_flag st' = err_flag st"
  by (auto simp: json_loopobj_def obind_Ret dest!: match_clean loop_begin_clean loop_next_clean split: if_splits)

lemma skip_clean:
  "(\<forall>st st'. json_skip fuel st = Ret (0, st') \<longrightarrow> \<not> err_flag st \<longrightarrow> \<not> err_flag st') \<and>
   (\<forall>is_obj i st st'. json_skip_loop fuel is_obj i st = Ret (0, st') \<longrightarrow> \<not> err_flag st \<longrightarrow> \<not> err_flag st')"
proof (induction fuel)
  case (Suc fuel)
  have A: "\<not> err_flag st'" if r: "json_skip (Suc fuel) st = Ret (0, st')" and c: "\<not> err_flag st" for st st'
  proof -
    obtain tok st1 where m: "json_matchany value_types st = Ret (0, tok, st1)"
      using r by (auto simp: obind_Ret split: if_splits)
    then have c1: "\<not> err_flag (st1\<lparr>tokens_cur := k\<rparr>)" for k using matchany_clean c by fastforce
    have "st' = st1 \<or> (\<exists>o'. json_skip_loop fuel o' 0 (st1\<lparr>tokens_cur := tokens_cur st1 - 1\<rparr>) = Ret (0, st'))"
      using r m by (auto split: if_splits)
    then show ?thesis using Suc c1 [of "tokens_cur st1"] c1 by auto
  qed
  have B: "\<not> err_flag st'" if r: "json_skip_loop (Suc fuel) is_obj i st = Ret (0, st')" and c: "\<not> err_flag st"
    for is_obj i st st'
  proof -
    obtain again st1 where h: "(if is_obj then obind (json_loopobj i st) (\<lambda>(again, _, st1). Ret (again, st1))
       else json_looparr i st) = Ret (again, st1)" using r by (auto simp: obind_Ret simp del: if_split_asm)
    show ?thesis
    proof (cases again)
      case True
      then have "err_flag st1 = err_flag st"
        using h by (auto simp: obind_Ret dest: loopobj_clean looparr_clean split: if_splits)
      moreover obtain st2 where s: "json_skip fuel st1 = Ret (0, st2)" "json_skip_loop fuel is_obj (i + 1) st2 = Ret (0, st')"
        using r h True by (auto simp: obind_Ret split: if_splits)
      ultimately show ?thesis using Suc c by blast
    next
      case False
      then show ?thesis using r h by (auto split: if_splits)
    qed
  qed
  show ?case using A B by blast
qed simp

lemma loopfields_clean:
  "loopfields fuel fs j st = Ret (Some i, st') \<Longrightarrow> \<not> err_flag st \<Longrightarrow> \<not> err_flag st'"
proof (induction fuel fs j st rule: loopfields.induct)
  case (2 fuel fs j st)
  from 2(2) obtain again key st1 where l: "json_loopobj j st = Ret (again, key, st1)" by (auto simp: obind_Ret)
  have again: again using 2(2) l by (cases again) auto
  then have c1: "\<not> err_flag st1" using loopobj_clean [of j st key st1] l 2(3) by simp
  show ?case
  proof (cases "find_field 0 fs (str key)")
    case None
    obtain c st2 where s: "json_skip (skip_fuel st1) st1 = Ret (c, st2)" using 2(2) l again None by (auto simp: obind_Ret)
    have c: "c = 0" using 2(2) l again None s by (cases "c = 0") auto
    then have "\<not> err_flag st2" using skip_clean [of "skip_fuel st1"] s c1 by blast
    then show ?thesis using 2(1) [OF l refl refl _ None s refl] 2(2) l again None s c by simp
  next
    case (Some k)
    then show ?thesis using 2(2) l again c1 by auto
  qed
qed simp

definition clean_helper :: "helper \<Rightarrow> bool" where
  "clean_helper H \<longleftrightarrow> (\<forall>T fg p p'. noting p \<longrightarrow> \<not> err_flag (p_state p) \<longrightarrow> H T fg None p = Ret (0, p') \<longrightarrow> \<not> err_flag (p_state p'))"

definition clean_elements :: "elements_loop \<Rightarrow> bool" where
  "clean_elements E \<longleftrightarrow>
     (\<forall>T i p k p'. noting p \<longrightarrow> \<not> err_flag (p_state p) \<longrightarrow> E T i None p = Ret (0, k, p') \<longrightarrow> \<not> err_flag (p_state p'))"

definition clean_fields :: "fields_loop \<Rightarrow> bool" where
  "clean_fields F \<longleftrightarrow>
     (\<forall>T j p p'. noting p \<longrightarrow> \<not> err_flag (p_state p) \<longrightarrow> F (described T) j None p = Ret (0, p') \<longrightarrow> \<not> err_flag (p_state p'))"

lemma clean_helperD:
  "clean_helper H \<Longrightarrow> noting p \<Longrightarrow> \<not> err_flag (p_state p) \<Longrightarrow> H T fg None p = Ret (0, p') \<Longrightarrow> \<not> err_flag (p_state p')"
  by (auto simp: clean_helper_def)

lemma alloc_state: "parse_alloc sz al p = Ret (a, p') \<Longrightarrow> p_state p' = p_state p"
  by (auto simp: parse_alloc_def Let_def split: option.splits if_splits)

lemma finish_state: "finish s e p = Ret (c, p') \<Longrightarrow> p_state p' = p_state p"
  by (auto simp: finish_def)

lemma parse_string_clean:
  assumes "parse_string T type None p = Ret (0, p')" "\<not> err_flag (p_state p)"
  shows "\<not> err_flag (p_state p')"
proof -
  from assms(1) obtain tok st where m: "json_match I3IPC_JSON_STRING (p_state p) = Ret (0, tok, st)"
    by (auto simp: parse_string_def obind_Ret Let_def split: if_splits)
  have "p_state p' = st"
    using assms(1) m by (auto simp: parse_string_def obind_Ret Let_def dest!: alloc_state finish_state split: if_splits)
  then show ?thesis using match_clean [OF m] assms(2) by simp
qed

lemma parse_primitive_clean:
  assumes "parse_primitive T None p = Ret (0, p')" "\<not> err_flag (p_state p)"
  shows "\<not> err_flag (p_state p')"
proof -
  from assms(1) obtain t tok st where m: "json_match t (p_state p) = Ret (0, tok, st)" "p_state p' = st"
    by (auto simp: parse_primitive_def obind_Ret Let_def finish_def split: if_splits)
  then show ?thesis using match_clean [OF m(1)] assms(2) by simp
qed

lemma parse_maybe_clean:
  assumes "notes_helper H" "clean_helper H" "noting p" "parse_maybe H (described U) T fg None p = Ret (0, p')"
    "\<not> err_flag (p_state p)"
  shows "\<not> err_flag (p_state p')"
proof -
  from assms(4) obtain ok tok st where m: "json_trymatch I3IPC_JSON_NULL (p_state p) = Ret (ok, tok, st)"
    by (auto simp: parse_maybe_def obind_Ret)
  then have w: "walked (p_state p) st" using assms(3) by (intro trymatch_walked) (auto simp: noting_def i3codes)
  note n = noting_walk [OF assms(3) w]
  have c: "\<not> err_flag st" using trymatch_clean [OF m] assms(5) by simp
  obtain p1 where a: "parse_alloc (tsize (described U)) (alignment (described U)) (p\<lparr>p_state := st\<rparr>) = Ret (None, p1)"
    using first_alloc [OF n(1)] by blast
  have p1: "noting p1" "p_state p1 = st" using noting_alloc [OF n(1) a alignment_cases] noted_noting by auto
  have h1: "\<not> err_flag (p_state p2)" if "H T (fg - GROUP_MAYBE) None p1 = Ret (0, p2)" for p2
    using clean_helperD [OF assms(2) p1(1) _ that] p1(2) c by simp
  have h2: "\<not> err_flag (p_state p2)" if "H T (fg - GROUP_MAYBE) None (p\<lparr>p_state := st\<rparr>) = Ret (0, p2)" for p2
    using clean_helperD [OF assms(2) n(1) _ that] c by simp
  show ?thesis
    using assms(4) m a c
    by (auto simp: parse_maybe_def obind_Ret Let_def store_if_def finish_def dest: h1 h2 split: if_splits)
qed

lemma parse_array_clean:
  assumes "clean_elements E" "noting p" "parse_array E (described U) T None p = Ret (0, p')" "\<not> err_flag (p_state p)"
  shows "\<not> err_flag (p_state p')"
proof -
  obtain p1 where a: "parse_alloc unknown_size (alignment (described U)) p = Ret (None, p1)" using first_alloc [OF assms(2)] by blast
  have p1: "noting p1" "p_state p1 = p_state p" using noting_alloc [OF assms(2) a alignment_cases] noted_noting by auto
  obtain k p3 where e: "E T 0 None p1 = Ret (0, k, p3)" "p_state p' = p_state p3"
    using assms(3) a by (auto simp: parse_array_def obind_Ret store_if_def finish_def set_block_size_def split: if_splits)
  then show ?thesis using assms(1,4) p1 unfolding clean_elements_def by metis
qed

lemma helper_step_clean:
  assumes "notes_helper H" "clean_helper H" "clean_elements E" "clean_fields F"
  shows "clean_helper (helper_step H E F)"
  unfolding clean_helper_def
proof (intro allI impI)
  fix T fg and p p' :: parse_state
  assume p: "noting p" and c: "\<not> err_flag (p_state p)" and r: "helper_step H E F T fg None p = Ret (0, p')"
  have inl: "\<not> err_flag (p_state p')" if "parse_inline H (described T) None p = Ret (0, p')"
    using that clean_helperD [OF assms(2) p c]
    by (auto simp: parse_inline_def assert_then_Ret obind_Ret Let_def finish_def split: if_splits)
  have obj: "\<not> err_flag (p_state p')" if "parse_object F (described T) None p = Ret (0, p')"
    using that assms(4) p c by (auto simp: parse_object_def obind_Ret clean_fields_def finish_def split: if_splits)
  show "\<not> err_flag (p_state p')"
    using r parse_maybe_clean [OF assms(1,2) p _ c] parse_string_clean [OF _ c] parse_array_clean [OF assms(3) p _ c]
      parse_primitive_clean [OF _ c] inl obj
    by (auto simp: helper_step_def assert_then_Ret split: if_splits)
qed

lemma elements_step_clean:
  assumes "notes_helper H" "clean_helper H" "clean_elements E"
  shows "clean_elements (elements_step H E)"
  unfolding clean_elements_def
proof (intro allI impI)
  fix T i k and p p' :: parse_state
  assume p: "noting p" and c: "\<not> err_flag (p_state p)" and r: "elements_step H E T i None p = Ret (0, k, p')"
  from r obtain again st where l: "json_looparr i (p_state p) = Ret (again, st)" by (auto simp: elements_step_def obind_Ret)
  have w: "walked (p_state p) st" using looparr_walked [OF _ l] p by (simp add: noting_def)
  note n = noting_walk [OF p w]
  show "\<not> err_flag (p_state p')"
  proof (cases again)
    case True
    then have c1: "\<not> err_flag st" using looparr_clean [of i "p_state p" st] l c by simp
    obtain p1 where h: "H T {} None (p\<lparr>p_state := st\<rparr>) = Ret (0, p1)" "E T (Suc i) None p1 = Ret (0, k, p')"
      using r l True by (auto simp: elements_step_def obind_Ret Let_def split: if_splits)
    have "noting p1" using notes_helperD [OF assms(1) n(1) h(1)] noted_noting by blast
    moreover have "\<not> err_flag (p_state p1)" using clean_helperD [OF assms(2) n(1) _ h(1)] c1 by simp
    ultimately show ?thesis using assms(3) h(2) unfolding clean_elements_def by blast
  next
    case False
    then show ?thesis using r l by (auto simp: elements_step_def Let_def split: if_splits)
  qed
qed

lemma fields_step_clean:
  assumes "notes_helper H" "clean_helper H" "clean_fields F"
  shows "clean_fields (fields_step n H F)"
  unfolding clean_fields_def
proof (intro allI impI)
  fix T j and p p' :: parse_state
  assume p: "noting p" and c: "\<not> err_flag (p_state p)" and r: "fields_step n H F (described T) j None p = Ret (0, p')"
  have t: "terminated (p_state p)" using p by (simp add: noting_def)
  from r obtain field st where l: "loopfields n (type_fields (described T)) j (p_state p) = Ret (field, st)"
    by (auto simp: fields_step_def obind_Ret)
  note nt = noting_walk [OF p conjunct1 [OF loopfields_walked [OF t l]]]
  show "\<not> err_flag (p_state p')"
  proof (cases field)
    case (Some i)
    then have c1: "\<not> err_flag st" using loopfields_clean [of n "type_fields (described T)" j "p_state p" i st] l c by simp
    let ?f = "type_fields (described T) ! i"
    obtain p1 where h: "H (ftype ?f) (flags ?f) None (p\<lparr>p_state := st\<rparr>) = Ret (0, p1)" "F (described T) 1 None p1 = Ret (0, p')"
      using r l Some by (auto simp: fields_step_def obind_Ret Let_def split: if_splits)
    have "noting p1" using notes_helperD [OF assms(1) nt(1) h(1)] noted_noting by blast
    moreover have "\<not> err_flag (p_state p1)" using clean_helperD [OF assms(2) nt(1) _ h(1)] c1 by simp
    ultimately show ?thesis using assms(3) h(2) unfolding clean_fields_def by blast
  next
    case None
    then show ?thesis using r l by (auto simp: fields_step_def Let_def split: if_splits)
  qed
qed

lemma first_pass_clean: "clean_helper (parse_helper n) \<and> clean_elements (parse_elements n) \<and> clean_fields (parse_fields n)"
proof (induction n)
  case 0
  then show ?case by (simp add: clean_helper_def clean_elements_def clean_fields_def)
next
  case (Suc n)
  then show ?case
    unfolding parse_Suc
    using helper_step_clean elements_step_clean fields_step_clean first_pass_notes [of n] by blast
qed

end
