(* ===== verification/I3_Values.thy ===== *)
theory I3_Values
  imports I3_Clean
begin

text \<open>
  What it means that a memory holds a JSON value as one of the types of the table: \<open>represents\<close>.
  A part of the value lies either in the room of the type at its address or in the blocks between
  two bounds; so stores elsewhere keep it.
\<close>

section \<open>Memory\<close>

definition cells_at :: "cell list \<Rightarrow> nat \<Rightarrow> nat \<Rightarrow> cell list" where
  "cells_at m off n = take n (drop off m)"

definition blank :: "nat set \<Rightarrow> cell list \<Rightarrow> bool" where
  "blank S m \<longleftrightarrow> (\<forall>i\<in>S. i < length m \<and> m ! i = Byte 0)"

text \<open>Two memories that differ only inside the set.\<close>

definition kept :: "nat set \<Rightarrow> cell list \<Rightarrow> cell list \<Rightarrow> bool" where
  "kept S m m' \<longleftrightarrow> length m' = length m \<and> (\<forall>i < length m. i \<notin> S \<longrightarrow> m' ! i = m ! i)"

lemma kept_refl [simp]: "kept S m m"
  by (simp add: kept_def)

lemma kept_trans: "kept S m m1 \<Longrightarrow> kept S' m1 m2 \<Longrightarrow> S \<subseteq> U \<Longrightarrow> S' \<subseteq> U \<Longrightarrow> kept U m m2"
  unfolding kept_def by (metis subsetD)

lemma kept_mono: "kept S m m' \<Longrightarrow> S \<subseteq> U \<Longrightarrow> kept U m m'"
  by (auto simp: kept_def)

lemma kept_length: "kept S m m' \<Longrightarrow> length m' = length m"
  by (simp add: kept_def)

lemma kept_cells:
  assumes "kept S m m'" "S \<inter> {off..<off + n} = {}"
  shows "cells_at m' off n = cells_at m off n"
proof (rule nth_equalityI)
  show "length (cells_at m' off n) = length (cells_at m off n)" using assms(1) by (simp add: cells_at_def kept_def)
  fix i
  assume "i < length (cells_at m' off n)"
  then have i: "i < n" "off + i < length m" using assms(1) by (auto simp: cells_at_def kept_def)
  then have "off + i \<notin> S" using assms(2) by auto
  then show "cells_at m' off n ! i = cells_at m off n ! i" using assms(1) i by (simp add: cells_at_def kept_def)
qed

lemma kept_blank: "kept S m m' \<Longrightarrow> S \<inter> B = {} \<Longrightarrow> blank B m \<Longrightarrow> blank B m'"
  unfolding kept_def blank_def disjoint_iff by metis

lemma blank_mono: "blank S m \<Longrightarrow> S' \<subseteq> S \<Longrightarrow> blank S' m"
  by (auto simp: blank_def)

lemma put_kept: "put off cs m = Ret m' \<Longrightarrow> kept {off..<off + length cs} m m'"
  by (auto simp: put_def kept_def nth_append min_def split: if_splits)

lemma put_cells: "put off cs m = Ret m' \<Longrightarrow> cells_at m' off (length cs) = cs"
  by (auto simp: put_def cells_at_def split: if_splits)

section \<open>Values in memory\<close>

definition json_text :: "json \<Rightarrow> byte list option" where
  "json_text v = (case v of JString s \<Rightarrow> Some (cstr s) | _ \<Rightarrow> None)"

text \<open>The number that goes with an array or a text.\<close>

definition json_size :: "json \<Rightarrow> int" where
  "json_size v = (case v of JString s \<Rightarrow> int (length s) | JArr vs \<Rightarrow> int (length vs) | _ \<Rightarrow> 0)"

definition json_double :: "int \<Rightarrow> rat" where
  "json_double i = token_double (number (number_token i))"

definition text_at :: "cell list \<Rightarrow> nat \<Rightarrow> nat \<Rightarrow> pointer \<Rightarrow> byte list \<Rightarrow> bool" where
  "text_at m lo hi ptr s \<longleftrightarrow>
     ptr = Text s \<or> (\<exists>a. ptr = At a \<and> lo \<le> a \<and> a + length s + 1 \<le> hi \<and> cells_at m a (length s + 1) = map Byte (s @ [0]))"

text \<open>The fields that belong to field \<open>i\<close>: itself and the derived ones behind it.\<close>

definition owns :: "i3_field list \<Rightarrow> nat \<Rightarrow> nat \<Rightarrow> bool" where
  "owns fs i k \<longleftrightarrow> i \<le> k \<and> k < length fs \<and> (\<forall>l. i < l \<longrightarrow> l \<le> k \<longrightarrow> derived (fs ! l))"

definition field_range :: "i3_field \<Rightarrow> nat \<Rightarrow> nat set" where
  "field_range f b = {b + foffset f..<b + foffset f + room (ftype f) (flags f)}"

definition field_cells :: "i3_field list \<Rightarrow> nat \<Rightarrow> nat \<Rightarrow> nat set" where
  "field_cells fs b i = (\<Union>k\<in>{k. owns fs i k}. field_range (fs ! k) b)"

definition derived_field :: "string \<Rightarrow> i3_field \<Rightarrow> nat \<Rightarrow> json \<Rightarrow> cell list \<Rightarrow> bool" where
  "derived_field nm f b v m \<longleftrightarrow>
     (ISSIZE \<in> flags f \<longrightarrow> cells_at m (b + foffset f) 4 = int_cells (json_size v)) \<and>
     (ISFLAG \<in> flags f \<longrightarrow> cells_at m (b + foffset f) 1 = bool_cells (v \<noteq> JNull)) \<and>
     (ISENUM \<in> flags f \<longrightarrow> (\<forall>e. enum_value nm (json_text v) = Ret (Some e) \<longrightarrow> cells_at m (b + foffset f) 4 = int_cells e))"

definition derived_hold :: "i3_field list \<Rightarrow> nat \<Rightarrow> nat \<Rightarrow> json \<Rightarrow> cell list \<Rightarrow> bool" where
  "derived_hold fs i b v m \<longleftrightarrow> (\<forall>k. owns fs i k \<longrightarrow> i < k \<longrightarrow> derived_field (full_name (fs ! i)) (fs ! k) b v m)"

text \<open>The member of an object that is parsed into field \<open>i\<close>.\<close>

definition member_for :: "i3_field list \<Rightarrow> nat \<Rightarrow> (byte list \<times> json) list \<Rightarrow> json option" where
  "member_for fs i kvs = map_option snd (find (\<lambda>(k, v). find_field 0 fs k = Some i) kvs)"

inductive represents :: "cell list \<Rightarrow> nat \<Rightarrow> nat \<Rightarrow> type_id \<Rightarrow> type_flags \<Rightarrow> nat \<Rightarrow> json \<Rightarrow> bool"
  for m :: "cell list" and lo hi :: nat
where
  null: "fg \<inter> GROUP_MAYBE \<noteq> {} \<Longrightarrow> blank {b..<b + room T fg} m \<Longrightarrow> represents m lo hi T fg b JNull"
| pointer: "ISPTR \<in> fg \<Longrightarrow> v \<noteq> JNull \<Longrightarrow> cells_at m b 8 = pointer_cells (At a) \<Longrightarrow> lo \<le> a \<Longrightarrow> a + tsize (described T) \<le> hi \<Longrightarrow>
    represents m lo hi T {} a v \<Longrightarrow> represents m lo hi T fg b v"
| optional: "ISPTR \<notin> fg \<Longrightarrow> ISOPT \<in> fg \<Longrightarrow> v \<noteq> JNull \<Longrightarrow> represents m lo hi T (fg - GROUP_MAYBE) b v \<Longrightarrow>
    represents m lo hi T fg b v"
| chars: "fg \<inter> GROUP_MAYBE = {} \<Longrightarrow> ISARRAY \<in> fg \<Longrightarrow> cells_at m b 8 = pointer_cells ptr \<Longrightarrow> text_at m lo hi ptr s \<Longrightarrow>
    represents m lo hi I3IPC_TYPE_CHAR fg b (JString s)"
| string: "cells_at m b 8 = pointer_cells ptr \<Longrightarrow> cells_at m (b + 8) 4 = int_cells (int (length s)) \<Longrightarrow>
    text_at m lo hi ptr s \<Longrightarrow> represents m lo hi I3IPC_TYPE_STRING {} b (JString s)"
| array: "fg \<inter> GROUP_MAYBE = {} \<Longrightarrow> ISARRAY \<in> fg \<Longrightarrow> T \<noteq> I3IPC_TYPE_CHAR \<Longrightarrow> cells_at m b 8 = pointer_cells (At a) \<Longrightarrow>
    lo \<le> a \<Longrightarrow> a + length vs * tsize (described T) \<le> hi \<Longrightarrow>
    (\<forall>i < length vs. represents m lo hi T {} (a + i * tsize (described T)) (vs ! i)) \<Longrightarrow>
    represents m lo hi T fg b (JArr vs)"
| inlined: "is_inline (described T) \<Longrightarrow> T \<noteq> I3IPC_TYPE_STRING \<Longrightarrow> f = type_fields (described T) ! 0 \<Longrightarrow>
    represents m lo hi (ftype f) (flags f) (b + foffset f) v \<Longrightarrow> derived_hold (type_fields (described T)) 0 b v m \<Longrightarrow>
    represents m lo hi T {} b v"
| bool: "cells_at m b 1 = bool_cells x \<Longrightarrow> represents m lo hi I3IPC_TYPE_BOOL {} b (JBool x)"
| int: "cells_at m b 4 = int_cells i \<Longrightarrow> represents m lo hi I3IPC_TYPE_INT {} b (JNumber i)"
| sizet: "cells_at m b 8 = size_cells (word_of_int i) \<Longrightarrow> represents m lo hi I3IPC_TYPE_SIZET {} b (JNumber i)"
| float: "cells_at m b 4 = float_cells (fl (json_double i)) \<Longrightarrow> represents m lo hi I3IPC_TYPE_FLOAT {} b (JNumber i)"
| object: "T \<noteq> I3IPC_TYPE_STRING \<Longrightarrow> \<not> is_inline (described T) \<Longrightarrow> \<not> is_primitive (described T) \<Longrightarrow>
    (\<forall>i < length (type_fields (described T)). \<not> derived (type_fields (described T) ! i) \<longrightarrow>
      (member_for (type_fields (described T)) i kvs = None \<longrightarrow> blank (field_cells (type_fields (described T)) b i) m) \<and>
      (\<forall>w. member_for (type_fields (described T)) i kvs = Some w \<longrightarrow>
         represents m lo hi (ftype (type_fields (described T) ! i)) (flags (type_fields (described T) ! i))
           (b + foffset (type_fields (described T) ! i)) w \<and>
         derived_hold (type_fields (described T)) i b w m)) \<Longrightarrow>
    represents m lo hi T {} b (JObj kvs)"

section \<open>Stores elsewhere keep a value\<close>

lemma text_at_kept:
  assumes "text_at m lo hi ptr s" "kept S m m'" "S \<inter> {lo..<hi} = {}"
  shows "text_at m' lo hi ptr s"
proof -
  have "cells_at m' a (length s + 1) = cells_at m a (length s + 1)" if "lo \<le> a" "a + length s + 1 \<le> hi" for a
    using that assms(3) by (intro kept_cells [OF assms(2)]) auto
  then show ?thesis using assms(1) by (auto simp: text_at_def)
qed

lemma text_at_mono: "text_at m lo hi ptr s \<Longrightarrow> lo' \<le> lo \<Longrightarrow> hi \<le> hi' \<Longrightarrow> text_at m lo' hi' ptr s"
  by (auto simp: text_at_def)

lemma field_range_inside: "f \<in> set (type_fields (described T)) \<Longrightarrow> field_range f b \<subseteq> {b..<b + tsize (described T)}"
  using field_inside [of f T] by (auto simp: field_range_def)

lemma field_cells_inside: "field_cells (type_fields (described T)) b i \<subseteq> {b..<b + tsize (described T)}"
  unfolding field_cells_def
proof (rule UN_least)
  fix k
  assume "k \<in> {k. owns (type_fields (described T)) i k}"
  then have "type_fields (described T) ! k \<in> set (type_fields (described T))" by (simp add: owns_def)
  then show "field_range (type_fields (described T) ! k) b \<subseteq> {b..<b + tsize (described T)}" by (rule field_range_inside)
qed

lemma derived_room: "derived_ok f \<Longrightarrow>
  room (ftype f) (flags f) = (if ISFLAG \<in> flags f then 1 else 4)"
  unfolding derived_ok_def by (elim disjE conjE) (simp_all add: room_def)

lemma owned_derived:
  "owns (type_fields (described T)) i k \<Longrightarrow> i < k \<Longrightarrow> derived_ok (type_fields (described T) ! k)"
  using table_fields_ok [of T] by (auto simp: list_all_length field_ok_def owns_def)

lemma derived_field_kept:
  assumes "derived_field nm f b v m" "derived_ok f" "kept S m m'" "S \<inter> field_range f b = {}"
  shows "derived_field nm f b v m'"
proof -
  have "cells_at m' (b + foffset f) n = cells_at m (b + foffset f) n" if "n \<le> room (ftype f) (flags f)" for n
  proof (rule kept_cells [OF assms(3)])
    have "{b + foffset f..<b + foffset f + n} \<subseteq> field_range f b" using that by (auto simp: field_range_def)
    then show "S \<inter> {b + foffset f..<b + foffset f + n} = {}" using assms(4) by blast
  qed
  then show ?thesis
    using assms(1,2) derived_room [OF assms(2)] by (auto simp: derived_field_def derived_ok_def)
qed

lemma derived_hold_kept:
  assumes "derived_hold (type_fields (described T)) i b v m" "kept S m m'"
    "S \<inter> field_cells (type_fields (described T)) b i = {}"
  shows "derived_hold (type_fields (described T)) i b v m'"
  unfolding derived_hold_def
proof (intro allI impI)
  fix k
  assume k: "owns (type_fields (described T)) i k" "i < k"
  have "S \<inter> field_range (type_fields (described T) ! k) b = {}" using assms(3) k(1) by (auto simp: field_cells_def)
  then show "derived_field (full_name (type_fields (described T) ! i)) (type_fields (described T) ! k) b v m'"
    using assms(1) k by (intro derived_field_kept [OF _ owned_derived [OF k] assms(2)]) (simp_all add: derived_hold_def)
qed

lemma field_cells_self: "i < length fs \<Longrightarrow> field_range (fs ! i) b \<subseteq> field_cells fs b i"
  by (auto simp: field_cells_def owns_def)

lemma room_ge: "ISARRAY \<in> fg \<or> ISPTR \<in> fg \<Longrightarrow> room T fg = 8" "ISARRAY \<notin> fg \<Longrightarrow> ISPTR \<notin> fg \<Longrightarrow> room T fg = tsize (described T)"
  by (simp_all add: room_def)

lemma apart_sub: "S \<inter> {b..<e} = {} \<Longrightarrow> b \<le> x \<Longrightarrow> y \<le> e \<Longrightarrow> S \<inter> {x..<y} = {}" for b :: nat
  by auto

lemma kept_cells_in:
  "kept S m m' \<Longrightarrow> S \<inter> {b..<e} = {} \<Longrightarrow> b \<le> off \<Longrightarrow> off + n \<le> e \<Longrightarrow> cells_at m' off n = cells_at m off n"
  by (rule kept_cells) (auto intro: apart_sub)

lemma represents_kept:
  assumes "represents m lo hi T fg b v" "kept S m m'" "S \<inter> {lo..<hi} = {}" "S \<inter> {b..<b + room T fg} = {}"
  shows "represents m' lo hi T fg b v"
  using assms
proof (induction rule: represents.induct)
  case (null fg b T)
  then show ?case by (intro represents.null) (auto intro: kept_blank)
next
  case (pointer fg v b a T)
  have c: "cells_at m' b 8 = pointer_cells (At a)"
    using kept_cells_in [OF pointer.prems(1,3), of b 8] pointer.hyps(1,3) by (simp add: room_ge)
  have "S \<inter> {a..<a + room T {}} = {}"
    using pointer.hyps(4,5) by (intro apart_sub [OF pointer.prems(2)]) (simp_all add: room_ge)
  then have "represents m' lo hi T {} a v" using pointer.IH pointer.prems by blast
  then show ?case using represents.pointer [OF pointer.hyps(1,2) c pointer.hyps(4,5)] by blast
next
  case (optional fg v T b)
  have "room T (fg - GROUP_MAYBE) = room T fg" using optional.hyps by (simp add: room_def GROUP_MAYBE_def)
  then have "represents m' lo hi T (fg - GROUP_MAYBE) b v" using optional.IH optional.prems by simp
  then show ?case using represents.optional optional.hyps by blast
next
  case (chars fg b ptr s)
  have "cells_at m' b 8 = pointer_cells ptr"
    using kept_cells_in [OF chars.prems(1,3), of b 8] chars.hyps(2,3) by (simp add: room_ge)
  then show ?case using chars.hyps text_at_kept [OF chars.hyps(4) chars.prems(1,2)] by (intro represents.chars)
next
  case (string b ptr s)
  have "cells_at m' b 8 = pointer_cells ptr" "cells_at m' (b + 8) 4 = int_cells (int (length s))"
    using kept_cells_in [OF string.prems(1,3), of b 8] kept_cells_in [OF string.prems(1,3), of "b + 8" 4] string.hyps(1,2)
    by (simp_all add: room_ge)
  then show ?case using text_at_kept [OF string.hyps(3) string.prems(1,2)] by (intro represents.string)
next
  case (array fg T b a vs)
  let ?s = "tsize (described T)"
  have c: "cells_at m' b 8 = pointer_cells (At a)"
    using kept_cells_in [OF array.prems(1,3), of b 8] array.hyps(2,4) by (simp add: room_ge)
  have "represents m' lo hi T {} (a + i * ?s) (vs ! i)" if i: "i < length vs" for i
  proof -
    have "Suc i * ?s \<le> length vs * ?s" using i by (intro mult_right_mono) simp_all
    then have "S \<inter> {a + i * ?s..<a + i * ?s + room T {}} = {}"
      using array.hyps(5,6) by (intro apart_sub [OF array.prems(2)]) (auto simp: room_ge)
    then show ?thesis using array.IH i array.prems by blast
  qed
  then show ?case using represents.array [OF array.hyps(1-3) c array.hyps(5,6)] by blast
next
  case (inlined T f b v)
  let ?fs = "type_fields (described T)"
  have r: "room T {} = tsize (described T)" by (simp add: room_ge)
  have f: "f \<in> set ?fs" using table_inline [OF inlined.hyps(1)] inlined.hyps(3) by auto
  have "S \<inter> field_range f b = {}" "S \<inter> field_cells ?fs b 0 = {}"
    using field_range_inside [OF f, of b] field_cells_inside [of T b 0] inlined.prems(3) unfolding r by blast+
  then show ?case
    using inlined derived_hold_kept [OF inlined.hyps(5) inlined.prems(1)]
    by (intro represents.inlined [of T f]) (simp_all add: field_range_def)
next
  case (object T kvs b)
  let ?fs = "type_fields (described T)"
  have r: "room T {} = tsize (described T)" by (simp add: room_ge)
  have cells: "S \<inter> field_cells ?fs b i = {}" for i
    using field_cells_inside [of T b i] object.prems(3) unfolding r by blast
  have "S \<inter> field_range (?fs ! i) b = {}" if "i < length ?fs" for i
    using cells [of i] field_cells_self [OF that, of b] by blast
  then show ?case
    using object kept_blank [OF object.prems(1) cells] derived_hold_kept [OF _ object.prems(1) cells]
    by (intro represents.object) (simp_all add: field_range_def)
next
  case (bool b x)
  then show ?case using kept_cells_in [OF bool.prems(1,3), of b 1] by (intro represents.bool) (simp_all add: room_ge)
qed (auto intro!: represents.intros simp: kept_cells_in room_ge)

lemma represents_mono: "represents m lo hi T fg b v \<Longrightarrow> lo' \<le> lo \<Longrightarrow> hi \<le> hi' \<Longrightarrow> represents m lo' hi' T fg b v"
proof (induction rule: represents.induct)
  case (pointer fg v b a T)
  show ?case by (rule represents.pointer [where a = a]) (use pointer in \<open>simp_all\<close>)
next
  case (inlined T f b v)
  show ?case by (rule represents.inlined [where f = f]) (use inlined in \<open>simp_all\<close>)
next
  case (array fg T b a vs)
  show ?case by (rule represents.array [where a = a]) (use array in \<open>simp_all\<close>)
next
  case (object T kvs b)
  show ?case by (rule represents.object) (use object in \<open>simp_all\<close>)
next
  case (chars fg b ptr s)
  show ?case by (rule represents.chars [where ptr = ptr]) (use chars in \<open>auto intro: text_at_mono\<close>)
next
  case (string b ptr s)
  show ?case by (rule represents.string [where ptr = ptr]) (use string in \<open>auto intro: text_at_mono\<close>)
qed (simp_all add: represents.intros)

section \<open>Where a loop stands\<close>

fun distinct_keys :: "json \<Rightarrow> bool" where
  "distinct_keys (JArr vs) = list_all distinct_keys vs"
| "distinct_keys (JObj kvs) = (distinct (map (\<lambda>(k, v). cstr k) kvs) \<and> list_all (\<lambda>(k, v). distinct_keys v) kvs)"
| "distinct_keys _ = True"

text \<open>The tokens of the elements behind the first, or of all of them in front of the first.\<close>

definition array_tail :: "json list \<Rightarrow> json_token list \<Rightarrow> json_token list" where
  "array_tail vs rest = concat (map (\<lambda>v. char_token 44 # tokens_of v) vs) @ char_token 93 # rest"

definition array_at :: "nat \<Rightarrow> json list \<Rightarrow> json_token list \<Rightarrow> json_token list" where
  "array_at i vs rest =
     (if i = 0 then char_token 91 # commas (char_token 44) (map tokens_of vs) @ char_token 93 # rest else array_tail vs rest)"

definition member_tokens :: "byte list \<times> json \<Rightarrow> json_token list" where
  "member_tokens = (\<lambda>(k, v). string_token k # char_token 58 # tokens_of v)"

definition object_tail :: "(byte list \<times> json) list \<Rightarrow> json_token list \<Rightarrow> json_token list" where
  "object_tail kvs rest = concat (map (\<lambda>kv. char_token 44 # member_tokens kv) kvs) @ char_token 125 # rest"

definition object_at :: "nat \<Rightarrow> (byte list \<times> json) list \<Rightarrow> json_token list \<Rightarrow> json_token list" where
  "object_at j kvs rest =
     (if j = 0 then char_token 123 # commas (char_token 44) (map member_tokens kvs) @ char_token 125 # rest
      else object_tail kvs rest)"

lemma tails_nonempty [simp]: "array_tail vs rest \<noteq> []" "object_tail kvs rest \<noteq> []"
  by (simp_all add: array_tail_def object_tail_def)

lemma array_tail_next: "array_at (Suc i) vs rest = array_tail vs rest"
  by (simp add: array_at_def)

lemma array_at_first: "tokens_of (JArr vs) @ rest = array_at 0 vs rest"
  by (simp add: array_at_def)

lemma object_at_first: "tokens_of (JObj kvs) @ rest = object_at 0 kvs rest"
  by (simp add: object_at_def member_tokens_def)

lemma looparr_done:
  assumes "terminated st" "ahead st = array_at i [] rest" "rest \<noteq> []"
  shows "\<exists>n. json_looparr i st = Ret (False, adv n st) \<and> ahead (adv n st) = rest"
proof (cases i)
  case 0
  have "ahead st = char_token (open_char False) # char_token (close_char False) # rest"
    using assms(2) by (simp add: 0 array_at_def open_char_def close_char_def)
  from head_empty [OF assms(1) this assms(3)] show ?thesis using 0 assms(2)
    by (intro exI [of _ 2]) (simp add: array_at_def)
next
  case (Suc k)
  have "ahead st = char_token (close_char False) # rest" using assms(2) by (simp add: Suc array_at_def array_tail_def close_char_def)
  from head_end [OF assms(1) this assms(3)] show ?thesis using assms(2) Suc
    by (intro exI [of _ 1]) (simp add: array_at_def array_tail_def)
qed

lemma looparr_more:
  assumes "terminated st" "ahead st = array_at i (v # vs) rest"
  shows "json_looparr i st = Ret (True, adv 1 st) \<and> ahead (adv 1 st) = tokens_of v @ array_tail vs rest"
proof (cases i)
  case 0
  obtain t r where t: "tokens_of v = t # r" "tok_type t \<in> set value_types" using tokens_of_first by blast
  have a: "ahead st = char_token (open_char False) # [] @ t # r @ array_tail vs rest"
    using assms(2) t(1) by (simp add: 0 array_at_def array_tail_def open_char_def commas_Cons comp_def)
  have "tok_type t \<noteq> close_char False" using t(2) by (auto simp: value_types_def close_char_def i3codes)
  then show ?thesis using head_first [OF assms(1) a] a t(1) 0 by (simp add: prefix_of_def)
next
  case (Suc k)
  have a: "ahead st = char_token 44 # [] @ tokens_of v @ array_tail vs rest"
    using assms(2) by (simp add: Suc array_at_def array_tail_def)
  then show ?thesis using head_next [OF assms(1) a, of False k] Suc by (simp add: prefix_of_def)
qed

text \<open>The key that is delivered stands in front of the value and its colon.\<close>

lemma match_Ret0: "terminated st \<Longrightarrow> json_match t st = Ret (0, tok, st') \<Longrightarrow> tok = here st \<and> st' = adv 1 st"
  by (auto simp: json_match_def matchany_eq split: if_splits)

lemma loopobj_key:
  assumes "terminated st" "json_loopobj j st = Ret (True, key, st1)"
  shows "2 \<le> tokens_cur st1 \<and> tokens st1 = tokens st \<and> key = tokens st ! (tokens_cur st1 - 2)"
proof -
  from assms(2) obtain st2 st3 where b: "(if j = 0 then loop_begin 123 125 st else loop_next 125 st) = Ret (True, st2)"
    and k: "json_match I3IPC_JSON_STRING st2 = Ret (0, key, st3)" and c: "\<exists>tok. json_match 58 st3 = Ret (0, tok, st1)"
    by (auto simp: json_loopobj_def obind_Ret split: if_splits)
  have w: "walked st st2"
    using loop_begin_walks [OF assms(1), of 123 125] loop_next_walks [OF assms(1), of 125] b
    by (auto simp: goes_on_def split: if_splits)
  then have t2: "terminated st2" "tokens st2 = tokens st" by (simp_all add: walked_def)
  note 1 = match_Ret0 [OF t2(1) k]
  have t3: "terminated st3" using match_walked [OF t2(1) _ k] by (auto simp: walked_def i3codes)
  obtain tok where "json_match 58 st3 = Ret (0, tok, st1)" using c by blast
  then have "st1 = adv 1 st3" using match_Ret0 [OF t3] by blast
  then show ?thesis using 1 t2(2) by (simp add: adv_def here_def)
qed

lemma loopobj_done:
  assumes "terminated st" "ahead st = object_at j [] rest" "rest \<noteq> []"
  shows "\<exists>n key. json_loopobj j st = Ret (False, key, adv n st) \<and> ahead (adv n st) = rest"
proof (cases j)
  case 0
  have "ahead st = char_token (open_char True) # char_token (close_char True) # rest"
    using assms(2) by (simp add: 0 object_at_def open_char_def close_char_def)
  from head_empty [OF assms(1) this assms(3)] show ?thesis using 0 assms(2)
    by (auto simp: obind_Ret object_at_def intro!: exI [of _ 2])
next
  case (Suc k)
  have "ahead st = char_token (close_char True) # rest" using assms(2) by (simp add: Suc object_at_def object_tail_def close_char_def)
  from head_end [OF assms(1) this assms(3), of k] show ?thesis using assms(2) Suc
    by (auto simp: obind_Ret object_at_def object_tail_def intro!: exI [of _ 1])
qed

lemma loopobj_more:
  assumes "terminated st" "ahead st = object_at j ((k, v) # kvs) rest"
  shows "json_loopobj j st = Ret (True, string_token k, adv 3 st) \<and> ahead (adv 3 st) = tokens_of v @ object_tail kvs rest"
proof -
  let ?pf = "[string_token k, char_token 58]"
  obtain t r where t: "tokens_of v = t # r" "tok_type t \<in> set value_types" using tokens_of_first by blast
  have ty: "tok_type t \<noteq> close_char True" using t(2) by (auto simp: value_types_def close_char_def i3codes)
  have a: "\<exists>c. ahead st = c # ?pf @ t # r @ object_tail kvs rest"
    using assms(2) t(1)
    by (auto simp: object_at_def object_tail_def member_tokens_def open_char_def commas_Cons comp_def split: if_splits)
  have pf: "prefix_of True ?pf" by (simp only: prefix_of_def if_True) blast
  have "loop_head True j st = Ret (True, adv (1 + length ?pf) st)"
  proof (cases j)
    case 0
    have "ahead st = char_token (open_char True) # ?pf @ t # r @ object_tail kvs rest"
      using assms(2) t(1) by (simp add: 0 object_at_def object_tail_def member_tokens_def open_char_def commas_Cons comp_def)
    from head_first [OF assms(1) this _ pf ty] show ?thesis using 0 by simp
  next
    case (Suc i)
    have "ahead st = char_token 44 # ?pf @ t # r @ object_tail kvs rest"
      using assms(2) t(1) by (simp add: Suc object_at_def object_tail_def member_tokens_def)
    from head_next [OF assms(1) this _ pf, of i] show ?thesis using Suc by simp
  qed
  then obtain key where key: "json_loopobj j st = Ret (True, key, adv 3 st)"
    by (auto simp: obind_Ret numeral_3_eq_3)
  from loopobj_key [OF assms(1) this] have "key = ahead st ! 1"
    using assms(1) by (simp add: adv_def ahead_def terminated_def)
  then show ?thesis using key a t(1) by auto
qed

section \<open>The fields of a structure do not touch\<close>

lemma field_names_distinct: "distinct (map fname (type_fields (described T)))"
proof -
  obtain inl C fs where g: "type_group T = (inl, C, fs)" by (cases "type_group T") auto
  let ?ms = "members (snd C)"
  have m: "map (\<lambda>f. (fname f, room (ftype f) (flags f))) fs =
      map (\<lambda>(n, t). (n, sizeof t)) (drop (length ?ms - length fs) ?ms)"
    using table_matches [of T] by (simp add: g fields_match_def)
  have "map fname fs = map fst (map (\<lambda>f. (fname f, room (ftype f) (flags f))) fs)" by simp
  also have "\<dots> = drop (length ?ms - length fs) (map fst ?ms)" unfolding m by (simp add: drop_map comp_def case_prod_beta)
  finally have "distinct (map fname fs)" using members_distinct [of T] by (simp add: g)
  moreover have "map fname (type_fields (described T)) = map fname fs" by (simp add: described_fields g)
  ultimately show ?thesis by simp
qed

lemma field_ranges_apart:
  assumes "i < length (type_fields (described T))" "k < length (type_fields (described T))" "i \<noteq> k"
  shows "field_range (type_fields (described T) ! i) b \<inter> field_range (type_fields (described T) ! k) b = {}"
proof -
  have "fname (type_fields (described T) ! i) \<noteq> fname (type_fields (described T) ! k)"
    using field_names_distinct [of T] assms by (simp add: distinct_conv_nth)
  then show ?thesis using fields_apart [OF nth_mem [OF assms(1)] nth_mem [OF assms(2)]]
    unfolding field_range_def by auto
qed

lemma owns_unique:
  assumes "owns fs i k" "owns fs i' k" "\<not> derived (fs ! i)" "\<not> derived (fs ! i')"
  shows "i = i'"
  using assms unfolding owns_def by (metis linorder_neqE_nat)

lemma field_cells_apart:
  assumes "\<not> derived (type_fields (described T) ! i)" "\<not> derived (type_fields (described T) ! i')" "i \<noteq> i'"
  shows "field_cells (type_fields (described T)) b i \<inter> field_cells (type_fields (described T)) b i' = {}"
proof -
  let ?fs = "type_fields (described T)"
  have "field_range (?fs ! k) b \<inter> field_range (?fs ! k') b = {}" if "owns ?fs i k" "owns ?fs i' k'" for k k'
  proof -
    have "k \<noteq> k'" using owns_unique [OF that(1) _ assms(1,2)] that(2) assms(3) by blast
    then show ?thesis using field_ranges_apart [of k T k'] that by (simp add: owns_def)
  qed
  then show ?thesis unfolding field_cells_def by blast
qed

text \<open>Which derived fields stand behind which fields.\<close>

definition goes_with :: "i3_field \<Rightarrow> i3_field \<Rightarrow> bool" where
  "goes_with g f \<longleftrightarrow> (ISSIZE \<in> flags f \<longrightarrow> ISARRAY \<in> flags g) \<and>
     (ISENUM \<in> flags f \<longrightarrow> ftype g = I3IPC_TYPE_CHAR \<and> ISARRAY \<in> flags g)"

fun groups_ok :: "i3_field option \<Rightarrow> i3_field list \<Rightarrow> bool" where
  "groups_ok cur [] = True"
| "groups_ok cur (f # fs) =
     (if derived f then (case cur of None \<Rightarrow> False | Some g \<Rightarrow> goes_with g f) \<and> groups_ok cur fs
      else groups_ok (Some f) fs)"

lemma table_groups: "groups_ok None (type_fields (described T))"
  unfolding described_fields
  by (cases T) (simp_all add: inner_fields outer_fields field_defs goes_with_def derived_def)

lemma groups_behind:
  "groups_ok (Some g) fs \<Longrightarrow> k < length fs \<Longrightarrow> (\<forall>l\<le>k. derived (fs ! l)) \<Longrightarrow> goes_with g (fs ! k)"
proof (induction fs arbitrary: k)
  case (Cons f fs)
  have f: "derived f" using Cons.prems(3) by (auto dest: spec [of _ 0])
  show ?case
  proof (cases k)
    case (Suc n)
    have "derived (fs ! l)" if "l \<le> n" for l using Cons.prems(3) that Suc by (auto dest: spec [of _ "Suc l"])
    then show ?thesis using Cons f Suc by simp
  qed (use Cons.prems f in simp)
qed simp

lemma groups_owned:
  "groups_ok cur fs \<Longrightarrow> owns fs i k \<Longrightarrow> i < k \<Longrightarrow> \<not> derived (fs ! i) \<Longrightarrow> goes_with (fs ! i) (fs ! k)"
proof (induction fs arbitrary: cur i k)
  case (Cons f fs)
  obtain n where k: "k = Suc n" "n < length fs" using Cons.prems(2,3) by (cases k) (auto simp: owns_def)
  have "\<exists>cur. groups_ok cur fs" using Cons.prems(1) by (auto split: if_splits)
  then obtain cur' where c: "groups_ok cur' fs" by blast
  show ?case
  proof (cases i)
    case 0
    then have "groups_ok (Some f) fs" using Cons.prems(1,4) by simp
    moreover have "derived (fs ! l)" if "l \<le> n" for l
      using Cons.prems(2) that k 0 by (auto simp: owns_def dest: spec [of _ "Suc l"])
    ultimately show ?thesis using groups_behind [of f fs n] k 0 by simp
  next
    case (Suc j)
    have "owns fs j n"
      using Cons.prems(2) k Suc by (auto simp: owns_def dest!: spec [of _ "Suc l" for l])
    then show ?thesis using Cons.IH [OF c] Cons.prems(3,4) k Suc by simp
  qed
qed (simp add: owns_def)

lemma derived_goes_with:
  "owns (type_fields (described T)) i k \<Longrightarrow> i < k \<Longrightarrow> \<not> derived (type_fields (described T) ! i) \<Longrightarrow>
     goes_with (type_fields (described T) ! i) (type_fields (described T) ! k)"
  by (rule groups_owned [OF table_groups])

section \<open>The members of an object\<close>

lemma find_field_name: "find_field i fs k = Some n \<Longrightarrow> i \<le> n \<and> map_option bytes (json_name (fs ! (n - i))) = Some (cstr k)"
proof (induction i fs k rule: find_field.induct)
  case (2 i f fs key)
  show ?case
  proof (cases "\<not> derived f \<and> map_option bytes (json_name f) = Some (cstr key)")
    case True
    then show ?thesis using 2(2) by auto
  next
    case False
    then have "find_field (Suc i) fs key = Some n" using 2(2) by (simp split: if_splits)
    then have n: "Suc i \<le> n" "map_option bytes (json_name (fs ! (n - Suc i))) = Some (cstr key)" using 2(1) False by auto
    then have "(f # fs) ! (n - i) = fs ! (n - Suc i)" by (simp add: nth_Cons' )
    then show ?thesis using n by simp
  qed
qed simp

lemma member_for_Nil [simp]: "member_for fs i [] = None"
  by (simp add: member_for_def)

lemma member_for_Cons: "member_for fs i ((k, v) # kvs) = (if find_field 0 fs k = Some i then Some v else member_for fs i kvs)"
  by (simp add: member_for_def)

lemma member_for_append:
  "(\<forall>(k, v) \<in> set pre. find_field 0 fs k = None) \<Longrightarrow> member_for fs i (pre @ kvs) = member_for fs i kvs"
  by (induction pre) (auto simp: member_for_Cons)

lemma member_for_distinct:
  assumes "distinct (map (\<lambda>(k, v). cstr k) ((k, v) # kvs))" "find_field 0 fs k = Some i"
  shows "member_for fs i kvs = None"
proof -
  have "find_field 0 fs k' \<noteq> Some i" if "(k', v') \<in> set kvs" for k' v'
  proof
    assume "find_field 0 fs k' = Some i"
    then have "cstr k' = cstr k" using find_field_name [of 0 fs k' i] find_field_name [of 0 fs k i] assms(2) by auto
    then show False using assms(1) that by force
  qed
  then show ?thesis by (auto simp: member_for_def find_None_iff)
qed

lemma loopfields_value:
  assumes "terminated st" "\<not> err_flag st" "ahead st = object_at j kvs rest" "rest \<noteq> []"
    "loopfields n fs j st = Ret (r, st1)"
  shows "case r of
      None \<Rightarrow> (\<forall>(k, v) \<in> set kvs. find_field 0 fs k = None) \<and> ahead st1 = rest \<and> \<not> err_flag st1
    | Some i \<Rightarrow> \<exists>pre k v post. kvs = pre @ (k, v) # post \<and> (\<forall>(k, v) \<in> set pre. find_field 0 fs k = None) \<and>
        find_field 0 fs k = Some i \<and> ahead st1 = tokens_of v @ object_tail post rest \<and> \<not> err_flag st1"
  using assms
proof (induction kvs arbitrary: n j st)
  case Nil
  obtain m where n: "n = Suc m" using Nil.prems(5) by (cases n) auto
  obtain d key where "json_loopobj j st = Ret (False, key, adv d st)" "ahead (adv d st) = rest"
    using loopobj_done [OF Nil.prems(1,3,4)] by blast
  then show ?case using Nil.prems(2,5) by (auto simp: n)
next
  case (Cons kv kvs)
  obtain k v where kv: "kv = (k, v)" by (cases kv)
  obtain m where n: "n = Suc m" using Cons.prems(5) by (cases n) auto
  note l = loopobj_more [OF Cons.prems(1), of j k v kvs rest] Cons.prems(3)
  have l1: "json_loopobj j st = Ret (True, string_token k, adv 3 st)"
    and a1: "ahead (adv 3 st) = tokens_of v @ object_tail kvs rest" using l kv by simp_all
  obtain t tr where tv: "tokens_of v = t # tr" using tokens_of_first by blast
  have "length (ahead (adv 3 st)) = length (ahead st) - 3" by (simp add: ahead_def adv_def)
  moreover have "0 < length (object_tail kvs rest)" by simp
  ultimately have len: "3 + length (tokens_of v) < length (ahead st)"
    unfolding a1 by (simp only: length_append)
  have t1: "terminated (adv 3 st)" using len Cons.prems(1) by (intro terminated_adv) simp_all
  have key: "str (string_token k) = k" by (simp add: string_token_def)
  show ?case
  proof (cases "find_field 0 fs k")
    case (Some i)
    then have r: "r = Some i" "st1 = adv 3 st" using Cons.prems(5) l1 key by (simp_all add: n)
    show ?thesis unfolding r option.case
      by (rule exI [of _ "[]"], rule exI [of _ k], rule exI [of _ v], rule exI [of _ kvs])
        (use Some a1 Cons.prems(2) kv in simp)
  next
    case None
    let ?st2 = "adv (length (tokens_of v)) (adv 3 st)"
    have "length (tokens_of v) \<le> length (tokens st)" using len by (simp add: ahead_def)
    then have "json_skip (skip_fuel (adv 3 st)) (adv 3 st) = Ret (0, ?st2)"
      using t1 a1 Cons.prems(2) by (intro skipsD [OF skips_any, where post = "object_tail kvs rest"])
        (simp_all add: skip_fuel_def adv_def)
    then have lf: "loopfields m fs 1 ?st2 = Ret (r, st1)" using Cons.prems(5) l1 key None by (simp add: n)
    have t2: "terminated ?st2" using Cons.prems(1) len by (intro terminated_adv) simp_all
    have "ahead ?st2 = drop (length (tokens_of v)) (ahead (adv 3 st))" by (simp only: adv_simps(4))
    then have a2: "ahead ?st2 = object_at 1 kvs rest" unfolding a1 by (simp add: object_at_def)
    have e2: "\<not> err_flag ?st2" using Cons.prems(2) by simp
    note ih = Cons.IH [OF t2 e2 a2 Cons.prems(4) lf]
    show ?thesis
    proof (cases r)
      case None
      then show ?thesis using ih \<open>find_field 0 fs k = None\<close> kv by auto
    next
      case (Some i)
      then obtain pre k' v' post where "kvs = pre @ (k', v') # post" "\<forall>(k, v) \<in> set pre. find_field 0 fs k = None"
        "find_field 0 fs k' = Some i" "ahead st1 = tokens_of v' @ object_tail post rest" "\<not> err_flag st1"
        using ih by auto
      then show ?thesis unfolding Some option.case
        by (intro exI [of _ "(k, v) # pre"] exI [of _ k'] exI [of _ v'] exI [of _ post])
          (use \<open>find_field 0 fs k = None\<close> kv in simp)
    qed
  qed
qed

section \<open>The token of a value\<close>

lemma token_types [simp]:
  "tok_type (string_token s) = I3IPC_JSON_STRING" "tok_type (number_token i) = I3IPC_JSON_NUMBER"
  "tok_type (char_token c) = c"
  by (simp_all add: string_token_def number_token_def char_token_def)

lemma match_type: "terminated st \<Longrightarrow> json_match t st = Ret (0, tok, st') \<Longrightarrow> tok_type tok = t"
  by (auto simp: json_match_def matchany_eq split: if_splits)

lemma match_value:
  assumes "terminated st" "ahead st = tokens_of v @ rest" "json_match t st = Ret (0, tok, st')"
    and "t \<in> {I3IPC_JSON_STRING, I3IPC_JSON_NUMBER, I3IPC_JSON_BOOL}"
  shows "ahead st' = rest \<and> err_flag st' = err_flag st \<and> v \<noteq> JNull \<and>
    (t = I3IPC_JSON_STRING \<longrightarrow> (\<exists>s. v = JString s \<and> tok = string_token s)) \<and>
    (t = I3IPC_JSON_NUMBER \<longrightarrow> (\<exists>i. v = JNumber i \<and> tok = number_token i)) \<and>
    (t = I3IPC_JSON_BOOL \<longrightarrow> (\<exists>x. v = JBool x \<and> flag tok = x))"
proof -
  note m = match_Ret0 [OF assms(1,3)] match_type [OF assms(1,3)]
  obtain tk r where t: "tokens_of v = tk # r" using tokens_of_first by blast
  then have "here st = tk" using ahead_Cons [OF assms(1)] assms(2) by simp
  then have 1: "tok = tk" "st' = adv 1 st" "tok_type tk = t" using m by simp_all
  show ?thesis unfolding 1(1,2) using 1(3) assms(2,4) t by (cases v) (auto simp: i3codes)
qed

lemma trymatch_null:
  assumes "terminated st" "ahead st = tokens_of v @ rest" "json_trymatch I3IPC_JSON_NULL st = Ret (ok, tok, st')"
  shows "(ok \<longleftrightarrow> v = JNull) \<and> err_flag st' = err_flag st \<and> (if ok then ahead st' = rest else st' = st)"
proof -
  obtain tk r where t: "tokens_of v = tk # r" using tokens_of_first by blast
  then have h: "here st = tk" using ahead_Cons [OF assms(1)] assms(2) by simp
  have "tok_type tk = I3IPC_JSON_NULL \<longleftrightarrow> v = JNull" using t by (cases v) (auto simp: i3codes)
  then show ?thesis using assms t h by (auto simp: json_trymatch_def trymatchany_eq split: if_splits)
qed

lemma int_cells_number: "int_cells (uint (word_of_int i :: 64 word)) = int_cells i"
proof -
  have "(word_of_int (uint (word_of_int i :: 64 word)) :: 32 word) = word_of_int i"
    by transfer (simp add: take_bit_take_bit)
  then show ?thesis unfolding int_cells_def le32_def by simp
qed

end
