(* ===== verification/I3_Stores.thy ===== *)
theory I3_Stores
  imports I3_Values
begin

text \<open>
  \<open>i3ipc.h\<close>, the second pass of the parser: what its stores do to the memory, what the state says of
  the value that was parsed last, and that the derived fields of a structure then agree with it.
\<close>

section \<open>Stores\<close>

text \<open>What a store does to the memory.\<close>

definition mem_of :: "parse_state \<Rightarrow> cell list" where
  "mem_of q = the (p_memory q)"

lemma mem_of_simps [simp]:
  "mem_of (q\<lparr>p_state := st\<rparr>) = mem_of q" "mem_of (q\<lparr>p_next_set := x, p_next_enum := e\<rparr>) = mem_of q"
  "mem_of (q\<lparr>p_next_size := k\<rparr>) = mem_of q" "mem_of (q\<lparr>p_next_set := x\<rparr>) = mem_of q"
  "mem_of (q\<lparr>p_allocs_size := n\<rparr>) = mem_of q" "mem_of (q\<lparr>p_memory := Some m\<rparr>) = m"
  by (simp_all add: mem_of_def)

definition stored :: "nat set \<Rightarrow> parse_state \<Rightarrow> parse_state \<Rightarrow> bool" where
  "stored S q q' \<longleftrightarrow> (\<exists>m. q' = q\<lparr>p_memory := Some m\<rparr> \<and> kept S (mem_of q) m)"

lemma storedI: "q' = q\<lparr>p_memory := Some m\<rparr> \<Longrightarrow> kept S (mem_of q) m \<Longrightarrow> stored S q q'"
  by (auto simp: stored_def)

lemma stored_trans:
  assumes "stored S q q1" "stored S' q1 q2" "S \<subseteq> U" "S' \<subseteq> U"
  shows "stored U q q2"
proof -
  obtain m1 m2 where 1: "q1 = q\<lparr>p_memory := Some m1\<rparr>" "kept S (mem_of q) m1"
    and 2: "q2 = q1\<lparr>p_memory := Some m2\<rparr>" "kept S' (mem_of q1) m2"
    using assms(1,2) by (auto simp: stored_def)
  have "kept S' m1 m2" using 1(1) 2(2) by simp
  then have "kept U (mem_of q) m2" by (rule kept_trans [OF 1(2) _ assms(3,4)])
  then show ?thesis by (intro storedI [where m = m2]) (simp_all add: 1(1) 2(1))
qed

lemma stored_mono: "stored S q q' \<Longrightarrow> S \<subseteq> U \<Longrightarrow> stored U q q'"
  by (auto simp: stored_def intro: kept_mono)

lemma store_stored:
  assumes "store off cs q = Ret q'"
  shows "stored {off..<off + length cs} q q'" "cells_at (mem_of q') off (length cs) = cs"
proof -
  obtain mem mem' where m: "p_memory q = Some mem" "put off cs mem = Ret mem'" "q' = q\<lparr>p_memory := Some mem'\<rparr>"
    using assms by (auto simp: store_def obind_Ret split: option.splits)
  show "stored {off..<off + length cs} q q'"
    by (rule storedI [OF m(3)]) (use put_kept [OF m(2)] m(1) in \<open>simp add: mem_of_def\<close>)
  show "cells_at (mem_of q') off (length cs) = cs" using put_cells [OF m(2)] by (simp add: m(3))
qed

lemma stored_same: "p_memory q \<noteq> None \<Longrightarrow> stored S q q"
  by (auto simp: stored_def mem_of_def intro!: exI [of _ "the (p_memory q)"])

lemma storedD:
  "stored S q q' \<Longrightarrow> kept S (mem_of q) (mem_of q')" "stored S q q' \<Longrightarrow> p_state q' = p_state q"
  "stored S q q' \<Longrightarrow> p_next_size q' = p_next_size q" "stored S q q' \<Longrightarrow> p_next_set q' = p_next_set q"
  "stored S q q' \<Longrightarrow> p_next_enum q' = p_next_enum q" "stored S q q' \<Longrightarrow> p_memory q' \<noteq> None"
  by (auto simp: stored_def)

section \<open>What is known of the value that was parsed\<close>

definition enum_text :: "cell list \<Rightarrow> nat \<Rightarrow> nat \<Rightarrow> pointer \<Rightarrow> json \<Rightarrow> bool" where
  "enum_text m lo hi ptr v \<longleftrightarrow> (case v of JString s \<Rightarrow> text_at m lo hi ptr s | _ \<Rightarrow> ptr = Null)"

definition notes_value :: "nat \<Rightarrow> nat \<Rightarrow> type_id \<Rightarrow> type_flags \<Rightarrow> json \<Rightarrow> parse_state \<Rightarrow> bool" where
  "notes_value lo hi T fg v q \<longleftrightarrow> (p_next_set q \<longleftrightarrow> v \<noteq> JNull) \<and> (ISARRAY \<in> fg \<longrightarrow> p_next_size q = json_size v) \<and>
     (T = I3IPC_TYPE_CHAR \<and> ISARRAY \<in> fg \<longrightarrow> enum_text (mem_of q) lo hi (p_next_enum q) v)"

lemma c_string_text: "c_string (map Byte (bs @ [0]) @ r) = Ret (cstr bs)"
  by (induction bs) (simp_all add: cstr_def)

lemma text_read: "text_at (mem_of q) lo hi ptr s \<Longrightarrow> p_memory q \<noteq> None \<Longrightarrow> string_at ptr q = Ret (cstr s)"
proof -
  assume t: "text_at (mem_of q) lo hi ptr s" and m: "p_memory q \<noteq> None"
  have "drop a (mem_of q) = map Byte (s @ [0]) @ drop (length s + 1) (drop a (mem_of q))"
    if "cells_at (mem_of q) a (length s + 1) = map Byte (s @ [0])" for a
    using that unfolding cells_at_def by (metis append_take_drop_id)
  then have "c_string (drop a (mem_of q)) = Ret (cstr s)"
    if "cells_at (mem_of q) a (length s + 1) = map Byte (s @ [0])" for a
    using that c_string_text by metis
  then show ?thesis using t m by (auto simp: text_at_def string_at_def mem_of_def)
qed

lemma enum_read:
  "enum_text (mem_of q) lo hi (p_next_enum q) v \<Longrightarrow> p_memory q \<noteq> None \<Longrightarrow> next_enum_text q = Ret (json_text v)"
  using text_read [of q lo hi "p_next_enum q"]
  by (cases v) (auto simp: enum_text_def next_enum_text_def json_text_def text_at_def)

lemma notes_value_stored:
  assumes "notes_value lo hi T fg v q" "stored S q q'" "S \<inter> {lo..<hi} = {}"
  shows "notes_value lo hi T fg v q'"
proof -
  have "enum_text (mem_of q') lo hi ptr v" if "enum_text (mem_of q) lo hi ptr v" for ptr
    using that text_at_kept [OF _ storedD(1) [OF assms(2)] assms(3)] by (auto simp: enum_text_def split: json.splits)
  then show ?thesis using assms(1) storedD [OF assms(2)] by (simp add: notes_value_def)
qed

section \<open>Derived fields agree with the value\<close>

lemma cells_length [simp]:
  "length (int_cells i) = 4" "length (bool_cells b) = 1" "length (size_cells w) = 8" "length (float_cells x) = 4"
  "length (pointer_cells p) = 8"
  by (simp_all add: int_cells_def bool_cells_def size_cells_def float_cells_def pointer_cells_def)

lemma store_derived_holds:
  assumes "store_derived nm base f q = Ret q'" "derived_ok f" "goes_with g f" "p_memory q \<noteq> None"
  shows "stored (field_range f base) q q' \<and>
    (notes_value lo hi (ftype g) (flags g) v q \<longrightarrow> derived_field nm f base v (mem_of q'))"
proof -
  have r: "room I3IPC_TYPE_INT {ISSIZE} = 4" "room I3IPC_TYPE_INT {ISENUM} = 4" "room I3IPC_TYPE_BOOL {ISFLAG} = 1"
    by (simp_all add: room_def)
  consider (size) "ftype f = I3IPC_TYPE_INT" "flags f = {ISSIZE}" | (enum) "ftype f = I3IPC_TYPE_INT" "flags f = {ISENUM}"
    | (flg) "ftype f = I3IPC_TYPE_BOOL" "flags f = {ISFLAG}"
    using assms(2) by (auto simp: derived_ok_def)
  then show ?thesis
  proof cases
    case size
    then have "store (base + foffset f) (int_cells (p_next_size q)) q = Ret q'"
      using assms(1) by (simp add: store_derived_def)
    from store_stored [OF this] show ?thesis
      using size assms(3) r by (simp add: field_range_def derived_field_def goes_with_def notes_value_def)
  next
    case flg
    then have "store (base + foffset f) (bool_cells (p_next_set q)) q = Ret q'"
      using assms(1) by (simp add: store_derived_def)
    from store_stored [OF this] show ?thesis
      using flg r by (simp add: field_range_def derived_field_def notes_value_def)
  next
    case enum
    then obtain val w where e: "next_enum_text q = Ret val" "enum_value nm val = Ret w"
      "(case w of None \<Rightarrow> Ret q | Some k \<Rightarrow> store (base + foffset f) (int_cells k) q) = Ret q'"
      using assms(1) by (auto simp: store_derived_def obind_Ret)
    have s: "stored (field_range f base) q q' \<and> (\<forall>k. w = Some k \<longrightarrow> cells_at (mem_of q') (base + foffset f) 4 = int_cells k)"
    proof (cases w)
      case None
      then show ?thesis using e(3) stored_same [OF assms(4)] by simp
    next
      case (Some k)
      then have "store (base + foffset f) (int_cells k) q = Ret q'" using e(3) by simp
      from store_stored [OF this] show ?thesis using enum r Some by (simp add: field_range_def)
    qed
    have "val = json_text v" if "notes_value lo hi (ftype g) (flags g) v q"
    proof -
      have "enum_text (mem_of q) lo hi (p_next_enum q) v"
        using that enum(2) assms(3) by (simp add: notes_value_def goes_with_def)
      then show ?thesis using enum_read [OF _ assms(4)] e(1) by simp
    qed
    then show ?thesis using s e(2) enum(2) by (auto simp: derived_field_def)
  qed
qed

text \<open>The derived fields at the front of a list.\<close>

definition leading :: "i3_field list \<Rightarrow> nat set" where
  "leading fs = {k. k < length fs \<and> (\<forall>l\<le>k. derived (fs ! l))}"

lemma leading_Cons: "leading (f # fs) = (if derived f then insert 0 (Suc ` leading fs) else {})"
proof (rule set_eqI)
  show "k \<in> leading (f # fs) \<longleftrightarrow> k \<in> (if derived f then insert 0 (Suc ` leading fs) else {})" for k
  proof (cases k)
    case (Suc n)
    have "(\<forall>l\<le>Suc n. derived ((f # fs) ! l)) \<longleftrightarrow> derived f \<and> (\<forall>l\<le>n. derived (fs ! l))"
      by (metis Suc_le_mono le0 not0_implies_Suc nth_Cons_0 nth_Cons_Suc)
    then show ?thesis using Suc by (auto simp: leading_def)
  qed (simp add: leading_def)
qed

lemma doderived_loop_holds:
  assumes "doderived_loop nm base fs q = Ret q'" "p_memory q \<noteq> None"
    "\<forall>k\<in>leading fs. derived_ok (fs ! k) \<and> goes_with g (fs ! k) \<and> field_range (fs ! k) base \<inter> {lo..<hi} = {}"
    "\<forall>k\<in>leading fs. \<forall>l\<in>leading fs. k \<noteq> l \<longrightarrow> field_range (fs ! k) base \<inter> field_range (fs ! l) base = {}"
  shows "stored (\<Union>k\<in>leading fs. field_range (fs ! k) base) q q' \<and>
    (notes_value lo hi (ftype g) (flags g) v q \<longrightarrow>
       (\<forall>k\<in>leading fs. derived_field nm (fs ! k) base v (mem_of q')))"
  using assms
proof (induction fs arbitrary: q)
  case Nil
  then show ?case using stored_same by (simp add: leading_def)
next
  case (Cons f fs)
  show ?case
  proof (cases "derived f")
    case False
    then show ?thesis using Cons.prems stored_same by (simp add: leading_Cons)
  next
    case True
    then obtain q1 where 1: "store_derived nm base f q = Ret q1" "doderived_loop nm base fs q1 = Ret q'"
      using Cons.prems(1) by (auto simp: obind_Ret)
    let ?U = "\<Union>k\<in>leading fs. field_range (fs ! k) base"
    have l: "leading (f # fs) = insert 0 (Suc ` leading fs)" using True by (simp add: leading_Cons)
    have f: "derived_ok f" "goes_with g f" "field_range f base \<inter> {lo..<hi} = {}" using Cons.prems(3) l by auto
    note s1 = store_derived_holds [OF 1(1) f(1,2) Cons.prems(2), of lo hi v]
    have q1: "p_memory q1 \<noteq> None" using s1 storedD(6) by blast
    have p3: "\<forall>k\<in>leading fs. derived_ok (fs ! k) \<and> goes_with g (fs ! k) \<and> field_range (fs ! k) base \<inter> {lo..<hi} = {}"
      using Cons.prems(3) l by simp
    have p4: "\<forall>k\<in>leading fs. \<forall>l\<in>leading fs. k \<noteq> l \<longrightarrow> field_range (fs ! k) base \<inter> field_range (fs ! l) base = {}"
      using Cons.prems(4) l by simp
    note s2 = Cons.IH [OF 1(2) q1 p3 p4]
    have "field_range f base \<inter> field_range (fs ! k) base = {}" if "k \<in> leading fs" for k
      using Cons.prems(4) l that by (auto dest!: bspec [of _ _ 0])
    then have apart: "?U \<inter> field_range f base = {}" by blast
    have U: "(\<Union>k\<in>leading (f # fs). field_range ((f # fs) ! k) base) = field_range f base \<union> ?U"
      by (simp add: l)
    have "stored (field_range f base \<union> ?U) q q'"
      by (rule stored_trans [of "field_range f base" q q1 ?U]) (use s1 s2 in auto)
    moreover have "\<forall>k\<in>leading (f # fs). derived_field nm ((f # fs) ! k) base v (mem_of q')"
      if n: "notes_value lo hi (ftype g) (flags g) v q"
    proof -
      have "notes_value lo hi (ftype g) (flags g) v q1"
        using notes_value_stored [OF n _ f(3)] s1 by blast
      then have "\<forall>k\<in>leading fs. derived_field nm (fs ! k) base v (mem_of q')" using s2 by blast
      moreover have "derived_field nm f base v (mem_of q')"
        by (rule derived_field_kept [OF _ f(1) storedD(1) apart]) (use s1 s2 n in auto)
      ultimately show ?thesis by (simp add: l)
    qed
    ultimately show ?thesis unfolding U by blast
  qed
qed

text \<open>The fields that belong to field \<open>i\<close> without itself.\<close>

definition behind_cells :: "i3_field list \<Rightarrow> nat \<Rightarrow> nat \<Rightarrow> nat set" where
  "behind_cells fs b i = (\<Union>k\<in>{k. owns fs i k \<and> i < k}. field_range (fs ! k) b)"

lemma owns_leading: "i < length fs \<Longrightarrow> {k. owns fs i k \<and> i < k} = (\<lambda>k. Suc (i + k)) ` leading (drop (Suc i) fs)"
proof (rule set_eqI)
  fix k
  assume i: "i < length fs"
  show "k \<in> {k. owns fs i k \<and> i < k} \<longleftrightarrow> k \<in> (\<lambda>k. Suc (i + k)) ` leading (drop (Suc i) fs)"
  proof
    assume "k \<in> {k. owns fs i k \<and> i < k}"
    then have k: "i < k" "k < length fs" "\<And>l. i < l \<Longrightarrow> l \<le> k \<Longrightarrow> derived (fs ! l)" by (auto simp: owns_def)
    have "k - Suc i \<in> leading (drop (Suc i) fs)" using k by (auto simp: leading_def)
    moreover have "k = Suc (i + (k - Suc i))" using k(1) by simp
    ultimately show "k \<in> (\<lambda>k. Suc (i + k)) ` leading (drop (Suc i) fs)" by blast
  next
    assume "k \<in> (\<lambda>k. Suc (i + k)) ` leading (drop (Suc i) fs)"
    then obtain n where n: "k = Suc (i + n)" "n < length fs - Suc i" "\<And>l. l \<le> n \<Longrightarrow> derived (fs ! Suc (i + l))"
      using i by (auto simp: leading_def)
    have "derived (fs ! l)" if "i < l" "l \<le> k" for l
      using n(3) [of "l - Suc i"] n(1) that by simp
    then show "k \<in> {k. owns fs i k \<and> i < k}" using n(1,2) by (simp add: owns_def)
  qed
qed

lemma field_cells_split:
  "i < length fs \<Longrightarrow> field_cells fs b i = field_range (fs ! i) b \<union> behind_cells fs b i"
proof -
  assume "i < length fs"
  then have "{k. owns fs i k} = insert i {k. owns fs i k \<and> i < k}" by (auto simp: owns_def)
  then show ?thesis by (simp add: field_cells_def behind_cells_def)
qed

lemma behind_apart:
  assumes "i < length (type_fields (described T))"
  shows "behind_cells (type_fields (described T)) b i \<inter> field_range (type_fields (described T) ! i) b = {}"
  using field_ranges_apart [of _ T i b] assms by (auto simp: behind_cells_def owns_def)

lemma doderived_holds:
  assumes "doderived (described T) i (Some b) q = Ret q'" "p_memory q \<noteq> None"
    and i: "i < length (type_fields (described T))" "\<not> derived (type_fields (described T) ! i)"
    and b: "b + tsize (described T) \<le> lo"
  shows "stored (behind_cells (type_fields (described T)) b i) q q' \<and>
    (notes_value lo hi (ftype (type_fields (described T) ! i)) (flags (type_fields (described T) ! i)) v q \<longrightarrow>
       derived_hold (type_fields (described T)) i b v (mem_of q'))"
proof -
  let ?fs = "type_fields (described T)" and ?ds = "drop (Suc i) (type_fields (described T))"
  have nth: "?ds ! k = ?fs ! Suc (i + k)" for k using i(1) by simp
  have own: "owns ?fs i (Suc (i + k))" if "k \<in> leading ?ds" for k
    using owns_leading [OF i(1)] that by blast
  have 3: "derived_ok (?ds ! k) \<and> goes_with (?fs ! i) (?ds ! k) \<and> field_range (?ds ! k) b \<inter> {lo..<hi} = {}"
    if "k \<in> leading ?ds" for k
  proof -
    have "field_range (?fs ! Suc (i + k)) b \<subseteq> {b..<b + tsize (described T)}"
      using own [OF that] by (intro field_range_inside) (simp add: owns_def)
    then have "field_range (?fs ! Suc (i + k)) b \<inter> {lo..<hi} = {}" using b by auto
    then show ?thesis unfolding nth using owned_derived [OF own [OF that]] derived_goes_with [OF own [OF that] _ i(2)] by simp
  qed
  have 4: "field_range (?ds ! k) b \<inter> field_range (?ds ! l) b = {}"
    if "k \<in> leading ?ds" "l \<in> leading ?ds" "k \<noteq> l" for k l
    unfolding nth using own that by (intro field_ranges_apart) (auto simp: owns_def)
  have "doderived_loop (full_name (?fs ! i)) b ?ds q = Ret q'" using assms(1) by (simp add: doderived_def)
  note h = doderived_loop_holds [OF this assms(2), of "?fs ! i" lo hi v]
  have U: "(\<Union>k\<in>leading ?ds. field_range (?ds ! k) b) = behind_cells ?fs b i"
    unfolding behind_cells_def owns_leading [OF i(1)] by (simp add: nth)
  have "derived_hold ?fs i b v (mem_of q')"
    if "\<forall>k\<in>leading ?ds. derived_field (full_name (?fs ! i)) (?ds ! k) b v (mem_of q')"
    unfolding derived_hold_def
  proof (intro allI impI)
    fix k
    assume "owns ?fs i k" "i < k"
    then obtain n where "k = Suc (i + n)" "n \<in> leading ?ds" using owns_leading [OF i(1)] by blast
    then show "derived_field (full_name (?fs ! i)) (?fs ! k) b v (mem_of q')" using that nth by auto
  qed
  then show ?thesis using h 3 4 unfolding U by blast
qed

lemma represents_not_null: "represents m lo hi T fg b v \<Longrightarrow> fg \<inter> GROUP_MAYBE = {} \<Longrightarrow> v \<noteq> JNull"
proof (induction rule: represents.induct)
  case (inlined T f b v)
  then show ?case using table_inline [OF inlined.hyps(1)] by auto
qed auto

section \<open>Where arrays and objects begin\<close>

lemma begin_kind:
  assumes "terminated st" "ahead st = tokens_of v @ rest" "loop_begin c d st = Ret (again, st')" "again \<or> \<not> err_flag st'"
  shows "(c = 91 \<longrightarrow> (\<exists>vs. v = JArr vs)) \<and> (c = 123 \<longrightarrow> (\<exists>kvs. v = JObj kvs))"
proof -
  obtain tk r where t: "tokens_of v = tk # r" using tokens_of_first by blast
  then have h: "here st = tk" using ahead_Cons [OF assms(1)] assms(2) by simp
  have "tok_type tk = c"
    using assms(1,3,4) h by (auto simp: loop_begin_def json_match_def matchany_eq split: if_splits)
  then show ?thesis using t by (cases v) (auto simp: i3codes)
qed

lemma looparr_array:
  "terminated st \<Longrightarrow> ahead st = tokens_of v @ rest \<Longrightarrow> json_looparr 0 st = Ret (again, st') \<Longrightarrow> again \<or> \<not> err_flag st' \<Longrightarrow>
   \<exists>vs. v = JArr vs"
  using begin_kind [of st v rest 91 93 again st'] by (simp add: json_looparr_def)

lemma loopfields_object:
  assumes "terminated st" "ahead st = tokens_of v @ rest" "loopfields n fs 0 st = Ret (r, st')" "r \<noteq> None \<or> \<not> err_flag st'"
  shows "\<exists>kvs. v = JObj kvs"
proof -
  obtain m again key st1 where l: "n = Suc m" "json_loopobj 0 st = Ret (again, key, st1)"
    using assms(3) by (cases n) (auto simp: obind_Ret)
  obtain again2 st2 where b: "loop_begin 123 125 st = Ret (again2, st2)" "again2 \<or> st1 = st2 \<and> \<not> again"
    using l(2) by (auto simp: json_loopobj_def obind_Ret split: if_splits)
  have "again2 \<or> \<not> err_flag st2" using b(2) l assms(3,4) by auto
  then show ?thesis using begin_kind [OF assms(1,2) b(1)] by simp
qed

end
