(* ===== verification/I3_Fill.thy ===== *)
theory I3_Fill
  imports I3_Stores
begin

text \<open>
  \<open>i3ipc.h\<close>, the second pass of the parser.  It takes the steps of the first one and fills the
  blocks that the first one noted: \<open>filling\<close> relates the states of the two.  Every branch of the
  parser that succeeds in the first pass succeeds in the second, and no store leaves its block.
\<close>

section \<open>The second pass takes the same steps\<close>

text \<open>Where the blocks lie: \<open>end_of al tot i\<close> is the start of block \<open>i\<close>, or the end of the memory.\<close>

definition start_of :: "(nat \<times> nat) list \<Rightarrow> nat \<Rightarrow> nat \<Rightarrow> nat" where
  "start_of al tot i = (if i < length al then fst (al ! i) else tot)"

definition laid_out :: "(nat \<times> nat) list \<Rightarrow> nat \<Rightarrow> bool" where
  "laid_out al tot \<longleftrightarrow> (\<forall>i. start_of al tot i \<le> start_of al tot (Suc i))"

lemma start_mono: "laid_out al tot \<Longrightarrow> i \<le> j \<Longrightarrow> start_of al tot i \<le> start_of al tot j"
  by (rule lift_Suc_mono_le [of "start_of al tot"]) (simp_all add: laid_out_def)

lemma start_total: "laid_out al tot \<Longrightarrow> start_of al tot i \<le> tot"
  using start_mono [of al tot i "i + length al"] by (simp add: start_of_def split: if_splits)

text \<open>The blocks from number \<open>lo\<close> on that are noted in \<open>p\<close> have their final sizes.\<close>

definition sized :: "(nat \<times> nat) list \<Rightarrow> nat \<Rightarrow> nat \<Rightarrow> parse_state \<Rightarrow> bool" where
  "sized al tot lo p \<longleftrightarrow> length (p_allocs p) \<le> length al \<and>
     (\<forall>i. lo \<le> i \<longrightarrow> i < length (p_allocs p) \<longrightarrow>
        start_of al tot i + fst (p_allocs p ! i) \<le> start_of al tot (Suc i))"

lemma sizedD:
  "sized al tot lo p \<Longrightarrow> lo \<le> i \<Longrightarrow> i < length (p_allocs p) \<Longrightarrow>
     start_of al tot i + fst (p_allocs p ! i) \<le> start_of al tot (Suc i)"
  by (simp add: sized_def)

lemma sized_earlier:
  assumes "sized al tot lo p'" "p_allocs p' = p_allocs p @ new" "lo \<le> lo'"
  shows "sized al tot lo' p"
  unfolding sized_def
proof (intro conjI allI impI)
  show "length (p_allocs p) \<le> length al" using assms by (simp add: sized_def)
  fix i
  assume "lo' \<le> i" "i < length (p_allocs p)"
  then show "start_of al tot i + fst (p_allocs p ! i) \<le> start_of al tot (Suc i)"
    using assms by (auto simp: sized_def nth_append dest!: spec [of _ i])
qed

text \<open>\<open>q\<close> is the state of the second pass where \<open>p\<close> was that of the first.\<close>

definition filling :: "(nat \<times> nat) list \<Rightarrow> nat \<Rightarrow> parse_state \<Rightarrow> parse_state \<Rightarrow> bool" where
  "filling al tot p q \<longleftrightarrow> p_state q = p_state p \<and> p_allocs q = al \<and> p_allocs_size q = length (p_allocs p) \<and>
     p_copy_strings q = p_copy_strings p \<and> (\<exists>mem. p_memory q = Some mem \<and> length mem = tot)"

text \<open>A text that is pointed to stands behind the address \<open>lo\<close>.\<close>

definition text_ok :: "nat \<Rightarrow> pointer \<Rightarrow> parse_state \<Rightarrow> bool" where
  "text_ok lo ptr q \<longleftrightarrow>
     (\<forall>a. ptr = At a \<longrightarrow> lo \<le> a \<and> (\<exists>mem s. p_memory q = Some mem \<and> c_string (drop a mem) = Ret s))"

abbreviation enum_ok :: "nat \<Rightarrow> parse_state \<Rightarrow> bool" where
  "enum_ok lo q \<equiv> text_ok lo (p_next_enum q) q"

lemma text_ok_simps [simp]: "text_ok lo Null q" "text_ok lo (Text s) q"
  "text_ok lo ptr (q\<lparr>p_next_set := x, p_next_enum := e\<rparr>) = text_ok lo ptr q"
  "text_ok lo ptr (q\<lparr>p_next_size := k\<rparr>) = text_ok lo ptr q" "text_ok lo ptr (q\<lparr>p_state := st\<rparr>) = text_ok lo ptr q"
  by (simp_all add: text_ok_def)

lemma text_ok_mono: "text_ok lo ptr q \<Longrightarrow> lo' \<le> lo \<Longrightarrow> text_ok lo' ptr q"
  by (auto simp: text_ok_def)

lemma filling_flags [simp]:
  "filling al tot (p\<lparr>p_next_set := x, p_next_enum := e\<rparr>) (q\<lparr>p_next_set := y, p_next_enum := f\<rparr>) = filling al tot p q"
  "filling al tot (p\<lparr>p_next_size := k\<rparr>) q = filling al tot p q" "filling al tot p (q\<lparr>p_next_size := k\<rparr>) = filling al tot p q"
  "filling al tot (p\<lparr>p_next_set := x, p_next_enum := e\<rparr>) q = filling al tot p q"
  "filling al tot p (q\<lparr>p_next_set := x, p_next_enum := e\<rparr>) = filling al tot p q"
  by (simp_all add: filling_def)

lemma filling_walk: "filling al tot p q \<Longrightarrow> filling al tot (p\<lparr>p_state := st\<rparr>) (q\<lparr>p_state := st\<rparr>)"
  by (simp add: filling_def)

lemma put_length: "put off cs mem = Ret mem' \<Longrightarrow> length mem' = length mem"
  by (auto simp: put_def split: if_splits)

lemma put_drop: "put off cs mem = Ret mem' \<Longrightarrow> off + length cs \<le> a \<Longrightarrow> drop a mem' = drop a mem"
  by (auto simp: put_def split: if_splits)

lemma put_at: "put off cs mem = Ret mem' \<Longrightarrow> drop off mem' = cs @ drop (off + length cs) mem"
  by (auto simp: put_def split: if_splits)

text \<open>A store in front of \<open>lo\<close> keeps everything else.\<close>

lemma store_fills:
  assumes "filling al tot p q" "off + length cs \<le> tot"
  shows "\<exists>q' mem mem'. store off cs q = Ret q' \<and> filling al tot p q' \<and> p_memory q = Some mem \<and>
    put off cs mem = Ret mem' \<and> q' = q\<lparr>p_memory := Some mem'\<rparr>"
  using assms by (auto simp: filling_def store_def put_def)

lemma store_text:
  assumes "filling al tot p q" "off + length cs \<le> lo" "lo \<le> tot" "text_ok lo ptr q"
  shows "\<exists>q'. store off cs q = Ret q' \<and> filling al tot p q' \<and> text_ok lo ptr q' \<and> p_next_enum q' = p_next_enum q"
proof -
  obtain q' mem mem' where s: "store off cs q = Ret q'" "filling al tot p q'" "p_memory q = Some mem"
    "put off cs mem = Ret mem'" "q' = q\<lparr>p_memory := Some mem'\<rparr>"
    using store_fills [OF assms(1), of off cs] assms(2,3) by auto
  have "drop a mem' = drop a mem" if "lo \<le> a" for a using put_drop [OF s(4)] that assms(2) by simp
  then have "text_ok lo ptr q'" using assms(4) s(3) by (auto simp: text_ok_def s(5))
  then show ?thesis using s by auto
qed

section \<open>Derived fields\<close>

lemma enum_loop_returns: "s \<in> set xs \<Longrightarrow> is_marker s \<Longrightarrow> \<exists>v. enum_loop k xs val = Ret v"
  by (induction xs arbitrary: k) auto

lemma enum_start_spec:
  "enum_start j xs nm = Some k \<Longrightarrow> j < k \<and> k - j \<le> length xs \<and> xs ! (k - j - 1) = Some (CHR ''$'' # nm)"
proof (induction j xs nm rule: enum_start.induct)
  case (2 j s r nm)
  show ?case
  proof (cases "s = Some (CHR ''$'' # nm)")
    case False
    then have "Suc j < k \<and> k - Suc j \<le> length r \<and> r ! (k - Suc j - 1) = Some (CHR ''$'' # nm)"
      using 2 by simp
    then show ?thesis by (auto simp: nth_Cons')
  qed (use 2 in auto)
qed simp

lemma enum_value_returns:
  assumes "nm \<noteq> ''$''"
  shows "\<exists>v. enum_value nm val = Ret v"
proof (cases "enum_start 0 global_enums nm")
  case (Some k)
  note s = enum_start_spec [OF this]
  have last: "global_enums \<noteq> []" "last global_enums = Some ''$$''" by (simp_all add: global_enums_def)
  have "k \<noteq> length global_enums"
  proof
    assume k: "k = length global_enums"
    then have "global_enums ! (k - 1) = last global_enums" using last(1) by (simp add: last_conv_nth)
    then show False using s last(2) assms by simp
  qed
  then have k: "k < length global_enums" using s by simp
  then have "last (drop k global_enums) = Some ''$$''" "drop k global_enums \<noteq> []" using last(2) by simp_all
  then have "Some ''$$'' \<in> set (drop k global_enums)" using last_in_set by metis
  then obtain v where "enum_loop 0 (drop k global_enums) val = Ret v"
    using enum_loop_returns [of "Some ''$$''"] by (fastforce simp: is_marker_def)
  then show ?thesis using Some by (simp add: enum_value_def)
qed (simp add: enum_value_def)

lemma full_names: "list_all (\<lambda>f. full_name f \<noteq> ''$'') (type_fields (described T))"
  unfolding described_fields
  by (cases T) (simp_all add: inner_structs outer_structs inner_fields outer_fields field_defs set_json_name_def)

lemma store_derived_fills:
  assumes "filling al tot p q" "enum_ok lo q" "lo \<le> tot" "derived_ok f" "nm \<noteq> ''$''"
    "base + foffset f + room (ftype f) (flags f) \<le> lo"
  shows "\<exists>q'. store_derived nm base f q = Ret q' \<and> filling al tot p q' \<and> enum_ok lo q'"
proof -
  have st: "\<exists>q'. store (base + foffset f) cs q = Ret q' \<and> filling al tot p q' \<and> enum_ok lo q'"
    if "length cs = room (ftype f) (flags f)" for cs
    using store_text [OF assms(1) _ assms(3,2), of "base + foffset f" cs] that assms(6) by fastforce
  have val: "\<exists>val. next_enum_text q = Ret val"
  proof (cases "p_next_enum q")
    case (At a)
    then show ?thesis using assms(2) by (auto simp: next_enum_text_def string_at_def text_ok_def)
  qed (simp_all add: next_enum_text_def string_at_def)
  have r: "room I3IPC_TYPE_INT {ISSIZE} = 4" "room I3IPC_TYPE_INT {ISENUM} = 4" "room I3IPC_TYPE_BOOL {ISFLAG} = 1"
    by (simp_all add: room_def)
  consider "ftype f = I3IPC_TYPE_INT" "flags f = {ISSIZE}" | "ftype f = I3IPC_TYPE_INT" "flags f = {ISENUM}"
    | "ftype f = I3IPC_TYPE_BOOL" "flags f = {ISFLAG}"
    using assms(4) by (auto simp: derived_ok_def)
  then show ?thesis
  proof cases
    case 1
    then show ?thesis using st [of "int_cells (p_next_size q)"] r by (simp add: store_derived_def)
  next
    case 2
    obtain val v where "next_enum_text q = Ret val" "enum_value nm val = Ret v"
      using val enum_value_returns [OF assms(5)] by blast
    then show ?thesis
      using 2 st [of "int_cells (the v)"] r assms(1,2) by (cases v) (simp_all add: store_derived_def)
  next
    case 3
    then show ?thesis using st [of "bool_cells (p_next_set q)"] r by (simp add: store_derived_def)
  qed
qed

lemma doderived_loop_fills:
  assumes "filling al tot p q" "enum_ok lo q" "lo \<le> tot" "nm \<noteq> ''$''"
    "\<forall>f \<in> set fs. derived f \<longrightarrow> derived_ok f \<and> base + foffset f + room (ftype f) (flags f) \<le> lo"
  shows "\<exists>q'. doderived_loop nm base fs q = Ret q' \<and> filling al tot p q' \<and> enum_ok lo q'"
  using assms
proof (induction fs arbitrary: q)
  case (Cons f fs)
  show ?case
  proof (cases "derived f")
    case True
    then have "derived_ok f" "base + foffset f + room (ftype f) (flags f) \<le> lo" using Cons.prems(5) by simp_all
    from store_derived_fills [OF Cons.prems(1-3) this(1) Cons.prems(4) this(2)]
    obtain q1 where 1: "store_derived nm base f q = Ret q1" "filling al tot p q1" "enum_ok lo q1"
      by blast
    then show ?thesis using Cons.IH [OF 1(2,3)] Cons.prems(3-5) True by simp
  qed (use Cons.prems in auto)
qed auto

lemma doderived_fills:
  assumes "filling al tot p q" "enum_ok lo q" "lo \<le> tot" "i < length (type_fields (described T))"
    "b + tsize (described T) \<le> lo"
  shows "\<exists>q'. doderived (described T) i (Some b) q = Ret q' \<and> filling al tot p q'"
proof -
  let ?fs = "type_fields (described T)"
  have "derived f \<longrightarrow> derived_ok f \<and> b + foffset f + room (ftype f) (flags f) \<le> lo" if "f \<in> set ?fs" for f
    using that table_fields_ok [of T] field_inside [OF that] assms(5) by (auto simp: list_all_iff field_ok_def)
  then have "\<forall>f \<in> set (drop (Suc i) ?fs). derived f \<longrightarrow> derived_ok f \<and> b + foffset f + room (ftype f) (flags f) \<le> lo"
    using in_set_dropD by fast
  moreover have "full_name (?fs ! i) \<noteq> ''$''" using full_names [of T] assms(4) by (simp add: list_all_length)
  ultimately show ?thesis using doderived_loop_fills [OF assms(1-3)] by (fastforce simp: doderived_def)
qed


section \<open>The value that was parsed is stored\<close>

text \<open>The value that the next tokens stand for, and what the second pass makes of it.\<close>

definition stands :: "parse_state \<Rightarrow> json_token list \<Rightarrow> bool" where
  "stands q toks \<longleftrightarrow> \<not> err_flag (p_state q) \<and> ahead (p_state q) = toks"

lemma stands_simps [simp]:
  "stands (q\<lparr>p_next_set := x, p_next_enum := e\<rparr>) ts = stands q ts" "stands (q\<lparr>p_next_size := k\<rparr>) ts = stands q ts"
  "stands (q\<lparr>p_next_set := x\<rparr>) ts = stands q ts"
  by (simp_all add: stands_def)

lemma stands_stored: "stored S q q' \<Longrightarrow> stands q' ts = stands q ts"
  by (auto simp: stored_def stands_def)

definition filled :: "nat \<Rightarrow> nat \<Rightarrow> type_id \<Rightarrow> type_flags \<Rightarrow> nat \<Rightarrow> parse_state \<Rightarrow> parse_state \<Rightarrow> bool" where
  "filled lo hi T fg b q q' \<longleftrightarrow> kept ({b..<b + room T fg} \<union> {lo..<hi}) (mem_of q) (mem_of q') \<and>
     (\<forall>v rest. stands q (tokens_of v @ rest) \<longrightarrow> rest \<noteq> [] \<longrightarrow> distinct_keys v \<longrightarrow>
        blank ({b..<b + room T fg} \<union> {lo..<hi}) (mem_of q) \<longrightarrow>
        stands q' rest \<and> represents (mem_of q') lo hi T fg b v \<and> notes_value lo hi T fg v q')"

lemma filledI:
  assumes "kept ({b..<b + room T fg} \<union> {lo..<hi}) (mem_of q) (mem_of q')"
    and "\<And>v rest. stands q (tokens_of v @ rest) \<Longrightarrow> rest \<noteq> [] \<Longrightarrow> distinct_keys v \<Longrightarrow>
        blank ({b..<b + room T fg} \<union> {lo..<hi}) (mem_of q) \<Longrightarrow>
        stands q' rest \<and> represents (mem_of q') lo hi T fg b v \<and> notes_value lo hi T fg v q'"
  shows "filled lo hi T fg b q q'"
  using assms by (simp add: filled_def)

lemma filled_kept: "filled lo hi T fg b q q' \<Longrightarrow> kept ({b..<b + room T fg} \<union> {lo..<hi}) (mem_of q) (mem_of q')"
  by (simp add: filled_def)

lemma filled_value:
  "filled lo hi T fg b q q' \<Longrightarrow> stands q (tokens_of v @ rest) \<Longrightarrow> rest \<noteq> [] \<Longrightarrow> distinct_keys v \<Longrightarrow>
     blank ({b..<b + room T fg} \<union> {lo..<hi}) (mem_of q) \<Longrightarrow>
     stands q' rest \<and> represents (mem_of q') lo hi T fg b v \<and> notes_value lo hi T fg v q'"
  by (simp add: filled_def)

text \<open>The end of the blocks that are noted.\<close>

abbreviation end_of :: "(nat \<times> nat) list \<Rightarrow> nat \<Rightarrow> parse_state \<Rightarrow> nat" where
  "end_of al tot p \<equiv> start_of al tot (length (p_allocs p))"

section \<open>The branches\<close>

definition fills_helper :: "(nat \<times> nat) list \<Rightarrow> nat \<Rightarrow> helper \<Rightarrow> bool" where
  "fills_helper al tot H \<longleftrightarrow> (\<forall>T fg p p' b q. noting p \<longrightarrow> usable T fg \<longrightarrow> H T fg None p = Ret (0, p') \<longrightarrow>
     filling al tot p q \<longrightarrow> sized al tot (length (p_allocs p)) p' \<longrightarrow>
     b + room T fg \<le> start_of al tot (length (p_allocs p)) \<longrightarrow>
     (\<exists>q'. H T fg (Some b) q = Ret (0, q') \<and> filling al tot p' q' \<and>
        enum_ok (start_of al tot (length (p_allocs p))) q' \<and> filled (end_of al tot p) (end_of al tot p') T fg b q q'))"

lemma second_alloc:
  assumes "filling al tot p q" "noting p" "parse_alloc sz align p = Ret (a, p1)" "align \<in> {1, 4, 8}"
    "sized al tot lo p'" "p_allocs p' = p_allocs p1 @ new"
  shows "\<exists>q1. parse_alloc sz' align' q = Ret (Some (start_of al tot (length (p_allocs p))), q1) \<and> filling al tot p1 q1"
proof -
  have p1: "p_state p1 = p_state p" "p_allocs p1 = p_allocs p @ [(sz, align)]" "p_copy_strings p1 = p_copy_strings p"
    using noting_alloc [OF assms(2-4)] by (auto simp: noted_def)
  then have "length (p_allocs p) < length al" using assms(5,6) by (simp add: sized_def)
  then show ?thesis using assms(1) p1 by (auto simp: filling_def parse_alloc_def Let_def start_of_def)
qed

lemma c_string_copied: "\<exists>s. c_string (map Byte (bs @ [0]) @ r) = Ret s"
  by (induction bs) auto

lemma copy_text:
  assumes "filling al tot p q" "a + length bs + 1 \<le> tot"
  shows "\<exists>q'. store a (map Byte (bs @ [0])) q = Ret q' \<and> filling al tot p q' \<and> text_ok a (At a) q'"
proof -
  obtain q' mem mem' where s: "store a (map Byte (bs @ [0])) q = Ret q'" "filling al tot p q'"
    "put a (map Byte (bs @ [0])) mem = Ret mem'" "q' = q\<lparr>p_memory := Some mem'\<rparr>"
    using store_fills [OF assms(1), of a "map Byte (bs @ [0])"] assms(2) by auto
  show ?thesis using s c_string_copied put_at [OF s(3)] by (auto simp: text_ok_def)
qed

text \<open>The pointer to a text, and its length where there is one.\<close>

definition text_stored :: "type_id \<Rightarrow> type_flags \<Rightarrow> nat \<Rightarrow> pointer \<Rightarrow> int \<Rightarrow> parse_state \<Rightarrow> parse_state \<Rightarrow> bool" where
  "text_stored T fg b ptr n q q' \<longleftrightarrow> kept {b..<b + room T fg} (mem_of q) (mem_of q') \<and> p_state q' = p_state q \<and>
     p_next_set q' \<and> p_next_enum q' = ptr \<and> cells_at (mem_of q') b 8 = pointer_cells ptr \<and>
     (if T = I3IPC_TYPE_STRING then cells_at (mem_of q') (b + 8) 4 = int_cells n else p_next_size q' = n)"

lemma text_stored_holds:
  assumes "text_stored T fg b ptr (int (length s)) q q'" "text_at (mem_of q) lo hi ptr s" "b + room T fg \<le> lo"
    and "is_string_type T fg" "fg \<inter> GROUP_MAYBE = {}"
  shows "represents (mem_of q') lo hi T fg b (JString s) \<and> notes_value lo hi T fg (JString s) q'"
proof -
  have k: "kept {b..<b + room T fg} (mem_of q) (mem_of q')" using assms(1) by (simp add: text_stored_def)
  have t: "text_at (mem_of q') lo hi ptr s" by (rule text_at_kept [OF assms(2) k]) (use assms(3) in auto)
  consider (string) "T = I3IPC_TYPE_STRING" "fg = {}" | (chars) "T = I3IPC_TYPE_CHAR" "ISARRAY \<in> fg"
    using assms(4) by (auto simp: is_string_type_def)
  then show ?thesis
  proof cases
    case string
    then show ?thesis using assms(1) t
      by (auto simp: text_stored_def notes_value_def intro: represents.string)
  next
    case chars
    then have "represents (mem_of q') lo hi T fg b (JString s)"
      using assms(1,5) t represents.chars [of fg "mem_of q'" b ptr lo hi s] by (simp add: text_stored_def)
    then show ?thesis using assms(1) t chars
      by (simp add: text_stored_def notes_value_def json_size_def enum_text_def)
  qed
qed

lemma parse_string_stores:
  assumes "is_string_type T fg" "b + room T fg \<le> lo" "lo \<le> tot" "filling al tot p1 q1" "text_ok lo ptr q1"
  shows "\<exists>q'. (if T = I3IPC_TYPE_STRING
        then obind (store (b + foffset (type_fields (described T) ! 0)) (pointer_cells ptr) q1) (\<lambda>p2.
             obind (store (b + foffset (type_fields (described T) ! 1)) (int_cells n) p2) (finish True ptr))
        else obind (store b (pointer_cells ptr) q1) (\<lambda>p2. finish True ptr (p2\<lparr>p_next_size := n\<rparr>))) =
      Ret (0, q') \<and> filling al tot p1 q' \<and> enum_ok lo q' \<and> text_stored T fg b ptr n q1 q'"
proof (cases "T = I3IPC_TYPE_STRING")
  case True
  then have r: "room T fg = 16" using assms(1) by (auto simp: is_string_type_def room_def)
  then obtain q2 where 2: "store b (pointer_cells ptr) q1 = Ret q2" "filling al tot p1 q2" "text_ok lo ptr q2"
    using store_text [OF assms(4) _ assms(3,5), of b "pointer_cells ptr"] assms(2) by auto
  then obtain q3 where 3: "store (b + 8) (int_cells n) q2 = Ret q3" "filling al tot p1 q3" "text_ok lo ptr q3"
    using store_text [OF 2(2) _ assms(3) 2(3), of "b + 8" "int_cells n"] assms(2) r by auto
  note s = store_stored [OF 2(1)] store_stored [OF 3(1)]
  have k: "kept {b..<b + 16} (mem_of q1) (mem_of q3)"
    by (rule kept_trans [OF storedD(1) [OF s(1)] storedD(1) [OF s(3)]]) auto
  have "cells_at (mem_of q3) b 8 = pointer_cells ptr"
    using kept_cells_in [OF storedD(1) [OF s(3)], of 0 "b + 8" b 8] s(2) by auto
  then have "text_stored T fg b ptr n q1 (q3\<lparr>p_next_set := True, p_next_enum := ptr\<rparr>)"
    using k s(4) storedD(2) [OF s(1)] storedD(2) [OF s(3)] unfolding text_stored_def r by (simp add: True)
  then show ?thesis using True 2 3 by (simp add: finish_def)
next
  case False
  then have r: "room T fg = 8" using assms(1) by (auto simp: is_string_type_def room_def)
  then obtain q2 where 2: "store b (pointer_cells ptr) q1 = Ret q2" "filling al tot p1 q2" "text_ok lo ptr q2"
    using store_text [OF assms(4) _ assms(3,5), of b "pointer_cells ptr"] assms(2) by auto
  note s = store_stored [OF 2(1)]
  have "text_stored T fg b ptr n q1 (q2\<lparr>p_next_size := n, p_next_set := True, p_next_enum := ptr\<rparr>)"
    using False s storedD(1,2) [OF s(1)] by (simp add: text_stored_def r)
  then show ?thesis using False 2 by (simp add: finish_def)
qed

lemma parse_string_fills:
  assumes "laid_out al tot" "noting p" "is_string_type T fg" "fg \<inter> GROUP_MAYBE = {}"
    and "parse_string T (described T) None p = Ret (0, p')"
    and "filling al tot p q" "sized al tot (length (p_allocs p)) p'"
    and "b + room T fg \<le> start_of al tot (length (p_allocs p))"
  shows "\<exists>q'. parse_string T (described T) (Some b) q = Ret (0, q') \<and> filling al tot p' q' \<and>
    enum_ok (start_of al tot (length (p_allocs p))) q' \<and> filled (end_of al tot p) (end_of al tot p') T fg b q q'"
proof -
  let ?lo = "start_of al tot (length (p_allocs p))"
  have lo: "?lo \<le> tot" by (rule start_total [OF assms(1)])
  from assms(5) obtain tok st where m: "json_match I3IPC_JSON_STRING (p_state p) = Ret (0, tok, st)"
    by (auto simp: parse_string_def obind_Ret Let_def split: if_splits)
  then have w: "walked (p_state p) st" using assms(2) by (intro match_walked) (auto simp: noting_def i3codes)
  let ?p0 = "p\<lparr>p_state := st\<rparr>" and ?q0 = "q\<lparr>p_state := st\<rparr>"
  note n = noting_walk [OF assms(2) w]
  have q: "p_state q = p_state p" "p_copy_strings q = p_copy_strings p" using assms(6) by (simp_all add: filling_def)
  have f0: "filling al tot ?p0 ?q0" by (rule filling_walk [OF assms(6)])
  have vl: "ahead st = rest \<and> \<not> err_flag st \<and> v = JString (str tok)" if "stands q (tokens_of v @ rest)" for v rest
    using match_value [OF _ _ m, of v rest] that assms(2) q(1) by (auto simp: stands_def noting_def string_token_def)
  show ?thesis
  proof (cases "p_copy_strings p")
    case True
    then obtain a p1 where a: "parse_alloc (nat (str_size tok) + 1) 1 ?p0 = Ret (a, p1)"
      "p' = p1\<lparr>p_next_set := True, p_next_enum := Null\<rparr>"
      using assms(5) m by (auto simp: parse_string_def obind_Ret Let_def finish_def)
    have p1: "p_allocs p1 = p_allocs p @ [(nat (str_size tok) + 1, 1)]" using noting_alloc [OF n(1) a(1)] by simp
    obtain q1 where 1: "parse_alloc (nat (str_size tok) + 1) 1 ?q0 = Ret (Some ?lo, q1)" "filling al tot p1 q1"
      using second_alloc [OF f0 n(1) a(1) _ assms(7), of "[]"] by (auto simp: a(2))
    have sz: "?lo + (nat (str_size tok) + 1) \<le> end_of al tot p'"
      using sizedD [OF assms(7), of "length (p_allocs p)"] by (simp add: a(2) p1)
    then have hi: "?lo + length (str tok) + 1 \<le> end_of al tot p'" by (simp add: str_size_def)
    then have "?lo + length (str tok) + 1 \<le> tot" using start_total [OF assms(1), of "length (p_allocs p')"] by simp
    then obtain q2 where 2: "store ?lo (map Byte (str tok @ [0])) q1 = Ret q2" "filling al tot p1 q2" "text_ok ?lo (At ?lo) q2"
      using copy_text [OF 1(2)] by blast
    obtain q' where 3: "(if T = I3IPC_TYPE_STRING
        then obind (store (b + foffset (type_fields (described T) ! 0)) (pointer_cells (At ?lo)) q2) (\<lambda>p2.
             obind (store (b + foffset (type_fields (described T) ! 1)) (int_cells (str_size tok)) p2) (finish True (At ?lo)))
        else obind (store b (pointer_cells (At ?lo)) q2) (\<lambda>p2. finish True (At ?lo) (p2\<lparr>p_next_size := str_size tok\<rparr>))) = Ret (0, q')"
      "filling al tot p1 q'" "enum_ok ?lo q'" "text_stored T fg b (At ?lo) (str_size tok) q2 q'"
      using parse_string_stores [OF assms(3,8) lo 2(2,3)] by blast
    have mq1: "mem_of q1 = mem_of q" "p_state q1 = st"
      using 1 by (auto simp: parse_alloc_def Let_def mem_of_def split: option.splits if_splits)
    note s = store_stored [OF 2(1)]
    have "filled ?lo (end_of al tot p') T fg b q q'"
    proof (rule filledI)
      have "kept {?lo..<end_of al tot p'} (mem_of q) (mem_of q2)"
        using storedD(1) [OF s(1)] hi unfolding mq1 by (auto intro: kept_mono)
      then show "kept ({b..<b + room T fg} \<union> {?lo..<end_of al tot p'}) (mem_of q) (mem_of q')"
        using 3(4) by (auto simp: text_stored_def intro: kept_trans)
      fix v rest
      assume "stands q (tokens_of v @ rest)"
      note v = vl [OF this]
      have "text_at (mem_of q2) ?lo (end_of al tot p') (At ?lo) (str tok)" using s(2) hi by (simp add: text_at_def)
      from text_stored_holds [OF _ this assms(8,3,4)] 3(4)
      show "stands q' rest \<and> represents (mem_of q') ?lo (end_of al tot p') T fg b v \<and>
          notes_value ?lo (end_of al tot p') T fg v q'"
        using v storedD(2) [OF s(1)] mq1(2) by (simp add: str_size_def stands_def text_stored_def)
    qed
    then show ?thesis
      using 3(1-3) m q True 1(1) 2(1)
      by (simp add: parse_string_def Let_def store_if_def address_def a(2))
  next
    case False
    then have p': "p' = ?p0\<lparr>p_next_set := True, p_next_enum := Null\<rparr>"
      using assms(5) m by (simp add: parse_string_def Let_def finish_def)
    obtain q' where 3: "(if T = I3IPC_TYPE_STRING
        then obind (store (b + foffset (type_fields (described T) ! 0)) (pointer_cells (Text (str tok))) ?q0) (\<lambda>p2.
             obind (store (b + foffset (type_fields (described T) ! 1)) (int_cells (str_size tok)) p2) (finish True (Text (str tok))))
        else obind (store b (pointer_cells (Text (str tok))) ?q0) (\<lambda>p2.
          finish True (Text (str tok)) (p2\<lparr>p_next_size := str_size tok\<rparr>))) = Ret (0, q')"
      "filling al tot ?p0 q'" "enum_ok ?lo q'" "text_stored T fg b (Text (str tok)) (str_size tok) ?q0 q'"
      using parse_string_stores [OF assms(3,8) lo f0, of "Text (str tok)"] by auto
    have "filled ?lo (end_of al tot p') T fg b q q'"
    proof (rule filledI)
      show "kept ({b..<b + room T fg} \<union> {?lo..<end_of al tot p'}) (mem_of q) (mem_of q')"
        using 3(4) by (auto simp: text_stored_def intro: kept_mono)
      fix v rest
      assume "stands q (tokens_of v @ rest)"
      note v = vl [OF this]
      have "text_at (mem_of ?q0) ?lo (end_of al tot p') (Text (str tok)) (str tok)" by (simp add: text_at_def)
      from text_stored_holds [OF _ this assms(8,3,4)] 3(4)
      show "stands q' rest \<and> represents (mem_of q') ?lo (end_of al tot p') T fg b v \<and>
          notes_value ?lo (end_of al tot p') T fg v q'"
        using v by (simp add: str_size_def stands_def text_stored_def)
    qed
    then show ?thesis
      using 3(1-3) m q False by (simp add: parse_string_def Let_def p')
  qed
qed

lemma fills_helperD:
  assumes "fills_helper al tot H" "noting p" "usable T fg" "H T fg None p = Ret (0, p')" "filling al tot p q"
    "sized al tot (length (p_allocs p)) p'" "b + room T fg \<le> start_of al tot (length (p_allocs p))"
  shows "\<exists>q'. H T fg (Some b) q = Ret (0, q') \<and> filling al tot p' q' \<and>
    enum_ok (start_of al tot (length (p_allocs p))) q' \<and> filled (end_of al tot p) (end_of al tot p') T fg b q q'"
  using assms unfolding fills_helper_def by blast

lemma parse_primitive_fills:
  assumes "noting p" "parse_primitive T None p = Ret (0, p')" "filling al tot p q"
    and "b + room T {} \<le> tot" "T \<in> {I3IPC_TYPE_BOOL, I3IPC_TYPE_INT, I3IPC_TYPE_FLOAT, I3IPC_TYPE_SIZET}"
  shows "\<exists>q'. parse_primitive T (Some b) q = Ret (0, q') \<and> filling al tot p' q' \<and> p_next_enum q' = Null \<and>
    filled lo hi T {} b q q'"
proof -
  let ?t = "if T = I3IPC_TYPE_BOOL then I3IPC_JSON_BOOL else I3IPC_JSON_NUMBER"
  from assms(2) obtain tok st where m: "json_match ?t (p_state p) = Ret (0, tok, st)"
    "p' = p\<lparr>p_state := st, p_next_set := True, p_next_enum := Null\<rparr>"
    by (auto simp: parse_primitive_def obind_Ret Let_def finish_def split: if_splits)
  let ?q0 = "q\<lparr>p_state := st\<rparr>"
  let ?cs = "if T = I3IPC_TYPE_BOOL then bool_cells (flag tok) else if T = I3IPC_TYPE_SIZET then size_cells (number_long tok)
    else if T = I3IPC_TYPE_INT then int_cells (uint (number_long tok)) else float_cells (fl (token_double (number tok)))"
  have f: "filling al tot (p\<lparr>p_state := st\<rparr>) ?q0" by (rule filling_walk [OF assms(3)])
  have q: "p_state q = p_state p" using assms(3) by (simp add: filling_def)
  have len: "length ?cs = room T {}" using assms(5) by (auto simp: room_def)
  obtain q1 where 1: "store b ?cs ?q0 = Ret q1" "filling al tot (p\<lparr>p_state := st\<rparr>) q1"
    using store_fills [OF f, of b ?cs] assms(4) len by auto
  note s = store_stored [OF 1(1)]
  let ?q' = "q1\<lparr>p_next_set := True, p_next_enum := Null\<rparr>"
  have "filled lo hi T {} b q ?q'"
  proof (rule filledI)
    show "kept ({b..<b + room T {}} \<union> {lo..<hi}) (mem_of q) (mem_of ?q')"
      using storedD(1) [OF s(1)] unfolding len by (auto intro: kept_mono)
    fix v rest
    assume "stands q (tokens_of v @ rest)"
    then have v: "ahead st = rest" "\<not> err_flag st" "v \<noteq> JNull"
      "T = I3IPC_TYPE_BOOL \<Longrightarrow> \<exists>x. v = JBool x \<and> flag tok = x"
      "T \<noteq> I3IPC_TYPE_BOOL \<Longrightarrow> \<exists>i. v = JNumber i \<and> tok = number_token i"
      using match_value [OF _ _ m(1), of v rest] assms(1) q by (auto simp: stands_def noting_def split: if_splits)
    have "represents (mem_of q1) lo hi T {} b v"
    proof (cases "T = I3IPC_TYPE_BOOL")
      case True
      then show ?thesis using v(4) s(2) len by (auto simp: room_def intro: represents.bool)
    next
      case False
      then obtain i where i: "v = JNumber i" "tok = number_token i" using v(5) by blast
      have n: "number_long tok = word_of_int i" "token_double (number tok) = json_double i"
        by (simp_all add: i(2) json_double_def, simp add: number_token_def)
      consider "T = I3IPC_TYPE_INT" | "T = I3IPC_TYPE_SIZET" | "T = I3IPC_TYPE_FLOAT" using assms(5) False by blast
      then show ?thesis
        using s(2) by cases (simp_all add: n i(1) int_cells_number represents.int represents.sizet represents.float)
    qed
    then show "stands ?q' rest \<and> represents (mem_of ?q') lo hi T {} b v \<and> notes_value lo hi T {} v ?q'"
      using v(1-3) storedD(2) [OF s(1)] by (simp add: stands_def notes_value_def)
  qed
  moreover have "(if T = I3IPC_TYPE_BOOL then store b (bool_cells (flag tok)) ?q0
      else if T = I3IPC_TYPE_SIZET then store b (size_cells (number_long tok)) ?q0
      else if T = I3IPC_TYPE_INT then store b (int_cells (uint (number_long tok))) ?q0
      else if T = I3IPC_TYPE_FLOAT then store b (float_cells (fl (token_double (number tok)))) ?q0
      else Abort) = Ret q1"
    using 1(1) assms(5) by auto
  ultimately show ?thesis using m q 1(2) by (simp add: parse_primitive_def Let_def finish_def)
qed

lemma noted_allocs: "noted p p' \<Longrightarrow> \<exists>new. p_allocs p' = p_allocs p @ new"
  by (auto simp: noted_def)

lemma parse_maybe_fills:
  assumes "laid_out al tot" "notes_helper H" "fills_helper al tot H" "noting p" "usable T fg" "fg \<inter> GROUP_MAYBE \<noteq> {}"
    and "parse_maybe H (described T) T fg None p = Ret (0, p')"
    and "filling al tot p q" "sized al tot (length (p_allocs p)) p'"
    and "b + room T fg \<le> start_of al tot (length (p_allocs p))"
  shows "\<exists>q'. parse_maybe H (described T) T fg (Some b) q = Ret (0, q') \<and> filling al tot p' q' \<and>
    enum_ok (start_of al tot (length (p_allocs p))) q' \<and> filled (end_of al tot p) (end_of al tot p') T fg b q q'"
proof -
  let ?lo = "start_of al tot (length (p_allocs p))" and ?fg = "fg - GROUP_MAYBE" and ?hi = "end_of al tot p'"
  have lo: "?lo \<le> tot" by (rule start_total [OF assms(1)])
  from assms(7) obtain ok tok st where m: "json_trymatch I3IPC_JSON_NULL (p_state p) = Ret (ok, tok, st)"
    by (auto simp: parse_maybe_def obind_Ret)
  then have w: "walked (p_state p) st" using assms(4) by (intro trymatch_walked) (auto simp: noting_def i3codes)
  let ?p0 = "p\<lparr>p_state := st\<rparr>" and ?q0 = "q\<lparr>p_state := st\<rparr>"
  note n = noting_walk [OF assms(4) w]
  have q: "p_state q = p_state p" using assms(8) by (simp add: filling_def)
  have f0: "filling al tot ?p0 ?q0" by (rule filling_walk [OF assms(8)])
  have uf: "usable T ?fg" by (rule usable_strip [OF assms(5)])
  have null: "(ok \<longleftrightarrow> v = JNull) \<and> stands ?q0 (if ok then rest else tokens_of v @ rest)"
    if "stands q (tokens_of v @ rest)" for v rest
    using trymatch_null [OF _ _ m, of v rest] that assms(4) q by (auto simp: stands_def noting_def)
  show ?thesis
  proof (cases ok)
    case True
    then have p': "p' = ?p0\<lparr>p_next_size := 0, p_next_set := False, p_next_enum := Null\<rparr>"
      using assms(7) m by (simp add: parse_maybe_def Let_def finish_def)
    let ?q' = "?q0\<lparr>p_next_size := 0, p_next_set := False, p_next_enum := Null\<rparr>"
    have "filled ?lo ?hi T fg b q ?q'"
    proof (rule filledI)
      fix v rest
      assume "stands q (tokens_of v @ rest)" and bl: "blank ({b..<b + room T fg} \<union> {?lo..<?hi}) (mem_of q)"
      then have "v = JNull" "stands ?q0 rest" using null True by auto
      moreover have "represents (mem_of ?q') ?lo ?hi T fg b JNull"
        by (rule represents.null [OF assms(6)]) (use blank_mono [OF bl] in simp)
      ultimately show "stands ?q' rest \<and> represents (mem_of ?q') ?lo ?hi T fg b v \<and> notes_value ?lo ?hi T fg v ?q'"
        by (simp add: notes_value_def json_size_def enum_text_def)
    qed simp
    then show ?thesis using m True q f0 by (simp add: parse_maybe_def Let_def finish_def p')
  next
    case False
    show ?thesis
    proof (cases "ISPTR \<in> fg")
      case True
      obtain p1 where al0: "parse_alloc (tsize (described T)) (alignment (described T)) ?p0 = Ret (None, p1)"
        using first_alloc [OF n(1)] by blast
      then obtain p2 where a: "parse_alloc (tsize (described T)) (alignment (described T)) ?p0 = Ret (None, p1)"
        "H T ?fg None p1 = Ret (0, p2)" "p' = p2\<lparr>p_next_set := True\<rparr>"
        using assms(7) m False True
        by (auto simp: parse_maybe_def obind_Ret Let_def store_if_def finish_def split: if_splits)
      note al1 = noting_alloc [OF n(1) a(1) alignment_cases]
      have n1: "noting p1" using al1 noted_noting by blast
      obtain new where new: "p_allocs p2 = p_allocs p1 @ new" using noted_allocs [OF notes_helperD [OF assms(2) n1 a(2)]] by blast
      have sz: "sized al tot (length (p_allocs p1)) p2" "sized al tot (length (p_allocs p)) p2"
        using assms(9) al1 by (auto simp: a(3) sized_def)
      obtain q1 where 1: "parse_alloc (tsize (described T)) (alignment (described T)) ?q0 = Ret (Some ?lo, q1)"
        "filling al tot p1 q1"
        using second_alloc [OF f0 n(1) a(1) alignment_cases sz(1) new] by auto
      have b: "b + 8 \<le> ?lo" using assms(10) True by (simp add: room_def)
      then obtain q2 where 2: "store b (pointer_cells (At ?lo)) q1 = Ret q2" "filling al tot p1 q2"
        using store_fills [OF 1(2), of b "pointer_cells (At ?lo)"] lo by auto
      have fg0: "?fg = {}" using assms(5) True by (auto simp: usable_def)
      then have "room T ?fg = tsize (described T)" by (metis empty_iff room_def)
      then have room1: "?lo + room T ?fg \<le> start_of al tot (length (p_allocs p1))"
        using sizedD [OF sz(2), of "length (p_allocs p)"] al1 new by (simp add: nth_append)
      from fills_helperD [OF assms(3) n1 uf a(2) 2(2) sz(1) room1] obtain q3 where
        3: "H T ?fg (Some ?lo) q2 = Ret (0, q3)" "filling al tot p2 q3"
          "enum_ok (start_of al tot (length (p_allocs p1))) q3"
          "filled (end_of al tot p1) (end_of al tot p2) T ?fg ?lo q2 q3" by blast
      note s = store_stored [OF 2(1)]
      have lo1: "?lo + room T ?fg \<le> end_of al tot p1" by (rule room1)
      have hi: "?hi = end_of al tot p2" "end_of al tot p1 \<le> ?hi"
        using start_mono [OF assms(1), of "length (p_allocs p1)" "length (p_allocs p2)"] new by (simp_all add: a(3))
      have r8: "room T fg = 8" using True by (simp add: room_def)
      have mq1: "mem_of q1 = mem_of q" "p_state q1 = st"
        using 1(1) by (auto simp: parse_alloc_def Let_def mem_of_def split: option.splits if_splits)
      let ?q' = "q3\<lparr>p_next_set := True\<rparr>"
      have k1: "kept {b..<b + room T fg} (mem_of q) (mem_of q2)"
        using storedD(1) [OF s(1)] by (simp add: mq1 r8)
      have sub: "{?lo..<?lo + room T ?fg} \<union> {end_of al tot p1..<end_of al tot p2} \<subseteq> {?lo..<?hi}"
        using lo1 hi by auto
      have k2: "kept {?lo..<?hi} (mem_of q2) (mem_of q3)" using filled_kept [OF 3(4)] sub by (rule kept_mono)
      have "filled ?lo ?hi T fg b q ?q'"
      proof (rule filledI)
        show "kept ({b..<b + room T fg} \<union> {?lo..<?hi}) (mem_of q) (mem_of ?q')"
          using kept_trans [OF k1 k2, of "{b..<b + room T fg} \<union> {?lo..<?hi}"] by simp
        fix v rest
        assume v: "stands q (tokens_of v @ rest)" "rest \<noteq> []" "distinct_keys v"
          and bl: "blank ({b..<b + room T fg} \<union> {?lo..<?hi}) (mem_of q)"
        have nn: "v \<noteq> JNull" "stands ?q0 (tokens_of v @ rest)" using null [OF v(1)] False by auto
        then have st2: "stands q2 (tokens_of v @ rest)" using storedD(2) [OF s(1)] mq1(2) by (simp add: stands_def)
        have "blank {?lo..<?hi} (mem_of q2)"
          by (rule kept_blank [OF k1]) (use b r8 blank_mono [OF bl] in auto)
        then have "blank ({?lo..<?lo + room T ?fg} \<union> {end_of al tot p1..<end_of al tot p2}) (mem_of q2)"
          using sub by (rule blank_mono)
        note h = filled_value [OF 3(4) st2 v(2,3) this]
        have "represents (mem_of q3) ?lo ?hi T {} ?lo v"
          using h represents_mono [of "mem_of q3" "end_of al tot p1" ?hi T "{}" ?lo v ?lo ?hi] lo1 hi(1) fg0 by simp
        moreover have "cells_at (mem_of q3) b 8 = pointer_cells (At ?lo)"
          using kept_cells_in [OF k2, of 0 ?lo b 8] b s(2) by auto
        moreover have "?lo + tsize (described T) \<le> ?hi" using lo1 hi(2) fg0 by (simp add: room_def)
        ultimately have "represents (mem_of q3) ?lo ?hi T fg b v"
          by (intro represents.pointer [OF True nn(1), where a = ?lo]) simp_all
        then show "stands ?q' rest \<and> represents (mem_of ?q') ?lo ?hi T fg b v \<and> notes_value ?lo ?hi T fg v ?q'"
          using h nn(1) assms(5) True by (auto simp: notes_value_def usable_def)
      qed
      have "enum_ok ?lo q3"
        using text_ok_mono [OF 3(3)] start_mono [OF assms(1), of "length (p_allocs p)" "length (p_allocs p1)"] al1 by simp
      moreover have "q3\<lparr>p_next_set := True, p_next_enum := p_next_enum q3\<rparr> = ?q'" by simp
      ultimately show ?thesis
        using m q False True 1(1) 2(1) 3(1,2) \<open>filled ?lo ?hi T fg b q ?q'\<close>
        by (simp add: parse_maybe_def Let_def store_if_def address_def finish_def a(3) filling_def text_ok_def)
    next
      case nptr: False
      then obtain p2 where a: "H T ?fg None ?p0 = Ret (0, p2)" "p' = p2\<lparr>p_next_set := True\<rparr>"
        using assms(7) m False by (auto simp: parse_maybe_def obind_Ret Let_def finish_def split: if_splits)
      have "sized al tot (length (p_allocs ?p0)) p2" using assms(9) by (simp add: a(2) sized_def)
      moreover have "b + room T ?fg \<le> start_of al tot (length (p_allocs ?p0))" using assms(10) nptr by (simp add: room_def)
      ultimately obtain q3 where 3: "H T ?fg (Some b) ?q0 = Ret (0, q3)" "filling al tot p2 q3" "enum_ok ?lo q3"
        "filled ?lo (end_of al tot p2) T ?fg b ?q0 q3"
        using fills_helperD [OF assms(3) n(1) uf a(1) f0] by auto
      have r: "room T ?fg = room T fg" and opt: "ISOPT \<in> fg" and hi: "end_of al tot p2 = ?hi"
        using nptr assms(6) by (auto simp: room_def a(2) GROUP_MAYBE_def)
      let ?q' = "q3\<lparr>p_next_set := True\<rparr>"
      have "filled ?lo ?hi T fg b q ?q'"
      proof (rule filledI)
        show "kept ({b..<b + room T fg} \<union> {?lo..<?hi}) (mem_of q) (mem_of ?q')"
          using filled_kept [OF 3(4)] by (simp add: r hi)
        fix v rest
        assume v: "stands q (tokens_of v @ rest)" "rest \<noteq> []" "distinct_keys v"
          and bl: "blank ({b..<b + room T fg} \<union> {?lo..<?hi}) (mem_of q)"
        have nn: "v \<noteq> JNull" "stands ?q0 (tokens_of v @ rest)" using null [OF v(1)] False by auto
        have h: "stands q3 rest \<and> represents (mem_of q3) ?lo ?hi T ?fg b v \<and> notes_value ?lo ?hi T ?fg v q3"
          using filled_value [OF 3(4) nn(2) v(2,3)] bl by (simp add: r hi)
        then have "represents (mem_of q3) ?lo ?hi T fg b v"
          using represents.optional [OF nptr opt nn(1)] by blast
        then show "stands ?q' rest \<and> represents (mem_of ?q') ?lo ?hi T fg b v \<and> notes_value ?lo ?hi T fg v ?q'"
          using h nn(1) by (simp add: notes_value_def GROUP_MAYBE_def)
      qed
      moreover have "q3\<lparr>p_next_set := True, p_next_enum := p_next_enum q3\<rparr> = ?q'" by simp
      ultimately show ?thesis
        using m q False nptr 3(1-3) by (simp add: parse_maybe_def Let_def finish_def a(2) filling_def text_ok_def)
    qed
  qed
qed


text \<open>The same for the loops over the elements of an array and over the fields of an object.\<close>

definition filled_elements ::
  "nat \<Rightarrow> nat \<Rightarrow> type_id \<Rightarrow> nat \<Rightarrow> nat \<Rightarrow> nat \<Rightarrow> parse_state \<Rightarrow> parse_state \<Rightarrow> bool" where
  "filled_elements lo hi T i k a q q' \<longleftrightarrow>
     kept ({a + i * tsize (described T)..<a + k * tsize (described T)} \<union> {lo..<hi}) (mem_of q) (mem_of q') \<and>
     (i = 0 \<longrightarrow> (\<forall>v rest. stands q (tokens_of v @ rest) \<longrightarrow> (\<exists>vs. v = JArr vs))) \<and>
     (\<forall>vs rest. stands q (array_at i vs rest) \<longrightarrow> rest \<noteq> [] \<longrightarrow> list_all distinct_keys vs \<longrightarrow>
        blank ({a + i * tsize (described T)..<a + k * tsize (described T)} \<union> {lo..<hi}) (mem_of q) \<longrightarrow>
        stands q' rest \<and> k = i + length vs \<and>
        (\<forall>j<length vs. represents (mem_of q') lo hi T {} (a + (i + j) * tsize (described T)) (vs ! j)))"

text \<open>The cells of the fields for which the object has members, and their contents.\<close>

definition touched :: "i3_field list \<Rightarrow> nat \<Rightarrow> (byte list \<times> json) list \<Rightarrow> nat set" where
  "touched fs b kvs = (\<Union>i\<in>{i. member_for fs i kvs \<noteq> None}. field_cells fs b i)"

definition members_hold :: "cell list \<Rightarrow> nat \<Rightarrow> nat \<Rightarrow> i3_field list \<Rightarrow> nat \<Rightarrow> (byte list \<times> json) list \<Rightarrow> bool" where
  "members_hold m lo hi fs b kvs \<longleftrightarrow> (\<forall>i w. member_for fs i kvs = Some w \<longrightarrow>
     represents m lo hi (ftype (fs ! i)) (flags (fs ! i)) (b + foffset (fs ! i)) w \<and> derived_hold fs i b w m)"

definition filled_fields :: "nat \<Rightarrow> nat \<Rightarrow> type_id \<Rightarrow> nat \<Rightarrow> nat \<Rightarrow> parse_state \<Rightarrow> parse_state \<Rightarrow> bool" where
  "filled_fields lo hi T j b q q' \<longleftrightarrow>
     kept ({b..<b + tsize (described T)} \<union> {lo..<hi}) (mem_of q) (mem_of q') \<and>
     (j = 0 \<longrightarrow> (\<forall>v rest. stands q (tokens_of v @ rest) \<longrightarrow> (\<exists>kvs. v = JObj kvs))) \<and>
     (\<forall>kvs rest. stands q (object_at j kvs rest) \<longrightarrow> rest \<noteq> [] \<longrightarrow> distinct_keys (JObj kvs) \<longrightarrow>
        blank (touched (type_fields (described T)) b kvs \<union> {lo..<hi}) (mem_of q) \<longrightarrow>
        stands q' rest \<and> kept (touched (type_fields (described T)) b kvs \<union> {lo..<hi}) (mem_of q) (mem_of q') \<and>
        members_hold (mem_of q') lo hi (type_fields (described T)) b kvs)"

definition fills_elements :: "(nat \<times> nat) list \<Rightarrow> nat \<Rightarrow> elements_loop \<Rightarrow> bool" where
  "fills_elements al tot E \<longleftrightarrow> (\<forall>T i p k p' a q. noting p \<longrightarrow> usable T {} \<longrightarrow> E T i None p = Ret (0, k, p') \<longrightarrow>
     filling al tot p q \<longrightarrow> sized al tot (length (p_allocs p)) p' \<longrightarrow>
     a + k * tsize (described T) \<le> start_of al tot (length (p_allocs p)) \<longrightarrow>
     i \<le> k \<and> (\<exists>q'. E T i (Some a) q = Ret (0, k, q') \<and> filling al tot p' q' \<and>
       filled_elements (end_of al tot p) (end_of al tot p') T i k a q q'))"

definition fills_fields :: "(nat \<times> nat) list \<Rightarrow> nat \<Rightarrow> fields_loop \<Rightarrow> bool" where
  "fills_fields al tot F \<longleftrightarrow> (\<forall>T j p p' b q. noting p \<longrightarrow> F (described T) j None p = Ret (0, p') \<longrightarrow>
     filling al tot p q \<longrightarrow> sized al tot (length (p_allocs p)) p' \<longrightarrow>
     b + tsize (described T) \<le> start_of al tot (length (p_allocs p)) \<longrightarrow>
     (\<exists>q'. F (described T) j (Some b) q = Ret (0, q') \<and> filling al tot p' q' \<and>
       filled_fields (end_of al tot p) (end_of al tot p') T j b q q'))"

lemma parse_array_fills:
  assumes "laid_out al tot" "notes_elements E" "fills_elements al tot E" "noting p" "usable T {}"
    and "parse_array E (described T) T None p = Ret (0, p')"
    and "filling al tot p q" "sized al tot (length (p_allocs p)) p'" "b + 8 \<le> start_of al tot (length (p_allocs p))"
    and fg: "ISARRAY \<in> fg" "fg \<inter> GROUP_MAYBE = {}" "T \<noteq> I3IPC_TYPE_CHAR"
  shows "\<exists>q'. parse_array E (described T) T (Some b) q = Ret (0, q') \<and> filling al tot p' q' \<and> p_next_enum q' = Null \<and>
    filled (end_of al tot p) (end_of al tot p') T fg b q q'"
proof -
  let ?lo = "start_of al tot (length (p_allocs p))" and ?type = "described T"
  let ?n = "length (p_allocs p)"
  have lo: "?lo \<le> tot" by (rule start_total [OF assms(1)])
  have pn: "p_allocs_size p = ?n" using assms(4) by (simp add: noting_def)
  obtain p1 where a: "parse_alloc unknown_size (alignment ?type) p = Ret (None, p1)" using first_alloc [OF assms(4)] by blast
  note al1 = noting_alloc [OF assms(4) a alignment_cases]
  have n1: "noting p1" using al1 noted_noting by blast
  obtain k p3 where e: "E T 0 None p1 = Ret (0, k, p3)"
    "p' = (set_block_size ?n (k * tsize ?type) None p3)\<lparr>p_next_size := int k, p_next_set := True, p_next_enum := Null\<rparr>"
    using assms(6) a pn by (auto simp: parse_array_def obind_Ret store_if_def finish_def split: if_splits)
  obtain new where new: "p_allocs p3 = p_allocs p1 @ new"
    using assms(2) n1 e(1) noted_allocs unfolding notes_elements_def by blast
  have p': "p_allocs p' = p_allocs p @ (k * tsize ?type, alignment ?type) # new"
    using al1 new by (simp add: e(2) set_block_size_def)
  have p3: "sized al tot (length (p_allocs p1)) p3"
    unfolding sized_def
  proof (intro conjI allI impI)
    show "length (p_allocs p3) \<le> length al" using assms(8) p' new al1 by (simp add: sized_def)
    fix i
    assume i: "length (p_allocs p1) \<le> i" "i < length (p_allocs p3)"
    then have "p_allocs p3 ! i = p_allocs p' ! i" using new al1 p' by (simp add: nth_append nth_Cons')
    then show "start_of al tot i + fst (p_allocs p3 ! i) \<le> start_of al tot (Suc i)"
      using sizedD [OF assms(8), of i] i new al1 p' by simp
  qed
  obtain q1 where 1: "parse_alloc unknown_size (alignment ?type) q = Ret (Some ?lo, q1)" "filling al tot p1 q1"
    using second_alloc [OF assms(7,4) a alignment_cases p3 new] by blast
  obtain q2 where 2: "store b (pointer_cells (At ?lo)) q1 = Ret q2" "filling al tot p1 q2"
    using store_fills [OF 1(2), of b "pointer_cells (At ?lo)"] assms(9) lo by auto
  have lo1: "?lo + k * tsize ?type \<le> end_of al tot p1"
    using sizedD [OF assms(8), of ?n] al1 by (simp add: p')
  then obtain q3 where 3: "E T 0 (Some ?lo) q2 = Ret (0, k, q3)" "filling al tot p3 q3"
      "filled_elements (end_of al tot p1) (end_of al tot p3) T 0 k ?lo q2 q3"
    using assms(3,5) n1 e(1) 2(2) p3 unfolding fills_elements_def by blast
  let ?q' = "q3\<lparr>p_next_size := int k, p_next_set := True, p_next_enum := Null\<rparr>" and ?hi = "end_of al tot p'"
  note s = store_stored [OF 2(1)]
  have hi: "?hi = end_of al tot p3" "end_of al tot p1 \<le> ?hi"
    using start_mono [OF assms(1), of "length (p_allocs p1)" "length (p_allocs p3)"] new al1 p' by simp_all
  have mq1: "mem_of q1 = mem_of q" "p_state q1 = p_state q"
    using 1(1) by (auto simp: parse_alloc_def Let_def mem_of_def split: option.splits if_splits)
  have r8: "room T fg = 8" using fg(1) by (simp add: room_def)
  have k1: "kept {b..<b + room T fg} (mem_of q) (mem_of q2)" using storedD(1) [OF s(1)] by (simp add: mq1 r8)
  have sub: "{?lo + 0 * tsize ?type..<?lo + k * tsize ?type} \<union> {end_of al tot p1..<end_of al tot p3} \<subseteq> {?lo..<?hi}"
    using lo1 hi by auto
  have k2: "kept {?lo..<?hi} (mem_of q2) (mem_of q3)"
    using 3(3) kept_mono [OF _ sub] by (simp add: filled_elements_def)
  have st2: "stands q2 ts = stands q ts" for ts
    using storedD(2) [OF s(1)] mq1(2) by (simp add: stands_def)
  have "filled ?lo ?hi T fg b q ?q'"
  proof (rule filledI)
    show "kept ({b..<b + room T fg} \<union> {?lo..<?hi}) (mem_of q) (mem_of ?q')"
      using kept_trans [OF k1 k2, of "{b..<b + room T fg} \<union> {?lo..<?hi}"] by simp
    fix v rest
    assume v: "stands q (tokens_of v @ rest)" "rest \<noteq> []" "distinct_keys v"
      and bl: "blank ({b..<b + room T fg} \<union> {?lo..<?hi}) (mem_of q)"
    obtain vs where vs: "v = JArr vs" using 3(3) v(1) st2 unfolding filled_elements_def by blast
    have "blank {?lo..<?hi} (mem_of q2)"
      by (rule kept_blank [OF k1]) (use assms(9) r8 blank_mono [OF bl] in auto)
    then have "blank ({?lo + 0 * tsize ?type..<?lo + k * tsize ?type} \<union> {end_of al tot p1..<end_of al tot p3}) (mem_of q2)"
      using sub by (rule blank_mono)
    moreover have "stands q2 (array_at 0 vs rest)"
      using v(1) unfolding st2 vs array_at_first .
    moreover have "list_all distinct_keys vs" using v(3) by (simp add: vs)
    ultimately have e: "stands q3 rest \<and> k = 0 + length vs \<and> (\<forall>j<length vs.
        represents (mem_of q3) (end_of al tot p1) (end_of al tot p3) T {} (?lo + (0 + j) * tsize ?type) (vs ! j))"
      using 3(3) v(2) unfolding filled_elements_def by blast
    then have h: "stands q3 rest" "k = length vs"
      "\<forall>j<length vs. represents (mem_of q3) (end_of al tot p1) (end_of al tot p3) T {} (?lo + j * tsize ?type) (vs ! j)"
      by simp_all
    have "represents (mem_of q3) ?lo ?hi T {} (?lo + j * tsize ?type) (vs ! j)" if "j < length vs" for j
      by (rule represents_mono [OF h(3) [rule_format, OF that]]) (use lo1 hi(1) in linarith)+
    moreover have "cells_at (mem_of q3) b 8 = pointer_cells (At ?lo)"
      using kept_cells_in [OF k2, of 0 ?lo b 8] assms(9) s(2) by auto
    ultimately have "represents (mem_of q3) ?lo ?hi T fg b v"
      using lo1 hi(2) h(2) unfolding vs
      by (intro represents.array [OF fg(2,1,3), where a = ?lo]) simp_all
    then show "stands ?q' rest \<and> represents (mem_of ?q') ?lo ?hi T fg b v \<and> notes_value ?lo ?hi T fg v ?q'"
      using h(1,2) fg(3) by (simp add: notes_value_def json_size_def vs)
  qed
  moreover
  have "filling al tot (set_block_size ?n (k * tsize ?type) None p3) q3"
    using 3(2) by (simp add: set_block_size_def filling_def)
  ultimately show ?thesis
    using 1(1) 2(1) 3(1) by (simp add: parse_array_def store_if_def address_def finish_def set_block_size_def e(2))
qed

lemma parse_inline_fills:
  assumes "laid_out al tot" "fills_helper al tot H" "noting p" "is_inline (described T)"
    and "parse_inline H (described T) None p = Ret (0, p')"
    and "filling al tot p q" "sized al tot (length (p_allocs p)) p'"
    and "b + tsize (described T) \<le> start_of al tot (length (p_allocs p))"
    and "T \<noteq> I3IPC_TYPE_STRING"
  shows "\<exists>q'. parse_inline H (described T) (Some b) q = Ret (0, q') \<and> filling al tot p' q' \<and> p_next_enum q' = Null \<and>
    filled (end_of al tot p) (end_of al tot p') T {} b q q'"
proof -
  let ?lo = "start_of al tot (length (p_allocs p))" and ?type = "described T"
  obtain f fs where f: "type_fields ?type = f # fs" "list_all derived fs" "usable (ftype f) (flags f)" "\<not> derived f" "flags f \<inter> GROUP_MAYBE = {}"
    using table_inline [OF assms(4)] by blast
  obtain p1 where h: "H (ftype f) (flags f) None p = Ret (0, p1)" "p' = p1\<lparr>p_next_set := True, p_next_enum := Null\<rparr>"
    using assms(5) f by (auto simp: parse_inline_def obind_Ret finish_def Let_def split: if_splits)
  have sz: "sized al tot (length (p_allocs p)) p1" using assms(7) by (simp add: h(2) sized_def)
  have "b + foffset f + room (ftype f) (flags f) \<le> ?lo" using field_inside [of f T] f(1) assms(8) by simp
  from fills_helperD [OF assms(2,3) f(3) h(1) assms(6) sz this] obtain q1 where
    1: "H (ftype f) (flags f) (Some (b + foffset f)) q = Ret (0, q1)" "filling al tot p1 q1" "enum_ok ?lo q1"
      "filled ?lo (end_of al tot p1) (ftype f) (flags f) (b + foffset f) q q1" by blast
  obtain q2 where 2: "doderived ?type 0 (Some b) q1 = Ret q2" "filling al tot p1 q2"
    using doderived_fills [OF 1(2,3) start_total [OF assms(1)] _ assms(8)] f(1) by auto
  let ?q' = "q2\<lparr>p_next_set := True, p_next_enum := Null\<rparr>" and ?hi = "end_of al tot p'"
  have hi: "end_of al tot p1 = ?hi" by (simp add: h(2))
  have r: "room T {} = tsize ?type" by (simp add: room_def)
  have mem: "p_memory q1 \<noteq> None" using 1(2) by (auto simp: filling_def)
  have d: "stored (behind_cells (type_fields ?type) b 0) q1 q2 \<and>
      (notes_value ?lo ?hi (ftype f) (flags f) v q1 \<longrightarrow> derived_hold (type_fields ?type) 0 b v (mem_of q2))" for v
    using doderived_holds [OF 2(1) mem _ _ assms(8), of ?hi v] f(1,4) by simp
  have range: "{b + foffset f..<b + foffset f + room (ftype f) (flags f)} = field_range f b" by (simp add: field_range_def)
  have inside: "field_range f b \<subseteq> {b..<b + room T {}}" "behind_cells (type_fields ?type) b 0 \<subseteq> {b..<b + room T {}}"
    using field_cells_inside [of T b 0] field_cells_split [of 0 "type_fields ?type" b] f(1) by (auto simp: r)
  have k1: "kept (field_range f b \<union> {?lo..<?hi}) (mem_of q) (mem_of q1)" using filled_kept [OF 1(4)] by (simp add: range hi)
  have k2: "kept (behind_cells (type_fields ?type) b 0) (mem_of q1) (mem_of q2)" using d storedD(1) by blast
  have "filled ?lo ?hi T {} b q ?q'"
  proof (rule filledI)
    show "kept ({b..<b + room T {}} \<union> {?lo..<?hi}) (mem_of q) (mem_of ?q')"
      using kept_trans [OF k1 k2, of "{b..<b + room T {}} \<union> {?lo..<?hi}"] inside by auto
    fix v rest
    assume v: "stands q (tokens_of v @ rest)" "rest \<noteq> []" "distinct_keys v"
      and bl: "blank ({b..<b + room T {}} \<union> {?lo..<?hi}) (mem_of q)"
    have "blank (field_range f b \<union> {?lo..<?hi}) (mem_of q)" by (rule blank_mono [OF bl]) (use inside in auto)
    then have h: "stands q1 rest" "represents (mem_of q1) ?lo ?hi (ftype f) (flags f) (b + foffset f) v"
        "notes_value ?lo ?hi (ftype f) (flags f) v q1"
      using filled_value [OF 1(4) v] by (simp_all add: range hi)
    have "behind_cells (type_fields ?type) b 0 \<inter> {?lo..<?hi} = {}"
      using inside(2) assms(8) by (auto simp: r)
    moreover have "behind_cells (type_fields ?type) b 0 \<inter> field_range f b = {}"
      using behind_apart [of 0 T b] f(1) by simp
    ultimately have "represents (mem_of q2) ?lo ?hi (ftype f) (flags f) (b + foffset f) v"
      by (intro represents_kept [OF h(2) k2]) (simp_all add: range)
    moreover have "derived_hold (type_fields ?type) 0 b v (mem_of q2)" using d h(3) by blast
    ultimately have "represents (mem_of q2) ?lo ?hi T {} b v"
      using f(1) by (intro represents.inlined [OF assms(4,9), of f]) simp_all
    moreover have "v \<noteq> JNull" by (rule represents_not_null [OF h(2) f(5)])
    ultimately show "stands ?q' rest \<and> represents (mem_of ?q') ?lo ?hi T {} b v \<and> notes_value ?lo ?hi T {} v ?q'"
      using h(1) stands_stored [OF conjunct1 [OF d]] by (simp add: notes_value_def)
  qed
  then show ?thesis using f 1(1) 2 by (simp add: parse_inline_def finish_def h(2))
qed

lemma room_plain: "fg \<inter> GROUP_MAYBE = {} \<Longrightarrow> ISARRAY \<notin> fg \<Longrightarrow> room T fg = tsize (described T)"
  by (auto simp: room_def)

lemma primitive_cases:
  "is_primitive (described T) \<Longrightarrow> usable T {} \<Longrightarrow>
     T \<in> {I3IPC_TYPE_BOOL, I3IPC_TYPE_INT, I3IPC_TYPE_FLOAT, I3IPC_TYPE_SIZET}"
  by (auto simp: described_def primitive_types_def usable_def split: prod.splits)

lemma member_for_field: "member_for fs i kvs = Some w \<Longrightarrow> i < length fs \<and> \<not> derived (fs ! i)"
  using find_field_index [of 0 fs _ i] by (fastforce simp: member_for_def find_Some_iff)

lemma touched_inside: "touched (type_fields (described T)) b kvs \<subseteq> {b..<b + tsize (described T)}"
  using field_cells_inside [of T b] by (fastforce simp: touched_def)

text \<open>The fields of an object without members stay as they were.\<close>

lemma members_hold_represents:
  assumes "T \<noteq> I3IPC_TYPE_STRING" "\<not> is_inline (described T)" "\<not> is_primitive (described T)"
    and h: "members_hold m' lo hi (type_fields (described T)) b kvs"
    and k: "kept (touched (type_fields (described T)) b kvs \<union> {lo..<hi}) m m'"
    and b: "blank {b..<b + tsize (described T)} m" "b + tsize (described T) \<le> lo"
  shows "represents m' lo hi T {} b (JObj kvs)"
proof (rule represents.object [OF assms(1-3)], intro allI impI conjI)
  let ?fs = "type_fields (described T)"
  fix i
  assume i: "i < length ?fs" "\<not> derived (?fs ! i)"
  show "blank (field_cells ?fs b i) m'" if none: "member_for ?fs i kvs = None"
  proof (rule kept_blank [OF k])
    have "field_cells ?fs b i' \<inter> field_cells ?fs b i = {}" if "member_for ?fs i' kvs \<noteq> None" for i'
      using that none member_for_field [of ?fs i' kvs] i(2) by (intro field_cells_apart) auto
    then have "touched ?fs b kvs \<inter> field_cells ?fs b i = {}" unfolding touched_def by blast
    moreover have "{lo..<hi} \<inter> field_cells ?fs b i = {}" using field_cells_inside [of T b i] b(2) by fastforce
    ultimately show "(touched ?fs b kvs \<union> {lo..<hi}) \<inter> field_cells ?fs b i = {}" by blast
    show "blank (field_cells ?fs b i) m" by (rule blank_mono [OF b(1) field_cells_inside])
  qed
  fix w
  assume "member_for ?fs i kvs = Some w"
  then show "represents m' lo hi (ftype (?fs ! i)) (flags (?fs ! i)) (b + foffset (?fs ! i)) w"
    and "derived_hold ?fs i b w m'"
    using h by (simp_all add: members_hold_def)
qed

lemma parse_object_fills:
  assumes F: "fills_fields al tot F" and p: "noting p" and r: "parse_object F (described T) None p = Ret (0, p')"
    and f: "filling al tot p q" and sz: "sized al tot (length (p_allocs p)) p'"
    and b: "b + tsize (described T) \<le> end_of al tot p"
    and T: "T \<noteq> I3IPC_TYPE_STRING" "\<not> is_inline (described T)" "\<not> is_primitive (described T)"
  shows "\<exists>q'. parse_object F (described T) (Some b) q = Ret (0, q') \<and> filling al tot p' q' \<and> p_next_enum q' = Null \<and>
    filled (end_of al tot p) (end_of al tot p') T {} b q q'"
proof -
  let ?fs = "type_fields (described T)" and ?lo = "end_of al tot p"
  obtain p1 where e: "F (described T) 0 None p = Ret (0, p1)" "p' = p1\<lparr>p_next_set := True, p_next_enum := Null\<rparr>"
    using r by (auto simp: parse_object_def obind_Ret finish_def split: if_splits)
  have sz1: "sized al tot (length (p_allocs p)) p1" using sz by (simp add: e(2) sized_def)
  obtain q1 where 1: "F (described T) 0 (Some b) q = Ret (0, q1)" "filling al tot p1 q1" "filled_fields ?lo (end_of al tot p1) T 0 b q q1"
    using F p e(1) f sz1 b unfolding fills_fields_def by blast
  let ?q' = "q1\<lparr>p_next_set := True, p_next_enum := Null\<rparr>" and ?hi = "end_of al tot p'"
  have hi: "end_of al tot p1 = ?hi" by (simp add: e(2))
  have room: "room T {} = tsize (described T)" by (simp add: room_def)
  have "filled ?lo ?hi T {} b q ?q'"
  proof (rule filledI)
    show "kept ({b..<b + room T {}} \<union> {?lo..<?hi}) (mem_of q) (mem_of ?q')"
      using 1(3) by (simp add: filled_fields_def hi room)
    fix v rest
    assume v: "stands q (tokens_of v @ rest)" "rest \<noteq> []" "distinct_keys v"
      and bl: "blank ({b..<b + room T {}} \<union> {?lo..<?hi}) (mem_of q)"
    obtain kvs where kvs: "v = JObj kvs" using 1(3) v(1) unfolding filled_fields_def by blast
    have "stands q (object_at 0 kvs rest)" using v(1) unfolding kvs object_at_first .
    moreover have "blank (touched ?fs b kvs \<union> {?lo..<end_of al tot p1}) (mem_of q)"
      by (rule blank_mono [OF bl]) (use touched_inside [of T b kvs] in \<open>auto simp: room hi\<close>)
    ultimately have h: "stands q1 rest" "kept (touched ?fs b kvs \<union> {?lo..<?hi}) (mem_of q) (mem_of q1)"
        "members_hold (mem_of q1) ?lo ?hi ?fs b kvs"
      using 1(3) v(2,3) unfolding filled_fields_def kvs hi by blast+
    have "blank {b..<b + tsize (described T)} (mem_of q)" by (rule blank_mono [OF bl]) (simp add: room)
    from members_hold_represents [OF T h(3,2) this b] have "represents (mem_of q1) ?lo ?hi T {} b v" by (simp add: kvs)
    then show "stands ?q' rest \<and> represents (mem_of ?q') ?lo ?hi T {} b v \<and> notes_value ?lo ?hi T {} v ?q'"
      using h(1) by (simp add: notes_value_def kvs)
  qed
  then show ?thesis using 1(1,2) by (simp add: parse_object_def finish_def e(2))
qed

lemma helper_step_fills:
  assumes "laid_out al tot" "notes_helper H" "notes_elements E" "fills_helper al tot H" "fills_elements al tot E"
    "fills_fields al tot F"
  shows "fills_helper al tot (helper_step H E F)"
  unfolding fills_helper_def
proof (intro allI impI)
  fix T fg b and p p' q :: parse_state
  let ?lo = "start_of al tot (length (p_allocs p))" and ?type = "described T"
  assume p: "noting p" and u: "usable T fg" and r: "helper_step H E F T fg None p = Ret (0, p')"
    and f: "filling al tot p q" and sz: "sized al tot (length (p_allocs p)) p'" and b: "b + room T fg \<le> ?lo"
  have lo: "?lo \<le> tot" by (rule start_total [OF assms(1)])
  have ev: "T \<noteq> I3IPC_TYPE_EVENT" using u by (simp add: usable_def)
  consider (maybe) "fg \<inter> GROUP_MAYBE \<noteq> {}"
    | (string) "fg \<inter> GROUP_MAYBE = {}" "is_string_type T fg"
    | (array) "fg \<inter> GROUP_MAYBE = {}" "\<not> is_string_type T fg" "ISARRAY \<in> fg"
    | (inline) "fg \<inter> GROUP_MAYBE = {}" "\<not> is_string_type T fg" "ISARRAY \<notin> fg" "is_inline ?type"
    | (primitive) "fg = {}" "\<not> is_string_type T fg" "\<not> is_inline ?type" "is_primitive ?type"
    | (object) "fg = {}" "\<not> is_string_type T fg" "\<not> is_inline ?type" "\<not> is_primitive ?type"
    using u unfolding usable_def by blast
  then show "\<exists>q'. helper_step H E F T fg (Some b) q = Ret (0, q') \<and> filling al tot p' q' \<and> enum_ok ?lo q' \<and>
      filled ?lo (end_of al tot p') T fg b q q'"
  proof cases
    case maybe
    then have "parse_maybe H ?type T fg None p = Ret (0, p')" using r ev by (simp add: helper_step_def)
    from parse_maybe_fills [OF assms(1,2,4) p u maybe this f sz b] show ?thesis using maybe ev by (simp add: helper_step_def)
  next
    case string
    then have "parse_string T ?type None p = Ret (0, p')" using r ev by (simp add: helper_step_def)
    from parse_string_fills [OF assms(1) p string(2,1) this f sz b] show ?thesis using string ev by (simp add: helper_step_def)
  next
    case array
    then have e: "parse_array E ?type T None p = Ret (0, p')" using r ev by (simp add: helper_step_def)
    have "usable T {}" using array u by (auto simp: usable_def is_string_type_def)
    moreover have "b + 8 \<le> ?lo" using b array(3) by (simp add: room_def)
    moreover have "T \<noteq> I3IPC_TYPE_CHAR" using array(2,3) by (simp add: is_string_type_def)
    ultimately obtain q' where "parse_array E ?type T (Some b) q = Ret (0, q')" "filling al tot p' q'" "p_next_enum q' = Null"
        "filled ?lo (end_of al tot p') T fg b q q'"
      using parse_array_fills [OF assms(1,3,5) p _ e f sz _ array(3,1)] by blast
    then show ?thesis using array ev by (simp add: helper_step_def)
  next
    case inline
    then have e: "parse_inline H ?type None p = Ret (0, p')" using r ev by (simp add: helper_step_def)
    have "b + tsize ?type \<le> ?lo" using b room_plain inline(1,3) by simp
    moreover have fg: "fg = {}" "T \<noteq> I3IPC_TYPE_STRING"
      using u inline(1-3) by (auto simp: usable_def is_string_type_def)
    ultimately obtain q' where "parse_inline H ?type (Some b) q = Ret (0, q')" "filling al tot p' q'" "p_next_enum q' = Null"
        "filled ?lo (end_of al tot p') T fg b q q'"
      using parse_inline_fills [OF assms(1,4) p inline(4) e f sz] by blast
    then show ?thesis using inline ev by (simp add: helper_step_def)
  next
    case primitive
    then have e: "parse_primitive T None p = Ret (0, p')" using r ev by (simp add: helper_step_def)
    have c: "T \<in> {I3IPC_TYPE_BOOL, I3IPC_TYPE_INT, I3IPC_TYPE_FLOAT, I3IPC_TYPE_SIZET}"
      using primitive_cases primitive(1,4) u by blast
    have "b + room T {} \<le> tot" using b lo primitive(1) by simp
    then obtain q' where "parse_primitive T (Some b) q = Ret (0, q')" "filling al tot p' q'" "p_next_enum q' = Null"
        "filled ?lo (end_of al tot p') T fg b q q'"
      using parse_primitive_fills [OF p e f _ c] primitive(1) by blast
    then show ?thesis using primitive ev by (simp add: helper_step_def)
  next
    case object
    then have e: "parse_object F ?type None p = Ret (0, p')" using r ev by (simp add: helper_step_def)
    have T: "T \<noteq> I3IPC_TYPE_STRING" using object(1,2) by (simp add: is_string_type_def)
    have "b + tsize ?type \<le> ?lo" using b object(1) by (simp add: room_def)
    then obtain q' where "parse_object F ?type (Some b) q = Ret (0, q')" "filling al tot p' q'" "p_next_enum q' = Null"
        "filled ?lo (end_of al tot p') T fg b q q'"
      using parse_object_fills [OF assms(6) p e f sz _ T object(3,4)] object(1) by blast
    then show ?thesis using object ev by (simp add: helper_step_def)
  qed
qed

text \<open>One element is parsed, and then the elements behind it.\<close>

lemma filled_elements_next:
  assumes h: "filled lo mid T {} (a + i * tsize (described T)) (q\<lparr>p_state := st\<rparr>) q1"
    and e: "filled_elements mid hi T (Suc i) k a q1 q2"
    and l: "json_looparr i (p_state q) = Ret (True, st)" "terminated (p_state q)"
    and b: "i < k" "a + k * tsize (described T) \<le> lo" "lo \<le> mid" "mid \<le> hi"
  shows "filled_elements lo hi T i k a q q2"
proof -
  let ?s = "tsize (described T)"
  let ?one = "{a + i * ?s..<a + Suc i * ?s}" and ?more = "{a + Suc i * ?s..<a + k * ?s}"
  have k: "Suc i * ?s \<le> k * ?s" using b(1) by (intro mult_right_mono) simp_all
  have r: "{a + i * ?s..<a + i * ?s + room T {}} = ?one" by (simp add: room_def algebra_simps)
  have k1: "kept (?one \<union> {lo..<mid}) (mem_of q) (mem_of q1)" using filled_kept [OF h] unfolding r by simp
  have k2: "kept (?more \<union> {mid..<hi}) (mem_of q1) (mem_of q2)" using e by (simp add: filled_elements_def)
  have all: "?one \<union> {lo..<mid} \<subseteq> {a + i * ?s..<a + k * ?s} \<union> {lo..<hi}" "?more \<union> {mid..<hi} \<subseteq> {a + i * ?s..<a + k * ?s} \<union> {lo..<hi}"
    using k b by auto
  have kind: "\<exists>vs. v = JArr vs" if "i = 0" "stands q (tokens_of v @ rest)" for v rest
    using looparr_array [OF l(2) _ l(1) [unfolded that(1)], of v rest] that(2) by (simp add: stands_def)
  have vals: "stands q2 rest \<and> k = i + length vs \<and> (\<forall>j<length vs. represents (mem_of q2) lo hi T {} (a + (i + j) * ?s) (vs ! j))"
    if st: "stands q (array_at i vs rest)" and rest: "rest \<noteq> []" and dk: "list_all distinct_keys vs"
      and bl: "blank ({a + i * ?s..<a + k * ?s} \<union> {lo..<hi}) (mem_of q)" for vs rest
  proof (cases vs)
    case Nil
    then show ?thesis using looparr_done [OF l(2) _ rest, of i] st l(1) by (auto simp: stands_def)
  next
    case (Cons v ws)
    have "st = adv 1 (p_state q)" "ahead st = tokens_of v @ array_tail ws rest"
      using looparr_more [OF l(2), of i v ws rest] st l(1) Cons by (auto simp: stands_def)
    then have "stands (q\<lparr>p_state := st\<rparr>) (tokens_of v @ array_tail ws rest)" using st by (simp add: stands_def)
    then have 1: "stands q1 (array_tail ws rest)" "represents (mem_of q1) lo mid T {} (a + i * ?s) v"
      using filled_value [OF h] dk Cons blank_mono [OF bl all(1)] unfolding r by simp_all
    have "(?one \<union> {lo..<mid}) \<inter> (?more \<union> {mid..<hi}) = {}" using k b by auto
    then have bl1: "blank (?more \<union> {mid..<hi}) (mem_of q1)" by (rule kept_blank [OF k1 _ blank_mono [OF bl all(2)]])
    have 2: "stands q2 rest" "k = Suc i + length ws"
        "\<forall>j<length ws. represents (mem_of q2) mid hi T {} (a + (Suc i + j) * ?s) (ws ! j)"
      using e 1(1) rest dk bl1 unfolding Cons filled_elements_def array_tail_next [of i, symmetric] by auto
    have "represents (mem_of q2) lo mid T {} (a + i * ?s) v"
      by (rule represents_kept [OF 1(2) k2]) (use r k b in auto)
    then have first: "represents (mem_of q2) lo hi T {} (a + i * ?s) v" by (rule represents_mono) (use b in simp_all)
    have "represents (mem_of q2) lo hi T {} (a + (i + j) * ?s) (vs ! j)" if "j < length vs" for j
    proof (cases j)
      case 0
      then show ?thesis using first Cons by simp
    next
      case (Suc n)
      then have "represents (mem_of q2) mid hi T {} (a + (i + j) * ?s) (vs ! j)" using 2(3) that Cons by auto
      then show ?thesis by (rule represents_mono) (use b in simp_all)
    qed
    then show ?thesis using 2(1,2) Cons by simp
  qed
  show ?thesis unfolding filled_elements_def
    using kept_trans [OF k1 k2 all] kind vals by blast
qed

lemma filled_elements_none:
  assumes l: "json_looparr i (p_state q) = Ret (False, st)" "terminated (p_state q)" "\<not> err_flag st"
  shows "filled_elements lo hi T i i a q (q\<lparr>p_state := st\<rparr>)"
proof -
  have kind: "\<exists>vs. v = JArr vs" if "i = 0" "stands q (tokens_of v @ rest)" for v rest
    using looparr_array [OF l(2) _ l(1) [unfolded that(1)], of v rest] that(2) l(3) by (simp add: stands_def)
  have "vs = [] \<and> ahead st = rest" if "stands q (array_at i vs rest)" "rest \<noteq> []" for vs rest
  proof (cases vs)
    case Nil
    then show ?thesis using looparr_done [OF l(2) _ that(2), of i] that(1) l(1) by (auto simp: stands_def)
  next
    case (Cons v ws)
    then show ?thesis using looparr_more [OF l(2), of i v ws rest] that(1) l(1) by (auto simp: stands_def)
  qed
  then have "stands (q\<lparr>p_state := st\<rparr>) rest \<and> i = i + length vs \<and> vs = []" if "stands q (array_at i vs rest)" "rest \<noteq> []" for vs rest
    using that l(3) by (fastforce simp: stands_def)
  then show ?thesis unfolding filled_elements_def using kind by fastforce
qed

lemma elements_step_fills:
  assumes "laid_out al tot" "notes_helper H" "notes_elements E" "fills_helper al tot H" "fills_elements al tot E"
  shows "fills_elements al tot (elements_step H E)"
  unfolding fills_elements_def
proof (intro allI impI)
  fix T i p k p' a q
  let ?s = "tsize (described T)"
  assume p: "noting p" and u: "usable T {}" and r: "elements_step H E T i None p = Ret (0, k, p')"
    and f: "filling al tot p q" and sz: "sized al tot (length (p_allocs p)) p'"
    and a: "a + k * ?s \<le> start_of al tot (length (p_allocs p))"
  from r obtain again st where l: "json_looparr i (p_state p) = Ret (again, st)" by (auto simp: elements_step_def obind_Ret)
  have w: "walked (p_state p) st" using looparr_walked [OF _ l] p by (simp add: noting_def)
  note n = noting_walk [OF p w]
  have q: "p_state q = p_state p" using f by (simp add: filling_def)
  have t: "terminated (p_state q)" "json_looparr i (p_state q) = Ret (again, st)" using p l by (simp_all add: noting_def q)
  have f0: "filling al tot (p\<lparr>p_state := st\<rparr>) (q\<lparr>p_state := st\<rparr>)" by (rule filling_walk [OF f])
  show "i \<le> k \<and> (\<exists>q'. elements_step H E T i (Some a) q = Ret (0, k, q') \<and> filling al tot p' q' \<and>
      filled_elements (end_of al tot p) (end_of al tot p') T i k a q q')"
  proof (cases again)
    case True
    obtain p1 where h: "H T {} None (p\<lparr>p_state := st\<rparr>) = Ret (0, p1)" "E T (Suc i) None p1 = Ret (0, k, p')"
      using r l True by (auto simp: elements_step_def obind_Ret Let_def split: if_splits)
    have n1: "noted (p\<lparr>p_state := st\<rparr>) p1" by (rule notes_helperD [OF assms(2) n(1) h(1)])
    then obtain new1 where new1: "p_allocs p1 = p_allocs p @ new1" using noted_allocs by fastforce
    obtain new2 where new2: "p_allocs p' = p_allocs p1 @ new2"
      using assms(3) noted_noting [OF n1] h(2) noted_allocs unfolding notes_elements_def by blast
    have sz1: "sized al tot (length (p_allocs p)) p1" by (rule sized_earlier [OF sz new2 order_refl])
    have sz2: "sized al tot (length (p_allocs p1)) p'" using sz new1 by (simp add: sized_def)
    have le: "end_of al tot p \<le> end_of al tot p1" "end_of al tot p1 \<le> end_of al tot p'"
      using new1 new2 by (simp_all add: start_mono [OF assms(1)])
    have a1: "a + k * ?s \<le> end_of al tot p1" using a le(1) by simp
    note E = assms(5) [unfolded fills_elements_def, rule_format, OF noted_noting [OF n1] u h(2) _ sz2 a1]
    have ik: "filling al tot p1 q1 \<Longrightarrow> Suc i \<le> k" for q1 using E by blast
    show ?thesis
    proof (cases "i < k")
      case i: True
      then have "Suc i * ?s \<le> k * ?s" by (intro mult_right_mono) simp_all
      then have "a + i * ?s + room T {} \<le> start_of al tot (length (p_allocs (p\<lparr>p_state := st\<rparr>)))"
        using a by (simp add: room_def)
      then obtain q1 where 1: "H T {} (Some (a + i * ?s)) (q\<lparr>p_state := st\<rparr>) = Ret (0, q1)" "filling al tot p1 q1"
          "filled (end_of al tot p) (end_of al tot p1) T {} (a + i * ?s) (q\<lparr>p_state := st\<rparr>) q1"
        using fills_helperD [OF assms(4) n(1) u h(1) f0] sz1 by auto
      obtain q2 where 2: "E T (Suc i) (Some a) q1 = Ret (0, k, q2)" "filling al tot p' q2"
          "filled_elements (end_of al tot p1) (end_of al tot p') T (Suc i) k a q1 q2" using E [OF 1(2)] by blast
      have "filled_elements (end_of al tot p) (end_of al tot p') T i k a q q2"
        by (rule filled_elements_next [OF 1(3) 2(3) _ t(1) i a le]) (use t(2) True in simp)
      then show ?thesis using l q True 1(1) 2(1,2) i by (simp add: elements_step_def Let_def)
    next
      case False
      \<comment> \<open>impossible: the loop counts upwards\<close>
      have "filling al tot p1 (q\<lparr>p_state := p_state p1, p_allocs_size := length (p_allocs p1), p_copy_strings := p_copy_strings p1\<rparr>)"
        using f by (simp add: filling_def)
      then show ?thesis using ik False by fastforce
    qed
  next
    case False
    have "k = i" "p' = p\<lparr>p_state := st\<rparr>" "\<not> err_flag st" using False r l by (auto simp: elements_step_def Let_def split: if_splits)
    moreover have "filled_elements (end_of al tot p) (end_of al tot p') T i i a q (q\<lparr>p_state := st\<rparr>)"
      by (rule filled_elements_none) (use t False calculation(3) in simp_all)
    ultimately show ?thesis using l q False f0 by (simp add: elements_step_def Let_def)
  qed
qed

text \<open>One member is parsed and its derived fields are set, and then the members behind it.\<close>

lemma member_for_split:
  assumes "\<forall>(k, v)\<in>set pre. find_field 0 fs k = None" "find_field 0 fs k = Some i"
  shows "member_for fs i' (pre @ (k, v) # post) = (if i' = i then Some v else member_for fs i' post)"
  using assms by (auto simp: member_for_append member_for_Cons)

lemma touched_split:
  assumes "\<forall>(k, v)\<in>set pre. find_field 0 fs k = None" "find_field 0 fs k = Some i"
  shows "touched fs b (pre @ (k, v) # post) = field_cells fs b i \<union> touched fs b post"
proof -
  have "{i'. member_for fs i' (pre @ (k, v) # post) \<noteq> None} = insert i {i'. member_for fs i' post \<noteq> None}"
    by (auto simp: member_for_split [OF assms])
  then show ?thesis by (auto simp: touched_def)
qed

lemma touched_apart:
  assumes "member_for (type_fields (described T)) i kvs = None" "\<not> derived (type_fields (described T) ! i)"
  shows "field_cells (type_fields (described T)) b i \<inter> touched (type_fields (described T)) b kvs = {}"
proof -
  let ?fs = "type_fields (described T)"
  have "field_cells ?fs b i \<inter> field_cells ?fs b i' = {}" if "member_for ?fs i' kvs \<noteq> None" for i'
    using that assms member_for_field [of ?fs i' kvs] by (intro field_cells_apart) auto
  then show ?thesis unfolding touched_def by blast
qed

lemma member_filled:
  assumes i: "i < length (type_fields (described T))" "\<not> derived (type_fields (described T) ! i)"
    and h: "filled lo mid (ftype (type_fields (described T) ! i)) (flags (type_fields (described T) ! i))
        (b + foffset (type_fields (described T) ! i)) (q\<lparr>p_state := st\<rparr>) q1"
    and d: "doderived (described T) i (Some b) q1 = Ret q2" "p_memory q1 \<noteq> None" and b: "b + tsize (described T) \<le> lo"
  shows "kept (field_cells (type_fields (described T)) b i \<union> {lo..<mid}) (mem_of q) (mem_of q2)"
    "stands (q\<lparr>p_state := st\<rparr>) (tokens_of v @ ts) \<Longrightarrow> ts \<noteq> [] \<Longrightarrow> distinct_keys v \<Longrightarrow>
     blank (field_cells (type_fields (described T)) b i \<union> {lo..<mid}) (mem_of q) \<Longrightarrow>
     stands q2 ts \<and> represents (mem_of q2) lo mid (ftype (type_fields (described T) ! i))
       (flags (type_fields (described T) ! i)) (b + foffset (type_fields (described T) ! i)) v \<and>
     derived_hold (type_fields (described T)) i b v (mem_of q2)"
proof -
  let ?fs = "type_fields (described T)"
  let ?f = "?fs ! i" and ?r = "field_range (?fs ! i) b" and ?d = "behind_cells (type_fields (described T)) b i"
  have cells: "field_cells ?fs b i = ?r \<union> ?d" by (rule field_cells_split [OF i(1)])
  have range: "{b + foffset ?f..<b + foffset ?f + room (ftype ?f) (flags ?f)} = ?r" by (simp add: field_range_def)
  have k1: "kept (?r \<union> {lo..<mid}) (mem_of q) (mem_of q1)" using filled_kept [OF h] unfolding range by simp
  have d2: "stored ?d q1 q2 \<and> (notes_value lo mid (ftype ?f) (flags ?f) v q1 \<longrightarrow> derived_hold ?fs i b v (mem_of q2))" for v
    by (rule doderived_holds [OF d i b])
  then have k2: "kept ?d (mem_of q1) (mem_of q2)" using storedD(1) by blast
  show "kept (field_cells ?fs b i \<union> {lo..<mid}) (mem_of q) (mem_of q2)" by (rule kept_trans [OF k1 k2]) (auto simp: cells)
  assume v: "stands (q\<lparr>p_state := st\<rparr>) (tokens_of v @ ts)" "ts \<noteq> []" "distinct_keys v"
    and bl: "blank (field_cells ?fs b i \<union> {lo..<mid}) (mem_of q)"
  have "blank (?r \<union> {lo..<mid}) (mem_of (q\<lparr>p_state := st\<rparr>))"
    unfolding mem_of_simps by (rule blank_mono [OF bl]) (auto simp: cells)
  then have 1: "stands q1 ts" "represents (mem_of q1) lo mid (ftype ?f) (flags ?f) (b + foffset ?f) v"
      "notes_value lo mid (ftype ?f) (flags ?f) v q1"
    using filled_value [OF h v] unfolding range by simp_all
  have "?d \<inter> {lo..<mid} = {}" using field_cells_inside [of T b i] b by (auto simp: cells)
  then have "represents (mem_of q2) lo mid (ftype ?f) (flags ?f) (b + foffset ?f) v"
    by (rule represents_kept [OF 1(2) k2]) (simp add: range behind_apart [OF i(1)])
  then show "stands q2 ts \<and> represents (mem_of q2) lo mid (ftype ?f) (flags ?f) (b + foffset ?f) v \<and>
      derived_hold ?fs i b v (mem_of q2)"
    using 1(1,3) d2 stands_stored [OF conjunct1 [OF d2]] by blast
qed

lemma filled_fields_next:
  assumes l: "loopfields n (type_fields (described T)) j (p_state q) = Ret (Some i, st)" "terminated (p_state q)"
    and i: "i < length (type_fields (described T))" "\<not> derived (type_fields (described T) ! i)"
    and h: "filled lo mid (ftype (type_fields (described T) ! i)) (flags (type_fields (described T) ! i))
        (b + foffset (type_fields (described T) ! i)) (q\<lparr>p_state := st\<rparr>) q1"
    and d: "doderived (described T) i (Some b) q1 = Ret q2" "p_memory q1 \<noteq> None"
    and e: "filled_fields mid hi T 1 b q2 q3"
    and b: "b + tsize (described T) \<le> lo" "lo \<le> mid" "mid \<le> hi"
  shows "filled_fields lo hi T j b q q3"
proof -
  let ?fs = "type_fields (described T)" and ?all = "{b..<b + tsize (described T)}"
  let ?f = "?fs ! i"
  have inside: "field_cells ?fs b i \<subseteq> ?all" by (rule field_cells_inside)
  note member = member_filled [OF i h d b(1)]
  note k12 = member(1)
  have k3: "kept (?all \<union> {mid..<hi}) (mem_of q2) (mem_of q3)" using e by (simp add: filled_fields_def)
  have kept: "kept (?all \<union> {lo..<hi}) (mem_of q) (mem_of q3)"
    by (rule kept_trans [OF k12 k3]) (use inside b in auto)
  have kind: "\<exists>kvs. v = JObj kvs" if "j = 0" "stands q (tokens_of v @ rest)" for v rest
    using loopfields_object [OF l(2) _ l(1) [unfolded that(1)], of v rest] that(2) by (simp add: stands_def)
  have vals: "stands q3 rest \<and> kept (touched ?fs b kvs \<union> {lo..<hi}) (mem_of q) (mem_of q3) \<and>
      members_hold (mem_of q3) lo hi ?fs b kvs"
    if st: "stands q (object_at j kvs rest)" and rest: "rest \<noteq> []" and dk: "distinct_keys (JObj kvs)"
      and bl: "blank (touched ?fs b kvs \<union> {lo..<hi}) (mem_of q)" for kvs rest
  proof -
    obtain pre key v post where kvs: "kvs = pre @ (key, v) # post" and
      pre: "\<forall>(k, v) \<in> set pre. find_field 0 ?fs k = None" "find_field 0 ?fs key = Some i"
      and a: "ahead st = tokens_of v @ object_tail post rest" "\<not> err_flag st"
      using loopfields_value [OF l(2) _ _ rest l(1), of kvs] st by (auto simp: stands_def)
    have dv: "distinct_keys v" "distinct_keys (JObj post)" and none: "member_for ?fs i post = None"
      using dk member_for_distinct [of key v post ?fs i] pre(2) by (auto simp: kvs)
    have touched: "touched ?fs b kvs = field_cells ?fs b i \<union> touched ?fs b post"
      unfolding kvs by (rule touched_split [OF pre])
    have apart: "field_cells ?fs b i \<inter> touched ?fs b post = {}" by (rule touched_apart [OF none i(2)])
    have post_in: "touched ?fs b post \<subseteq> ?all" by (rule touched_inside)
    \<comment> \<open>the member\<close>
    have "stands (q\<lparr>p_state := st\<rparr>) (tokens_of v @ object_tail post rest)" using a by (simp add: stands_def)
    moreover have "blank (field_cells ?fs b i \<union> {lo..<mid}) (mem_of q)"
      by (rule blank_mono [OF bl]) (use b(3) in \<open>auto simp: touched\<close>)
    ultimately have 1: "stands q2 (object_tail post rest)"
        "represents (mem_of q2) lo mid (ftype ?f) (flags ?f) (b + foffset ?f) v" "derived_hold ?fs i b v (mem_of q2)"
      using member(2) [OF _ _ dv(1)] by simp_all
    \<comment> \<open>the members behind it\<close>
    have "stands q2 (object_at 1 post rest)" using 1(1) by (simp add: object_at_def)
    moreover have "blank (touched ?fs b post \<union> {mid..<hi}) (mem_of q2)"
    proof (rule kept_blank [OF k12])
      show "(field_cells ?fs b i \<union> {lo..<mid}) \<inter> (touched ?fs b post \<union> {mid..<hi}) = {}"
        using apart inside post_in b by fastforce
      show "blank (touched ?fs b post \<union> {mid..<hi}) (mem_of q)" by (rule blank_mono [OF bl]) (use b(2) in \<open>auto simp: touched\<close>)
    qed
    ultimately have 3: "stands q3 rest" "kept (touched ?fs b post \<union> {mid..<hi}) (mem_of q2) (mem_of q3)"
        "members_hold (mem_of q3) mid hi ?fs b post"
      using e rest dv(2) unfolding filled_fields_def by blast+
    have away: "(touched ?fs b post \<union> {mid..<hi}) \<inter> {lo..<mid} = {}" "(touched ?fs b post \<union> {mid..<hi}) \<inter> field_cells ?fs b i = {}"
      using apart inside post_in b by fastforce+
    have "represents (mem_of q3) lo mid (ftype ?f) (flags ?f) (b + foffset ?f) v"
      by (rule represents_kept [OF 1(2) 3(2) away(1)]) (use away(2) field_cells_self [OF i(1), of b] in \<open>auto simp: field_range_def\<close>)
    then have r3: "represents (mem_of q3) lo hi (ftype ?f) (flags ?f) (b + foffset ?f) v" using represents_mono b(3) by blast
    have h3: "derived_hold ?fs i b v (mem_of q3)"
      by (rule derived_hold_kept [OF 1(3) 3(2)]) (use away(2) in auto)
    have "members_hold (mem_of q3) lo hi ?fs b kvs"
      using r3 h3 3(3) represents_mono [OF _ b(2) order_refl]
      unfolding members_hold_def kvs member_for_split [OF pre] by auto
    moreover have "kept (touched ?fs b kvs \<union> {lo..<hi}) (mem_of q) (mem_of q3)"
      by (rule kept_trans [OF k12 3(2)]) (use b in \<open>auto simp: touched\<close>)
    ultimately show ?thesis using 3(1) by blast
  qed
  show ?thesis unfolding filled_fields_def using kept kind vals by blast
qed

lemma filled_fields_none:
  assumes l: "loopfields n (type_fields (described T)) j (p_state q) = Ret (None, st)" "terminated (p_state q)" "\<not> err_flag st"
  shows "filled_fields lo hi T j b q (q\<lparr>p_state := st\<rparr>)"
proof -
  let ?fs = "type_fields (described T)"
  have kind: "\<exists>kvs. v = JObj kvs" if "j = 0" "stands q (tokens_of v @ rest)" for v rest
    using loopfields_object [OF l(2) _ l(1) [unfolded that(1)], of v rest] that(2) l(3) by (simp add: stands_def)
  have "stands (q\<lparr>p_state := st\<rparr>) rest \<and> members_hold (mem_of q) lo hi ?fs b kvs"
    if "stands q (object_at j kvs rest)" "rest \<noteq> []" for kvs rest
  proof -
    have v: "\<forall>(k, v) \<in> set kvs. find_field 0 ?fs k = None" "ahead st = rest"
      using loopfields_value [OF l(2) _ _ that(2) l(1), of kvs] that(1) by (auto simp: stands_def)
    have "member_for ?fs i kvs = None" for i using member_for_append [OF v(1), of i "[]"] by simp
    then show ?thesis using v(2) l(3) by (simp add: members_hold_def stands_def)
  qed
  then show ?thesis unfolding filled_fields_def using kind by simp
qed

lemma fields_step_fills:
  assumes "laid_out al tot" "notes_helper H" "notes_fields F" "fills_helper al tot H" "fills_fields al tot F"
  shows "fills_fields al tot (fields_step n H F)"
  unfolding fills_fields_def
proof (intro allI impI)
  fix T j b and p p' q :: parse_state
  let ?type = "described T" and ?lo = "start_of al tot (length (p_allocs p))"
  assume p: "noting p" and r: "fields_step n H F ?type j None p = Ret (0, p')" and f: "filling al tot p q"
    and sz: "sized al tot (length (p_allocs p)) p'" and b: "b + tsize ?type \<le> ?lo"
  have t: "terminated (p_state p)" using p by (simp add: noting_def)
  from r obtain field st where l: "loopfields n (type_fields ?type) j (p_state p) = Ret (field, st)"
    by (auto simp: fields_step_def obind_Ret)
  note w = loopfields_walked [OF t l]
  note nt = noting_walk [OF p conjunct1 [OF w]]
  have q: "p_state q = p_state p" using f by (simp add: filling_def)
  have tq: "terminated (p_state q)" "loopfields n (type_fields ?type) j (p_state q) = Ret (field, st)" using t l by (simp_all add: q)
  have f0: "filling al tot (p\<lparr>p_state := st\<rparr>) (q\<lparr>p_state := st\<rparr>)" by (rule filling_walk [OF f])
  show "\<exists>q'. fields_step n H F ?type j (Some b) q = Ret (0, q') \<and> filling al tot p' q' \<and>
      filled_fields ?lo (end_of al tot p') T j b q q'"
  proof (cases field)
    case None
    have p': "p' = p\<lparr>p_state := st\<rparr>" "\<not> err_flag st" using None r l by (auto simp: fields_step_def Let_def split: if_splits)
    have "filled_fields ?lo (end_of al tot p') T j b q (q\<lparr>p_state := st\<rparr>)"
      by (rule filled_fields_none) (use tq None p'(2) in simp_all)
    then show ?thesis using l q None f0 p' by (simp add: fields_step_def Let_def)
  next
    case (Some i)
    let ?f = "type_fields ?type ! i"
    have i: "i < length (type_fields ?type)" "\<not> derived ?f" using w Some by auto
    then have u: "usable (ftype ?f) (flags ?f)"
      using table_fields_ok [of T] by (auto simp: list_all_length field_ok_def)
    obtain p1 where h: "H (ftype ?f) (flags ?f) None (p\<lparr>p_state := st\<rparr>) = Ret (0, p1)" "F ?type 1 None p1 = Ret (0, p')"
      using r l Some by (auto simp: fields_step_def obind_Ret Let_def split: if_splits)
    have n1: "noted (p\<lparr>p_state := st\<rparr>) p1" by (rule notes_helperD [OF assms(2) nt(1) h(1)])
    then obtain new1 where new1: "p_allocs p1 = p_allocs p @ new1" using noted_allocs by fastforce
    obtain new2 where new2: "p_allocs p' = p_allocs p1 @ new2"
      using assms(3) noted_noting [OF n1] h(2) noted_allocs unfolding notes_fields_def by blast
    have sz1: "sized al tot (length (p_allocs (p\<lparr>p_state := st\<rparr>))) p1" using sized_earlier [OF sz new2 order_refl] by simp
    have sz2: "sized al tot (length (p_allocs p1)) p'" using sz new1 by (simp add: sized_def)
    have "b + foffset ?f + room (ftype ?f) (flags ?f) \<le> start_of al tot (length (p_allocs (p\<lparr>p_state := st\<rparr>)))"
      using field_inside [OF nth_mem [OF i(1)]] b by simp
    from fills_helperD [OF assms(4) nt(1) u h(1) f0 sz1 this] obtain q1 where
      1: "H (ftype ?f) (flags ?f) (Some (b + foffset ?f)) (q\<lparr>p_state := st\<rparr>) = Ret (0, q1)" "filling al tot p1 q1" "enum_ok ?lo q1"
        "filled ?lo (end_of al tot p1) (ftype ?f) (flags ?f) (b + foffset ?f) (q\<lparr>p_state := st\<rparr>) q1"
      by auto
    obtain q2 where 2: "doderived ?type i (Some b) q1 = Ret q2" "filling al tot p1 q2"
      using doderived_fills [OF 1(2,3) start_total [OF assms(1)] i(1) b] by blast
    have le: "?lo \<le> end_of al tot p1" "end_of al tot p1 \<le> end_of al tot p'"
      using new1 new2 by (simp_all add: start_mono [OF assms(1)])
    then have "b + tsize ?type \<le> end_of al tot p1" using b by simp
    then obtain q3 where 3: "F ?type 1 (Some b) q2 = Ret (0, q3)" "filling al tot p' q3"
        "filled_fields (end_of al tot p1) (end_of al tot p') T 1 b q2 q3"
      using assms(5) noted_noting [OF n1] h(2) 2(2) sz2 unfolding fills_fields_def by blast
    have mem: "p_memory q1 \<noteq> None" using 1(2) by (auto simp: filling_def)
    have "filled_fields ?lo (end_of al tot p') T j b q q3"
      by (rule filled_fields_next [OF _ tq(1) i 1(4) 2(1) mem 3(3) b le]) (use tq(2) Some in simp)
    then show ?thesis using l q Some 1(1) 2(1) 3(1,2) by (simp add: fields_step_def Let_def)
  qed
qed

lemma second_pass_fills:
  assumes "laid_out al tot"
  shows "fills_helper al tot (parse_helper n) \<and> fills_elements al tot (parse_elements n) \<and> fills_fields al tot (parse_fields n)"
proof (induction n)
  case 0
  then show ?case by (simp add: fills_helper_def fills_elements_def fills_fields_def)
next
  case (Suc n)
  then show ?case
    unfolding parse_Suc
    using helper_step_fills [OF assms] elements_step_fills [OF assms] fields_step_fills [OF assms] first_pass_notes [of n]
    by blast
qed

end
