(* ===== verification/I3_Accept.thy ===== *)
theory I3_Accept
  imports I3_Values
begin

text \<open>
  \<open>i3ipc.h\<close>, which values the parser accepts for which types: \<open>shaped\<close>, independently of any memory.
  A first pass over the tokens of such a value succeeds, and only such values are represented.
\<close>

section \<open>Values of the shape of a type\<close>

inductive shaped :: "type_id \<Rightarrow> type_flags \<Rightarrow> json \<Rightarrow> bool" where
  null: "fg \<inter> GROUP_MAYBE \<noteq> {} \<Longrightarrow> shaped T fg JNull"
| present: "fg \<inter> GROUP_MAYBE \<noteq> {} \<Longrightarrow> v \<noteq> JNull \<Longrightarrow> shaped T (fg - GROUP_MAYBE) v \<Longrightarrow> shaped T fg v"
| chars: "fg \<inter> GROUP_MAYBE = {} \<Longrightarrow> is_string_type T fg \<Longrightarrow> shaped T fg (JString s)"
| array: "fg \<inter> GROUP_MAYBE = {} \<Longrightarrow> ISARRAY \<in> fg \<Longrightarrow> T \<noteq> I3IPC_TYPE_CHAR \<Longrightarrow> (\<forall>v\<in>set vs. shaped T {} v) \<Longrightarrow>
    shaped T fg (JArr vs)"
| inlined: "is_inline (described T) \<Longrightarrow> T \<noteq> I3IPC_TYPE_STRING \<Longrightarrow> f = type_fields (described T) ! 0 \<Longrightarrow>
    shaped (ftype f) (flags f) v \<Longrightarrow> shaped T {} v"
| bool: "shaped I3IPC_TYPE_BOOL {} (JBool x)"
| number: "T \<in> {I3IPC_TYPE_INT, I3IPC_TYPE_SIZET, I3IPC_TYPE_FLOAT} \<Longrightarrow> shaped T {} (JNumber i)"
| object: "T \<noteq> I3IPC_TYPE_STRING \<Longrightarrow> \<not> is_inline (described T) \<Longrightarrow> \<not> is_primitive (described T) \<Longrightarrow>
    (\<forall>(k, v)\<in>set kvs. \<forall>i. find_field 0 (type_fields (described T)) k = Some i \<longrightarrow>
      shaped (ftype (type_fields (described T) ! i)) (flags (type_fields (described T) ! i)) v) \<Longrightarrow>
    shaped T {} (JObj kvs)"

text \<open>Only values of the shape of the type are represented.\<close>

lemma usable_pointed: "usable T fg \<Longrightarrow> ISPTR \<in> fg \<Longrightarrow> fg - GROUP_MAYBE = {} \<and> usable T {}"
  by (auto simp: usable_def)

lemma usable_element: "usable T fg \<Longrightarrow> T \<noteq> I3IPC_TYPE_CHAR \<Longrightarrow> usable T {}"
  by (auto simp: usable_def)

lemma usable_field: "i < length (type_fields (described T)) \<Longrightarrow> \<not> derived (type_fields (described T) ! i) \<Longrightarrow>
  usable (ftype (type_fields (described T) ! i)) (flags (type_fields (described T) ! i))"
  using table_fields_ok [of T] by (auto simp: list_all_length field_ok_def)

lemma represents_shaped:
  "represents m lo hi T fg b v \<Longrightarrow> usable T fg \<Longrightarrow> distinct_keys v \<Longrightarrow> shaped T fg v"
proof (induction rule: represents.induct)
  case (pointer fg v b a T)
  then have e: "fg - GROUP_MAYBE = {}" "usable T {}" using usable_pointed by blast+
  then have "shaped T (fg - GROUP_MAYBE) v" unfolding e(1) using pointer.IH pointer.prems(2) by blast
  moreover have "fg \<inter> GROUP_MAYBE \<noteq> {}" using pointer.hyps(1) by (auto simp: GROUP_MAYBE_def)
  ultimately show ?case using pointer.hyps(2) by (simp add: shaped.present)
next
  case (optional fg v T b)
  then have "shaped T (fg - GROUP_MAYBE) v" using usable_strip by blast
  moreover have "fg \<inter> GROUP_MAYBE \<noteq> {}" using optional.hyps(2) by (auto simp: GROUP_MAYBE_def)
  ultimately show ?case using optional.hyps(3) by (simp add: shaped.present)
next
  case (array fg T b a vs)
  then have "\<forall>i<length vs. shaped T {} (vs ! i)" using usable_element by (auto simp: list_all_length)
  then have "\<forall>v\<in>set vs. shaped T {} v" by (metis in_set_conv_nth)
  then show ?case by (rule shaped.array [OF array.hyps(1-3)])
next
  case (inlined T f b v)
  obtain g fs where "type_fields (described T) = g # fs" "usable (ftype g) (flags g)" using table_inline [OF inlined.hyps(1)] by blast
  then have "shaped (ftype f) (flags f) v" using inlined by simp
  then show ?case by (rule shaped.inlined [OF inlined.hyps(1-3)])
next
  case (object T kvs b)
  let ?fs = "type_fields (described T)"
  have "shaped (ftype (?fs ! i)) (flags (?fs ! i)) w" if kw: "(k, w) \<in> set kvs" "find_field 0 ?fs k = Some i" for k w i
  proof -
    have i: "i < length ?fs" "\<not> derived (?fs ! i)" using find_field_index [OF kw(2)] by simp_all
    obtain pre post where kvs: "kvs = pre @ (k, w) # post" using split_list [OF kw(1)] by blast
    have "find_field 0 ?fs k' \<noteq> Some i" if "(k', w') \<in> set pre" for k' w'
    proof
      assume "find_field 0 ?fs k' = Some i"
      then have "cstr k' = cstr k" using find_field_name [of 0 ?fs k' i] find_field_name [of 0 ?fs k i] kw(2) by auto
      then show False using object.prems(2) that unfolding kvs by force
    qed
    then have "find (\<lambda>(k, v). find_field 0 ?fs k = Some i) pre = None" by (auto simp: find_None_iff)
    then have "member_for ?fs i kvs = Some w" unfolding kvs member_for_def
      by (induction pre) (auto simp: kw(2) split: if_splits)
    moreover have "distinct_keys w" using object.prems(2) kw(1) by (auto simp: list_all_iff)
    ultimately show ?thesis using object.IH i usable_field [OF i] by blast
  qed
  then show ?case by (intro shaped.object [OF object.hyps(1-3)]) blast
qed (simp_all add: shaped.null shaped.chars shaped.bool shaped.number is_string_type_def)

section \<open>The first pass accepts them\<close>

lemma match_hit:
  assumes "terminated st" "ahead st = t # r" "r \<noteq> []" "json_match (tok_type t) st = Ret (code, tok, st')"
  shows "code = 0 \<and> ahead st' = r \<and> err_flag st' = err_flag st"
  using match_ahead(1) [OF assms(1-3), of "[tok_type t]"] assms(2,4) by (auto simp: json_match_def)

text \<open>What stands in front of the parser, and a pass over the value in front of it.\<close>

definition before :: "parse_state \<Rightarrow> json_token list \<Rightarrow> bool" where
  "before p ts \<longleftrightarrow> noting p \<and> \<not> err_flag (p_state p) \<and> ahead (p_state p) = ts"

definition accepts_helper :: "helper \<Rightarrow> bool" where
  "accepts_helper H \<longleftrightarrow> (\<forall>T fg p code p' v rest. before p (tokens_of v @ rest) \<longrightarrow> rest \<noteq> [] \<longrightarrow> usable T fg \<longrightarrow> shaped T fg v \<longrightarrow>
     H T fg None p = Ret (code, p') \<longrightarrow> code = 0 \<and> before p' rest)"

definition accepts_elements :: "elements_loop \<Rightarrow> bool" where
  "accepts_elements E \<longleftrightarrow> (\<forall>T i p code k p' vs rest. before p (array_at i vs rest) \<longrightarrow> rest \<noteq> [] \<longrightarrow> usable T {} \<longrightarrow>
     (\<forall>v\<in>set vs. shaped T {} v) \<longrightarrow> E T i None p = Ret (code, k, p') \<longrightarrow> code = 0 \<and> before p' rest)"

definition accepts_fields :: "fields_loop \<Rightarrow> bool" where
  "accepts_fields F \<longleftrightarrow> (\<forall>T j p code p' kvs rest. before p (object_at j kvs rest) \<longrightarrow> rest \<noteq> [] \<longrightarrow>
     (\<forall>(k, v)\<in>set kvs. \<forall>i. find_field 0 (type_fields (described T)) k = Some i \<longrightarrow>
        shaped (ftype (type_fields (described T) ! i)) (flags (type_fields (described T) ! i)) v) \<longrightarrow>
     F (described T) j None p = Ret (code, p') \<longrightarrow> code = 0 \<and> before p' rest)"

lemma accepts_helperD:
  "accepts_helper H \<Longrightarrow> before p (tokens_of v @ rest) \<Longrightarrow> rest \<noteq> [] \<Longrightarrow> usable T fg \<Longrightarrow> shaped T fg v \<Longrightarrow>
     H T fg None p = Ret (code, p') \<Longrightarrow> code = 0 \<and> before p' rest"
  unfolding accepts_helper_def by blast

lemma before_walk: "before p ts \<Longrightarrow> walked (p_state p) st \<Longrightarrow> \<not> err_flag st \<Longrightarrow> ahead st = ts' \<Longrightarrow> before (p\<lparr>p_state := st\<rparr>) ts'"
  using noting_walk(1) by (simp add: before_def)

lemma before_alloc: "before p ts \<Longrightarrow> parse_alloc sz al p = Ret (a, p') \<Longrightarrow> al \<in> {1, 4, 8} \<Longrightarrow> a = None \<and> before p' ts"
  using noting_alloc [of p sz al a p'] noted_noting [of p p'] by (auto simp: before_def)

lemma before_simps [simp]:
  "before (p\<lparr>p_next_set := x, p_next_enum := e\<rparr>) ts = before p ts" "before (p\<lparr>p_next_size := n\<rparr>) ts = before p ts"
  "before (p\<lparr>p_next_set := x\<rparr>) ts = before p ts"
  by (simp_all add: before_def noting_def)

lemma before_match:
  assumes "before p (t # rest)" "rest \<noteq> []" "tok_type t \<noteq> 0" "json_match (tok_type t) (p_state p) = Ret (c, tok, st)"
  shows "c = 0 \<and> before (p\<lparr>p_state := st\<rparr>) rest"
proof -
  have t: "terminated (p_state p)" "ahead (p_state p) = t # rest" "\<not> err_flag (p_state p)"
    using assms(1) by (simp_all add: before_def noting_def)
  have h: "c = 0" "ahead st = rest" "err_flag st = err_flag (p_state p)"
    using match_hit [OF t(1,2) assms(2,4)] by simp_all
  have "before (p\<lparr>p_state := st\<rparr>) rest"
    by (rule before_walk [OF assms(1) match_walked [OF t(1) assms(3,4)]]) (use h t(3) in simp_all)
  then show ?thesis using h(1) by simp
qed

lemma parse_string_accepts:
  assumes "before p (string_token s # rest)" "rest \<noteq> []" "parse_string T type None p = Ret (code, p')"
  shows "code = 0 \<and> before p' rest"
proof -
  obtain c tok st where m: "json_match I3IPC_JSON_STRING (p_state p) = Ret (c, tok, st)"
    using assms(3) by (auto simp: parse_string_def obind_Ret)
  have b: "c = 0 \<and> before (p\<lparr>p_state := st\<rparr>) rest"
    by (rule before_match [OF assms(1,2)]) (use m in \<open>simp_all add: i3codes\<close>)
  obtain a p1 where a: "parse_alloc (nat (str_size tok) + 1) 1 (p\<lparr>p_state := st\<rparr>) = Ret (a, p1)"
    using first_alloc b unfolding before_def by blast
  have "before p1 rest" using before_alloc [OF conjunct2 [OF b] a] by simp
  then show ?thesis
    using assms(3) m b a by (auto simp: parse_string_def Let_def finish_def split: if_splits)
qed

lemma parse_primitive_accepts:
  assumes "before p (t # rest)" "rest \<noteq> []" "parse_primitive T None p = Ret (code, p')"
    and "tok_type t = (if T = I3IPC_TYPE_BOOL then I3IPC_JSON_BOOL else I3IPC_JSON_NUMBER)"
  shows "code = 0 \<and> before p' rest"
proof -
  obtain c tok st where m: "json_match (tok_type t) (p_state p) = Ret (c, tok, st)"
    using assms(3) unfolding assms(4) by (auto simp: parse_primitive_def obind_Ret)
  have "c = 0 \<and> before (p\<lparr>p_state := st\<rparr>) rest"
    by (rule before_match [OF assms(1,2) _ m]) (simp add: assms(4) i3codes)
  then show ?thesis using assms(3) m by (auto simp: parse_primitive_def assms(4) [symmetric] Let_def finish_def)
qed

lemma parse_maybe_accepts:
  assumes H: "accepts_helper H" and b: "before p (tokens_of v @ rest)" "rest \<noteq> []" and u: "usable T fg"
    and v: "v = JNull \<or> shaped T (fg - GROUP_MAYBE) v"
    and r: "parse_maybe H (described U) T fg None p = Ret (code, p')"
  shows "code = 0 \<and> before p' rest"
proof -
  obtain ok tok st where m: "json_trymatch I3IPC_JSON_NULL (p_state p) = Ret (ok, tok, st)"
    using r by (auto simp: parse_maybe_def obind_Ret)
  have t: "terminated (p_state p)" "ahead (p_state p) = tokens_of v @ rest" "\<not> err_flag (p_state p)"
    using b(1) by (simp_all add: before_def noting_def)
  have n: "ok \<longleftrightarrow> v = JNull" "\<not> err_flag st" "if ok then ahead st = rest else st = p_state p"
    using trymatch_null [OF t(1,2) m] t(3) by auto
  have w: "walked (p_state p) st" using m t(1) by (intro trymatch_walked) (simp_all add: i3codes)
  show ?thesis
  proof (cases ok)
    case True
    then have "before (p\<lparr>p_state := st\<rparr>) rest" using n by (intro before_walk [OF b(1) w]) simp_all
    then show ?thesis using r m True by (auto simp: parse_maybe_def obind_Ret Let_def finish_def)
  next
    case False
    then have b0: "before (p\<lparr>p_state := st\<rparr>) (tokens_of v @ rest)" using n t(2) by (intro before_walk [OF b(1) w]) simp_all
    have s: "shaped T (fg - GROUP_MAYBE) v" using v n(1) False by blast
    note h = accepts_helperD [OF H _ b(2) usable_strip [OF u] s]
    obtain p1 where a: "parse_alloc (tsize (described U)) (alignment (described U)) (p\<lparr>p_state := st\<rparr>) = Ret (None, p1)"
      using first_alloc b0 unfolding before_def by blast
    have b1: "before p1 (tokens_of v @ rest)" using before_alloc [OF b0 a alignment_cases] by simp
    let ?q = "if ISPTR \<in> fg then p1 else p\<lparr>p_state := st\<rparr>"
    obtain c p2 where p2: "H T (fg - GROUP_MAYBE) None ?q = Ret (c, p2)"
      and e: "(if c \<noteq> 0 then Ret (6, p2) else finish True (p_next_enum p2) p2) = Ret (code, p')"
      using r m False a by (cases "ISPTR \<in> fg") (auto simp: parse_maybe_def obind_Ret Let_def store_if_def)
    have "before ?q (tokens_of v @ rest)" using b0 b1 by simp
    then have "c = 0 \<and> before p2 rest" by (rule h [OF _ p2])
    then show ?thesis using e by (auto simp: finish_def)
  qed
qed

lemma parse_array_accepts:
  assumes E: "accepts_elements E" and b: "before p (tokens_of (JArr vs) @ rest)" "rest \<noteq> []" and u: "usable T {}"
    and v: "\<forall>v\<in>set vs. shaped T {} v" and r: "parse_array E (described U) T None p = Ret (code, p')"
  shows "code = 0 \<and> before p' rest"
proof -
  obtain p1 where a: "parse_alloc unknown_size (alignment (described U)) p = Ret (None, p1)"
    using first_alloc b(1) unfolding before_def by blast
  have b1: "before p1 (array_at 0 vs rest)" using before_alloc [OF b(1) a alignment_cases] by (simp only: array_at_first)
  obtain c k p3 where e: "E T 0 None p1 = Ret (c, k, p3)"
    and f: "(if c \<noteq> 0 then Ret (c, p3)
       else finish True Null ((set_block_size (p_allocs_size p) (k * tsize (described U)) None p3)\<lparr>p_next_size := int k\<rparr>)) = Ret (code, p')"
    using r a by (auto simp: parse_array_def obind_Ret store_if_def)
  have "c = 0 \<and> before p3 rest" using E b1 b(2) u v e unfolding accepts_elements_def by blast
  then show ?thesis using f by (auto simp: finish_def set_block_size_def before_def noting_def)
qed

lemma parse_inline_accepts:
  assumes H: "accepts_helper H" and b: "before p (tokens_of v @ rest)" "rest \<noteq> []" and i: "is_inline (described T)"
    and v: "shaped (ftype (type_fields (described T) ! 0)) (flags (type_fields (described T) ! 0)) v"
    and r: "parse_inline H (described T) None p = Ret (code, p')"
  shows "code = 0 \<and> before p' rest"
proof -
  obtain f fs where f: "type_fields (described T) = f # fs" "usable (ftype f) (flags f)" using table_inline [OF i] by blast
  obtain c p1 where h: "H (ftype f) (flags f) None p = Ret (c, p1)"
    and e: "(if c \<noteq> 0 then Ret (17, p1) else finish True Null p1) = Ret (code, p')"
    using r f(1) by (auto simp: parse_inline_def assert_then_Ret obind_Ret Let_def doderived_def split: if_splits)
  have "c = 0 \<and> before p1 rest" using accepts_helperD [OF H b f(2) _ h] v f(1) by simp
  then show ?thesis using e by (auto simp: finish_def)
qed

lemma shaped_plain:
  assumes "shaped T {} v" "\<not> is_string_type T {}" "\<not> is_inline (described T)" "usable T {}"
  shows "if is_primitive (described T)
    then \<exists>t. tokens_of v = [t] \<and> tok_type t = (if T = I3IPC_TYPE_BOOL then I3IPC_JSON_BOOL else I3IPC_JSON_NUMBER)
    else \<exists>kvs. v = JObj kvs \<and> (\<forall>(k, v)\<in>set kvs. \<forall>i. find_field 0 (type_fields (described T)) k = Some i \<longrightarrow>
      shaped (ftype (type_fields (described T) ! i)) (flags (type_fields (described T) ! i)) v)"
  using assms(1)
proof (cases rule: shaped.cases)
  case (bool x)
  then show ?thesis by (simp add: described_def primitive_types_def)
next
  case (number i)
  then show ?thesis by (auto simp: described_def primitive_types_def)
qed (use assms in auto)

lemma plain_types:
  "\<not> is_inline (described I3IPC_TYPE_BOOL)" "T \<in> {I3IPC_TYPE_INT, I3IPC_TYPE_SIZET, I3IPC_TYPE_FLOAT} \<Longrightarrow> \<not> is_inline (described T)"
  by (auto simp: described_def)

lemma shaped_unmarked:
  assumes "shaped T fg v" "fg \<inter> GROUP_MAYBE = {}"
  shows "is_string_type T fg \<Longrightarrow> \<exists>s. v = JString s"
    "ISARRAY \<in> fg \<Longrightarrow> \<not> is_string_type T fg \<Longrightarrow> \<exists>vs. v = JArr vs \<and> (\<forall>v\<in>set vs. shaped T {} v)"
    "is_inline (described T) \<Longrightarrow> \<not> is_string_type T fg \<Longrightarrow> ISARRAY \<notin> fg \<Longrightarrow>
       shaped (ftype (type_fields (described T) ! 0)) (flags (type_fields (described T) ! 0)) v"
  subgoal by (cases rule: shaped.cases [OF assms(1)]) (use assms(2) in \<open>auto simp: is_string_type_def\<close>)
  subgoal by (cases rule: shaped.cases [OF assms(1)]) (use assms(2) in \<open>auto simp: is_string_type_def\<close>)
  subgoal by (cases rule: shaped.cases [OF assms(1)]) (use assms(2) plain_types in \<open>auto simp: is_string_type_def\<close>)
  done

lemma helper_step_accepts:
  assumes "accepts_helper H" "accepts_elements E" "accepts_fields F"
  shows "accepts_helper (helper_step H E F)"
  unfolding accepts_helper_def
proof (intro allI impI)
  fix T fg and p p' :: parse_state and code v rest
  assume b: "before p (tokens_of v @ rest)" "rest \<noteq> []" and u: "usable T fg" and v: "shaped T fg v"
    and r: "helper_step H E F T fg None p = Ret (code, p')"
  have ev: "T \<noteq> I3IPC_TYPE_EVENT" using u by (simp add: usable_def)
  consider (maybe) "fg \<inter> GROUP_MAYBE \<noteq> {}"
    | (string) "fg \<inter> GROUP_MAYBE = {}" "is_string_type T fg"
    | (array) "fg \<inter> GROUP_MAYBE = {}" "\<not> is_string_type T fg" "ISARRAY \<in> fg"
    | (inline) "fg \<inter> GROUP_MAYBE = {}" "\<not> is_string_type T fg" "ISARRAY \<notin> fg" "is_inline (described T)"
    | (plain) "fg = {}" "\<not> is_string_type T fg" "\<not> is_inline (described T)"
    using u unfolding usable_def by blast
  then show "code = 0 \<and> before p' rest"
  proof cases
    case maybe
    have "v = JNull \<or> shaped T (fg - GROUP_MAYBE) v" using maybe by (cases rule: shaped.cases [OF v]) auto
    then show ?thesis using parse_maybe_accepts [OF assms(1) b u] maybe r ev by (simp add: helper_step_def)
  next
    case string
    then obtain s where "v = JString s" using shaped_unmarked(1) [OF v] by blast
    then show ?thesis using parse_string_accepts [OF _ b(2)] b(1) string r ev by (simp add: helper_step_def)
  next
    case array
    then obtain vs where vs: "v = JArr vs" "\<forall>v\<in>set vs. shaped T {} v" using shaped_unmarked(2) [OF v] by blast
    have "usable T {}" using array u by (auto simp: usable_def is_string_type_def)
    then show ?thesis
      using parse_array_accepts [OF assms(2) _ b(2) _ vs(2)] b(1) vs(1) array r ev by (simp add: helper_step_def)
  next
    case inline
    then show ?thesis
      using parse_inline_accepts [OF assms(1) b inline(4) shaped_unmarked(3) [OF v]] r ev by (simp add: helper_step_def)
  next
    case plain
    note s = shaped_plain [of T v] v u plain
    show ?thesis
    proof (cases "is_primitive (described T)")
      case True
      then obtain t where "tokens_of v = [t]" "tok_type t = (if T = I3IPC_TYPE_BOOL then I3IPC_JSON_BOOL else I3IPC_JSON_NUMBER)"
        using s by auto
      then show ?thesis using parse_primitive_accepts [of p t rest T code p'] b True plain r ev by (simp add: helper_step_def)
    next
      case False
      then obtain kvs where kvs: "v = JObj kvs" and m: "\<forall>(k, v)\<in>set kvs. \<forall>i. find_field 0 (type_fields (described T)) k = Some i \<longrightarrow>
          shaped (ftype (type_fields (described T) ! i)) (flags (type_fields (described T) ! i)) v" using s by auto
      have "parse_object F (described T) None p = Ret (code, p')" using plain False r ev by (simp add: helper_step_def)
      then obtain c p1 where f: "F (described T) 0 None p = Ret (c, p1)"
        and e: "(if c \<noteq> 0 then Ret (c, p1) else finish True Null p1) = Ret (code, p')"
        by (auto simp: parse_object_def obind_Ret)
      have "before p (object_at 0 kvs rest)" using b(1) unfolding kvs object_at_first .
      then have "c = 0 \<and> before p1 rest" using assms(3) b(2) m f unfolding accepts_fields_def by blast
      then show ?thesis using e by (auto simp: finish_def)
    qed
  qed
qed

lemma elements_step_accepts:
  assumes "accepts_helper H" "accepts_elements E"
  shows "accepts_elements (elements_step H E)"
  unfolding accepts_elements_def
proof (intro allI impI)
  fix T i k and p p' :: parse_state and code vs rest
  assume b: "before p (array_at i vs rest)" "rest \<noteq> []" and u: "usable T {}" and v: "\<forall>v\<in>set vs. shaped T {} v"
    and r: "elements_step H E T i None p = Ret (code, k, p')"
  have t: "terminated (p_state p)" "ahead (p_state p) = array_at i vs rest" "\<not> err_flag (p_state p)"
    using b(1) by (simp_all add: before_def noting_def)
  show "code = 0 \<and> before p' rest"
  proof (cases vs)
    case Nil
    obtain n where l: "json_looparr i (p_state p) = Ret (False, adv n (p_state p))" "ahead (adv n (p_state p)) = rest"
      using looparr_done [OF t(1) _ b(2)] t(2) Nil by blast
    have "before (p\<lparr>p_state := adv n (p_state p)\<rparr>) rest"
      using looparr_walked [OF t(1) l(1)] t(3) l(2) by (intro before_walk [OF b(1)]) simp_all
    then show ?thesis using r l(1) t(3) by (auto simp: elements_step_def Let_def)
  next
    case (Cons w ws)
    have l: "json_looparr i (p_state p) = Ret (True, adv 1 (p_state p))"
      "ahead (adv 1 (p_state p)) = tokens_of w @ array_tail ws rest"
      using looparr_more [OF t(1)] t(2) Cons by auto
    let ?p0 = "p\<lparr>p_state := adv 1 (p_state p)\<rparr>"
    have b0: "before ?p0 (tokens_of w @ array_tail ws rest)"
      using looparr_walked [OF t(1) l(1)] t(3) l(2) by (intro before_walk [OF b(1)]) simp_all
    obtain c p1 where h: "H T {} None ?p0 = Ret (c, p1)"
      and e: "(if c \<noteq> 0 then Ret (6, i, p1) else E T (Suc i) None p1) = Ret (code, k, p')"
      using r l(1) by (auto simp: elements_step_def obind_Ret Let_def)
    have 1: "c = 0 \<and> before p1 (array_at (Suc i) ws rest)"
      using accepts_helperD [OF assms(1) b0 _ u _ h] v Cons by (simp add: array_tail_next)
    then show ?thesis using assms(2) b(2) u v e Cons unfolding accepts_elements_def by simp blast
  qed
qed

lemma fields_step_accepts:
  assumes "accepts_helper H" "accepts_fields F"
  shows "accepts_fields (fields_step n H F)"
  unfolding accepts_fields_def
proof (intro allI impI)
  fix T j and p p' :: parse_state and code kvs rest
  let ?fs = "type_fields (described T)"
  assume b: "before p (object_at j kvs rest)" "rest \<noteq> []"
    and v: "\<forall>(k, v)\<in>set kvs. \<forall>i. find_field 0 ?fs k = Some i \<longrightarrow> shaped (ftype (?fs ! i)) (flags (?fs ! i)) v"
    and r: "fields_step n H F (described T) j None p = Ret (code, p')"
  have t: "terminated (p_state p)" "ahead (p_state p) = object_at j kvs rest" "\<not> err_flag (p_state p)"
    using b(1) by (simp_all add: before_def noting_def)
  obtain field st where l: "loopfields n ?fs j (p_state p) = Ret (field, st)" using r by (auto simp: fields_step_def obind_Ret)
  note lv = loopfields_value [OF t(1,3,2) b(2) l]
  have walk: "before (p\<lparr>p_state := st\<rparr>) ts" if "ahead st = ts" "\<not> err_flag st" for ts
    using loopfields_walked [OF t(1) l] that by (intro before_walk [OF b(1)]) simp_all
  show "code = 0 \<and> before p' rest"
  proof (cases field)
    case None
    then have "ahead st = rest" "\<not> err_flag st" using lv by simp_all
    then show ?thesis using walk r l None by (auto simp: fields_step_def Let_def)
  next
    case (Some i)
    then obtain pre key w post where kvs: "kvs = pre @ (key, w) # post" "find_field 0 ?fs key = Some i"
      and a: "ahead st = tokens_of w @ object_tail post rest" "\<not> err_flag st" using lv by auto
    have i: "i < length ?fs" "\<not> derived (?fs ! i)" using find_field_index [OF kvs(2)] by simp_all
    have s: "shaped (ftype (?fs ! i)) (flags (?fs ! i)) w" using v kvs by simp
    obtain c p1 where h: "H (ftype (?fs ! i)) (flags (?fs ! i)) None (p\<lparr>p_state := st\<rparr>) = Ret (c, p1)"
      and e: "(if c \<noteq> 0 then Ret (3, p1) else F (described T) 1 None p1) = Ret (code, p')"
      using r l Some by (auto simp: fields_step_def obind_Ret Let_def doderived_def split: if_splits)
    have 1: "c = 0 \<and> before p1 (object_tail post rest)"
      by (rule accepts_helperD [OF assms(1) walk [OF a] _ usable_field [OF i] s h]) simp
    have "\<forall>(k, v)\<in>set post. \<forall>i. find_field 0 ?fs k = Some i \<longrightarrow> shaped (ftype (?fs ! i)) (flags (?fs ! i)) v"
      using v kvs(1) by simp
    moreover have "before p1 (object_at 1 post rest)" using 1 by (simp add: object_at_def)
    ultimately show ?thesis using assms(2) b(2) e 1 unfolding accepts_fields_def by simp
  qed
qed

lemma first_pass_accepts:
  "accepts_helper (parse_helper n) \<and> accepts_elements (parse_elements n) \<and> accepts_fields (parse_fields n)"
proof (induction n)
  case 0
  then show ?case by (simp add: accepts_helper_def accepts_elements_def accepts_fields_def)
next
  case (Suc n)
  then show ?case unfolding parse_Suc using helper_step_accepts elements_step_accepts fields_step_accepts by blast
qed

end
