(* ===== verification/I3_Safe.thy ===== *)
theory I3_Safe
  imports I3_Fill I3_Accept I3_Protocol
begin

text \<open>
  \<open>i3ipc.h\<close>, \<open>i3ipc_parse_try\<close> as a whole: the blocks that the first pass notes are laid out without
  overlapping, the second pass then succeeds, and the memory that it returns holds the value of the
  message.
\<close>

section \<open>Laying out the blocks\<close>

lemma and_not_mask: "(x :: int) AND NOT (mask k) = x - take_bit k x"
proof -
  have "x - take_bit k x = x AND NOT (take_bit k x)" by (rule disjunctive_diff) (simp add: bit_take_bit_iff)
  also have "\<dots> = x AND NOT (mask k)" by (rule bit_eqI) (auto simp: bit_simps)
  finally show ?thesis by simp
qed

lemma align_mask_up: "a \<in> {1, 4, 8} \<Longrightarrow> align_mask off a = align_up off a"
proof -
  assume "a \<in> {1, 4, 8}"
  then obtain k where k: "a = 2 ^ k" by (auto intro: that [of 0] that [of 2] that [of 3])
  have m: "int a - 1 = mask k" by (simp add: k mask_eq_exp_minus_1)
  let ?x = "int off + int a - 1"
  have x: "?x = int (off + a - 1)" using m k by (simp add: of_nat_diff Suc_le_eq)
  have "?x AND NOT (int a - 1) = ?x - ?x mod int a"
    unfolding m and_not_mask by (simp add: take_bit_eq_mod k)
  also have "\<dots> = ?x div int a * int a" by (simp add: minus_mod_eq_div_mult)
  also have "\<dots> = int ((off + a - 1) div a * a)" unfolding x by (simp add: zdiv_int)
  finally have "?x AND NOT (int a - 1) = int ((off + a - 1) div a * a)" .
  then show ?thesis by (simp only: align_mask_def align_up_def nat_int)
qed

lemma align_mask_ge: "a \<in> {1, 4, 8} \<Longrightarrow> off \<le> align_mask off a"
  using align_up_ge [of a off] by (auto simp: align_mask_up)

definition blocks_fit :: "(nat \<times> nat) list \<Rightarrow> nat \<Rightarrow> (nat \<times> nat) list \<Rightarrow> bool" where
  "blocks_fit al tot A \<longleftrightarrow> length al = length A \<and>
     (\<forall>i<length A. start_of al tot i + fst (A ! i) \<le> start_of al tot (Suc i))"

lemma place_allocs_fit:
  "place_allocs off A = (al, tot) \<Longrightarrow> list_all (\<lambda>b. snd b \<in> {1, 4, 8}) A \<Longrightarrow>
     off \<le> start_of al tot 0 \<and> blocks_fit al tot A"
proof (induction off A arbitrary: al tot rule: place_allocs.induct)
  case (1 off)
  then show ?case by (auto simp: start_of_def blocks_fit_def)
next
  case (2 off sz align r)
  let ?off = "align_mask off align"
  obtain r1 t1 where p: "place_allocs (?off + sz) r = (r1, t1)" by fastforce
  with 2(2) have a: "al = (?off, align) # r1" "tot = t1" by (simp_all add: Let_def)
  have ih: "?off + sz \<le> start_of r1 tot 0" "blocks_fit r1 tot r" using 2(1) [OF refl p] 2(3) a(2) by simp_all
  have s: "start_of al tot 0 = ?off" "start_of al tot (Suc i) = start_of r1 tot i" for i
    by (simp_all add: start_of_def a(1))
  have "start_of al tot i + fst (((sz, align) # r) ! i) \<le> start_of al tot (Suc i)" if "i < Suc (length r)" for i
    using that ih by (cases i) (simp_all add: s blocks_fit_def)
  then show ?case using align_mask_ge [of align off] 2(3) ih(2) s(1) by (simp add: blocks_fit_def a(1))
qed

lemma blocks_fit_laid_out: "blocks_fit al tot A \<Longrightarrow> laid_out al tot"
  unfolding laid_out_def
proof
  fix i
  assume b: "blocks_fit al tot A"
  show "start_of al tot i \<le> start_of al tot (Suc i)"
  proof (cases "i < length al")
    case True
    then have "start_of al tot i + fst (A ! i) \<le> start_of al tot (Suc i)" using b by (simp add: blocks_fit_def)
    then show ?thesis by linarith
  qed (simp add: start_of_def)
qed

lemma json_scan_nopanic: "json_scan cur toks c = (code, toks', c') \<Longrightarrow> nopanic c' = nopanic c"
proof (induction cur toks c rule: json_scan.induct)
  case (1 cur toks c)
  obtain code1 tok rest where t: "scan_token cur = (code1, tok, rest)" by (cases "scan_token cur") auto
  note scan = 1(2) [unfolded json_scan.simps [of cur toks c] t split Let_def]
  show ?case
  proof (cases "code1 = 0 \<and> tok_type tok \<noteq> 0")
    case True
    with scan 1(1) [OF t [symmetric] refl] show ?thesis by simp
  next
    case False
    with scan show ?thesis by (auto split: if_splits)
  qed
qed

section \<open>Parsing a message\<close>

text \<open>The second pass, started on the blocks that a first pass over the same tokens noted.\<close>

lemma second_pass:
  assumes n0: "noting p0" and u: "usable T {}" and fresh: "p_allocs p0 = []" "tokens_cur (p_state p0) = 0"
      "\<not> err_flag (p_state p0)"
    and a: "parse_alloc (tsize (described T)) (alignment (described T)) p0 = Ret (x, p)"
    and r: "parse_helper n T {} None p = Ret (0, p1)" and m: "json_match 0 (p_state p1) = Ret (0, tok, st)"
    and pl: "place_allocs 0 (p_allocs p1) = (al, tot)"
    and q: "q = p1\<lparr>p_context := c2, p_state := st\<lparr>tokens_cur := 0\<rparr>, p_allocs := al, p_allocs_size := 0,
        p_memory := Some (replicate tot (Byte 0))\<rparr>"
  shows "\<exists>base q1 q2 mem. parse_alloc (tsize (described T)) (alignment (described T)) q = Ret (base, q1) \<and>
    parse_helper n T {} base q1 = Ret (0, q2) \<and> p_memory q2 = Some mem \<and> length mem = tot \<and> tsize (described T) \<le> tot \<and>
    (\<forall>v. ahead (p_state p0) = tokens_of v @ [new_token] \<longrightarrow> distinct_keys v \<longrightarrow> represents mem 0 (length mem) T {} 0 v)"
proof -
  let ?b = "(tsize (described T), alignment (described T))"
  have p: "noted p0 p" "p_state p = p_state p0" "p_allocs p = [?b]"
    using noting_alloc [OF n0 a alignment_cases] fresh(1) by auto
  then have np: "noting p" using noted_noting by blast
  have n1: "noted p p1" by (rule notes_helperD [OF conjunct1 [OF first_pass_notes] np r])
  then obtain new where new: "p_allocs p1 = ?b # new" "list_all (\<lambda>b. snd b \<in> {1, 4, 8}) new"
    using p(3) by (auto simp: noted_def)
  have fit: "blocks_fit al tot (p_allocs p1)"
    using place_allocs_fit [OF pl] new alignment_cases [of T] by simp
  then have lo: "laid_out al tot" by (rule blocks_fit_laid_out)
  have len: "length al = Suc (length new)" using fit new(1) by (simp add: blocks_fit_def)
  have sz: "sized al tot 0 p1" using fit by (simp add: sized_def blocks_fit_def)
  have first: "fst (al ! 0) + tsize (described T) \<le> start_of al tot 1"
    using fit new(1) len by (auto simp: blocks_fit_def start_of_def dest!: spec [of _ 0])
  \<comment> \<open>the tokens are read again from the start\<close>
  have e: "\<not> err_flag st"
    using match_clean [OF m] clean_helperD [OF conjunct1 [OF first_pass_clean] np _ r] p(2) fresh(3) by simp
  have t: "terminated (p_state p1)" "tokens (p_state p1) = tokens (p_state p0)"
    using n1 p(2) by (simp_all add: noted_def noting_def walked_def)
  have "tokens st = tokens (p_state p1)"
    using m t(1) by (auto simp: json_match_def matchany_eq advance_def failed_def adv_def split: if_splits)
  then have st: "st\<lparr>tokens_cur := 0\<rparr> = p_state p0" using e t(2) fresh(2,3) by simp
  obtain q1 where q1: "parse_alloc (tsize (described T)) (alignment (described T)) q = Ret (Some (fst (al ! 0)), q1)"
    "q1 = q\<lparr>p_allocs_size := 1\<rparr>"
    using len by (simp add: q parse_alloc_def Let_def)
  have f: "filling al tot p q1"
    using n1 p(2,3) by (simp add: filling_def q1(2) q st noted_def)
  have ps: "start_of al tot (length (p_allocs p)) = start_of al tot 1" using p(3) by simp
  have "sized al tot (length (p_allocs p)) p1" using sz by (simp add: sized_def)
  moreover have "fst (al ! 0) + room T {} \<le> start_of al tot (length (p_allocs p))" using first p(3) by (simp add: room_def)
  ultimately obtain q2 where q2: "parse_helper n T {} (Some (fst (al ! 0))) q1 = Ret (0, q2)" "filling al tot p1 q2"
      "filled (end_of al tot p) (end_of al tot p1) T {} (fst (al ! 0)) q1 q2"
    using fills_helperD [OF conjunct1 [OF second_pass_fills [OF lo]] np u r f] by blast
  obtain mem where mem: "p_memory q2 = Some mem" "length mem = tot" using q2(2) by (auto simp: filling_def)
  have le: "tsize (described T) \<le> tot" "start_of al tot 1 \<le> tot" using first start_total [OF lo, of 1] by simp_all
  have al0: "fst (al ! 0) = 0" using pl new(1) by (auto simp: align_mask_def Let_def split: prod.splits)
  have total: "end_of al tot p1 = tot" using fit by (simp add: start_of_def blocks_fit_def)
  have "represents mem 0 tot T {} 0 v" if v: "ahead (p_state p0) = tokens_of v @ [new_token]" "distinct_keys v" for v
  proof -
    have "mem_of q1 = replicate tot (Byte 0)" by (simp add: q1(2) q mem_of_def)
    then have b: "blank ({0..<0 + room T {}} \<union> {start_of al tot 1..<tot}) (mem_of q1)"
      using le by (auto simp: blank_def room_def)
    have "stands q1 (tokens_of v @ [new_token])" using v(1) fresh(3) by (simp add: stands_def q1(2) q st)
    from filled_value [OF q2(3) [unfolded ps al0 total] this _ v(2) b]
    have "represents mem (start_of al tot 1) tot T {} 0 v" using mem(1) by (simp add: mem_of_def)
    then show ?thesis by (rule represents_mono) simp_all
  qed
  then show ?thesis using q1 q2(1) mem le(1) by blast
qed

text \<open>What parsing tokens into a type amounts to.\<close>

definition parsed :: "type_id \<Rightarrow> json_token list \<Rightarrow> int \<Rightarrow> cell list option \<Rightarrow> i3 \<Rightarrow> bool" where
  "parsed T toks code data c \<longleftrightarrow>
     (code = 0 \<and> (\<exists>mem. data = Some mem \<and> tsize (described T) \<le> length mem \<and>
        (\<forall>v. toks = tokens_of v @ [new_token] \<longrightarrow> distinct_keys v \<longrightarrow> represents mem 0 (length mem) T {} 0 v))) \<or>
     (code = I3IPC_ERROR_MALFORMED \<and> data = None \<and> state c = I3IPC_ERROR_MALFORMED \<and>
        (\<forall>v. toks = tokens_of v @ [new_token] \<longrightarrow> \<not> shaped T {} v))"

lemma malformed_parsed:
  assumes "nopanic c" "\<forall>v. toks = tokens_of v @ [new_token] \<longrightarrow> \<not> shaped T {} v"
  shows "\<exists>code data c'. obind (error_handle I3IPC_ERROR_MALFORMED c) (\<lambda>(code, c1). Ret (code, None, c1)) = Ret (code, data, c') \<and>
    parsed T toks code data c'"
  using assms by (simp add: error_handle_def parsed_def i3codes Let_def)

lemma match_end: "terminated st \<Longrightarrow> ahead st = [new_token] \<Longrightarrow> json_match 0 st = Ret (c, tok, st') \<Longrightarrow> c = 0"
  using ahead_Cons [of st new_token "[]"] by (auto simp: json_match_def matchany_eq new_token_def split: if_splits)

lemma parse_tokens_returns:
  assumes "toks \<noteq> []" "tok_type (last toks) = 0" "usable T {}" "nopanic c"
  shows "\<exists>code data c'. parse_tokens T toks c = Ret (code, data, c') \<and> parsed T toks code data c'"
proof -
  let ?st0 = "\<lparr>tokens = toks, tokens_cur = 0, err_flag = False\<rparr>"
  let ?p0 = "\<lparr>p_context = c, p_state = ?st0, p_allocs = [], p_allocs_size = 0, p_memory = None,
    p_copy_strings = \<not> staticalloc c, p_next_size = 0, p_next_enum = Null, p_next_set = False\<rparr>"
  let ?n = "parse_fuel (length toks)"
  have t: "terminated ?st0" using assms(1,2) by (simp add: terminated_def)
  then have n0: "noting ?p0" by (simp add: noting_def)
  obtain p where a: "parse_alloc (tsize (described T)) (alignment (described T)) ?p0 = Ret (None, p)"
    using first_alloc [OF n0] by blast
  have p: "noted ?p0 p" "p_state p = ?st0" using noting_alloc [OF n0 a alignment_cases] by auto
  then have np: "noting p" using noted_noting by blast
  have "4 * rest_of p + depth T {} < ?n"
    using depth_bounds(2) [of T] by (simp add: p(2) remaining_tokens_def parse_fuel_def)
  then obtain code p1 where r: "parse_helper ?n T {} None p = Ret (code, p1)"
    using returns_helperD [OF conjunct1 [OF first_pass_returns] np assms(3)] by blast
  have n1: "noted p p1" by (rule notes_helperD [OF conjunct1 [OF first_pass_notes] np r])
  then have np1: "nopanic (p_context p1)" using p(1) assms(4) by (simp add: noted_def)
  have accepted: "code = 0 \<and> before p1 [new_token]" if v: "toks = tokens_of v @ [new_token]" "shaped T {} v" for v
  proof (rule accepts_helperD [OF conjunct1 [OF first_pass_accepts] _ _ assms(3) v(2) r])
    show "before p (tokens_of v @ [new_token])" using np p(2) v(1) by (simp add: before_def ahead_def)
  qed simp
  show ?thesis
  proof (cases "code = 0")
    case False
    then have "\<forall>v. toks = tokens_of v @ [new_token] \<longrightarrow> \<not> shaped T {} v" using accepted by blast
    then show ?thesis using malformed_parsed [OF np1] False a r by (simp add: parse_tokens_def Let_def)
  next
    case True
    obtain mc tok st where m: "json_match 0 (p_state p1) = Ret (mc, tok, st)"
      using match_returns noted_noting [OF n1] by (fastforce simp: noting_def)
    show ?thesis
    proof (cases "mc = 0")
      case False
      have "\<not> before p1 [new_token]" using match_end m False by (auto simp: before_def noting_def)
      then have "\<forall>v. toks = tokens_of v @ [new_token] \<longrightarrow> \<not> shaped T {} v" using accepted by blast
      then show ?thesis using malformed_parsed [OF np1] False a r m True by (simp add: parse_tokens_def Let_def)
    next
      case mc: True
      obtain al tot where pl: "place_allocs 0 (p_allocs p1) = (al, tot)" by fastforce
      let ?c2 = "if staticalloc c then context_reserve CONTEXT_PARSE tot (p_context p1) else p_context p1"
      let ?q = "p1\<lparr>p_context := ?c2, p_state := st\<lparr>tokens_cur := 0\<rparr>, p_allocs := al, p_allocs_size := 0,
          p_memory := Some (replicate tot (Byte 0))\<rparr>"
      obtain base q1 q2 mem where "parse_alloc (tsize (described T)) (alignment (described T)) ?q = Ret (base, q1)"
        "parse_helper ?n T {} base q1 = Ret (0, q2)" "p_memory q2 = Some mem" "tsize (described T) \<le> length mem"
        "\<forall>v. toks = tokens_of v @ [new_token] \<longrightarrow> distinct_keys v \<longrightarrow> represents mem 0 (length mem) T {} 0 v"
        using second_pass [OF n0 assms(3) _ _ _ a r [unfolded True] m [unfolded mc] pl, of ?q ?c2] by (auto simp: ahead_def)
      then show ?thesis using a r m mc True pl
        by (simp add: parse_tokens_def Let_def parsed_def)
    qed
  qed
qed

lemma parse_try_scanned:
  assumes "state c = I3IPC_STATE_READY" "message_type (buffers c CONTEXT_MSG) = t"
    and "json_scan (message_payload (buffers c CONTEXT_MSG)) [] (c\<lparr>globals_initialized := True\<rparr>) = (0, toks, c1)"
  shows "parse_try t T c = parse_tokens T toks
    (c1\<lparr>buffers := (buffers c1)(CONTEXT_MSG := store_at 6 (le32 0) (buffers c1 CONTEXT_MSG))\<rparr>)"
proof -
  have "error_code c = 0" using assms(1) by (simp add: error_code_def i3codes)
  then show ?thesis using assms by (simp add: parse_try_def Let_def)
qed

lemma parse_try_parsed:
  assumes "state c = I3IPC_STATE_READY" "nopanic c" "usable T {}"
    and "message_type (buffers c CONTEXT_MSG) = t"
  shows "\<exists>code data c'. parse_try t T c = Ret (code, data, c') \<and>
    (code = 0 \<and> (\<exists>mem. data = Some mem \<and> tsize (described T) \<le> length mem) \<or>
     code = I3IPC_ERROR_MALFORMED \<and> data = None \<and> state c' = I3IPC_ERROR_MALFORMED)"
proof -
  let ?c0 = "c\<lparr>globals_initialized := True\<rparr>"
  have e: "error_code c = 0" using assms(1) by (simp add: error_code_def i3codes)
  obtain code toks c1 where s: "json_scan (message_payload (buffers c CONTEXT_MSG)) [] ?c0 = (code, toks, c1)"
    by (cases "json_scan (message_payload (buffers c CONTEXT_MSG)) [] ?c0") auto
  have np: "nopanic c1" using json_scan_nopanic [OF s] assms(2) by simp
  have "\<exists>code data c'. parse_try t T c = Ret (code, data, c') \<and> (\<exists>toks. parsed T toks code data c')"
  proof (cases "code = 0")
    case False
    then show ?thesis using malformed_parsed [OF np, of "[]" T] e assms(1,4) s by (simp add: parse_try_def Let_def) blast
  next
    case True
    have l: "toks \<noteq> []" "tok_type (last toks) = 0" using json_scan_terminated s True by blast+
    show ?thesis
      using parse_tokens_returns [OF l assms(3), of "c1\<lparr>buffers := (buffers c1)(CONTEXT_MSG := store_at 6 (le32 0) (buffers c1 CONTEXT_MSG))\<rparr>"]
        np parse_try_scanned [OF assms(1,4) s [unfolded True]] by auto
  qed
  then show ?thesis unfolding parsed_def by blast
qed

text \<open>
  C7 (safety): \<open>i3ipc_parse_try\<close> on any message whose type is the expected one, for any of the reply types.
\<close>

theorem parse_try_returns:
  assumes "state c = I3IPC_STATE_READY" "nopanic c" "usable T {}"
    and "message_type (buffers c CONTEXT_MSG) = t"
  shows "\<exists>code data c'. parse_try t T c = Ret (code, data, c') \<and>
    (code = 0 \<and> (\<exists>mem. data = Some mem \<and> tsize (described T) \<le> length mem) \<or>
     code = I3IPC_ERROR_MALFORMED \<and> data = None \<and> state c' = I3IPC_ERROR_MALFORMED)"
  by (rule parse_try_parsed [OF assms])

text \<open>A reply that holds a list of one workspace.\<close>

definition demo_reply :: i3 where
  "demo_reply = (demo_i3 1 [])\<lparr>buffers := (\<lambda>_. [])(CONTEXT_MSG := wire 1 (bytes ''[{\"num\":7,\"name\":\"w\"}]'') @ [0])\<rparr>"

theorem parse_try_returns_witness:
  "\<exists>code data c'. parse_try 1 I3IPC_TYPE_REPLY_WORKSPACES demo_reply = Ret (code, data, c') \<and>
    (code = 0 \<and> (\<exists>mem. data = Some mem \<and> tsize (described I3IPC_TYPE_REPLY_WORKSPACES) \<le> length mem) \<or>
     code = I3IPC_ERROR_MALFORMED \<and> data = None \<and> state c' = I3IPC_ERROR_MALFORMED)"
  by (rule parse_try_returns) (simp_all add: demo_reply_def usable_def i3codes wire_def int32_def)

lemma parse_printed:
  assumes "state c = I3IPC_STATE_READY" "nopanic c" "usable T {}"
    and "message_type (buffers c CONTEXT_MSG) = t"
    and "message_payload (buffers c CONTEXT_MSG) = print_json v" "numbers_ok v" "distinct_keys v"
  shows "\<exists>code data c'. parse_try t T c = Ret (code, data, c') \<and>
    (if shaped T {} v then code = 0 \<and> (\<exists>mem. data = Some mem \<and> represents mem 0 (length mem) T {} 0 v)
     else code = I3IPC_ERROR_MALFORMED \<and> data = None \<and> state c' = I3IPC_ERROR_MALFORMED)"
proof -
  let ?toks = "tokens_of v @ [new_token]"
  obtain c1 where s: "json_scan (message_payload (buffers c CONTEXT_MSG)) [] (c\<lparr>globals_initialized := True\<rparr>) = (0, ?toks, c1)"
    using json_scan_lexes [of "print_json v" "tokens_of v" "[]"] print_json_lexes [OF assms(6), of "[]"] assms(5) by auto
  have np: "nopanic c1" using json_scan_nopanic [OF s] assms(2) by simp
  have "?toks \<noteq> []" "tok_type (last ?toks) = 0" by (simp_all add: new_token_def)
  note parse_tokens_returns [OF this assms(3), of "c1\<lparr>buffers := (buffers c1)(CONTEXT_MSG := store_at 6 (le32 0) (buffers c1 CONTEXT_MSG))\<rparr>"]
  then obtain code data c' where p: "parse_try t T c = Ret (code, data, c')" "parsed T ?toks code data c'"
    using np parse_try_scanned [OF assms(1,4) s] by auto
  have "shaped T {} v" if "represents mem 0 (length mem) T {} 0 v" for mem
    by (rule represents_shaped [OF that assms(3,7)])
  then show ?thesis using p assms(7) unfolding parsed_def by auto
qed

text \<open>
  C3 (functional): \<open>i3ipc_parse_try\<close> on a message that holds the text of a JSON value (without a key
  that occurs twice in an object): it succeeds if and only if the value has the shape of the type,
  and then the memory that it returns represents the value.
\<close>

theorem parse_printed_value:
  assumes "state c = I3IPC_STATE_READY" "nopanic c" "usable T {}"
    and "message_type (buffers c CONTEXT_MSG) = t"
    and "message_payload (buffers c CONTEXT_MSG) = print_json v" "numbers_ok v" "distinct_keys v"
  shows "\<exists>code data c'. parse_try t T c = Ret (code, data, c') \<and>
    (if shaped T {} v then code = 0 \<and> (\<exists>mem. data = Some mem \<and> represents mem 0 (length mem) T {} 0 v)
     else code = I3IPC_ERROR_MALFORMED \<and> data = None \<and> state c' = I3IPC_ERROR_MALFORMED)"
  by (rule parse_printed [OF assms])

text \<open>The value of that reply, and its shape.\<close>

definition demo_workspaces :: json where
  "demo_workspaces = JArr [JObj [(bytes ''num'', JNumber 7), (bytes ''name'', JString (bytes ''w''))]]"

lemma payload_of_wire: "payload_fits p \<Longrightarrow> message_payload (wire t p @ r) = p"
  by (simp add: message_payload_def) (simp add: wire_def sizeof_message_def)

lemma demo_reply_text: "message_payload (buffers demo_reply CONTEXT_MSG) = print_json demo_workspaces"
proof -
  have "print_json demo_workspaces = bytes ''[{\"num\":7,\"name\":\"w\"}]''" by code_simp
  moreover have "payload_fits (bytes ''[{\"num\":7,\"name\":\"w\"}]'')" by (simp add: payload_fits_def size_max_def bytes_def)
  ultimately show ?thesis by (simp add: demo_reply_def payload_of_wire)
qed

lemma demo_shaped: "shaped I3IPC_TYPE_REPLY_WORKSPACES {} demo_workspaces"
proof -
  let ?T = I3IPC_TYPE_REPLY_WORKSPACES and ?E = I3IPC_TYPE_REPLY_WORKSPACES_EL
  let ?fs = "type_fields (described ?E)"
  have T: "is_inline (described ?T)" "ftype (type_fields (described ?T) ! 0) = ?E" "flags (type_fields (described ?T) ! 0) = {ISARRAY}"
    by (simp_all add: described_def outer_fields field_defs)
  have E: "\<not> is_inline (described ?E)" "\<not> is_primitive (described ?E)" by (simp_all add: described_def primitive_types_def)
  have f: "ftype (?fs ! 1) = I3IPC_TYPE_INT" "flags (?fs ! 1) = {}" "ftype (?fs ! 2) = I3IPC_TYPE_CHAR" "flags (?fs ! 2) = {ISARRAY}"
    by (simp_all add: described_def outer_fields field_defs)
  have k: "find_field 0 ?fs (bytes ''num'') = Some 1" "find_field 0 ?fs (bytes ''name'') = Some 2"
    by (simp_all add: described_def outer_fields field_defs set_json_name_def derived_def bytes_def cstr_def)
  have "shaped ?E {} (JObj [(bytes ''num'', JNumber 7), (bytes ''name'', JString (bytes ''w''))])"
    by (rule shaped.object) (use E f k in \<open>auto intro!: shaped.number shaped.chars simp: is_string_type_def GROUP_MAYBE_def\<close>)
  then have "shaped ?E {ISARRAY} demo_workspaces"
    unfolding demo_workspaces_def by (intro shaped.array) (simp_all add: GROUP_MAYBE_def)
  then show ?thesis by (intro shaped.inlined [OF T(1) _ refl]) (simp_all add: T)
qed

theorem parse_printed_value_witness:
  "\<exists>mem c'. parse_try 1 I3IPC_TYPE_REPLY_WORKSPACES demo_reply = Ret (0, Some mem, c') \<and>
     represents mem 0 (length mem) I3IPC_TYPE_REPLY_WORKSPACES {} 0 demo_workspaces"
proof -
  have t: "message_type (buffers demo_reply CONTEXT_MSG) = 1" by (simp add: demo_reply_def wire_def int32_def)
  have d: "numbers_ok demo_workspaces" "distinct_keys demo_workspaces"
    by (simp_all add: demo_workspaces_def bytes_def cstr_def)
  have "state demo_reply = I3IPC_STATE_READY" "nopanic demo_reply" "usable I3IPC_TYPE_REPLY_WORKSPACES {}"
    by (simp_all add: demo_reply_def usable_def i3codes)
  from parse_printed_value [OF this t demo_reply_text d] demo_shaped show ?thesis by auto
qed

end
