(* ===== verification/I3_Api.thy ===== *)
theory I3_Api
  imports I3_Safe
begin

text \<open>
  \<open>i3ipc.h\<close>, the functions that a program calls: the requests, the subscription to events, the next
  event, and the printing of what was parsed.  The result of a request is the memory it was parsed
  into, or \<open>None\<close> for the null pointer; the structure starts at the address 0.
\<close>

section \<open>Reading memory\<close>

fun cell_bytes :: "cell list \<Rightarrow> byte list outcome" where
  "cell_bytes [] = Ret []"
| "cell_bytes (Byte b # r) = obind (cell_bytes r) (\<lambda>bs. Ret (b # bs))"
| "cell_bytes _ = Undefined"

definition read_bytes :: "nat \<Rightarrow> nat \<Rightarrow> cell list \<Rightarrow> byte list outcome" where
  "read_bytes off n mem = obind (get_cells off n mem) cell_bytes"

definition read_bool :: "nat \<Rightarrow> cell list \<Rightarrow> bool outcome" where
  "read_bool off mem = obind (read_bytes off 1 mem) (\<lambda>bs. Ret (bs ! 0 \<noteq> 0))"

definition read_int :: "nat \<Rightarrow> cell list \<Rightarrow> int outcome" where
  "read_int off mem = obind (read_bytes off 4 mem) (\<lambda>bs. Ret (un_le32 bs))"

definition read_size :: "nat \<Rightarrow> cell list \<Rightarrow> nat outcome" where
  "read_size off mem =
     obind (read_bytes off 8 mem) (\<lambda>bs. Ret (foldr (\<lambda>b v. unat b + 256 * v) bs 0))"

definition read_pointer :: "nat \<Rightarrow> cell list \<Rightarrow> pointer outcome" where
  "read_pointer off mem =
     obind (get_cells off 8 mem) (\<lambda>cs.
       if cs = pointer_cells Null then Ret Null
       else case cs of
              Pointer_part p i # _ \<Rightarrow> if cs = pointer_cells p then Ret p else Undefined
            | _ \<Rightarrow> Undefined)"

definition read_float :: "nat \<Rightarrow> cell list \<Rightarrow> rat outcome" where
  "read_float off mem =
     obind (get_cells off 4 mem) (\<lambda>cs.
       if cs = replicate 4 (Byte 0) then Ret 0
       else case cs of
              Float_part x i # _ \<Rightarrow> if cs = float_cells x then Ret x else Undefined
            | _ \<Rightarrow> Undefined)"

text \<open>The bytes that a pointer to a text refers to, \<open>n\<close> of them or up to the zero if \<open>n\<close> is -1.\<close>

definition read_text :: "pointer \<Rightarrow> int \<Rightarrow> cell list \<Rightarrow> byte list outcome" where
  "read_text ptr n mem =
     (case ptr of
        Null \<Rightarrow> Undefined
      | Text s \<Rightarrow> if n = - 1 then Ret (cstr s)
                  else if nat n \<le> length s + 1 then Ret (take (nat n) (s @ [0])) else Undefined
      | At a \<Rightarrow> if n = - 1 then c_string (drop a mem) else read_bytes a (nat n) mem)"

definition member_at :: "c_type \<Rightarrow> string \<Rightarrow> nat" where
  "member_at T n = offsetof (snd T) n"

section \<open>Printing what was parsed\<close>

text \<open>\<open>i3ipc__type_readderived\<close>: the values of the fields behind field \<open>i\<close>.\<close>

fun readderived_loop :: "i3_field list \<Rightarrow> nat \<Rightarrow> bool \<times> int \<times> int \<Rightarrow> cell list \<Rightarrow> (bool \<times> int \<times> int) outcome" where
  "readderived_loop [] base r mem = Ret r"
| "readderived_loop (f # fs) base (is_set, n, enum) mem =
     (if \<not> derived f then Ret (is_set, n, enum)
      else obind
        (if ISFLAG \<in> flags f then
           assert_then (ftype f = I3IPC_TYPE_BOOL)
             (obind (read_bool (base + foffset f) mem) (\<lambda>b. Ret (b, n, enum)))
         else if ISSIZE \<in> flags f then
           assert_then (ftype f = I3IPC_TYPE_INT)
             (obind (read_int (base + foffset f) mem) (\<lambda>k. Ret (is_set, k, enum)))
         else if ISENUM \<in> flags f then
           assert_then (ftype f = I3IPC_TYPE_INT)
             (obind (read_int (base + foffset f) mem) (\<lambda>k. Ret (is_set, n, k)))
         else Abort)
        (\<lambda>r. readderived_loop fs base r mem))"

definition type_readderived :: "i3_type \<Rightarrow> nat \<Rightarrow> nat \<Rightarrow> cell list \<Rightarrow> (bool \<times> int \<times> int) outcome" where
  "type_readderived type field base mem =
     readderived_loop (drop (Suc field) (type_fields type)) base (True, - 1, - 1) mem"

text \<open>The eight bytes that are read as a pointer may also be an optional number with its flag.\<close>

definition not_null :: "nat \<Rightarrow> cell list \<Rightarrow> bool outcome" where
  "not_null base mem = obind (get_cells base 8 mem) (\<lambda>cs. Ret (cs \<noteq> replicate 8 (Byte 0)))"

fun field_is_set :: "nat \<Rightarrow> type_id \<Rightarrow> type_flags \<Rightarrow> nat \<Rightarrow> cell list \<Rightarrow> bool outcome" where
  "field_is_set 0 T fg base mem = Block"
| "field_is_set (Suc fuel) T fg base mem =
     obind (type_get T) (\<lambda>type.
       if fg \<inter> {ISPTR, ISOPT} \<noteq> {} then not_null base mem
       else if is_string_type T fg
       then not_null (if T = I3IPC_TYPE_STRING then base + foffset (type_fields type ! 0) else base) mem
       else if ISARRAY \<in> fg then not_null base mem
       else if is_inline type
       then (let f = type_fields type ! 0 in field_is_set fuel (ftype f) (flags f) (base + foffset f) mem)
       else if fg = {} then Ret True
       else Abort)"

definition message_type_to_event :: "int \<Rightarrow> type_id option" where
  "message_type_to_event t =
     (if t = - 2147483648 then Some I3IPC_TYPE_EVENT_WORKSPACE
      else if t = - 2147483647 then Some I3IPC_TYPE_EVENT_OUTPUT
      else if t = - 2147483646 then Some I3IPC_TYPE_EVENT_MODE
      else if t = - 2147483645 then Some I3IPC_TYPE_EVENT_WINDOW
      else if t = - 2147483644 then Some I3IPC_TYPE_EVENT_BARCONFIG_UPDATE
      else if t = - 2147483643 then Some I3IPC_TYPE_EVENT_BINDING
      else if t = - 2147483642 then Some I3IPC_TYPE_EVENT_SHUTDOWN
      else if t = - 2147483641 then Some I3IPC_TYPE_EVENT_TICK
      else None)"

text \<open>
  \<open>i3ipc__printjson_helper\<close>; \<open>fuel\<close> bounds the depth of the recursion, through pointers and over
  elements and fields.
\<close>

definition print_text :: "pointer \<Rightarrow> int \<Rightarrow> cell list \<Rightarrow> byte list outcome" where
  "print_text ptr n mem =
     assert_then (ptr \<noteq> Null)
       (obind (read_text ptr n mem) (\<lambda>s. Ret (fst (printjson_string s (int (length s)) False))))"

definition print_primitive :: "type_id \<Rightarrow> nat \<Rightarrow> cell list \<Rightarrow> byte list outcome" where
  "print_primitive T base mem =
     (if T = I3IPC_TYPE_BOOL
      then obind (read_bool base mem) (\<lambda>b. Ret (if b then bytes ''true'' else bytes ''false''))
      else if T = I3IPC_TYPE_SIZET then obind (read_size base mem) (\<lambda>n. Ret (dec n))
      else if T = I3IPC_TYPE_INT then obind (read_int base mem) (\<lambda>k. Ret (fmt_d k))
      else if T = I3IPC_TYPE_FLOAT then obind (read_float base mem) (\<lambda>x. Ret (fmt_f 6 x))
      else Abort)"

definition at_address :: "pointer \<Rightarrow> (nat \<Rightarrow> 'a outcome) \<Rightarrow> 'a outcome" where
  "at_address p k = assert_then (p \<noteq> Null) (case p of At a \<Rightarrow> k a | _ \<Rightarrow> Undefined)"

fun inline_size :: "i3_field list \<Rightarrow> int \<Rightarrow> nat \<Rightarrow> cell list \<Rightarrow> int outcome" where
  "inline_size [] n base mem = Ret n"
| "inline_size (f # fs) n base mem =
     assert_then (derived f)
       (if ISSIZE \<in> flags f
        then assert_then (ftype f = I3IPC_TYPE_INT)
               (obind (read_int (base + foffset f) mem) (\<lambda>k. inline_size fs k base mem))
        else Abort)"

text \<open>Whether a field is printed, and as its value or as \<open>null\<close>.\<close>

datatype printed = Omitted | As_null | As_value int

definition field_printed :: "i3_type \<Rightarrow> nat \<Rightarrow> nat \<Rightarrow> cell list \<Rightarrow> printed outcome" where
  "field_printed type i base mem =
     (let f = type_fields type ! i
      in obind (type_readderived type i base mem) (\<lambda>(i_set, i_size, _).
         obind (if i_set then field_is_set 2 (ftype f) (flags f) (base + foffset f) mem else Ret False) (\<lambda>i_set.
           Ret (if i_set then As_value i_size
                else if ISOMIT \<in> flags f then Omitted
                else if ISOPT \<in> flags f then As_null
                else Omitted))))"

type_synonym printer = "type_id \<Rightarrow> type_flags \<Rightarrow> nat \<Rightarrow> int \<Rightarrow> cell list \<Rightarrow> byte list outcome"

fun print_elements :: "printer \<Rightarrow> type_id \<Rightarrow> nat \<Rightarrow> nat \<Rightarrow> nat \<Rightarrow> cell list \<Rightarrow> byte list outcome" where
  "print_elements H T 0 i a mem = Ret []"
| "print_elements H T (Suc n) i a mem =
     obind (H T {} (a + i * tsize (described T)) (- 1) mem) (\<lambda>s.
     obind (print_elements H T n (Suc i) a mem) (\<lambda>r. Ret ((if i = 0 then [] else [44]) @ s @ r)))"

definition print_field :: "printer \<Rightarrow> i3_type \<Rightarrow> nat \<Rightarrow> nat \<Rightarrow> cell list \<Rightarrow> byte list outcome" where
  "print_field H type i base mem =
     (let f = type_fields type ! i
      in if derived f then Ret []
         else obind (field_printed type i base mem) (\<lambda>how.
           if how = Omitted then Ret []
           else obind (case how of
                         As_value k \<Rightarrow> H (ftype f) (flags f - {ISOPT}) (base + foffset f) k mem
                       | _ \<Rightarrow> Ret (bytes ''null'')) (\<lambda>s.
             Ret ((if i = 0 then [] else [44]) @
                  fst (printjson_string (bytes (the (json_name f))) (- 1) False) @ [58] @ s))))"

fun print_fields :: "printer \<Rightarrow> i3_type \<Rightarrow> nat list \<Rightarrow> nat \<Rightarrow> cell list \<Rightarrow> byte list outcome" where
  "print_fields H type [] base mem = Ret []"
| "print_fields H type (i # is) base mem =
     obind (print_field H type i base mem) (\<lambda>s.
     obind (print_fields H type is base mem) (\<lambda>r. Ret (s @ r)))"

definition print_string_type :: "type_id \<Rightarrow> i3_type \<Rightarrow> nat \<Rightarrow> int \<Rightarrow> cell list \<Rightarrow> byte list outcome" where
  "print_string_type T type base n mem =
     (if T = I3IPC_TYPE_STRING
      then obind (read_pointer (base + foffset (type_fields type ! 0)) mem) (\<lambda>p.
           obind (read_int (base + foffset (type_fields type ! 1)) mem) (\<lambda>k. print_text p k mem))
      else assert_then (n \<noteq> - 1) (obind (read_pointer base mem) (\<lambda>p. print_text p n mem)))"

definition print_array :: "printer \<Rightarrow> type_id \<Rightarrow> nat \<Rightarrow> int \<Rightarrow> cell list \<Rightarrow> byte list outcome" where
  "print_array H T base n mem =
     assert_then (n \<noteq> - 1)
       (obind (read_pointer base mem) (\<lambda>p. at_address p (\<lambda>a.
          obind (print_elements H T (nat n) 0 a mem) (\<lambda>s. Ret ([91] @ s @ [93])))))"

definition print_inline :: "printer \<Rightarrow> i3_type \<Rightarrow> nat \<Rightarrow> cell list \<Rightarrow> byte list outcome" where
  "print_inline H type base mem =
     assert_then (type_fields type \<noteq> [])
       (obind (inline_size (tl (type_fields type)) (- 1) base mem) (\<lambda>n.
          let f = type_fields type ! 0 in H (ftype f) (flags f) (base + foffset f) n mem))"

definition print_event :: "printer \<Rightarrow> type_flags \<Rightarrow> nat \<Rightarrow> int \<Rightarrow> cell list \<Rightarrow> byte list outcome" where
  "print_event H fg base n mem =
     obind (read_int (base + member_at I3ipc_event ''type'') mem) (\<lambda>t.
       case message_type_to_event t of None \<Rightarrow> Abort | Some subtype \<Rightarrow> H subtype fg base n mem)"

definition print_step :: "printer \<Rightarrow> printer" where
  "print_step H T fg base n mem =
     obind (type_get T) (\<lambda>type.
       if ISPTR \<in> fg
       then obind (read_pointer base mem) (\<lambda>p. at_address p (\<lambda>a. H T (fg - {ISPTR}) a (- 1) mem))
       else if is_string_type T fg then print_string_type T type base n mem
       else if ISARRAY \<in> fg then print_array H T base n mem
       else if is_inline type then print_inline H type base mem
       else if fg = {} \<and> is_primitive type then print_primitive T base mem
       else if fg = {} \<and> T = I3IPC_TYPE_EVENT then print_event H fg base n mem
       else if fg = {}
       then obind (print_fields H type [0..<length (type_fields type)] base mem) (\<lambda>s. Ret ([123] @ s @ [125]))
       else Abort)"

fun printjson_helper :: "nat \<Rightarrow> printer" where
  "printjson_helper 0 T fg base n mem = Block"
| "printjson_helper (Suc fuel) T fg base n mem = print_step (printjson_helper fuel) T fg base n mem"

text \<open>\<open>i3ipc_printjson\<close>: what is written to the file.\<close>

definition printjson :: "nat \<Rightarrow> type_id \<Rightarrow> cell list \<Rightarrow> i3 \<Rightarrow> byte list outcome" where
  "printjson fuel T mem c = (if error_code c \<noteq> 0 then Ret [] else printjson_helper fuel T {} 0 (- 1) mem)"

section \<open>Requests\<close>

definition message_and_parse_try ::
  "int \<Rightarrow> type_id \<Rightarrow> byte list option \<Rightarrow> int \<Rightarrow> i3 \<Rightarrow> (int \<times> cell list option \<times> i3) outcome" where
  "message_and_parse_try message T payload n c =
     (if error_code c \<noteq> 0 then Ret (I3IPC_ERROR_BADSTATE, None, c)
      else obind (message_try message payload n c) (\<lambda>(code, c1).
        if code \<noteq> 0 then Ret (code, None, c1) else parse_try message T c1))"

type_synonym reply = "cell list option"

definition i3_request :: "int \<Rightarrow> type_id \<Rightarrow> byte list option \<Rightarrow> int \<Rightarrow> i3 \<Rightarrow> (reply \<times> i3) outcome" where
  "i3_request message T payload n c =
     obind (message_and_parse_try message T payload n c) (\<lambda>(_, reply, c1). Ret (reply, c1))"

definition run_command :: "byte list option \<Rightarrow> i3 \<Rightarrow> (reply \<times> i3) outcome" where
  "run_command commands = i3_request I3IPC_RUN_COMMAND I3IPC_TYPE_REPLY_COMMAND commands (- 1)"

definition get_workspaces :: "i3 \<Rightarrow> (reply \<times> i3) outcome" where
  "get_workspaces = i3_request I3IPC_GET_WORKSPACES I3IPC_TYPE_REPLY_WORKSPACES None 0"

definition get_outputs :: "i3 \<Rightarrow> (reply \<times> i3) outcome" where
  "get_outputs = i3_request 3 I3IPC_TYPE_REPLY_OUTPUTS None 0"

definition get_tree :: "i3 \<Rightarrow> (reply \<times> i3) outcome" where
  "get_tree = i3_request 4 I3IPC_TYPE_REPLY_TREE None 0"

definition get_marks :: "i3 \<Rightarrow> (reply \<times> i3) outcome" where
  "get_marks = i3_request 5 I3IPC_TYPE_REPLY_MARKS None 0"

definition get_bar_config_ids :: "i3 \<Rightarrow> (reply \<times> i3) outcome" where
  "get_bar_config_ids = i3_request I3IPC_GET_BAR_CONFIG I3IPC_TYPE_REPLY_BAR_CONFIG_IDS None 0"

definition get_bar_config :: "byte list option \<Rightarrow> i3 \<Rightarrow> (reply \<times> i3) outcome" where
  "get_bar_config nm = i3_request I3IPC_GET_BAR_CONFIG I3IPC_TYPE_REPLY_BAR_CONFIG nm (- 1)"

definition get_version :: "i3 \<Rightarrow> (reply \<times> i3) outcome" where
  "get_version = i3_request 7 I3IPC_TYPE_REPLY_VERSION None 0"

definition get_binding_modes :: "i3 \<Rightarrow> (reply \<times> i3) outcome" where
  "get_binding_modes = i3_request 8 I3IPC_TYPE_REPLY_BINDING_MODES None 0"

definition get_config :: "i3 \<Rightarrow> (reply \<times> i3) outcome" where
  "get_config = i3_request 9 I3IPC_TYPE_REPLY_CONFIG None 0"

text \<open>A request during which the memory is one of the buffers of the context.\<close>

definition with_staticalloc :: "(i3 \<Rightarrow> (reply \<times> i3) outcome) \<Rightarrow> i3 \<Rightarrow> (reply \<times> i3) outcome" where
  "with_staticalloc call c =
     (case set_staticalloc True c of (prev, c1) \<Rightarrow>
        obind (call c1) (\<lambda>(reply, c2). Ret (reply, snd (set_staticalloc prev c2))))"

fun failed_commands :: "nat \<Rightarrow> nat \<Rightarrow> nat \<Rightarrow> cell list \<Rightarrow> i3 \<Rightarrow> i3 outcome" where
  "failed_commands 0 i a mem c = Ret c"
| "failed_commands (Suc n) i a mem c =
     (let el = a + i * sizeof (snd I3ipc_reply_command_el)
      in obind (read_bool (el + member_at I3ipc_reply_command_el ''success'') mem) (\<lambda>ok.
         if ok then failed_commands n (Suc i) a mem c
         else obind (read_pointer (el + member_at I3ipc_reply_command_el ''error'') mem) (\<lambda>_.
              obind (error_handle I3IPC_ERROR_FAILED c) (\<lambda>(_, c1). failed_commands n (Suc i) a mem c1))))"

definition run_command_simple :: "byte list option \<Rightarrow> i3 \<Rightarrow> i3 outcome" where
  "run_command_simple command c =
     obind (with_staticalloc (run_command command) c) (\<lambda>(reply, c1).
       case reply of
         None \<Rightarrow> Ret c1
       | Some mem \<Rightarrow>
           obind (read_int (member_at I3ipc_reply_command ''commands_size'') mem) (\<lambda>n.
             if n \<le> 0 then Ret c1
             else obind (read_pointer (member_at I3ipc_reply_command ''commands'') mem) (\<lambda>p.
                    case p of At a \<Rightarrow> failed_commands (nat n) 0 a mem c1 | _ \<Rightarrow> Undefined)))"

definition get_version_simple :: "i3 \<Rightarrow> ((int \<times> int \<times> int) option \<times> i3) outcome" where
  "get_version_simple c =
     obind (with_staticalloc get_version c) (\<lambda>(reply, c1).
       case reply of
         None \<Rightarrow> Ret (None, c1)
       | Some mem \<Rightarrow>
           obind (read_int (member_at I3ipc_reply_version ''major'') mem) (\<lambda>major.
           obind (read_int (member_at I3ipc_reply_version ''minor'') mem) (\<lambda>minor.
           obind (read_int (member_at I3ipc_reply_version ''patch'') mem) (\<lambda>patch.
             Ret (Some (major, minor, patch), c1)))))"

text \<open>Replies that are a flag.\<close>

definition check_success :: "c_type \<Rightarrow> cell list \<Rightarrow> i3 \<Rightarrow> i3 outcome" where
  "check_success T mem c =
     obind (read_bool (member_at T ''success'') mem) (\<lambda>ok.
       if ok then Ret c else obind (error_handle I3IPC_ERROR_MALFORMED c) (\<lambda>(_, c1). Ret c1))"

definition send_tick :: "byte list option \<Rightarrow> i3 \<Rightarrow> i3 outcome" where
  "send_tick payload c =
     obind (with_staticalloc (i3_request I3IPC_SEND_TICK I3IPC_TYPE_REPLY_TICK payload (- 1)) c) (\<lambda>(reply, c1).
       case reply of None \<Rightarrow> Ret c1 | Some mem \<Rightarrow> check_success I3ipc_reply_tick mem c1)"

section \<open>Subscribing to events\<close>

fun event_names :: "int list \<Rightarrow> string list outcome" where
  "event_names [] = Ret []"
| "event_names (ev # evs) =
     assert_then (I3IPC_EVENT_TYPE_BEGIN \<le> ev \<and> ev < I3IPC_EVENT_TYPE_END)
       (obind (event_names evs) (\<lambda>r. Ret (global_event_type_name ! nat (ev - I3IPC_EVENT_TYPE_BEGIN) # r)))"

text \<open>The size that is computed first and the text that is then written.\<close>

fun subscribe_size :: "nat \<Rightarrow> string list \<Rightarrow> nat" where
  "subscribe_size i [] = 0"
| "subscribe_size i (c # cs) = (if 0 < i then 1 else 0) + 2 + length c + subscribe_size (Suc i) cs"

fun subscribe_items :: "nat \<Rightarrow> string list \<Rightarrow> byte list" where
  "subscribe_items i [] = []"
| "subscribe_items i (c # cs) =
     (if i \<noteq> 0 then [44] else []) @ [34] @ take 256 (bytes c) @ [34] @ subscribe_items (Suc i) cs"

definition subscribe_text :: "string list \<Rightarrow> byte list" where
  "subscribe_text cs = [91] @ subscribe_items 0 cs @ [93]"

definition payload_buffer :: "byte list \<Rightarrow> i3 \<Rightarrow> i3" where
  "payload_buffer s c = c\<lparr>buffers := (buffers c)(CONTEXT_PAYLOAD := store_at 0 s (buffers c CONTEXT_PAYLOAD))\<rparr>"

definition subscribe :: "int list \<Rightarrow> i3 \<Rightarrow> i3 outcome" where
  "subscribe event_type c =
     obind (event_names event_type) (\<lambda>names.
       let n = 2 + subscribe_size 0 names;
           s = subscribe_text names;
           c1 = payload_buffer (s @ [0]) (context_reserve CONTEXT_PAYLOAD (n + 1) c)
       in assert_then (length s = n)
            (obind (message_send_try I3IPC_SUBSCRIBE (Some (buffers c1 CONTEXT_PAYLOAD)) (int n) c1) (\<lambda>(code, c2).
               if code \<noteq> 0 then Ret c2
               else obind (message_receive_reorder_try I3IPC_REPLY_SUBSCRIBE c2) (\<lambda>(code, c3).
                 if code \<noteq> 0 then Ret c3
                 else obind (parse_try I3IPC_REPLY_SUBSCRIBE I3IPC_TYPE_REPLY_SUBSCRIBE c3) (\<lambda>(code, data, c4).
                   if code \<noteq> 0 then Ret c4
                   else case data of None \<Rightarrow> Undefined
                        | Some mem \<Rightarrow> check_success I3ipc_reply_subscribe mem c4)))))"

definition subscribe_single :: "int \<Rightarrow> i3 \<Rightarrow> i3 outcome" where
  "subscribe_single event_type = subscribe [event_type]"

section \<open>The synchronisation message\<close>

definition sync_template :: "byte list" where
  "sync_template = bytes (''{'' @ [CHR 0x22] @ ''rnd'' @ [CHR 0x22] @ '':         @,'' @
     [CHR 0x22] @ ''window'' @ [CHR 0x22] @ '':                   #}'')"

text \<open>The digits of a number, from the last one on, towards the front of the buffer.\<close>

fun put_digits :: "nat \<Rightarrow> int \<Rightarrow> nat \<Rightarrow> byte list \<Rightarrow> byte list outcome" where
  "put_digits 0 pos val buf = Ret buf"
| "put_digits (Suc n) pos val buf =
     (if pos < 0 \<or> int (length buf) \<le> pos then Undefined
      else let buf1 = buf[nat pos := of_nat (val mod 10)]
           in if val div 10 = 0 then Ret buf1 else put_digits n (pos - 1) (val div 10) buf1)"

definition last_index :: "byte \<Rightarrow> byte list \<Rightarrow> int" where
  "last_index b s = fold (\<lambda>i k. if s ! i = b then int i else k) [0..<length s] (- 1)"

definition sync_digits :: "int \<Rightarrow> 64 word \<Rightarrow> byte list outcome" where
  "sync_digits random_value window =
     (let s0 = last_index 64 sync_template; s1 = last_index 35 sync_template
      in assert_then (s0 \<noteq> 0 \<and> s1 \<noteq> 0)
           (obind (put_digits 10 s0 (unat (word_of_int random_value :: 32 word)) sync_template) (\<lambda>buf1.
              put_digits 20 s0 (unat window) buf1)))"

definition sync :: "int \<Rightarrow> 64 word \<Rightarrow> i3 \<Rightarrow> i3 outcome" where
  "sync random_value window c =
     (if error_code c \<noteq> 0 then Ret c
      else obind (sync_digits random_value window) (\<lambda>buf.
        let s = filter (\<lambda>b. b \<noteq> 32) buf;
            c1 = payload_buffer s (payload_buffer buf
                   (context_reserve CONTEXT_PAYLOAD (length sync_template + 1) c))
        in obind (with_staticalloc (i3_request I3IPC_SYNC I3IPC_TYPE_REPLY_SYNC (Some (buffers c1 CONTEXT_PAYLOAD))
                   (int (length s))) c1) (\<lambda>(reply, c2).
             case reply of None \<Rightarrow> Ret c2 | Some mem \<Rightarrow> check_success I3ipc_reply_sync mem c2)))"

section \<open>Events\<close>

datatype poll_flag = POLLIN | POLLERR | POLLHUP | POLLNVAL

datatype poll_result = Poll_failed | Poll_timeout | Poll_ready "poll_flag set"

text \<open>
  \<open>i3ipc_event_next\<close>.  What \<open>poll\<close> reports in \<open>revents\<close> is not looked at; the tests are on the flags
  that were asked for.
\<close>

definition wanted_events :: "poll_flag set" where
  "wanted_events = {POLLIN}"

definition event_next :: "poll_result \<Rightarrow> i3 \<Rightarrow> (reply \<times> i3) outcome" where
  "event_next polled c =
     (if error_code c \<noteq> 0 then Ret (None, c)
      else let handle = (\<lambda>k c. obind (error_handle k c) (\<lambda>(_, c1). Ret (None, c1)))
      in case polled of
           Poll_failed \<Rightarrow> handle I3IPC_ERROR_IO c
         | Poll_timeout \<Rightarrow> Ret (None, c)
         | Poll_ready revents \<Rightarrow>
             assert_then (POLLNVAL \<notin> wanted_events)
               (if POLLIN \<notin> wanted_events \<and> wanted_events \<inter> {POLLERR, POLLHUP} \<noteq> {} then handle I3IPC_ERROR_CLOSED c
                else obind (message_receive_reorder_try I3IPC_EVENT_ANY c) (\<lambda>(code, c1).
                  if code \<noteq> 0 then Ret (None, c1)
                  else let t = message_type (buffers c1 CONTEXT_MSG)
                       in case message_type_to_event t of
                            None \<Rightarrow> obind (message_type_str t True) (\<lambda>_. handle I3IPC_ERROR_MALFORMED c1)
                          | Some T \<Rightarrow>
                              obind (parse_try t T c1) (\<lambda>(code, data, c2).
                                if code \<noteq> 0 then Ret (None, c2)
                                else case data of
                                       None \<Rightarrow> Undefined
                                     | Some mem \<Rightarrow> obind (put (member_at I3ipc_event ''type'') (int_cells t) mem) (\<lambda>mem1.
                                         Ret (Some mem1, c2))))))"

section \<open>A request and its answer\<close>

lemma send_Ret0_state:
  "message_send_try t p n c = Ret (0, c') \<Longrightarrow> state c' = I3IPC_STATE_READY"
  by (auto simp: message_send_try_def assert_then_Ret obind_Ret split: if_splits dest!: init_success send_message_settled)

lemma message_type_store_at:
  "sizeof_message \<le> length buf \<Longrightarrow> message_type (store_at (sizeof_message + n) bs buf) = message_type buf"
  by (simp add: store_at_def message_type_def sizeof_message_def drop_take)

lemma receive_Ret0_type:
  assumes "message_receive_try t c = Ret (0, c')" "t \<noteq> I3IPC_EVENT_ANY"
  shows "message_type (buffers c' CONTEXT_MSG) = t"
proof -
  from assms(1) obtain c1 s over code c2 where
    1: "receive_block s (context_reserve CONTEXT_MSG sizeof_message c1) = Ret (over, code, c2)"
    and 2: "receive_finish t (over, code, c2) = Ret (0, c')"
    by (auto simp: message_receive_try_def obind_Ret split: if_splits)
  have 3: "\<not> over" "code = 0"
    using receive_finish_Ret0 [OF 2] receive_block_over 1 by (metis (full_types))+
  have "sizeof_message \<le> length (buffers (context_reserve CONTEXT_MSG sizeof_message c1) CONTEXT_MSG)"
    by (rule reserve_length)
  from receive_block_buffer(2) [OF 1 [unfolded 3(2) eq_False [THEN iffD2, OF 3(1)]] this]
  have l: "sizeof_message \<le> length (buffers c2 CONTEXT_MSG)" by simp
  have "c' = c2\<lparr>buffers := (buffers c2)(CONTEXT_MSG :=
      store_at (sizeof_message + nat (message_length (buffers c2 CONTEXT_MSG))) [0] (buffers c2 CONTEXT_MSG))\<rparr>"
    "message_type (buffers c2 CONTEXT_MSG) = t"
    using 2 3 assms(2) by (auto simp: receive_finish_def type_matches_def Let_def obind_Ret i3codes split: if_splits)
  then show ?thesis using l by (simp add: message_type_store_at)
qed

text \<open>
  C4 (functional): A request to a server whose answer is the text of a JSON value, however it is split into pieces:
  the call returns the null pointer and leaves the error state if the value has not the shape of the reply's
  type, and otherwise the memory that represents it; what follows the answer is still in the socket.
\<close>

theorem request_delivers_value:
  assumes "message_send_try message payload n c = Ret (0, a)" "error_code c = 0" "nopanic a"
    and "message_type_to_socket message a = Ret s" "stream (incoming (conns a s)) = wire message (print_json v) @ rest"
    and "payload_fits (print_json v)" "int32 message" "usable T {}" "numbers_ok v" "distinct_keys v"
  shows "\<exists>reply c2. i3_request message T payload n c = Ret (reply, c2) \<and>
    (if shaped T {} v then \<exists>mem. reply = Some mem \<and> represents mem 0 (length mem) T {} 0 v
     else reply = None \<and> error_code c2 = I3IPC_ERROR_MALFORMED)"
proof -
  have st: "state a = I3IPC_STATE_READY" by (rule send_Ret0_state [OF assms(1)])
  have "type_matches message message" by (simp add: type_matches_def)
  from receive_wire [OF st assms(4,5,6,7) this] obtain ios r where
    r: "message_receive_try message a = Ret (0, received a s ios (wire message (print_json v) @ 0 # r))" by blast
  let ?c1 = "received a s ios (wire message (print_json v) @ 0 # r)"
  have c1: "state ?c1 = I3IPC_STATE_READY" "nopanic ?c1" "message_type (buffers ?c1 CONTEXT_MSG) = message"
    "message_payload (buffers ?c1 CONTEXT_MSG) = print_json v"
    using st assms(3,6,7) by (simp_all add: received_def set_conn_def payload_of_wire)
  obtain code data c2 where p: "parse_try message T ?c1 = Ret (code, data, c2)"
    "if shaped T {} v then code = 0 \<and> (\<exists>mem. data = Some mem \<and> represents mem 0 (length mem) T {} 0 v)
     else code = I3IPC_ERROR_MALFORMED \<and> data = None \<and> state c2 = I3IPC_ERROR_MALFORMED"
    using parse_printed [OF c1(1,2) assms(8) c1(3,4) assms(9,10)] by blast
  have "error_code c2 = I3IPC_ERROR_MALFORMED" if "state c2 = I3IPC_ERROR_MALFORMED"
    using that by (simp add: error_code_def i3codes)
  then show ?thesis
    using p r assms(1,2) by (auto simp: i3_request_def message_and_parse_try_def message_try_def split: if_splits)
qed

text \<open>
  A request that was answered by a message of the right type ends: with the parsed reply, or with
  the null pointer and the error state that every later call reports.
\<close>

theorem request_returns:
  assumes "message_try message payload n c = Ret (0, c1)" "error_code c = 0" "nopanic c1"
    and "usable T {}" "message \<noteq> I3IPC_EVENT_ANY"
  shows "\<exists>reply c2. i3_request message T payload n c = Ret (reply, c2) \<and>
    (case reply of
       Some mem \<Rightarrow> tsize (described T) \<le> length mem
     | None \<Rightarrow> error_code c2 = I3IPC_ERROR_MALFORMED \<and>
         (\<forall>m T' p k. i3_request m T' p k c2 = Ret (None, c2)))"
proof -
  from assms(1) obtain c0 where s: "message_send_try message payload n c = Ret (0, c0)"
    and r: "message_receive_try message c0 = Ret (0, c1)"
    by (auto simp: message_try_def obind_Ret split: if_splits)
  have st: "state c1 = I3IPC_STATE_READY"
    using receive_settled [OF send_Ret0_state [OF s] r] by simp
  obtain code data c2 where p: "parse_try message T c1 = Ret (code, data, c2)"
    "code = 0 \<and> (\<exists>mem. data = Some mem \<and> tsize (described T) \<le> length mem) \<or>
     code = I3IPC_ERROR_MALFORMED \<and> data = None \<and> state c2 = I3IPC_ERROR_MALFORMED"
    using parse_try_parsed [OF st assms(3,4) receive_Ret0_type [OF r assms(5)]] by blast
  have e: "error_code c2 = I3IPC_ERROR_MALFORMED" if "state c2 = I3IPC_ERROR_MALFORMED"
    using that by (simp add: error_code_def i3codes)
  have "i3_request m T' q k c2 = Ret (None, c2)" if "error_code c2 = I3IPC_ERROR_MALFORMED" for m T' q k
    using that by (simp add: i3_request_def message_and_parse_try_def i3codes)
  then show ?thesis
    using p e assms(1,2) by (auto simp: i3_request_def message_and_parse_try_def)
qed

section \<open>The text of a subscription\<close>

lemma subscribe_items_length:
  "list_all (\<lambda>c. length c \<le> 256) cs \<Longrightarrow> length (subscribe_items i cs) = subscribe_size i cs"
  by (induction i cs rule: subscribe_size.induct) simp_all

lemma event_names_known: "event_names evs = Ret cs \<Longrightarrow> set cs \<subseteq> set global_event_type_name"
proof (induction evs arbitrary: cs)
  case (Cons ev evs)
  then obtain r where r: "event_names evs = Ret r" "cs = global_event_type_name ! nat (ev - I3IPC_EVENT_TYPE_BEGIN) # r"
    "I3IPC_EVENT_TYPE_BEGIN \<le> ev" "ev < I3IPC_EVENT_TYPE_END"
    by (auto simp: assert_then_Ret obind_Ret)
  have "nat (ev - I3IPC_EVENT_TYPE_BEGIN) < length global_event_type_name"
    using r(3,4) by (simp add: i3codes global_event_type_name_def)
  then show ?case using Cons.IH [OF r(1)] r(2) nth_mem by auto
qed simp

lemma event_name_plain: "c \<in> set global_event_type_name \<Longrightarrow> print_string (bytes c) = [34] @ bytes c @ [34] \<and> length c \<le> 256"
  by (auto simp: global_event_type_name_def print_string_def printjson_string_def print_chars_def print_char_def bytes_def Let_def)

lemma subscribe_items_commas:
  "set cs \<subseteq> set global_event_type_name \<Longrightarrow> cs \<noteq> [] \<Longrightarrow>
     subscribe_items i cs = (if i \<noteq> 0 then [44] else []) @ commas 44 (map (\<lambda>c. print_string (bytes c)) cs)"
proof (induction i cs rule: subscribe_items.induct)
  case (2 i c cs)
  then show ?case using event_name_plain [of c] by (cases cs) (simp_all add: commas_Cons)
qed simp

text \<open>
  C25 (functional): The text that is sent to subscribe is the JSON array of the names of the events, and it has the
  size that was computed for it.
\<close>

theorem subscribe_sends_json:
  assumes "event_names evs = Ret names"
  shows "subscribe_text names = print_json (JArr (map (\<lambda>c. JString (bytes c)) names)) \<and>
    length (subscribe_text names) = 2 + subscribe_size 0 names"
proof -
  note k = event_names_known [OF assms]
  have "list_all (\<lambda>c. length c \<le> 256) names" using k event_name_plain by (auto simp: list_all_iff)
  then have "length (subscribe_text names) = 2 + subscribe_size 0 names"
    by (simp add: subscribe_text_def subscribe_items_length)
  moreover have "subscribe_text names = print_json (JArr (map (\<lambda>c. JString (bytes c)) names))"
    using subscribe_items_commas [OF k, of 0]
    by (cases "names = []") (simp_all add: subscribe_text_def comp_def)
  ultimately show ?thesis by simp
qed

section \<open>What does not work\<close>

text \<open>
  An event that arrived while a reply was waited for is in the queue, but it is not delivered before
  another one arrives: without one, \<open>poll\<close> times out.
\<close>

lemma queued_event_waits: "event_next Poll_timeout c = Ret (None, c)"
  by (simp add: event_next_def Let_def)

text \<open>
  The number of the window is written over that of the client, as bytes that are not digits of
  ASCII, and the sign that marks its place is left in the message.  A number of 18 digits or more
  is written in front of the buffer.
\<close>

lemma sync_template_eq: "length sync_template = 48" "sync_template ! 46 = 35"
  "last_index 64 sync_template = 16" "last_index 35 sync_template = 46"
  by (simp_all add: sync_template_def last_index_def bytes_def upt_conv_Cons)

lemma put_digits_frame:
  "put_digits n pos val buf = Ret buf' \<Longrightarrow> length buf' = length buf \<and> (\<forall>k. pos < int k \<longrightarrow> buf' ! k = buf ! k)"
proof (induction n pos val buf rule: put_digits.induct)
  case (2 n pos val buf)
  then show ?case by (auto simp: Let_def nth_list_update split: if_splits)
qed simp

lemma put_digits_first:
  "put_digits (Suc n) pos val buf = Ret buf' \<Longrightarrow> buf' ! nat pos = of_nat (val mod 10)"
  using put_digits_frame [of n "pos - 1" "val div 10" "buf[nat pos := of_nat (val mod 10)]" buf']
  by (auto simp: Let_def split: if_splits)

lemma put_digits_front: "10 ^ nat pos \<le> val div 10 \<Longrightarrow> nat pos < n \<Longrightarrow> 0 \<le> pos \<Longrightarrow> put_digits (Suc n) pos val buf = Undefined"
proof (induction n arbitrary: pos val buf)
  case (Suc n)
  show ?case
  proof (cases "pos = 0")
    case True
    then show ?thesis using Suc.prems by (simp add: Let_def)
  next
    case False
    then have p: "nat pos = Suc (nat (pos - 1))" using Suc.prems by simp
    then have "10 ^ nat (pos - 1) \<le> val div 10 div 10" using Suc.prems(1) by (simp add: less_eq_div_iff_mult_less_eq mult.commute)
    then have ih: "put_digits (Suc n) (pos - 1) (val div 10) b = Undefined" for b
      using Suc.IH [of "pos - 1" "val div 10" b] Suc.prems p False by simp
    have "val div 10 \<noteq> 0" using Suc.prems(1) by (cases "val div 10") simp_all
    then show ?thesis by (subst put_digits.simps(2)) (simp add: ih Let_def del: put_digits.simps)
  qed
qed simp

lemma sync_message_broken:
  "sync_digits random_value window = Ret buf \<Longrightarrow>
     35 \<in> set (filter (\<lambda>b. b \<noteq> 32) buf) \<and> buf ! 16 = of_nat (unat window mod 10)"
  "10 ^ 17 \<le> unat window \<Longrightarrow> sync_digits random_value window \<noteq> Ret buf"
proof -
  assume s: "sync_digits random_value window = Ret buf"
  have "obind (put_digits 10 16 (unat (word_of_int random_value :: 32 word)) sync_template)
      (put_digits 20 16 (unat window)) = Ret buf"
    using s unfolding sync_digits_def Let_def sync_template_eq assert_then_Ret by blast
  then obtain buf1 where 1: "put_digits 10 16 (unat (word_of_int random_value :: 32 word)) sync_template = Ret buf1"
    and 2: "put_digits 20 16 (unat window) buf1 = Ret buf"
    unfolding obind_Ret by blast
  have "length buf = 48" "buf ! 46 = 35"
    using put_digits_frame [OF 1] put_digits_frame [OF 2] by (simp_all add: sync_template_eq)
  then have "35 \<in> set buf" using nth_mem [of 46 buf] by simp
  moreover have "put_digits (Suc 19) 16 (unat window) buf1 = Ret buf" using 2 by (simp del: put_digits.simps)
  from put_digits_first [OF this] have "buf ! 16 = of_nat (unat window mod 10)" by simp
  ultimately show "35 \<in> set (filter (\<lambda>b. b \<noteq> 32) buf) \<and> buf ! 16 = of_nat (unat window mod 10)" by simp
next
  assume "10 ^ 17 \<le> unat window"
  then have "10 ^ nat 16 \<le> unat window div 10" by (simp add: less_eq_div_iff_mult_less_eq)
  then have "put_digits (Suc 19) 16 (unat window) buf1 = Undefined" for buf1 by (rule put_digits_front) simp_all
  then have u: "put_digits 20 16 (unat window) buf1 \<noteq> Ret buf" for buf1 buf by (simp del: put_digits.simps)
  show "sync_digits random_value window \<noteq> Ret buf"
    unfolding sync_digits_def Let_def sync_template_eq using u by (simp add: obind_Ret del: put_digits.simps)
qed

text \<open>A comma is printed in front of every field but the first of the table, also when nothing was printed before.\<close>

lemma event_mode_fields:
  "type_fields (described I3IPC_TYPE_EVENT_MODE) =
     [\<lparr>ftype = I3IPC_TYPE_CHAR, flags = {ISARRAY}, fname = ''change'', foffset = 8,
        full_name = ''I3ipc_event_mode.change'', json_name = Some ''change''\<rparr>,
      \<lparr>ftype = I3IPC_TYPE_INT, flags = {ISSIZE}, fname = ''change_size'', foffset = 16,
        full_name = ''I3ipc_event_mode.change_size'', json_name = Some ''change_size''\<rparr>,
      \<lparr>ftype = I3IPC_TYPE_BOOL, flags = {}, fname = ''pango_markup'', foffset = 20,
        full_name = ''I3ipc_event_mode.pango_markup'', json_name = Some ''pango_markup''\<rparr>]"
  "\<not> is_inline (described I3IPC_TYPE_EVENT_MODE)" "\<not> is_primitive (described I3IPC_TYPE_EVENT_MODE)"
  by (simp_all add: described_def set_json_name_def fields_event_mode_def I3ipc_event_mode_def field_defs
      offsetof_def align_up_def primitive_types_def)

lemma bool_plain: "\<not> is_inline (described I3IPC_TYPE_BOOL)" "is_primitive (described I3IPC_TYPE_BOOL)"
  by (simp_all add: described_def primitive_types_def)

lemma comma_in_front:
  "printjson 2 I3IPC_TYPE_EVENT_MODE (replicate 24 (Byte 0)) c =
     (if error_code c \<noteq> 0 then Ret [] else Ret (bytes (''{,'' @ [CHR 0x22] @ ''pango_markup'' @ [CHR 0x22] @ '':false}'')))"
proof -
  let ?mem = "replicate 24 (Byte 0)" and ?T = "described I3IPC_TYPE_EVENT_MODE"
  have r: "get_cells off n ?mem = Ret (replicate n (Byte 0))" if "off + n \<le> 24" for off n
    using that by (simp add: get_cells_def)
  have b: "cell_bytes (replicate n (Byte 0)) = Ret (replicate n 0)" for n by (induction n) simp_all
  have 0: "print_field H ?T 0 0 ?mem = Ret []" for H
    by (simp add: print_field_def field_printed_def event_mode_fields type_readderived_def derived_def GROUP_DERIVED_def
        read_int_def read_bytes_def r b field_is_set.simps numeral_2_eq_2 is_string_type_def not_null_def)
  have 1: "print_field H ?T 1 0 ?mem = Ret []" for H
    by (simp add: print_field_def event_mode_fields derived_def GROUP_DERIVED_def)
  have h: "printjson_helper 1 I3IPC_TYPE_BOOL {} 20 (- 1) ?mem = Ret (bytes ''false'')"
    by (simp add: print_step_def is_string_type_def bool_plain print_primitive_def read_bool_def read_bytes_def r b)
  have 2: "print_field (printjson_helper 1) ?T 2 0 ?mem =
      Ret (44 # fst (printjson_string (bytes ''pango_markup'') (- 1) False) @ 58 # bytes ''false'')"
    using h by (simp add: print_field_def field_printed_def event_mode_fields type_readderived_def derived_def
        field_is_set.simps numeral_2_eq_2 is_string_type_def bool_plain GROUP_DERIVED_def)
  have s: "fst (printjson_string (bytes ''pango_markup'') (- 1) False) = [34] @ bytes ''pango_markup'' @ [34]"
    by (simp add: printjson_string_def print_chars_def print_char_def bytes_def Let_def cstr_def)
  have "[0..<length (type_fields ?T)] = [0, 1, 2]" by (simp add: event_mode_fields upt_conv_Cons)
  then have "print_fields (printjson_helper 1) ?T [0..<length (type_fields ?T)] 0 ?mem =
      Ret (44 # 34 # bytes ''pango_markup'' @ 34 # 58 # bytes ''false'')"
    using 0 1 2 s by simp
  then have "printjson_helper 2 I3IPC_TYPE_EVENT_MODE {} 0 (- 1) ?mem =
      Ret (bytes (''{,'' @ [CHR 0x22] @ ''pango_markup'' @ [CHR 0x22] @ '':false}''))"
    by (simp add: print_step_def numeral_2_eq_2 is_string_type_def event_mode_fields(2,3) bytes_def)
  then show ?thesis by (simp add: printjson_def)
qed

section \<open>A request on a demo connection\<close>

lemma demo_command_sent:
  "\<exists>a'. message_send_try I3IPC_RUN_COMMAND (Some demo_payload) 2 (demo_i3 1 ios) = Ret (0, a') \<and>
     state a' = I3IPC_STATE_READY \<and> sock a' = 3 \<and> incoming (conns a' 3) = ios \<and> nopanic a'"
proof -
  let ?c = "context_reserve CONTEXT_MSG (sizeof_message + 2) ((demo_i3 1 ios)\<lparr>globals_initialized := True\<rparr>)"
  have f: "fill_message I3IPC_RUN_COMMAND (Some demo_payload) 2 (buffers ?c CONTEXT_MSG) =
      Ret (wire I3IPC_RUN_COMMAND demo_payload)"
    by (simp add: fill_message_def has_payload_def reserve_extends grown_def sizeof_message_def wire_def
        store_at_def demo_payload_def)
  have l: "length (wire I3IPC_RUN_COMMAND demo_payload) = 16"
    by (simp add: sizeof_message_def demo_payload_def)
  have m: "message_length (wire I3IPC_RUN_COMMAND demo_payload) = 2"
    by (simp add: demo_payload_def [symmetric]) (simp add: demo_payload_def)
  have "0 \<le> I3IPC_RUN_COMMAND" "I3IPC_RUN_COMMAND < I3IPC_MESSAGE_TYPE_COUNT" "0 \<noteq> I3IPC_WRITE_ALL_EOF"
    by (simp_all add: i3codes)
  moreover have "take (sizeof_message + 2) (wire I3IPC_RUN_COMMAND demo_payload) = wire I3IPC_RUN_COMMAND demo_payload"
    using l by (simp add: sizeof_message_def)
  ultimately show ?thesis
    using f demo_write [OF l] m
    by (simp add: message_send_try_def payload_length_def send_message_def write_to_def set_conn_def Let_def)
qed

lemma demo_command_answered:
  "\<exists>c1. message_try I3IPC_RUN_COMMAND (Some demo_payload) 2 (demo_i3 1 [Bytes (wire I3IPC_RUN_COMMAND (bytes ''[]''))]) =
      Ret (0, c1) \<and> nopanic c1"
proof -
  obtain a' where a: "message_send_try I3IPC_RUN_COMMAND (Some demo_payload) 2
      (demo_i3 1 [Bytes (wire I3IPC_RUN_COMMAND (bytes ''[]''))]) = Ret (0, a')"
    "state a' = I3IPC_STATE_READY" "sock a' = 3" "incoming (conns a' 3) = [Bytes (wire I3IPC_RUN_COMMAND (bytes ''[]''))]"
    "nopanic a'"
    using demo_command_sent by blast
  have s: "message_type_to_socket I3IPC_RUN_COMMAND a' = Ret 3" using a(3) by (simp add: message_type_to_socket_def i3codes)
  have "stream (incoming (conns a' 3)) = wire I3IPC_RUN_COMMAND (bytes ''[]'') @ []" using a(4) by simp
  from receive_wire [OF a(2) s this] obtain ios r where
    "message_receive_try I3IPC_RUN_COMMAND a' = Ret (0, received a' 3 ios (wire I3IPC_RUN_COMMAND (bytes ''[]'') @ 0 # r))"
    by (auto simp: payload_fits_def size_max_def sizeof_message_def bytes_def int32_def i3codes type_matches_def)
  then show ?thesis using a(1,5) by (simp add: message_try_def received_def set_conn_def)
qed

theorem request_returns_witness:
  "\<exists>reply c2. i3_request I3IPC_RUN_COMMAND I3IPC_TYPE_REPLY_COMMAND (Some demo_payload) 2
      (demo_i3 1 [Bytes (wire I3IPC_RUN_COMMAND (bytes ''[]''))]) = Ret (reply, c2) \<and>
    (reply = None \<or> 16 \<le> length (the reply))"
proof -
  obtain c1 where c1: "message_try I3IPC_RUN_COMMAND (Some demo_payload) 2
      (demo_i3 1 [Bytes (wire I3IPC_RUN_COMMAND (bytes ''[]''))]) = Ret (0, c1)" "nopanic c1"
    using demo_command_answered by blast
  have "tsize (described I3IPC_TYPE_REPLY_COMMAND) = 16"
    by (simp add: tsize_described I3ipc_reply_command_def align_up_def)
  moreover have "error_code (demo_i3 1 [Bytes (wire I3IPC_RUN_COMMAND (bytes ''[]''))]) = 0"
    "usable I3IPC_TYPE_REPLY_COMMAND {}" "I3IPC_RUN_COMMAND \<noteq> I3IPC_EVENT_ANY"
    by (simp_all add: usable_def error_code_def i3codes)
  ultimately obtain reply c2 where
    "i3_request I3IPC_RUN_COMMAND I3IPC_TYPE_REPLY_COMMAND (Some demo_payload) 2
      (demo_i3 1 [Bytes (wire I3IPC_RUN_COMMAND (bytes ''[]''))]) = Ret (reply, c2)"
    "reply \<noteq> None \<longrightarrow> 16 \<le> length (the reply)"
    using request_returns [OF c1(1) _ c1(2), of I3IPC_TYPE_REPLY_COMMAND] by (fastforce split: option.splits)
  then show ?thesis by (intro exI [of _ reply] exI [of _ c2]) blast
qed

text \<open>The answer that the command succeeded.\<close>

definition demo_success :: json where
  "demo_success = JArr [JObj [(bytes ''success'', JBool True)]]"

lemma demo_success_shaped: "shaped I3IPC_TYPE_REPLY_COMMAND {} demo_success"
proof -
  let ?T = I3IPC_TYPE_REPLY_COMMAND and ?E = I3IPC_TYPE_REPLY_COMMAND_EL
  let ?fs = "type_fields (described ?E)"
  have T: "is_inline (described ?T)" "ftype (type_fields (described ?T) ! 0) = ?E" "flags (type_fields (described ?T) ! 0) = {ISARRAY}"
    by (simp_all add: described_def outer_fields field_defs)
  have E: "\<not> is_inline (described ?E)" "\<not> is_primitive (described ?E)" by (simp_all add: described_def primitive_types_def)
  have f: "find_field 0 ?fs (bytes ''success'') = Some 0" "ftype (?fs ! 0) = I3IPC_TYPE_BOOL" "flags (?fs ! 0) = {}"
    by (simp_all add: described_def outer_fields field_defs set_json_name_def derived_def bytes_def cstr_def)
  have "shaped ?E {} (JObj [(bytes ''success'', JBool True)])"
    by (rule shaped.object) (use E f in \<open>auto intro: shaped.bool\<close>)
  then have "shaped ?E {ISARRAY} demo_success"
    unfolding demo_success_def by (intro shaped.array) (simp_all add: GROUP_MAYBE_def)
  then show ?thesis by (intro shaped.inlined [OF T(1) _ refl]) (simp_all add: T)
qed

theorem request_delivers_value_witness:
  "\<exists>mem c2. i3_request I3IPC_RUN_COMMAND I3IPC_TYPE_REPLY_COMMAND (Some demo_payload) 2
      (demo_i3 1 [Bytes (wire I3IPC_RUN_COMMAND (print_json demo_success))]) = Ret (Some mem, c2) \<and>
    represents mem 0 (length mem) I3IPC_TYPE_REPLY_COMMAND {} 0 demo_success"
proof -
  let ?ios = "[Bytes (wire I3IPC_RUN_COMMAND (print_json demo_success))]"
  obtain a where a: "message_send_try I3IPC_RUN_COMMAND (Some demo_payload) 2 (demo_i3 1 ?ios) = Ret (0, a)"
    "sock a = 3" "incoming (conns a 3) = ?ios" "nopanic a"
    using demo_command_sent by blast
  have s: "message_type_to_socket I3IPC_RUN_COMMAND a = Ret 3" using a(2) by (simp add: message_type_to_socket_def i3codes)
  have i: "stream (incoming (conns a 3)) = wire I3IPC_RUN_COMMAND (print_json demo_success) @ []" using a(3) by simp
  have e: "error_code (demo_i3 1 ?ios) = 0" by (simp add: error_code_def i3codes)
  have l: "length (print_json demo_success) = 18" by code_simp
  have "payload_fits (print_json demo_success)" unfolding payload_fits_def l by (simp add: size_max_def)
  moreover have "int32 I3IPC_RUN_COMMAND" "usable I3IPC_TYPE_REPLY_COMMAND {}" "numbers_ok demo_success" "distinct_keys demo_success"
    by (simp_all add: int32_def i3codes usable_def demo_success_def)
  ultimately show ?thesis
    using request_delivers_value [OF a(1) e a(4) s i, where T = I3IPC_TYPE_REPLY_COMMAND] demo_success_shaped by auto
qed

theorem subscribe_sends_json_witness:
  "event_names [- 2147483648] = Ret [''workspace''] \<and> length (subscribe_text [''workspace'']) = 13 \<and>
   subscribe_text [''workspace''] = print_json (JArr [JString (bytes ''workspace'')])"
proof -
  have e: "event_names [- 2147483648] = Ret [''workspace'']" by (simp add: i3codes global_event_type_name_def)
  have n: "2 + subscribe_size 0 [''workspace''] = 13" by simp
  show ?thesis using subscribe_sends_json [OF e] e unfolding n list.map by (intro conjI) (elim conjE, assumption)+
qed

end
