(* ===== verification/DateTime.thy ===== *)
theory DateTime
  imports Element Utf8
begin

text \<open>
  \<open>modules/datetime.h\<close>.  The time and the broken-down local time that \<open>localtime_r\<close> makes of it
  are arguments of the update.
\<close>

section \<open>Definitions\<close>

datatype datetime_handler = ToggleHour

record tm =
  tm_sec :: int
  tm_min :: int
  tm_hour :: int
  tm_mday :: int
  tm_mon :: int
  tm_year :: int
  tm_wday :: int

record datetime = module_base +
  baseElement :: "datetime_handler barElement"
  showHour :: bool
  contentBuf :: "byte list"
  lastSec :: int
  lastMin :: int
  lastHour :: int
  lastMday :: int
  lastWday :: int
  lastMonth :: int
  lastYear :: int

text \<open>The names of the days in UTF-8; the fourth one has four bytes.\<close>

definition dias :: "byte list list" where
  "dias = [bytes ''dom'', bytes ''lun'', bytes ''mar'', [109, 105, 0xc3, 0xa9], bytes ''jue'',
     bytes ''vie'', bytes ''sab'']"

definition write2digits :: "int \<Rightarrow> byte list" where
  "write2digits val = [of_int (48 + cdiv val 10), of_int (48 + cmod val 10)]"

definition year_digits :: "int \<Rightarrow> byte list" where
  "year_digits year =
     [of_int (48 + cdiv year 1000), of_int (48 + cdiv (cmod year 1000) 100),
      of_int (48 + cdiv (cmod (cmod year 1000) 100) 10),
      of_int (48 + cmod (cmod (cmod year 1000) 100) 10)]"

definition date_text :: "tm \<Rightarrow> byte list" where
  "date_text t =
     take 3 (dias ! nat (tm_wday t)) @ [32] @ write2digits (tm_mday t) @ [45] @
     write2digits (tm_mon t + 1) @ [45] @ year_digits (tm_year t + 1900)"

definition hour_text :: "tm \<Rightarrow> byte list" where
  "hour_text t =
     [32] @ write2digits (tm_hour t) @ [58] @ write2digits (tm_min t) @ [58] @ write2digits (tm_sec t)"

definition unchanged :: "tm \<Rightarrow> datetime \<Rightarrow> bool" where
  "unchanged t m \<longleftrightarrow> tm_sec t = lastSec m \<and> tm_min t = lastMin m \<and> tm_hour t = lastHour m \<and>
     tm_mday t = lastMday m \<and> tm_wday t = lastWday m \<and> tm_mon t = lastMonth m \<and> tm_year t = lastYear m"

text \<open>Bytes stored at the front of a buffer.\<close>

definition overwrite :: "byte list \<Rightarrow> byte list \<Rightarrow> byte list" where
  "overwrite s buf = s @ drop (length s) buf"

definition update :: "int \<Rightarrow> tm \<Rightarrow> datetime \<Rightarrow> datetime" where
  "update now t m =
     (if unchanged t m then m
      else let m1 = m\<lparr>lastSec := tm_sec t, lastMin := tm_min t, lastHour := tm_hour t,
                      lastMday := tm_mday t, lastWday := tm_wday t, lastMonth := tm_mon t,
                      lastYear := tm_year t\<rparr>;
               s = date_text t @ (if showHour m1 then hour_text t else []);
               buf = overwrite s (contentBuf m1);
               e = baseElement m1
           in m1\<lparr>contentBuf := buf,
                 baseElement := e\<lparr>contentLen := int (length s),
                   content := overwrite (take (length s) buf) (content e), dirtyContent := True\<rparr>,
                 lastUpdate := now\<rparr>)"

text \<open>The handler calls \<open>renderFunction\<close> without looking whether it is set.\<close>

definition toggle_hour :: "int \<Rightarrow> tm \<Rightarrow> datetime \<Rightarrow> datetime option" where
  "toggle_hour now t m =
     (let m1 = m\<lparr>showHour := \<not> showHour m\<rparr>;
          m2 = update now t (setSecondsPerUpdate (if showHour m1 then 1 else 60) m1)
      in if renderFunction m2 then Some (callRender m2) else None)"

fun run_handler :: "datetime_handler \<Rightarrow> int \<Rightarrow> tm \<Rightarrow> datetime \<Rightarrow> datetime option" where
  "run_handler ToggleHour = toggle_hour"

definition newDateTime :: "32 word \<Rightarrow> datetime" where
  "newDateTime window0 =
     module_base.extend (newModule (bytes ''datetime'') False 1 window0)
       \<lparr>baseElement = setEvent (staticElement\<lparr>moduleName := bytes ''datetime''\<rparr>) CLICK_LEFT ToggleHour,
        showHour = True, contentBuf = replicate 32 0, lastSec = - 1, lastMin = - 1, lastHour = - 1,
        lastMday = - 1, lastWday = - 1, lastMonth = - 1, lastYear = - 1\<rparr>"

definition elements :: "datetime \<Rightarrow> datetime_handler barElement list" where
  "elements m = [baseElement m]"

section \<open>What is shown\<close>

text \<open>Calendar dates, the years with four digits.\<close>

definition calendar :: "tm \<Rightarrow> bool" where
  "calendar t \<longleftrightarrow> 0 \<le> tm_sec t \<and> tm_sec t \<le> 60 \<and> 0 \<le> tm_min t \<and> tm_min t < 60 \<and>
     0 \<le> tm_hour t \<and> tm_hour t < 24 \<and> 1 \<le> tm_mday t \<and> tm_mday t \<le> 31 \<and>
     0 \<le> tm_mon t \<and> tm_mon t < 12 \<and> 0 \<le> tm_year t + 1900 \<and> tm_year t + 1900 < 10000 \<and>
     0 \<le> tm_wday t \<and> tm_wday t < 7"

text \<open>The text never reaches beyond its 23 bytes, so that a zero follows it.\<close>

definition datetime_inv :: "datetime \<Rightarrow> bool" where
  "datetime_inv m \<longleftrightarrow> length (content (baseElement m)) = CONTENT_MAX_LEN \<and> length (contentBuf m) = 32 \<and>
     drop 23 (content (baseElement m)) = replicate 232 0"

lemma of_int_digit: "0 \<le> i \<Longrightarrow> i < 10 \<Longrightarrow> of_int (48 + i) = digit_byte (nat i)"
  by (simp add: digit_byte_def)

lemma write2digits_fmt:
  assumes "0 \<le> i" "i < 100"
  shows "write2digits i = fmt_02d i"
proof -
  have q: "0 \<le> i div 10" "i div 10 < 10" "0 \<le> i mod 10" "i mod 10 < 10"
    using assms by (auto simp: pos_imp_zdiv_nonneg_iff)
  then have n: "nat (i div 10) < 10" by linarith
  have w: "write2digits i = [digit_byte (nat (i div 10)), digit_byte (nat (i mod 10))]"
    using assms(1) of_int_digit [OF q(1,2)] of_int_digit [OF q(3,4)] by (simp add: write2digits_def)
  show ?thesis
  proof (cases "i < 10")
    case True
    then show ?thesis using assms(1) w by (simp add: fmt_02d_def fmt_d_def digit_byte_def)
  next
    case False
    then have "dec (nat i) = dec (nat i div 10) @ [digit_byte (nat i mod 10)]"
      using assms by (intro dec_step) simp
    moreover have "nat i div 10 = nat (i div 10)" "nat i mod 10 = nat (i mod 10)"
      using assms(1) by (simp_all add: nat_div_distrib nat_mod_distrib)
    ultimately show ?thesis using False assms(1) w n by (simp add: fmt_02d_def fmt_d_def)
  qed
qed

lemma dias_ok: "list_all (\<lambda>d. 3 \<le> length d \<and> 0 \<notin> set d) dias" "length dias = 7"
  by (simp_all add: dias_def bytes_def)

lemma dias_nth: "n < 7 \<Longrightarrow> 3 \<le> length (dias ! n) \<and> 0 \<notin> set (dias ! n)"
  using dias_ok unfolding list_all_length by simp

lemma length_texts [simp]:
  "length (hour_text t) = 9" "0 \<le> tm_wday t \<Longrightarrow> tm_wday t < 7 \<Longrightarrow> length (date_text t) = 14"
proof -
  show "length (hour_text t) = 9" by (simp add: hour_text_def write2digits_def)
  assume "0 \<le> tm_wday t" "tm_wday t < 7"
  then have "nat (tm_wday t) < 7" by simp
  then have "length (take 3 (dias ! nat (tm_wday t))) = 3" using dias_nth by simp
  then show "length (date_text t) = 14" by (simp add: date_text_def write2digits_def year_digits_def)
qed

lemma digit_nonzero: "0 \<le> i \<Longrightarrow> i < 10 \<Longrightarrow> (of_int (48 + i) :: byte) \<noteq> 0"
proof -
  assume i: "0 \<le> i" "i < 10"
  then have "nat i < 10" by linarith
  from digit_byte_range [OF this] show ?thesis unfolding of_int_digit [OF i] by auto
qed

lemma write2digits_nonzero: "0 \<le> i \<Longrightarrow> i < 100 \<Longrightarrow> 0 \<notin> set (write2digits i)"
  by (simp add: write2digits_fmt)

lemma year_digits_nonzero:
  assumes "0 \<le> y" "y < 10000"
  shows "0 \<notin> set (year_digits y)"
proof -
  let ?r = "y mod 1000"
  have q: "0 \<le> y div 1000" "y div 1000 < 10" "0 \<le> ?r div 100" "?r div 100 < 10"
    "0 \<le> ?r mod 100 div 10" "?r mod 100 div 10 < 10" "0 \<le> ?r mod 100 mod 10" "?r mod 100 mod 10 < 10"
    using assms by (auto simp: pos_imp_zdiv_nonneg_iff div_less_iff_less_mult)
  show ?thesis
    using digit_nonzero [OF q(1,2)] digit_nonzero [OF q(3,4)] digit_nonzero [OF q(5,6)]
      digit_nonzero [OF q(7,8)] assms(1)
    by (simp add: year_digits_def del: of_int_add)
qed

lemma texts_nonzero:
  assumes "calendar t"
  shows "0 \<notin> set (date_text t)" "0 \<notin> set (hour_text t)"
proof -
  have "nat (tm_wday t) < 7" using assms unfolding calendar_def by linarith
  then have "0 \<notin> set (take 3 (dias ! nat (tm_wday t)))" using dias_nth set_take_subset by fastforce
  moreover have "0 \<notin> set (write2digits (tm_mday t))" "0 \<notin> set (write2digits (tm_mon t + 1))"
    "0 \<notin> set (year_digits (tm_year t + 1900))"
    using assms by (simp_all add: calendar_def write2digits_nonzero year_digits_nonzero)
  ultimately show "0 \<notin> set (date_text t)" by (auto simp: date_text_def)
  have "0 \<notin> set (write2digits (tm_hour t))" "0 \<notin> set (write2digits (tm_min t))" "0 \<notin> set (write2digits (tm_sec t))"
    using assms by (simp_all add: calendar_def write2digits_nonzero)
  then show "0 \<notin> set (hour_text t)" by (auto simp: hour_text_def)
qed

text \<open>What an update that happens leaves in the element.\<close>

lemma update_content:
  assumes "datetime_inv m" "calendar t" "\<not> unchanged t m"
  shows "content (baseElement (update now t m)) =
      (date_text t @ (if showHour m then hour_text t else [])) @
      drop (if showHour m then 23 else 14) (content (baseElement m))"
    "datetime_inv (update now t m)" "showHour (update now t m) = showHour m"
proof -
  have l: "length (date_text t) = 14" using assms(2) by (simp add: calendar_def)
  show c: "content (baseElement (update now t m)) =
      (date_text t @ (if showHour m then hour_text t else [])) @
      drop (if showHour m then 23 else 14) (content (baseElement m))"
    using assms(3) l by (simp add: update_def Let_def overwrite_def)
  have "drop 23 (content (baseElement (update now t m))) = drop 23 (content (baseElement m))"
    unfolding c using l by simp
  moreover have "length (content (baseElement (update now t m))) = CONTENT_MAX_LEN"
    unfolding c using assms(1) l by (simp add: datetime_inv_def CONTENT_MAX_LEN_def)
  moreover have "length (contentBuf (update now t m)) = 32"
    using assms(1,3) l by (simp add: update_def Let_def overwrite_def datetime_inv_def)
  ultimately show "datetime_inv (update now t m)" using assms(1) by (simp add: datetime_inv_def)
  show "showHour (update now t m) = showHour m" by (simp add: update_def Let_def)
qed

lemma cstr_zeros:
  assumes "0 \<notin> set s" "n > 0"
  shows "cstr (s @ replicate n 0) = (s :: byte list)"
  using assms by (cases n) (simp_all add: cstr_append_zero)

text \<open>
  An update in a new second shows the day, the date and the time with two digits each, for every
  date with a year of four digits.
\<close>

theorem datetime_display:
  assumes "datetime_inv m" "calendar t" "\<not> unchanged t m" "showHour m"
  shows "element_text (baseElement (update now t m)) =
      take 3 (dias ! nat (tm_wday t)) @ [32] @ fmt_02d (tm_mday t) @ [45] @ fmt_02d (tm_mon t + 1) @
      [45] @ year_digits (tm_year t + 1900) @ [32] @ fmt_02d (tm_hour t) @ [58] @ fmt_02d (tm_min t) @
      [58] @ fmt_02d (tm_sec t) \<and>
    lastUpdate (update now t m) = now \<and> dirtyContent (baseElement (update now t m)) \<and>
    datetime_inv (update now t m)"
proof -
  have z: "drop 23 (content (baseElement m)) = replicate 232 0"
    using assms(1) by (simp add: datetime_inv_def)
  have "element_text (baseElement (update now t m)) = date_text t @ hour_text t"
    using cstr_zeros [of "date_text t @ hour_text t" 232] texts_nonzero [OF assms(2)] assms(4)
    by (simp add: element_text_def update_content(1) [OF assms(1-3)] z)
  moreover have "lastUpdate (update now t m) = now" "dirtyContent (baseElement (update now t m))"
    using assms(3) by (simp_all add: update_def Let_def)
  ultimately show ?thesis
    using assms(2) update_content(2) [OF assms(1-3)]
    by (simp add: date_text_def hour_text_def write2digits_fmt calendar_def)
qed

text \<open>
  The click that should hide the hour does not: in the second of the last update nothing is drawn
  anew, and later the text of the old hour stays behind the new date, because no zero is written.
  From then on the element is only updated once a minute.
\<close>

theorem click_does_not_hide_hour:
  assumes "datetime_inv m" "calendar t" "\<not> unchanged t m" "showHour m" "calendar t'" "renderFunction m"
  shows "\<exists>m2. toggle_hour now' t' (update now t m) = Some m2 \<and> \<not> showHour m2 \<and> secondsPerUpdate m2 = 60 \<and>
    element_text (baseElement m2) = (if unchanged t' (update now t m) then date_text t else date_text t') @ hour_text t"
proof -
  let ?m1 = "update now t m"
  let ?m2 = "setSecondsPerUpdate 60 (?m1\<lparr>showHour := False\<rparr>)"
  note u1 = update_content [OF assms(1-3)]
  have z: "drop 23 (content (baseElement m)) = replicate 232 0"
    using assms(1) by (simp add: datetime_inv_def)
  have l: "length (date_text t) = 14" using assms(2) by (simp add: calendar_def)
  have nz: "0 \<notin> set (date_text t)" "0 \<notin> set (hour_text t)" "0 \<notin> set (date_text t')"
    using texts_nonzero assms(2,5) by blast+
  have c1: "content (baseElement ?m1) = (date_text t @ hour_text t) @ replicate 232 0"
    using u1(1) assms(4) z by simp
  have r: "renderFunction ?m1" using assms(6) by (simp add: update_def Let_def)
  show ?thesis
  proof (cases "unchanged t' ?m1")
    case True
    then have "update now' t' ?m2 = ?m2" by (simp add: update_def unchanged_def setSecondsPerUpdate_def)
    then have "toggle_hour now' t' ?m1 = Some (callRender ?m2)"
      using u1(3) assms(4) r by (simp add: toggle_hour_def setSecondsPerUpdate_def)
    moreover have "element_text (baseElement (callRender ?m2)) = date_text t @ hour_text t"
      using c1 nz cstr_zeros [of "date_text t @ hour_text t" 232]
      by (simp add: element_text_def callRender_def setSecondsPerUpdate_def)
    ultimately show ?thesis using True by (simp add: callRender_def setSecondsPerUpdate_def)
  next
    case False
    have i2: "datetime_inv ?m2" using u1(2) by (simp add: datetime_inv_def setSecondsPerUpdate_def)
    have f2: "\<not> unchanged t' ?m2" using False by (simp add: unchanged_def setSecondsPerUpdate_def)
    note u2 = update_content [OF i2 assms(5) f2, where now = now']
    have "content (baseElement (update now' t' ?m2)) = (date_text t' @ hour_text t) @ replicate 232 0"
      using u2(1) c1 l by (simp add: setSecondsPerUpdate_def)
    then have "element_text (baseElement (update now' t' ?m2)) = date_text t' @ hour_text t"
      using nz cstr_zeros [of "date_text t' @ hour_text t" 232] by (simp add: element_text_def)
    moreover have "renderFunction (update now' t' ?m2)" "secondsPerUpdate (update now' t' ?m2) = 60"
      "\<not> showHour (update now' t' ?m2)"
      using r by (simp_all add: update_def Let_def setSecondsPerUpdate_def)
    ultimately show ?thesis
      using False u1(3) assms(4) by (simp add: toggle_hour_def Let_def callRender_def)
  qed
qed

text \<open>The fourth day is cut inside its last letter, which then swallows the space.\<close>

lemma wednesday_glyph: "tm_wday t = 3 \<Longrightarrow> decodeUtf8Char (drop 2 (date_text t)) = Some (0xe0, 2)"
  by (simp add: date_text_def dias_def bytes_def decodeUtf8Char_def byte_at_def bits_def)

lemma newDateTime_sel [simp]:
  "baseElement (newDateTime w) = setEvent (staticElement\<lparr>moduleName := bytes ''datetime''\<rparr>) CLICK_LEFT ToggleHour"
  "showHour (newDateTime w)" "contentBuf (newDateTime w) = replicate 32 0"
  "lastSec (newDateTime w) = - 1"
  by (simp_all add: newDateTime_def module_base.defs)

lemma datetime_inv_new: "datetime_inv (newDateTime w)"
  by (simp add: datetime_inv_def staticElement_def newBarElement_def CONTENT_MAX_LEN_def)

text \<open>Wednesday, the thirty-first of December 2025, one second before midnight.\<close>

definition demo_tm :: tm where
  "demo_tm = \<lparr>tm_sec = 59, tm_min = 59, tm_hour = 23, tm_mday = 31, tm_mon = 11, tm_year = 125, tm_wday = 3\<rparr>"

lemma demo_tm_ok: "calendar demo_tm" "\<not> unchanged demo_tm (newDateTime w)"
  "\<not> unchanged demo_tm (setRenderFunction (newDateTime w))"
  by (simp_all add: calendar_def demo_tm_def unchanged_def setRenderFunction_def)

theorem datetime_display_witness:
  "drop 4 (element_text (baseElement (update 7 demo_tm (newDateTime 0)))) = bytes ''31-12-2025 23:59:59''"
  using datetime_display [of "newDateTime 0" demo_tm 7] datetime_inv_new demo_tm_ok
  by (simp add: demo_tm_def dias_def year_digits_def bytes_def fmt_02d_def fmt_d_def dec_step digit_byte_def)

theorem click_does_not_hide_hour_witness:
  "\<exists>m2. toggle_hour 8 demo_tm (update 7 demo_tm (setRenderFunction (newDateTime 0))) = Some m2 \<and> \<not> showHour m2 \<and>
     drop 14 (element_text (baseElement m2)) = bytes '' 23:59:59''"
proof -
  let ?m = "setRenderFunction (newDateTime 0)"
  have "datetime_inv ?m" "showHour ?m" "renderFunction ?m"
    using datetime_inv_new [of 0] by (simp_all add: datetime_inv_def setRenderFunction_def)
  then obtain m2 where m2: "toggle_hour 8 demo_tm (update 7 demo_tm ?m) = Some m2" "\<not> showHour m2"
    "element_text (baseElement m2) = date_text demo_tm @ hour_text demo_tm"
    using click_does_not_hide_hour [of ?m demo_tm demo_tm 8 7] demo_tm_ok by (auto split: if_splits)
  have "length (date_text demo_tm) = 14" by (simp add: demo_tm_def)
  then have "drop 14 (element_text (baseElement m2)) = hour_text demo_tm" using m2(3) by simp
  also have "\<dots> = bytes '' 23:59:59''" by (simp add: hour_text_def demo_tm_def write2digits_def bytes_def)
  finally show ?thesis using m2(1,2) by blast
qed

end
