(* ===== verification/Space.thy ===== *)
theory Space
  imports Floats Element Utf8
begin

text \<open>
  \<open>modules/space.h\<close>.  The answer of \<open>statvfs\<close> (\<open>None\<close> when it fails) and the two readings of the
  clock are arguments of the update; \<open>special\<close> is the text that \<open>%.0f\<close> prints for a value that is
  not finite.
\<close>

section \<open>Definitions\<close>

datatype space_handler = NextMode

record statvfs_buf =
  f_bsize :: "64 word"
  f_bavail :: "64 word"
  f_blocks :: "64 word"

text \<open>A percentage that is not a number, or infinite, is \<open>None\<close>.\<close>

record space = module_base +
  baseElement :: "space_handler barElement"
  displayMode :: int
  freeGb :: rat
  usedPercentage :: "rat option"
  cacheUntil :: int

definition ICON_DISK :: "byte list" where
  "ICON_DISK = utf8_encode 0xf0c7"

definition to_gb :: "64 word \<Rightarrow> rat" where
  "to_gb b = db (db (word_rat b) / (1024 * 1024 * 1024))"

definition used_percentage :: "rat \<Rightarrow> rat \<Rightarrow> rat option" where
  "used_percentage used_gb total_gb =
     (if total_gb = 0 then None else Some (db (db (used_gb / total_gb) * 100)))"

definition getSpaceUsage :: "statvfs_buf option \<Rightarrow> int \<Rightarrow> space \<Rightarrow> space" where
  "getSpaceUsage vfs now m =
     (case vfs of
        None \<Rightarrow> m\<lparr>freeGb := 0, usedPercentage := Some 0, cacheUntil := 0\<rparr>
      | Some v \<Rightarrow>
          let used_gb = to_gb ((f_blocks v - f_bavail v) * f_bsize v);
              total_gb = to_gb (f_blocks v * f_bsize v)
          in m\<lparr>freeGb := to_gb (f_bavail v * f_bsize v),
               usedPercentage := used_percentage used_gb total_gb, cacheUntil := now + 1\<rparr>)"

definition mode_text :: "byte list \<Rightarrow> space \<Rightarrow> byte list" where
  "mode_text special m =
     (if cmod (displayMode m) 3 = 2
      then ICON_DISK @ [32] @ (case usedPercentage m of None \<Rightarrow> special | Some p \<Rightarrow> fmt_f 0 p) @ [37]
      else ICON_DISK @ [32] @ fmt_f 2 (freeGb m) @ bytes ''GB'')"

definition update :: "byte list \<Rightarrow> statvfs_buf option \<Rightarrow> int \<Rightarrow> int \<Rightarrow> space \<Rightarrow> space" where
  "update special vfs now1 now2 m =
     (let m1 = getSpaceUsage vfs now1 m
      in m1\<lparr>baseElement := (set_content (mode_text special m1) (baseElement m1))
              \<lparr>foregroundColor := color_of ''#E0AAFF'' (mk_color 224 170 255 255)\<rparr>,
            lastUpdate := now2\<rparr>)"

definition next_mode :: "byte list \<Rightarrow> statvfs_buf option \<Rightarrow> int \<Rightarrow> int \<Rightarrow> space \<Rightarrow> space" where
  "next_mode special vfs now1 now2 m =
     callRender (update special vfs now1 now2 (m\<lparr>displayMode := cmod (displayMode m + 1) 3\<rparr>))"

text \<open>Both buttons have the same handler.\<close>

fun run_handler :: "space_handler \<Rightarrow> byte list \<Rightarrow> statvfs_buf option \<Rightarrow> int \<Rightarrow> int \<Rightarrow> space \<Rightarrow> space" where
  "run_handler NextMode = next_mode"

definition newSpace :: "32 word \<Rightarrow> rat \<Rightarrow> rat option \<Rightarrow> int \<Rightarrow> space" where
  "newSpace window0 free0 used0 cache0 =
     module_base.extend (newModule (bytes ''space'') False 30 window0)
       \<lparr>baseElement = (setEvent (setEvent (staticElement\<lparr>moduleName := ICON_DISK\<rparr>) CLICK_LEFT NextMode)
            CLICK_RIGHT NextMode)\<lparr>foregroundColor := color_of ''#E0AAFF'' (mk_color 224 170 255 255)\<rparr>,
        displayMode = 0, freeGb = free0, usedPercentage = used0, cacheUntil = cache0\<rparr>"

definition elements :: "space \<Rightarrow> space_handler barElement list" where
  "elements m = [baseElement m]"

section \<open>What is shown\<close>

lemma to_gb_mono: "a \<le> b \<Longrightarrow> to_gb a \<le> to_gb b"
  unfolding to_gb_def by (intro rounded_mono divide_right_mono word_rat_mono) simp_all

lemma to_gb_pos [simp]: "0 \<le> to_gb a" "0 < to_gb a \<longleftrightarrow> a \<noteq> 0"
  by (simp_all add: to_gb_def)

lemma to_gb_le: "to_gb a \<le> 10 ^ 11"
proof -
  have "word_rat a \<le> 2 ^ 64" using word_rat_less [of a] by simp
  then have "db (word_rat a) \<le> 2 ^ 64"
    using rounded_exact [of 1 53 64] rounded_mono [of 53 "word_rat a" "2 ^ 64"] by simp
  then have "db (word_rat a) / (1024 * 1024 * 1024) \<le> of_int (2 ^ 34)" by simp
  then have "to_gb a \<le> db (of_int (2 ^ 34))" unfolding to_gb_def by (rule rounded_mono [rotated]) simp
  also have "\<dots> = of_int (2 ^ 34)" by (rule rounded_of_int) simp_all
  finally show ?thesis by simp
qed

lemma used_percentage_range:
  assumes "0 \<le> u" "u \<le> t" "0 < t"
  shows "\<exists>p. used_percentage u t = Some p \<and> 0 \<le> p \<and> p \<le> 100"
proof -
  have "0 \<le> u / t" "u / t \<le> 1" using assms by simp_all
  then have q: "0 \<le> db (u / t)" "db (u / t) \<le> 1"
    using rounded_mono [of 53 "u / t" 1] rounded_of_int [of 1 53] by simp_all
  then have "db (db (u / t) * 100) \<le> 100"
    using rounded_mono [of 53 "db (u / t) * 100" 100] rounded_of_int [of 100 53] by simp
  then show ?thesis using q assms(3) by (simp add: used_percentage_def)
qed

text \<open>
  Unless \<open>statvfs\<close> reports impossible numbers, the space used is between 0 and 100 percent, rounding
  included, and the element shows the free gigabytes or that percentage.
\<close>

theorem space_display:
  assumes "f_bavail v \<le> f_blocks v" "unat (f_blocks v) * unat (f_bsize v) < 2 ^ 64"
    "0 < unat (f_blocks v) * unat (f_bsize v)"
  shows "\<exists>p. usedPercentage (update special (Some v) now1 now2 m) = Some p \<and> 0 \<le> p \<and> p \<le> 100 \<and>
    element_text (baseElement (update special (Some v) now1 now2 m)) =
      ICON_DISK @ [32] @
      (if cmod (displayMode m) 3 = 2 then fmt_f 0 p @ [37]
       else fmt_f 2 (to_gb (f_bavail v * f_bsize v)) @ bytes ''GB'')"
proof -
  let ?used = "to_gb ((f_blocks v - f_bavail v) * f_bsize v)" and ?total = "to_gb (f_blocks v * f_bsize v)"
  have "f_blocks v - f_bavail v \<le> f_blocks v" using assms(1) by (rule word_sub_le)
  then have le: "unat (f_blocks v - f_bavail v) * unat (f_bsize v) \<le> unat (f_blocks v) * unat (f_bsize v)"
    by (simp only: word_le_nat_alt mult_le_mono1)
  have u: "unat (f_blocks v * f_bsize v) = unat (f_blocks v) * unat (f_bsize v)"
    "unat ((f_blocks v - f_bavail v) * f_bsize v) = unat (f_blocks v - f_bavail v) * unat (f_bsize v)"
    using assms(2) le_less_trans [OF le] unat_mult_lem [of "f_blocks v" "f_bsize v"]
      unat_mult_lem [of "f_blocks v - f_bavail v" "f_bsize v"] by auto
  have "?used \<le> ?total" by (rule to_gb_mono) (simp only: word_le_nat_alt u le)
  moreover have "0 < ?total" using u(1) assms(3) by (auto simp: to_gb_pos)
  ultimately obtain p where p: "used_percentage ?used ?total = Some p" "0 \<le> p" "p \<le> 100"
    using used_percentage_range [of ?used ?total] to_gb_pos(1) by blast
  have l: "length (fmt_f 0 p) \<le> 10" "length (fmt_f 2 (to_gb (f_bavail v * f_bsize v))) \<le> 20"
    using length_fmt_f [of p 3 0] length_fmt_f [of "to_gb (f_bavail v * f_bsize v)" 11 2] p(2,3) to_gb_le
    by simp_all
  have z: "0 \<notin> set ICON_DISK" "length ICON_DISK = 3" by (simp_all add: ICON_DISK_def utf8_encode_def tail_byte_def)
  show ?thesis
    using p l z
    by (intro exI [of _ p])
      (simp add: update_def getSpaceUsage_def mode_text_def Let_def element_text_def set_content_def
        CONTENT_MAX_LEN_def cstr_snprintf_buf bytes_def)
qed

interpretation periodic: periodic_module "update special vfs now1" "\<lambda>_. True" for special vfs now1
  by unfold_locales (simp_all add: update_def getSpaceUsage_def Let_def split: option.splits)

text \<open>A third click leads back to the first mode, and the first two modes show the same.\<close>

lemma displayMode_next: "0 \<le> displayMode m \<Longrightarrow> displayMode (next_mode s v a b m) = (displayMode m + 1) mod 3"
  by (simp add: next_mode_def update_def getSpaceUsage_def Let_def callRender_def split: option.splits)

lemma three_modes:
  assumes "0 \<le> displayMode m" "displayMode m < 3"
  shows "displayMode (next_mode s v a b (next_mode s v a b (next_mode s v a b m))) = displayMode m"
  using assms by (simp add: displayMode_next) presburger

lemma modes_0_1_same:
  "mode_text s (m\<lparr>displayMode := 0\<rparr>) = mode_text s (m\<lparr>displayMode := 1\<rparr>)"
  by (simp add: mode_text_def)

theorem space_display_witness:
  "element_text (baseElement (update [] (Some \<lparr>f_bsize = 4096, f_bavail = 0, f_blocks = 262144\<rparr>) 0 0 (newSpace 0 0 None 0))) =
     ICON_DISK @ bytes '' 0.00GB''"
  using space_display [of "\<lparr>f_bsize = 4096, f_bavail = 0, f_blocks = 262144\<rparr>" "[]" 0 0 "newSpace 0 0 None 0"]
  by (auto simp: newSpace_def module_base.defs to_gb_def fmt_f_def dec_padded_def round_even_def bytes_def digit_byte_def)

end
