(* ===== verification/C_Input.thy ===== *)
theory C_Input
  imports Prelude
begin

text \<open>
  The reading functions of the C library that the modules call on the output of commands and on
  files of the system: \<open>fgets\<close> on a prefix of the input, \<open>atoi\<close>, \<open>strtol\<close> and the conversions \<open>%ld\<close>
  and \<open>%15s\<close> of \<open>fscanf\<close>.
\<close>

section \<open>Definitions\<close>

text \<open>\<open>fgets(buf, n, f)\<close>: a line with its newline, at most \<open>n - 1\<close> bytes of it.\<close>

definition first_line :: "byte list \<Rightarrow> byte list" where
  "first_line s = takeWhile (\<lambda>b. b \<noteq> 10) s @ take 1 (dropWhile (\<lambda>b. b \<noteq> 10) s)"

definition fgets :: "nat \<Rightarrow> byte list \<Rightarrow> byte list" where
  "fgets n s = take (n - 1) (first_line s)"

text \<open>What a loop of \<open>fgets\<close> reads from a file.\<close>

function lines_of :: "nat \<Rightarrow> byte list \<Rightarrow> byte list list" where
  "lines_of n s = (if s = [] \<or> n < 2 then [] else fgets n s # lines_of n (drop (length (fgets n s)) s))"
  by auto
termination
proof (relation "measure (\<lambda>(_, s). length s)", goal_cases)
  case (2 n s)
  then have "s \<noteq> []" "2 \<le> n" by simp_all
  then have "fgets n s \<noteq> []" by (cases s) (auto simp: fgets_def first_line_def)
  then show ?case using \<open>s \<noteq> []\<close> by simp
qed simp

declare lines_of.simps [simp del]

text \<open>The number at the front of a string, if there is a digit.\<close>

definition leading_int :: "byte list \<Rightarrow> int option" where
  "leading_int s =
     (let s1 = dropWhile is_space s;
          (neg, s2) = (case s1 of b # r \<Rightarrow> if b = 45 then (True, r) else if b = 43 then (False, r) else (False, s1)
                                | [] \<Rightarrow> (False, []));
          (v, n) = digits_val 10 0 s2
      in if n = 0 then None else Some (if neg then - int v else int v))"

definition strtol :: "byte list \<Rightarrow> int" where
  "strtol s = (case leading_int s of None \<Rightarrow> 0 | Some v \<Rightarrow> max (- (2 ^ 63)) (min (2 ^ 63 - 1) v))"

text \<open>\<open>atoi\<close> keeps the low 32 bits.\<close>

definition atoi :: "byte list \<Rightarrow> int" where
  "atoi s = sint (word_of_int (strtol s) :: 32 word)"

definition scan_ld :: "byte list \<Rightarrow> int option" where
  "scan_ld s = map_option (\<lambda>_. strtol s) (leading_int s)"

text \<open>\<open>%15s\<close>: \<open>None\<close> when only white space is left.\<close>

definition scan_15s :: "byte list \<Rightarrow> byte list option" where
  "scan_15s s =
     (case take 15 (takeWhile (\<lambda>b. \<not> is_space b) (dropWhile is_space s)) of [] \<Rightarrow> None | w \<Rightarrow> Some w)"

text \<open>\<open>strstr\<close> and \<open>std::string::find\<close>, as far as it matters whether there is an occurrence.\<close>

definition occurs :: "byte list \<Rightarrow> byte list \<Rightarrow> bool" where
  "occurs p s \<longleftrightarrow> list_ex (\<lambda>k. take (length p) (drop k s) = p) [0..<Suc (length s)]"

lemma occurs_iff: "occurs p s \<longleftrightarrow> (\<exists>u v. s = u @ p @ v)"
proof
  assume "occurs p s"
  then obtain k where k: "take (length p) (drop k s) = p" by (auto simp: occurs_def list_ex_iff)
  have "s = take k s @ take (length p) (drop k s) @ drop (length p) (drop k s)"
    by (metis append_take_drop_id)
  then show "\<exists>u v. s = u @ p @ v" unfolding k by blast
next
  assume "\<exists>u v. s = u @ p @ v"
  then obtain u v where "s = u @ p @ v" by blast
  then show "occurs p s" by (auto simp: occurs_def list_ex_iff intro!: bexI [of _ "length u"])
qed

section \<open>Reading back printed numbers\<close>

lemma leading_int_dec:
  assumes "rest = [] \<or> digit_val 10 (hd rest) = None"
  shows "leading_int (dec n @ rest) = Some (int n)"
proof -
  obtain c cs where c: "dec n = c # cs" "48 \<le> unat c" "unat c \<le> 57" by (rule dec_first)
  have "\<not> is_space c" "c \<noteq> 45" "c \<noteq> 43" using c(2,3) by (auto simp: is_space_def)
  moreover have "digits_val 10 0 (dec n @ rest) = (n, length (dec n))"
    using digits_val_append [of 0 n rest] digits_val_end [OF assms, of n] by simp
  ultimately show ?thesis using c(1) by (simp add: leading_int_def Let_def del: digits_val.simps)
qed

lemma strtol_dec:
  "n < 2 ^ 63 \<Longrightarrow> rest = [] \<or> digit_val 10 (hd rest) = None \<Longrightarrow> strtol (dec n @ rest) = int n"
  by (simp add: strtol_def leading_int_dec)

lemma atoi_dec:
  assumes "n < 2 ^ 31" "rest = [] \<or> digit_val 10 (hd rest) = None"
  shows "atoi (dec n @ rest) = int n"
proof -
  have "strtol (dec n @ rest) = int n" using assms by (intro strtol_dec) auto
  then show ?thesis using sint_of_nat_word [OF assms(1)] by (simp add: atoi_def)
qed

lemma strtol_bounds: "- (2 ^ 63) \<le> strtol s \<and> strtol s < 2 ^ 63"
  by (auto simp: strtol_def min_def max_def split: option.splits)

lemma first_line_line: "10 \<notin> set s \<Longrightarrow> first_line (s @ 10 # rest) = s @ [10]"
  by (induction s) (auto simp: first_line_def)

lemma lines_of_line:
  assumes "10 \<notin> set s" "length s < n - 1"
  shows "lines_of n (s @ 10 # rest) = (s @ [10]) # lines_of n rest"
proof -
  have "fgets n (s @ 10 # rest) = s @ [10]" using assms by (simp add: fgets_def first_line_line)
  then show ?thesis using assms(2) by (subst lines_of.simps) auto
qed

lemma lines_of_Nil [simp]: "lines_of n [] = []"
  by (simp add: lines_of.simps)

lemma strtoul_spaces:
  assumes "n < 2 ^ 64" "rest = [] \<or> digit_val 10 (hd rest) = None"
  shows "strtoul 10 (replicate k 32 @ dec n @ rest) = (of_nat n, k + length (dec n), False)"
proof -
  obtain c cs where c: "dec n = c # cs" "48 \<le> unat c" "unat c \<le> 57" by (rule dec_first)
  then have ns: "\<not> is_space c" "c \<noteq> 45" "c \<noteq> 43" by (auto simp: is_space_def)
  have "takeWhile is_space (replicate k 32 @ dec n @ rest) = replicate k 32"
    unfolding c(1) using ns by (induction k) (simp_all add: is_space_def)
  moreover have "digits_val 10 0 (dec n @ rest) = (n, length (dec n))"
    using digits_val_append [of 0 n rest] digits_val_end [OF assms(2), of n] by simp
  moreover have "(case s of z # x # d # _ \<Rightarrow>
      (if (10 :: nat) = 16 \<and> z = 48 \<and> (x = 120 \<or> x = 88) \<and> digit_val 16 d \<noteq> None then 2 else 0)
      | _ \<Rightarrow> 0) = (0 :: nat)" for s :: "byte list"
    by (auto split: list.splits)
  ultimately show ?thesis
    using c(1) ns assms(1) by (simp add: strtoul_def Let_def del: digits_val.simps)
qed

end
