(* ===== verification/Notifications.thy ===== *)
theory Notifications
  imports C_Input Element Utf8
begin

text \<open>
  \<open>modules/notifications.h\<close>.  What the two \<open>dunstctl\<close> queries print is an argument (\<open>None\<close> when
  \<open>popen\<close> fails); the calls of \<open>dunstctl set-paused toggle\<close> are counted.
\<close>

section \<open>Definitions\<close>

datatype notifications_handler = Toggle

record notifications = module_base +
  baseElement :: "notifications_handler barElement"
  isPaused :: bool
  waitingCount :: int
  toggles :: nat

definition ICON_PAUSED :: "byte list" where "ICON_PAUSED = utf8_encode 0xf009b"
definition ICON_ACTIVE :: "byte list" where "ICON_ACTIVE = utf8_encode 0xf009c"

definition query :: "byte list \<Rightarrow> byte list" where
  "query out = cstr (fgets 16 out)"

definition updateState :: "byte list option \<Rightarrow> byte list option \<Rightarrow> notifications \<Rightarrow> notifications" where
  "updateState paused waiting m =
     (let m1 = (case paused of None \<Rightarrow> m
                  | Some out \<Rightarrow> m\<lparr>isPaused := query out = bytes ''true'' @ [10] \<or> query out = bytes ''true''\<rparr>)
      in case waiting of None \<Rightarrow> m1 | Some out \<Rightarrow> m1\<lparr>waitingCount := atoi (query out)\<rparr>)"

text \<open>Unlike the other modules, this one does not keep the length that \<open>snprintf\<close> returns.\<close>

definition show_text :: "byte list \<Rightarrow> color \<Rightarrow> notifications_handler barElement \<Rightarrow> notifications_handler barElement" where
  "show_text s c e = (set_content s e)\<lparr>contentLen := contentLen e, foregroundColor := c\<rparr>"

definition updateVisuals :: "notifications \<Rightarrow> notifications" where
  "updateVisuals m =
     m\<lparr>baseElement :=
         (if isPaused m
          then show_text (if waitingCount m > 0 then ICON_PAUSED @ [32] @ fmt_d (waitingCount m) else ICON_PAUSED)
                 (color_of ''#FF6B6B'' (mk_color 255 107 107 255)) (baseElement m)
          else show_text ICON_ACTIVE (color_of ''#E0AAFF'' (mk_color 224 170 255 255)) (baseElement m))\<rparr>"

definition update :: "byte list option \<Rightarrow> byte list option \<Rightarrow> notifications \<Rightarrow> notifications" where
  "update paused waiting m = updateVisuals (updateState paused waiting m)"

definition initialize :: "byte list option \<Rightarrow> byte list option \<Rightarrow> notifications \<Rightarrow> notifications \<times> bool" where
  "initialize paused waiting m = (updateVisuals (updateState paused waiting m), True)"

definition toggleNotifications :: "byte list option \<Rightarrow> byte list option \<Rightarrow> notifications \<Rightarrow> notifications" where
  "toggleNotifications paused waiting m =
     updateVisuals (updateState paused waiting (m\<lparr>toggles := Suc (toggles m)\<rparr>))"

fun run_handler ::
  "notifications_handler \<Rightarrow> byte list option \<Rightarrow> byte list option \<Rightarrow> notifications \<Rightarrow> notifications" where
  "run_handler Toggle paused waiting m = callRender (toggleNotifications paused waiting m)"

definition newNotifications :: "32 word \<Rightarrow> notifications" where
  "newNotifications window0 =
     module_base.extend (newModule (bytes ''notifications'') False 0 window0)
       \<lparr>baseElement = setEvent (staticElement\<lparr>moduleName := bytes ''notifications''\<rparr>) CLICK_LEFT Toggle,
        isPaused = False, waitingCount = 0, toggles = 0\<rparr>"

definition elements :: "notifications \<Rightarrow> notifications_handler barElement list" where
  "elements m = [baseElement m]"

section \<open>What is shown\<close>

lemma bytes_ascii: "10 \<notin> set (dec n)"
  using dec_range [of 10 n] by auto

lemma query_line:
  "10 \<notin> set s \<Longrightarrow> 0 \<notin> set s \<Longrightarrow> length s < 15 \<Longrightarrow> query (s @ 10 # rest) = s @ [10]"
proof -
  assume s: "10 \<notin> set s" "0 \<notin> set s" "length s < 15"
  then have "fgets 16 (s @ 10 # rest) = s @ [10]" by (simp add: fgets_def first_line_line)
  moreover have "cstr (s @ [10]) = s @ [10]" using s(2) unfolding cstr_def by (auto simp: takeWhile_eq_all_conv)
  ultimately show ?thesis by (simp add: query_def)
qed

text \<open>
  After every update, also that of a click, the element shows whether notifications are held back
  and how many wait, as \<open>dunstctl\<close> printed it.  The module is due again at once.
\<close>

theorem notifications_display:
  assumes "n < 2 ^ 31" "paused = bytes (if held then ''true'' else ''false'') @ 10 # rest"
    "waiting = dec n @ 10 # rest'"
  shows "element_text (baseElement (update (Some paused) (Some waiting) m)) =
      (if held then ICON_PAUSED @ (if n > 0 then 32 # dec n else []) else ICON_ACTIVE) \<and>
    baseElement (run_handler Toggle (Some paused) (Some waiting) m) =
      baseElement (update (Some paused) (Some waiting) m) \<and>
    (secondsPerUpdate m = 0 \<longrightarrow> lastUpdate m \<le> now \<longrightarrow> shouldUpdate now (update (Some paused) (Some waiting) m))"
proof -
  have "length (dec n) < 15" using length_dec [of n 9] assms(1) by simp
  then have w: "query waiting = dec n @ [10]" unfolding assms(3) using bytes_ascii by (intro query_line) auto
  have "digit_val 10 10 = None" by (simp add: digit_val_def)
  then have c: "atoi (query waiting) = int n" unfolding w by (intro atoi_dec) (use assms(1) in auto)
  have p: "query paused = bytes (if held then ''true'' else ''false'') @ [10]"
    unfolding assms(2) by (intro query_line) (auto simp: bytes_def)
  then have h: "query paused = bytes ''true'' @ [10] \<or> query paused = bytes ''true'' \<longleftrightarrow> held"
    by (cases held) (simp_all add: bytes_def)
  have z: "0 \<notin> set ICON_PAUSED" "0 \<notin> set ICON_ACTIVE" "length ICON_PAUSED = 4" "length ICON_ACTIVE = 4"
    by (simp_all add: ICON_PAUSED_def ICON_ACTIVE_def utf8_encode_def tail_byte_def)
  have t: "element_text (show_text s k e) = s" if "0 \<notin> set s" "length s < 255" for s k e
    using that element_text_set_content [of s e] by (simp add: show_text_def element_text_def CONTENT_MAX_LEN_def)
  have "element_text (baseElement (update (Some paused) (Some waiting) m)) =
      (if held then ICON_PAUSED @ (if n > 0 then 32 # dec n else []) else ICON_ACTIVE)"
    using z \<open>length (dec n) < 15\<close> by (simp add: update_def updateVisuals_def updateState_def h c t fmt_d_def)
  moreover have "baseElement (run_handler Toggle (Some paused) (Some waiting) m) =
      baseElement (update (Some paused) (Some waiting) m)"
    by (simp add: toggleNotifications_def update_def updateVisuals_def updateState_def callRender_def)
  moreover have "secondsPerUpdate (update (Some paused) (Some waiting) m) = secondsPerUpdate m"
    "lastUpdate (update (Some paused) (Some waiting) m) = lastUpdate m"
    by (simp_all add: update_def updateVisuals_def updateState_def)
  ultimately show ?thesis by (simp add: shouldUpdate_def)
qed

theorem notifications_display_witness:
  "element_text (baseElement (update (Some (bytes ''true'' @ [10])) (Some (dec 12 @ [10])) (newNotifications 0))) =
     ICON_PAUSED @ bytes '' 12''"
  using notifications_display [of 12 "bytes ''true'' @ [10]" True "[]" "dec 12 @ [10]" "[]" "newNotifications 0" 0]
  by (simp add: bytes_def dec_step digit_byte_def)

end
