(* ===== verification/Helper.thy ===== *)
theory Helper
  imports Utf8
begin

text \<open>\<open>helper.h\<close>: the icons of a battery, as the battery and the audio module show them.\<close>

section \<open>The icons\<close>

definition charging_icons :: "nat list" where
  "charging_icons = [0xf089f, 0xf089c, 0xf0086, 0xf0087, 0xf0088, 0xf089d, 0xf0089, 0xf089e, 0xf008a,
     0xf008b, 0xf0085]"

definition battery_icons :: "nat list" where
  "battery_icons = [0xf008e, 0xf007a, 0xf007b, 0xf007c, 0xf007d, 0xf007e, 0xf007f, 0xf0080, 0xf0081,
     0xf0082, 0xf0079]"

definition getBatteryIcon :: "nat \<Rightarrow> bool \<Rightarrow> byte list" where
  "getBatteryIcon percentage charging =
     (let icons = (if charging then charging_icons else battery_icons)
      in utf8_encode
        (if percentage \<ge> 95 then icons ! 10
         else if percentage \<ge> 90 then icons ! 9
         else if percentage \<ge> 80 then icons ! 8
         else if percentage \<ge> 70 then icons ! 7
         else if percentage \<ge> 60 then icons ! 6
         else if percentage \<ge> 50 then icons ! 5
         else if percentage \<ge> 40 then icons ! 4
         else if percentage \<ge> 30 then icons ! 3
         else if percentage \<ge> 20 then icons ! 2
         else if percentage \<ge> 10 then icons ! 1
         else icons ! 0))"

lemma battery_icon_index:
  "getBatteryIcon p c =
     utf8_encode ((if c then charging_icons else battery_icons) ! (if 95 \<le> p then 10 else p div 10))"
proof -
  have d: "p div 10 = k" if "10 * k \<le> p" "p < 10 * k + 10" for k
    using that by (intro div_nat_eqI) simp_all
  consider "95 \<le> p" | "90 \<le> p" "p < 95" | "80 \<le> p" "p < 90" | "70 \<le> p" "p < 80" | "60 \<le> p" "p < 70"
    | "50 \<le> p" "p < 60" | "40 \<le> p" "p < 50" | "30 \<le> p" "p < 40" | "20 \<le> p" "p < 30" | "10 \<le> p" "p < 20"
    | "p < 10" by linarith
  then show ?thesis
    using d [of 9] d [of 8] d [of 7] d [of 6] d [of 5] d [of 4] d [of 3] d [of 2] d [of 1]
    by cases (simp_all add: getBatteryIcon_def Let_def)
qed

section \<open>The bytes of an icon\<close>

lemma utf8_icon:
  assumes "0xf0000 \<le> c" "c < 0x100000"
  shows "length (utf8_encode c) = 4" "0 \<notin> set (utf8_encode c)"
proof -
  have t: "tail_byte n \<noteq> 0" for n
  proof -
    have "unat (tail_byte n) = 128 + n mod 64" unfolding tail_byte_def by (subst unat_of_nat) simp
    then show ?thesis by auto
  qed
  have "c div 262144 = 3" using assms by (intro div_nat_eqI) simp_all
  then have "utf8_encode c = [0xf3, tail_byte (c div 4096), tail_byte (c div 64), tail_byte c]"
    using assms(1) by (simp add: utf8_encode_def)
  then show "length (utf8_encode c) = 4" "0 \<notin> set (utf8_encode c)" using t by auto
qed

lemma icon_bytes: "length (getBatteryIcon p c) = 4" "0 \<notin> set (getBatteryIcon p c)"
proof -
  have "list_all (\<lambda>i. 0xf0000 \<le> i \<and> i < 0x100000) (if c then charging_icons else battery_icons)"
    "length (if c then charging_icons else battery_icons) = 11"
    by (simp_all add: charging_icons_def battery_icons_def)
  moreover have "(if 95 \<le> p then 10 else p div 10) < 11" by auto
  ultimately have "let i = (if c then charging_icons else battery_icons) ! (if 95 \<le> p then 10 else p div 10)
      in 0xf0000 \<le> i \<and> i < 0x100000"
    unfolding list_all_length Let_def by metis
  then show "length (getBatteryIcon p c) = 4" "0 \<notin> set (getBatteryIcon p c)"
    unfolding battery_icon_index Let_def using utf8_icon by blast+
qed

end
