(* ===== verification/Battery.thy ===== *)
theory Battery
  imports Floats C_Input Element Helper
begin

text \<open>
  \<open>modules/battery.h\<close>.  The files under \<open>/sys/class/power_supply/BAT0\<close> are
  arguments (\<open>None\<close> when a file cannot be opened).  The bodies of the notifications sent are kept.
  A conversion to an integer type that cannot hold the value is undefined; the update is \<open>None\<close> then.
\<close>

section \<open>The module\<close>

record battery = module_base +
  iconElement :: "unit barElement"
  textElement :: "unit barElement"
  energyNow :: int
  energyFull :: int
  powerNow :: int
  status :: "byte list"
  percentage :: rat
  notificationSent :: bool
  sent :: "byte list list"

definition readLong :: "byte list option \<Rightarrow> byte list option \<Rightarrow> int" where
  "readLong f1 f2 =
     (case (case f1 of None \<Rightarrow> f2 | Some s \<Rightarrow> Some s) of
        None \<Rightarrow> 0
      | Some s \<Rightarrow> (case scan_ld s of None \<Rightarrow> 0 | Some v \<Rightarrow> v))"

definition readStatus :: "byte list option \<Rightarrow> battery \<Rightarrow> battery" where
  "readStatus f m =
     (case f of None \<Rightarrow> m
      | Some s \<Rightarrow> m\<lparr>status := (case scan_15s s of None \<Rightarrow> bytes ''Unknown'' | Some w \<Rightarrow> cstr w)\<rparr>)"

definition status_is :: "string \<Rightarrow> battery \<Rightarrow> bool" where
  "status_is c m \<longleftrightarrow> take 1 (status m) = bytes c"

abbreviation isCharging :: "battery \<Rightarrow> bool" where "isCharging m \<equiv> status_is ''C'' m"

definition percent_of :: "int \<Rightarrow> int \<Rightarrow> rat" where
  "percent_of now full = fl (fl (fl (of_int now) / fl (of_int full)) * 100)"

text \<open>Conversions of a \<open>float\<close> to \<open>uint8_t\<close> and to \<open>int\<close>.\<close>

definition to_uint8 :: "rat \<Rightarrow> nat option" where
  "to_uint8 x = (if 0 \<le> trunc x \<and> trunc x < 256 then Some (nat (trunc x)) else None)"

definition to_int :: "rat \<Rightarrow> int option" where
  "to_int x = (if - (2 ^ 31) \<le> trunc x \<and> trunc x < 2 ^ 31 then Some (trunc x) else None)"

definition time_text :: "battery \<Rightarrow> byte list option" where
  "time_text m =
     (if powerNow m > 0 \<and> (isCharging m \<or> status_is ''D'' m) then
        let timeFloat = fl (fl (of_int (if isCharging m then energyFull m - energyNow m else energyNow m)) /
                            fl (of_int (powerNow m)))
        in map_option (\<lambda>totalMins. [32] @ fmt_02d (cdiv totalMins 60) @ [58] @ fmt_02d (cmod totalMins 60))
             (to_int (fl (timeFloat * 60)))
      else Some [])"

definition icon_color :: "battery \<Rightarrow> color" where
  "icon_color m =
     (if isCharging m then
        if percentage m \<ge> 90 then color_of ''#00FF00'' (mk_color 0 255 0 255)
        else if percentage m \<ge> 20 then color_of ''#FFA500'' (mk_color 255 165 0 255)
        else color_of ''#FF0000'' (mk_color 255 0 0 255)
      else color_of ''#E0AAFF'' (mk_color 224 170 255 255))"

definition text_color :: "battery \<Rightarrow> color" where
  "text_color m =
     (if percentage m < 20 \<and> \<not> isCharging m then color_of ''#FF0000'' (mk_color 255 0 0 255)
      else color_of ''#E0AAFF'' (mk_color 224 170 255 255))"

text \<open>Neither element keeps the length that \<open>snprintf\<close> returns.\<close>

definition show_text :: "byte list \<Rightarrow> color \<Rightarrow> unit barElement \<Rightarrow> unit barElement" where
  "show_text s c e = (set_content s e)\<lparr>contentLen := contentLen e, foregroundColor := c\<rparr>"

definition updateVisuals :: "battery \<Rightarrow> battery option" where
  "updateVisuals m =
     (case to_uint8 (percentage m) of
        None \<Rightarrow> None
      | Some p \<Rightarrow>
          (case time_text m of
             None \<Rightarrow> None
           | Some t \<Rightarrow>
               Some (m\<lparr>iconElement := show_text (getBatteryIcon p (isCharging m) @ [32]) (icon_color m) (iconElement m),
                       textElement := show_text (fmt_f 1 (percentage m) @ [37] @ t) (text_color m) (textElement m)\<rparr>)))"

definition alert_text :: "rat \<Rightarrow> byte list" where
  "alert_text p =
     take 127 (bytes ''Nivel actual: <b>'' @ fmt_d (trunc p) @ bytes ''%</b>'' @ [10] @
       bytes ''<b>Conecta el cargador de inmediato.</b>'')"

definition checkBatteryAlert :: "battery \<Rightarrow> battery" where
  "checkBatteryAlert m =
     (if percentage m < 20 \<and> \<not> isCharging m \<and> \<not> notificationSent m
      then m\<lparr>sent := sent m @ [alert_text (percentage m)], notificationSent := True\<rparr>
      else if percentage m > 25 \<or> isCharging m then m\<lparr>notificationSent := False\<rparr>
      else m)"

record battery_files =
  energy_now :: "byte list option"
  charge_now :: "byte list option"
  energy_full :: "byte list option"
  charge_full :: "byte list option"
  power_now :: "byte list option"
  current_now :: "byte list option"
  status_file :: "byte list option"

definition read_files :: "battery_files \<Rightarrow> battery \<Rightarrow> battery" where
  "read_files f m =
     readStatus (status_file f)
       (m\<lparr>energyNow := readLong (energy_now f) (charge_now f),
          energyFull := readLong (energy_full f) (charge_full f),
          powerNow := readLong (power_now f) (current_now f)\<rparr>)"

definition update :: "battery_files \<Rightarrow> int \<Rightarrow> battery \<Rightarrow> battery option" where
  "update f now m =
     (let m1 = read_files f m;
          m2 = (if energyFull m1 > 0
                then map_option checkBatteryAlert
                       (updateVisuals (m1\<lparr>percentage := percent_of (energyNow m1) (energyFull m1)\<rparr>))
                else Some m1)
      in map_option (\<lambda>m. m\<lparr>lastUpdate := now\<rparr>) m2)"

definition newBattery :: "32 word \<Rightarrow> battery" where
  "newBattery window0 =
     (let e = staticElement\<lparr>moduleName := bytes ''battery''\<rparr>
      in module_base.extend (newModule (bytes ''battery'') False 5 window0)
           \<lparr>iconElement = e, textElement = e, energyNow = 0, energyFull = 0, powerNow = 0,
            status = bytes ''Unknown'', percentage = 0, notificationSent = False, sent = []\<rparr>)"

definition elements :: "battery \<Rightarrow> unit barElement list" where
  "elements m = [iconElement m, textElement m]"

section \<open>Percentages\<close>

lemma percent_of_range:
  assumes "0 \<le> now" "now \<le> full" "0 < full"
  shows "0 \<le> percent_of now full \<and> percent_of now full \<le> 100"
proof -
  have f: "0 \<le> fl (of_int now)" "fl (of_int now) \<le> fl (of_int full)" "0 < fl (of_int full)"
    using assms rounded_mono [of 24 "of_int now" "of_int full"] by simp_all
  then have q: "0 \<le> fl (of_int now) / fl (of_int full)" "fl (of_int now) / fl (of_int full) \<le> 1" by simp_all
  then have r: "0 \<le> fl (fl (of_int now) / fl (of_int full))" "fl (fl (of_int now) / fl (of_int full)) \<le> 1"
    using rounded_mono [of 24 "fl (of_int now) / fl (of_int full)" 1] rounded_of_int [of 1 24] by simp_all
  then have "fl (fl (fl (of_int now) / fl (of_int full)) * 100) \<le> 100"
    using rounded_mono [of 24 "fl (fl (of_int now) / fl (of_int full)) * 100" 100] rounded_of_int [of 100 24] by simp
  then show ?thesis using r(1) by (simp add: percent_of_def)
qed

lemma trunc_range: "0 \<le> x \<Longrightarrow> x \<le> of_int n \<Longrightarrow> 0 \<le> trunc x \<and> trunc x \<le> n"
  by (simp add: trunc_def floor_le_iff)

lemma percent_icon_defined:
  assumes "0 \<le> now" "now \<le> full" "0 < full"
  shows "\<exists>p. to_uint8 (percent_of now full) = Some p"
  using percent_of_range [OF assms] trunc_range [of "percent_of now full" 100] by (auto simp: to_uint8_def)

section \<open>The warning\<close>

lemma checkBatteryAlert_sel [simp]:
  "percentage (checkBatteryAlert m) = percentage m" "status (checkBatteryAlert m) = status m"
  by (simp_all add: checkBatteryAlert_def)

lemma updateVisuals_sel:
  assumes "updateVisuals m = Some m'"
  shows "percentage m' = percentage m" "status m' = status m" "sent m' = sent m"
    "notificationSent m' = notificationSent m" "energyFull m' = energyFull m"
  using assms by (auto simp: updateVisuals_def split: option.splits)

text \<open>The reading of an update: the percentage and whether the battery is being charged.\<close>

definition low :: "battery \<Rightarrow> bool" where
  "low m \<longleftrightarrow> energyFull m > 0 \<and> percentage m < 20 \<and> \<not> isCharging m"

definition recovered :: "battery \<Rightarrow> bool" where
  "recovered m \<longleftrightarrow> energyFull m > 0 \<and> (percentage m > 25 \<or> isCharging m)"

lemma update_alert:
  assumes "update f now m = Some m'"
  shows "length (sent m') = length (sent m) + (if low m' \<and> \<not> notificationSent m then 1 else 0)"
    "notificationSent m' = (if low m' then True else if recovered m' then False else notificationSent m)"
proof -
  let ?m1 = "read_files f m"
  have r: "sent ?m1 = sent m" "notificationSent ?m1 = notificationSent m"
    by (simp_all add: read_files_def readStatus_def split: option.splits)
  have *: "length (sent m') = length (sent m) + (if low m' \<and> \<not> notificationSent m then 1 else 0) \<and>
    notificationSent m' = (if low m' then True else if recovered m' then False else notificationSent m)"
  proof (cases "energyFull ?m1 > 0")
    case True
    let ?m2 = "?m1\<lparr>percentage := percent_of (energyNow ?m1) (energyFull ?m1)\<rparr>"
    obtain m3 where m3: "updateVisuals ?m2 = Some m3" "m' = (checkBatteryAlert m3)\<lparr>lastUpdate := now\<rparr>"
      using assms True by (auto simp: update_def Let_def)
    have s: "sent m3 = sent m" "notificationSent m3 = notificationSent m" "energyFull m3 > 0"
      using updateVisuals_sel [OF m3(1)] r True by simp_all
    then show ?thesis unfolding m3(2) checkBatteryAlert_def low_def recovered_def status_is_def by simp
  next
    case False
    then have "m' = ?m1\<lparr>lastUpdate := now\<rparr>" using assms by (simp add: update_def Let_def)
    then show ?thesis using r False by (simp add: low_def recovered_def)
  qed
  then show "length (sent m') = length (sent m) + (if low m' \<and> \<not> notificationSent m then 1 else 0)"
    "notificationSent m' = (if low m' then True else if recovered m' then False else notificationSent m)"
    by blast+
qed

text \<open>A run of updates, each with its files and its time.\<close>

fun updates :: "(battery_files \<times> int) list \<Rightarrow> battery \<Rightarrow> battery list option" where
  "updates [] m = Some []"
| "updates ((f, t) # fs) m =
     (case update f t m of None \<Rightarrow> None | Some m' \<Rightarrow> map_option ((#) m') (updates fs m'))"

lemma warned_stays:
  "updates fs m = Some ms \<Longrightarrow> notificationSent m \<Longrightarrow> \<forall>m'\<in>set ms. \<not> recovered m' \<Longrightarrow>
     length (sent (last (m # ms))) = length (sent m)"
proof (induction fs m arbitrary: ms rule: updates.induct)
  case (2 f t fs m)
  then obtain m1 ms1 where u: "update f t m = Some m1" "updates fs m1 = Some ms1" "ms = m1 # ms1"
    by (auto split: option.splits)
  have "notificationSent m1" "length (sent m1) = length (sent m)"
    using update_alert [OF u(1)] 2(3,4) u(3) by (auto split: if_splits)
  then show ?case using 2(1) [OF u(1) u(2)] 2(4) u(3) by simp
qed simp

text \<open>
  C31 (safety): While the battery neither recovers above 25 percent nor is charged, one warning is sent when a
  reading is below 20 percent and none after it, however often it is read.
\<close>

theorem battery_warns_once:
  assumes "updates fs m = Some ms" "\<not> notificationSent m" "\<forall>m'\<in>set ms. \<not> recovered m'"
  shows "length (sent (last (m # ms))) = length (sent m) + (if \<exists>m'\<in>set ms. low m' then 1 else 0)"
  using assms
proof (induction fs m arbitrary: ms rule: updates.induct)
  case (2 f t fs m)
  then obtain m1 ms1 where u: "update f t m = Some m1" "updates fs m1 = Some ms1" "ms = m1 # ms1"
    by (auto split: option.splits)
  note a = update_alert [OF u(1)]
  show ?case
  proof (cases "low m1")
    case True
    then have "notificationSent m1" "length (sent m1) = Suc (length (sent m))" using a 2(3) by simp_all
    then show ?thesis using warned_stays [OF u(2)] 2(4) u(3) True by simp
  next
    case False
    then have "\<not> notificationSent m1" "length (sent m1) = length (sent m)" using a 2(3,4) u(3) by (simp_all split: if_splits)
    then show ?thesis using 2(1) [OF u(1) u(2)] 2(4) u(3) False by simp
  qed
qed simp

section \<open>What is shown\<close>

lemma element_text_show_text:
  "0 \<notin> set s \<Longrightarrow> length s < CONTENT_MAX_LEN \<Longrightarrow> element_text (show_text s c e) = s"
  using element_text_set_content [of s e] by (simp add: show_text_def element_text_def)

text \<open>
  With a charge between zero and full and no power flowing, the update succeeds and shows the
  percentage, which lies between 0 and 100, and the icon of its tens; the text is red exactly
  below 20 percent when the battery is not being charged.
\<close>

theorem battery_display:
  fixes f :: battery_files and m :: battery
  defines "now \<equiv> energyNow (read_files f m)" and "full \<equiv> energyFull (read_files f m)"
  assumes "0 \<le> now" "now \<le> full" "0 < full" "powerNow (read_files f m) \<le> 0"
  shows "\<exists>m' p. update f t m = Some m' \<and> p = percent_of now full \<and> 0 \<le> p \<and> p \<le> 100 \<and> percentage m' = p \<and>
    element_text (textElement m') = fmt_f 1 p @ [37] \<and>
    element_text (iconElement m') =
      utf8_encode ((if isCharging m' then charging_icons else battery_icons) !
        (if 95 \<le> p then 10 else nat \<lfloor>p\<rfloor> div 10)) @ [32] \<and>
    foregroundColor (textElement m') =
      (if p < 20 \<and> \<not> isCharging m' then color_of ''#FF0000'' (mk_color 255 0 0 255)
       else color_of ''#E0AAFF'' (mk_color 224 170 255 255)) \<and>
    lastUpdate m' = t"
proof -
  define p where "p = percent_of now full"
  let ?m1 = "(read_files f m)\<lparr>percentage := p\<rparr>"
  have pr: "0 \<le> p" "p \<le> 100" using percent_of_range [OF assms(3-5)] by (simp_all add: p_def)
  have t: "trunc p = \<lfloor>p\<rfloor>" "0 \<le> \<lfloor>p\<rfloor>" "\<lfloor>p\<rfloor> \<le> 100" using pr by (simp_all add: trunc_def floor_le_iff)
  have u: "to_uint8 (percentage ?m1) = Some (nat \<lfloor>p\<rfloor>)" "time_text ?m1 = Some []"
    using t assms(6) by (simp_all add: to_uint8_def time_text_def)
  let ?m2 = "?m1\<lparr>iconElement := show_text (getBatteryIcon (nat \<lfloor>p\<rfloor>) (isCharging ?m1) @ [32]) (icon_color ?m1) (iconElement ?m1),
      textElement := show_text (fmt_f 1 p @ [37]) (text_color ?m1) (textElement ?m1)\<rparr>"
  have v: "updateVisuals ?m1 = Some ?m2" using u by (simp add: updateVisuals_def)
  have up: "update f t m = Some ((checkBatteryAlert ?m2)\<lparr>lastUpdate := t\<rparr>)" (is "_ = Some ?m'")
    using v assms(5) by (simp add: update_def Let_def p_def now_def full_def)
  have "length (fmt_f 1 p) \<le> 7" using length_fmt_f [of p 3 1] pr by simp
  then have tx: "element_text (textElement ?m') = fmt_f 1 p @ [37]"
    by (simp add: checkBatteryAlert_def element_text_show_text CONTENT_MAX_LEN_def)
  have c: "isCharging ?m' = isCharging ?m1" by (simp add: checkBatteryAlert_def status_is_def)
  have "95 \<le> nat \<lfloor>p\<rfloor> \<longleftrightarrow> 95 \<le> \<lfloor>p\<rfloor>" by linarith
  also have "\<dots> \<longleftrightarrow> 95 \<le> p" using le_floor_iff [of 95 p] by simp
  finally have n95: "95 \<le> nat \<lfloor>p\<rfloor> \<longleftrightarrow> 95 \<le> p" .
  have ic: "element_text (iconElement ?m') = getBatteryIcon (nat \<lfloor>p\<rfloor>) (isCharging ?m') @ [32]"
    unfolding c using icon_bytes by (simp add: checkBatteryAlert_def element_text_show_text CONTENT_MAX_LEN_def)
  have co: "foregroundColor (textElement ?m') = text_color ?m1" by (simp add: checkBatteryAlert_def show_text_def)
  show ?thesis
  proof (intro exI conjI)
    show "update f t m = Some ?m'" by (rule up)
    show "p = percent_of now full" by (rule p_def)
    show "0 \<le> p" "p \<le> 100" by (rule pr)+
    show "percentage ?m' = p" by simp
    show "element_text (textElement ?m') = fmt_f 1 p @ [37]" by (rule tx)
    show "element_text (iconElement ?m') =
      utf8_encode ((if isCharging ?m' then charging_icons else battery_icons) !
        (if 95 \<le> p then 10 else nat \<lfloor>p\<rfloor> div 10)) @ [32]"
      using ic battery_icon_index [of "nat \<lfloor>p\<rfloor>" "isCharging ?m'"] n95 by simp
    show "foregroundColor (textElement ?m') =
      (if p < 20 \<and> \<not> isCharging ?m' then color_of ''#FF0000'' (mk_color 255 0 0 255)
       else color_of ''#E0AAFF'' (mk_color 224 170 255 255))"
      unfolding co c by (simp add: text_color_def status_is_def)
    show "lastUpdate ?m' = t" by simp
  qed
qed

section \<open>A concrete battery\<close>

definition demo_files :: battery_files where
  "demo_files = \<lparr>energy_now = None, charge_now = Some (bytes ''1''), energy_full = Some (bytes ''8''),
     charge_full = None, power_now = None, current_now = None, status_file = Some (bytes ''Discharging'')\<rparr>"

lemma demo_read:
  "energyNow (read_files demo_files m) = 1" "energyFull (read_files demo_files m) = 8"
  "powerNow (read_files demo_files m) = 0" "take 1 (status (read_files demo_files m)) = bytes ''D''"
  by (simp_all add: read_files_def demo_files_def readLong_def readStatus_def scan_ld_def scan_15s_def strtol_def
      leading_int_def bytes_def is_space_def digit_val_def cstr_def)

lemma demo_percent: "percent_of 1 8 = 25 / 2"
proof -
  have "fl 1 = 1" "fl 8 = 8" using rounded_of_int [of 1 24] rounded_of_int [of 8 24] by simp_all
  moreover have "fl (1 / 8) = 1 / 8"
    using rounded_exact [of 1 24 "- 3"] by (simp add: powi_eval del: eq_divide_eq_numeral1 divide_eq_eq_numeral1)
  moreover have "fl (25 / 2) = 25 / 2"
    using rounded_exact [of 25 24 "- 1"] by (simp add: powi_eval del: eq_divide_eq_numeral1 divide_eq_eq_numeral1)
  ultimately show ?thesis by (simp add: percent_of_def del: eq_divide_eq_numeral1 divide_eq_eq_numeral1)
qed

theorem battery_display_witness:
  "\<exists>m'. update demo_files 5 (newBattery 0) = Some m' \<and> percentage m' = 25 / 2 \<and> lastUpdate m' = 5"
  using battery_display [of demo_files "newBattery 0" 5] by (auto simp: demo_read demo_percent)

lemma demo_update:
  "\<exists>m'. update demo_files t m = Some m' \<and> percentage m' = 25 / 2 \<and> energyFull m' = 8 \<and> \<not> isCharging m' \<and>
    lastUpdate m' = t"
proof -
  let ?m1 = "(read_files demo_files m)\<lparr>percentage := 25 / 2\<rparr>"
  have "to_uint8 (percentage ?m1) = Some 12" "time_text ?m1 = Some []"
    by (simp_all add: to_uint8_def trunc_def time_text_def demo_read)
  then obtain m2 where m2: "updateVisuals ?m1 = Some m2" by (simp add: updateVisuals_def)
  note s = updateVisuals_sel [OF this]
  have "update demo_files t m = Some ((checkBatteryAlert m2)\<lparr>lastUpdate := t\<rparr>)"
    using m2 by (simp add: update_def Let_def demo_read demo_percent)
  moreover have "take 1 (status m2) = bytes ''D''" using s(2) demo_read(4) [of m] by simp
  then have "take 1 (status m2) \<noteq> bytes ''C''" by (simp add: bytes_def)
  ultimately show ?thesis using s(1,5) by (simp add: checkBatteryAlert_def status_is_def demo_read del: One_nat_def)
qed

theorem battery_warns_once_witness:
  "\<exists>ms. updates [(demo_files, 5), (demo_files, 10)] (newBattery 0) = Some ms \<and> length (sent (last ms)) = 1"
proof -
  obtain m1 where m1: "update demo_files 5 (newBattery 0) = Some m1" "percentage m1 = 25 / 2" "energyFull m1 = 8"
    "\<not> isCharging m1" using demo_update by blast
  obtain m2 where m2: "update demo_files 10 m1 = Some m2" "percentage m2 = 25 / 2" "energyFull m2 = 8"
    "\<not> isCharging m2" using demo_update by blast
  have u: "updates [(demo_files, 5), (demo_files, 10)] (newBattery 0) = Some [m1, m2]" using m1 m2 by simp
  have "\<not> notificationSent (newBattery 0)" "sent (newBattery 0) = []"
    by (simp_all add: newBattery_def Let_def module_base.defs)
  moreover have "\<forall>m'\<in>set [m1, m2]. \<not> recovered m'" "\<exists>m'\<in>set [m1, m2]. low m'"
    using m1 m2 by (simp_all add: recovered_def low_def)
  ultimately have "length (sent (last (newBattery 0 # [m1, m2]))) = 1"
    using battery_warns_once [OF u] by simp
  then show ?thesis using u by auto
qed

end
