(* ===== verification/Audio.thy ===== *)
theory Audio
  imports Floats C_Input Element Helper
begin

text \<open>
  \<open>modules/audio.h\<close>.  PulseAudio is not under \<open>src/\<close>: what its server reports is an argument of every
  operation, what is asked of it is kept as a list of requests, and \<open>vnorm\<close> stands for
  \<open>PA_VOLUME_NORM\<close>.  Readings of the steady clock are in nanoseconds.
\<close>

section \<open>Definitions\<close>

datatype audio_handler = ToggleMute | CycleSinks | AdjustVolume int

record SinkInfo =
  sink_name :: "byte list"
  sink_index :: "32 word"
  volume :: int
  isMuted :: bool
  isBluetooth :: bool
  batteryLevel :: int

datatype pa_request = Set_mute "32 word" bool | Set_default "byte list" | Set_volume "32 word" "32 word"

text \<open>
  A sink as the server reports it, with the average of its channel volumes; with it come the clock
  and the output of \<open>upower\<close> (\<open>None\<close> when \<open>popen\<close> fails) at the time of its callback.
\<close>

record pa_sink =
  pa_name :: "byte list"
  pa_index :: "32 word"
  pa_mute :: bool
  pa_avg :: "32 word"
  call_time :: int
  upower :: "byte list option"

record pa_report =
  server_default :: "byte list option"
  server_sinks :: "pa_sink list"

record audio = module_base +
  currentSink :: SinkInfo
  allSinks :: "SinkInfo list"
  defaultSinkName :: "byte list"
  baseElement :: "audio_handler barElement"
  lastUpdateTime :: int
  lastBatteryCheck :: int
  cachedBattery :: int
  requests :: "pa_request list"

definition getBluetoothBatteryLevel :: "int \<Rightarrow> byte list option \<Rightarrow> audio \<Rightarrow> int \<times> audio" where
  "getBluetoothBatteryLevel now out m =
     (if cachedBattery m \<noteq> - 1 \<and> cdiv (now - lastBatteryCheck m) 1000000000 < 30 then (cachedBattery m, m)
      else case out of
        None \<Rightarrow> (- 1, m)
      | Some s \<Rightarrow>
          let m1 = (if s = [] then m else m\<lparr>cachedBattery := atoi (cstr (fgets 16 s))\<rparr>)
          in (cachedBattery m1, m1\<lparr>lastBatteryCheck := now\<rparr>))"

text \<open>\<open>(int)avg * 100 / PA_VOLUME_NORM\<close>; the product wraps and the division is unsigned.\<close>

definition volume_percent :: "32 word \<Rightarrow> 32 word \<Rightarrow> int" where
  "volume_percent vnorm avg = sint (avg * 100 div vnorm)"

definition sink_info_callback :: "32 word \<Rightarrow> pa_sink \<Rightarrow> audio \<Rightarrow> audio" where
  "sink_info_callback vnorm i m =
     (let bt = occurs (bytes ''bluez'') (pa_name i);
          (level, m1) = (if bt then getBluetoothBatteryLevel (call_time i) (upower i) m else (- 1, m));
          s = \<lparr>sink_name = pa_name i, sink_index = pa_index i, volume = volume_percent vnorm (pa_avg i),
               isMuted = pa_mute i, isBluetooth = bt, batteryLevel = level\<rparr>;
          m2 = m1\<lparr>allSinks := allSinks m1 @ [s]\<rparr>
      in if defaultSinkName m2 = sink_name s then m2\<lparr>currentSink := s\<rparr> else m2)"

definition server_info_callback :: "byte list option \<Rightarrow> audio \<Rightarrow> audio" where
  "server_info_callback i m = (case i of None \<Rightarrow> m | Some d \<Rightarrow> m\<lparr>defaultSinkName := d\<rparr>)"

definition refreshCache :: "32 word \<Rightarrow> pa_report \<Rightarrow> audio \<Rightarrow> audio" where
  "refreshCache vnorm r m =
     fold (sink_info_callback vnorm) (server_sinks r) (server_info_callback (server_default r) (m\<lparr>allSinks := []\<rparr>))"

definition getIcon :: "byte list \<Rightarrow> byte list" where
  "getIcon nm =
     (if occurs (bytes ''bluez'') nm then utf8_encode 0xf02cb
      else if occurs (bytes ''alsa'') nm then utf8_encode 0xe638
      else [0xef, 0x90, 0x9c])"

definition sink_text :: "SinkInfo \<Rightarrow> byte list" where
  "sink_text s =
     (if isBluetooth s \<and> batteryLevel s \<ge> 0
      then getBatteryIcon (nat (batteryLevel s mod 256)) False @ [32] @ getIcon (sink_name s) @ [32] @
        fmt_d (volume s) @ [37]
      else getIcon (sink_name s) @ [32] @ fmt_d (volume s) @ [37])"

text \<open>\<open>content[contentLen] = '\\0'\<close> writes behind the text; the texts here are short.\<close>

definition updateElement :: "audio \<Rightarrow> audio" where
  "updateElement m =
     (let s = sink_text (currentSink m); e = set_content s (baseElement m)
      in m\<lparr>baseElement := e\<lparr>content := (content e)[length s := 0],
             foregroundColor := (if isMuted (currentSink m) then color_of ''#FF6B6B'' (mk_color 255 107 107 255)
                                 else color_of ''#E0AAFF'' (mk_color 224 170 255 255))\<rparr>\<rparr>)"

text \<open>\<open>lastUpdate\<close> is a member of the class itself here; the one of \<open>Module\<close> is hidden by it.\<close>

definition update :: "32 word \<Rightarrow> pa_report \<Rightarrow> int \<Rightarrow> audio \<Rightarrow> audio" where
  "update vnorm r now m =
     (if cdiv (now - lastUpdateTime m) 1000000 < 250 then m
      else (updateElement (refreshCache vnorm r m))\<lparr>lastUpdateTime := now\<rparr>)"

text \<open>The end of every handler; the report is the one after the request was carried out.\<close>

definition show_change :: "32 word \<Rightarrow> pa_report \<Rightarrow> audio \<Rightarrow> audio" where
  "show_change vnorm r m = callRender (updateElement (refreshCache vnorm r m))"

definition request :: "pa_request \<Rightarrow> audio \<Rightarrow> audio" where
  "request q m = m\<lparr>requests := requests m @ [q]\<rparr>"

definition toggleMute :: "32 word \<Rightarrow> pa_report \<Rightarrow> audio \<Rightarrow> audio" where
  "toggleMute vnorm r m =
     show_change vnorm r (request (Set_mute (sink_index (currentSink m)) (\<not> isMuted (currentSink m))) m)"

function next_sink :: "byte list \<Rightarrow> SinkInfo list \<Rightarrow> nat \<Rightarrow> nat option" where
  "next_sink nm sinks i =
     (if i < length sinks then
        if sink_name (sinks ! i) = nm then Some (Suc i mod length sinks) else next_sink nm sinks (Suc i)
      else None)"
  by auto
termination by (relation "measure (\<lambda>(_, sinks, i). length sinks - i)") auto

declare next_sink.simps [simp del]

definition cycleSinks :: "32 word \<Rightarrow> pa_report \<Rightarrow> audio \<Rightarrow> audio" where
  "cycleSinks vnorm r m =
     (if length (allSinks m) \<le> 1 then m
      else show_change vnorm r
        (case next_sink (sink_name (currentSink m)) (allSinks m) 0 of
           None \<Rightarrow> m
         | Some j \<Rightarrow> request (Set_default (sink_name (allSinks m ! j))) m))"

definition requested_volume :: "32 word \<Rightarrow> int \<Rightarrow> 32 word" where
  "requested_volume vnorm new_volume = word_of_int (trunc (db (db (word_rat vnorm * of_int new_volume) / 100)))"

definition adjustVolume :: "32 word \<Rightarrow> int \<Rightarrow> pa_report \<Rightarrow> audio \<Rightarrow> audio" where
  "adjustVolume vnorm delta r m =
     (let new_volume = max 0 (volume (currentSink m) + delta)
      in show_change vnorm r
           (request (Set_volume (sink_index (currentSink m)) (requested_volume vnorm new_volume)) m))"

fun run_handler :: "32 word \<Rightarrow> audio_handler \<Rightarrow> pa_report \<Rightarrow> audio \<Rightarrow> audio" where
  "run_handler vnorm ToggleMute = toggleMute vnorm"
| "run_handler vnorm CycleSinks = cycleSinks vnorm"
| "run_handler vnorm (AdjustVolume d) = adjustVolume vnorm d"

datatype pa_state = Ready | Failed | Terminated | Connecting

text \<open>\<open>initPa\<close> on the states seen after each iteration; \<open>None\<close> as long as it waits.\<close>

fun wait_ready :: "pa_state list \<Rightarrow> bool option" where
  "wait_ready [] = None"
| "wait_ready (st # sts) =
     (if st = Ready then Some True
      else if st = Failed \<or> st = Terminated then Some False
      else wait_ready sts)"

definition initPa :: "bool \<Rightarrow> pa_state list \<Rightarrow> bool option" where
  "initPa ok sts = (if ok then wait_ready sts else Some False)"

definition newAudio :: "32 word \<Rightarrow> SinkInfo \<Rightarrow> audio" where
  "newAudio window0 sink0 =
     module_base.extend (newModule (bytes ''audio'') False 5 window0)
       \<lparr>currentSink = sink0, allSinks = [], defaultSinkName = [],
        baseElement = setEvent (setEvent (setEvent (setEvent (staticElement\<lparr>moduleName := bytes ''audio''\<rparr>)
           CLICK_LEFT ToggleMute) CLICK_RIGHT CycleSinks) SCROLL_UP (AdjustVolume 2))
           SCROLL_DOWN (AdjustVolume (- 2)),
        lastUpdateTime = 0, lastBatteryCheck = 0, cachedBattery = - 1, requests = []\<rparr>"

definition elements :: "audio \<Rightarrow> audio_handler barElement list" where
  "elements m = [baseElement m]"

section \<open>The cache of sinks\<close>

lemma battery_level_sel [simp]:
  "allSinks (snd (getBluetoothBatteryLevel t s m)) = allSinks m"
  "currentSink (snd (getBluetoothBatteryLevel t s m)) = currentSink m"
  "defaultSinkName (snd (getBluetoothBatteryLevel t s m)) = defaultSinkName m"
  "requests (snd (getBluetoothBatteryLevel t s m)) = requests m"
  "lastUpdate (snd (getBluetoothBatteryLevel t s m)) = lastUpdate m"
  "secondsPerUpdate (snd (getBluetoothBatteryLevel t s m)) = secondsPerUpdate m"
  by (simp_all add: getBluetoothBatteryLevel_def Let_def split: option.splits)

lemma callback_sel [simp]:
  "defaultSinkName (sink_info_callback vnorm i m) = defaultSinkName m"
  "requests (sink_info_callback vnorm i m) = requests m"
  "lastUpdate (sink_info_callback vnorm i m) = lastUpdate m"
  "secondsPerUpdate (sink_info_callback vnorm i m) = secondsPerUpdate m"
  "map sink_name (allSinks (sink_info_callback vnorm i m)) = map sink_name (allSinks m) @ [pa_name i]"
  "pa_name i \<noteq> defaultSinkName m \<Longrightarrow> currentSink (sink_info_callback vnorm i m) = currentSink m"
  by (auto simp: sink_info_callback_def Let_def split_beta)

text \<open>What is known of the sink that the server reports as \<open>i\<close>.\<close>

definition shows_sink :: "32 word \<Rightarrow> pa_sink \<Rightarrow> SinkInfo \<Rightarrow> bool" where
  "shows_sink vnorm i s \<longleftrightarrow> sink_name s = pa_name i \<and> sink_index s = pa_index i \<and>
     volume s = volume_percent vnorm (pa_avg i) \<and> isMuted s = pa_mute i"

lemma callback_current: "defaultSinkName m = pa_name i \<Longrightarrow> shows_sink vnorm i (currentSink (sink_info_callback vnorm i m))"
  by (simp add: sink_info_callback_def Let_def split_beta shows_sink_def)

lemma fold_callback_sel [simp]:
  "defaultSinkName (fold (sink_info_callback vnorm) is m) = defaultSinkName m"
  "requests (fold (sink_info_callback vnorm) is m) = requests m"
  "lastUpdate (fold (sink_info_callback vnorm) is m) = lastUpdate m"
  "secondsPerUpdate (fold (sink_info_callback vnorm) is m) = secondsPerUpdate m"
  "map sink_name (allSinks (fold (sink_info_callback vnorm) is m)) = map sink_name (allSinks m) @ map pa_name is"
  by (induction "is" arbitrary: m) simp_all

lemma fold_callback_other:
  "defaultSinkName m \<notin> pa_name ` set is \<Longrightarrow> currentSink (fold (sink_info_callback vnorm) is m) = currentSink m"
  by (induction "is" arbitrary: m) auto

lemma fold_callback_current:
  assumes "i \<in> set is" "distinct (map pa_name is)" "defaultSinkName m = pa_name i"
  shows "shows_sink vnorm i (currentSink (fold (sink_info_callback vnorm) is m))"
proof -
  obtain xs ys where s: "is = xs @ i # ys" using assms(1) split_list by metis
  let ?m = "fold (sink_info_callback vnorm) xs m"
  have d: "defaultSinkName (sink_info_callback vnorm i ?m) = pa_name i" using assms(3) by simp
  have "pa_name i \<notin> pa_name ` set ys" using assms(2) s by auto
  then have "currentSink (fold (sink_info_callback vnorm) ys (sink_info_callback vnorm i ?m)) =
      currentSink (sink_info_callback vnorm i ?m)"
    using d by (intro fold_callback_other) simp
  moreover have "shows_sink vnorm i (currentSink (sink_info_callback vnorm i ?m))"
    by (rule callback_current) (use assms(3) in simp)
  ultimately show ?thesis by (simp add: s)
qed

lemma updateElement_sel [simp]:
  "currentSink (updateElement m) = currentSink m" "allSinks (updateElement m) = allSinks m"
  "requests (updateElement m) = requests m" "lastUpdate (updateElement m) = lastUpdate m"
  "secondsPerUpdate (updateElement m) = secondsPerUpdate m"
  by (simp_all add: updateElement_def Let_def)

lemma refreshCache_sel [simp]:
  "requests (refreshCache vnorm r m) = requests m" "lastUpdate (refreshCache vnorm r m) = lastUpdate m"
  "secondsPerUpdate (refreshCache vnorm r m) = secondsPerUpdate m"
  "map sink_name (allSinks (refreshCache vnorm r m)) = map pa_name (server_sinks r)"
  by (simp_all add: refreshCache_def server_info_callback_def split: option.splits)

lemma show_change_sel [simp]:
  "currentSink (show_change vnorm r m) = currentSink (refreshCache vnorm r m)"
  "allSinks (show_change vnorm r m) = allSinks (refreshCache vnorm r m)"
  "requests (show_change vnorm r m) = requests m" "lastUpdate (show_change vnorm r m) = lastUpdate m"
  "secondsPerUpdate (show_change vnorm r m) = secondsPerUpdate m"
  by (simp_all add: show_change_def callRender_def)

text \<open>A server that reports every sink once, and \<open>i\<close> as the default.\<close>

definition reports :: "pa_report \<Rightarrow> pa_sink \<Rightarrow> bool" where
  "reports r i \<longleftrightarrow> server_default r = Some (pa_name i) \<and> i \<in> set (server_sinks r) \<and>
     distinct (map pa_name (server_sinks r))"

lemma refreshCache_current:
  assumes "reports r i"
  shows "shows_sink vnorm i (currentSink (refreshCache vnorm r m))"
  using assms by (auto simp: reports_def refreshCache_def server_info_callback_def intro: fold_callback_current)

section \<open>Volumes\<close>

text \<open>The product is exact and the quotient stays below the next integer.\<close>

lemma trunc_quotient:
  assumes "0 \<le> n" "n \<le> 1000"
  shows "trunc (db (db (65536 * of_int n) / 100)) = 16384 * n div 25"
proof -
  define f where "f = 16384 * n div 25"
  define r where "r = 16384 * n mod 25"
  have fr: "16384 * n = 25 * f + r" "0 \<le> r" "r \<le> 24" by (simp_all add: f_def r_def)
  have f: "0 \<le> f" "f < 2 ^ 40" using assms fr by (simp_all add: f_def pos_imp_zdiv_nonneg_iff)
  have "db (65536 * of_int n) = 65536 * of_int n" using rounded_of_int [of "65536 * n" 53] assms by simp
  moreover have "(65536 * of_int n :: rat) / 100 = of_int (16384 * n) / 25" by simp
  ultimately have x: "db (65536 * of_int n) / 100 = of_int f + of_int r / 25" (is "?x = _")
    unfolding fr(1) by (simp add: add_divide_distrib)
  have "(of_int r :: rat) / 25 \<le> 31 / 32" "(0 :: rat) \<le> of_int r / 25" using fr(2,3) by simp_all
  then have b: "of_int f \<le> ?x" "?x \<le> of_int f + 31 / 32" unfolding x by simp_all
  have "rounded 53 (of_int (32 * f + 31) * 2 powi - 5) = (of_int (32 * f + 31) * 2 powi - 5 :: rat)"
    using f by (intro rounded_exact) simp_all
  moreover have e: "(of_int (32 * f + 31) * 2 powi - 5 :: rat) = of_int f + 31 / 32"
    by (simp add: powi_eval add_divide_distrib)
  ultimately have "db (of_int f + 31 / 32) = of_int f + 31 / 32" by (simp only: e)
  moreover have "db (of_int f) = of_int f" using f by (intro rounded_of_int) simp_all
  ultimately have "of_int f \<le> db ?x \<and> db ?x \<le> of_int f + 31 / 32" using b by (intro rounded_between) simp_all
  then have "\<lfloor>db ?x\<rfloor> = f" "0 \<le> db ?x" using f(1) using assms(1) by (simp_all add: floor_eq_iff)
  then show ?thesis by (simp add: trunc_def f_def)
qed

text \<open>
  A volume that was set is read back one percent lower, unless it is a multiple of 25: both
  conversions round down.
\<close>

lemma volume_readback:
  assumes "vnorm = 65536" "0 \<le> n" "n \<le> 1000"
  shows "volume_percent vnorm (requested_volume vnorm n) = (if 25 dvd n then n else n - 1)"
proof -
  define f where "f = 16384 * n div 25"
  define r where "r = 16384 * n mod 25"
  have fr: "16384 * n = 25 * f + r" "0 \<le> r" "r \<le> 24" by (simp_all add: f_def r_def)
  have f: "0 \<le> f" "f \<le> 655360" using assms(2,3) fr by (simp_all add: f_def pos_imp_zdiv_nonneg_iff)
  have "word_rat (65536 :: 32 word) = 65536" by (simp add: word_rat_def)
  then have q: "requested_volume vnorm n = word_of_int f"
    using trunc_quotient [OF assms(2,3)] assms(1) by (simp add: requested_volume_def f_def)
  have u: "uint (word_of_int f * 100 :: 32 word) = 100 * f"
    using f by (simp add: uint_word_ariths take_bit_int_eq_self uint_word_of_int)
  have "uint (word_of_int f * 100 div (65536 :: 32 word)) = 100 * f div 65536"
    by (simp add: uint_div u)
  moreover have "100 * f div 65536 = 25 * f div 16384" using div_mult_mult1 [of 4 "25 * f" 16384] by simp
  moreover have "25 * f div 16384 = (if r = 0 then n else n - 1)"
  proof (cases "r = 0")
    case True
    then show ?thesis using fr(1) [symmetric] by simp
  next
    case False
    then have "25 * f = 16384 * (n - 1) + (16384 - r)" "0 \<le> 16384 - r" "16384 - r < 16384" using fr by simp_all
    then have "25 * f div 16384 = n - 1" by (rule int_div_pos_eq)
    then show ?thesis using False by simp
  qed
  moreover have "r = 0 \<longleftrightarrow> 25 dvd n"
  proof -
    have "coprime (25 :: int) (2 ^ 14)" by (rule coprime_power_right_iff [THEN iffD2]) simp
    then have "25 dvd 2 ^ 14 * n \<longleftrightarrow> 25 dvd n" by (rule coprime_dvd_mult_right_iff)
    then show ?thesis by (simp add: r_def dvd_eq_mod_eq_0)
  qed
  ultimately have k: "uint (word_of_int f * 100 div (65536 :: 32 word)) = (if 25 dvd n then n else n - 1)" (is "uint ?w = ?k")
    by simp
  have w: "?w = word_of_int ?k" unfolding k [symmetric] by (rule word_of_int_uint [symmetric])
  have "0 < n" if "\<not> 25 dvd n" using that assms(2) by (cases "n = 0") auto
  then have "0 \<le> ?k" "?k \<le> 1000" using assms(2,3) by (auto split: if_splits)
  then have "sint (word_of_int ?k :: 32 word) = ?k" by (simp add: signed_of_int signed_take_bit_int_eq_self)
  then have "sint ?w = ?k" by (simp only: w)
  then show ?thesis using q assms(1) by (simp only: volume_percent_def)
qed

text \<open>
  C35 (functional): Scrolling asks for the volume changed by the step of the wheel; when the server then reports the
  sink with the volume that was asked for, the element's volume has moved by one percent less,
  except to a multiple of 25.
\<close>

theorem scroll_changes_volume:
  assumes "vnorm = 65536" "0 \<le> volume (currentSink m) + d" "volume (currentSink m) + d \<le> 1000"
    "reports r i" "pa_avg i = requested_volume vnorm (volume (currentSink m) + d)"
  defines "v \<equiv> volume (currentSink m) + d"
  shows "last (requests (adjustVolume vnorm d r m)) = Set_volume (sink_index (currentSink m)) (pa_avg i) \<and>
    sink_name (currentSink (adjustVolume vnorm d r m)) = pa_name i \<and>
    volume (currentSink (adjustVolume vnorm d r m)) = (if 25 dvd v then v else v - 1)"
proof -
  have "max 0 v = v" using assms(2) by (simp add: v_def)
  then have a: "adjustVolume vnorm d r m =
      show_change vnorm r (request (Set_volume (sink_index (currentSink m)) (pa_avg i)) m)"
    using assms(5) by (simp add: adjustVolume_def Let_def v_def)
  have "shows_sink vnorm i (currentSink (adjustVolume vnorm d r m))"
    unfolding a show_change_sel by (rule refreshCache_current [OF assms(4)])
  moreover have "volume_percent vnorm (pa_avg i) = (if 25 dvd v then v else v - 1)"
    unfolding assms(5) v_def by (rule volume_readback [OF assms(1-3)])
  ultimately show ?thesis by (simp add: shows_sink_def a request_def)
qed

section \<open>The other operations\<close>

lemma next_sink_found:
  assumes "distinct (map sink_name sinks)" "k < length sinks" "i \<le> k"
  shows "next_sink (sink_name (sinks ! k)) sinks i = Some (Suc k mod length sinks)"
  using assms(3)
proof (induction "k - i" arbitrary: i)
  case 0
  then show ?case using assms(2) by (simp add: next_sink.simps)
next
  case (Suc d)
  then have "i < k" by simp
  then have "sink_name (sinks ! i) \<noteq> sink_name (sinks ! k)"
    using assms(1,2) nth_eq_iff_index_eq [of "map sink_name sinks" i k] by simp
  moreover have "next_sink (sink_name (sinks ! k)) sinks (Suc i) = Some (Suc k mod length sinks)"
    using Suc(1) [of "Suc i"] Suc(2) \<open>i < k\<close> by simp
  ultimately show ?case using \<open>i < k\<close> assms(2) by (subst next_sink.simps) simp
qed

text \<open>
  The right button makes the sink after the current one the default, the first one after the last,
  and shows it when the server has followed the request.
\<close>

theorem cycle_selects_next:
  assumes "distinct (map sink_name (allSinks m))" "1 < length (allSinks m)" "k < length (allSinks m)"
    "sink_name (currentSink m) = sink_name (allSinks m ! k)"
    "reports r i" "map pa_name (server_sinks r) = map sink_name (allSinks m)"
    "pa_name i = sink_name (allSinks m ! (Suc k mod length (allSinks m)))"
  shows "last (requests (cycleSinks vnorm r m)) = Set_default (pa_name i) \<and>
    sink_name (currentSink (cycleSinks vnorm r m)) = pa_name i \<and>
    map sink_name (allSinks (cycleSinks vnorm r m)) = map sink_name (allSinks m)"
proof -
  have c: "cycleSinks vnorm r m = show_change vnorm r (request (Set_default (pa_name i)) m)"
    using next_sink_found [OF assms(1,3), of 0] assms(2,4,7) by (simp add: cycleSinks_def)
  have "shows_sink vnorm i (currentSink (cycleSinks vnorm r m))"
    unfolding c show_change_sel by (rule refreshCache_current [OF assms(5)])
  then show ?thesis using assms(6) by (simp add: shows_sink_def c request_def)
qed

text \<open>
  An update leaves the time stamp of the base class as it is, so that the module is due at every
  pass of the main loop; the module itself does nothing within a quarter of a second.
\<close>

lemma audio_always_due:
  "lastUpdate (update vnorm r now m) = lastUpdate m \<and>
   (cdiv (now - lastUpdateTime m) 1000000 < 250 \<longrightarrow> update vnorm r now m = m)"
  by (simp add: update_def)

text \<open>The battery of a headset is asked for at most every thirty seconds.\<close>

lemma battery_cached:
  assumes "cachedBattery m \<noteq> - 1" "lastBatteryCheck m \<le> t" "t < lastBatteryCheck m + 30 * 1000000000"
  shows "getBluetoothBatteryLevel t out m = (cachedBattery m, m)"
proof -
  have "(t - lastBatteryCheck m) div 1000000000 \<le> (30 * 1000000000 - 1) div 1000000000"
    by (rule zdiv_mono1) (use assms(3) in simp_all)
  then show ?thesis using assms(1,2) by (simp add: getBluetoothBatteryLevel_def)
qed

section \<open>Two sinks\<close>

definition demo_sink :: "string \<Rightarrow> 32 word \<Rightarrow> int \<Rightarrow> SinkInfo" where
  "demo_sink nm ix v = \<lparr>sink_name = bytes nm, sink_index = ix, volume = v, isMuted = False, isBluetooth = False,
     batteryLevel = - 1\<rparr>"

definition demo_pa :: "string \<Rightarrow> 32 word \<Rightarrow> 32 word \<Rightarrow> pa_sink" where
  "demo_pa nm ix avg = \<lparr>pa_name = bytes nm, pa_index = ix, pa_mute = False, pa_avg = avg, call_time = 0, upower = None\<rparr>"

definition demo_audio :: audio where
  "demo_audio = newAudio 0 (demo_sink ''a'' 7 40)\<lparr>allSinks := [demo_sink ''a'' 7 40, demo_sink ''b'' 8 30]\<rparr>"

lemma demo_audio_sel: "currentSink demo_audio = demo_sink ''a'' 7 40"
  "allSinks demo_audio = [demo_sink ''a'' 7 40, demo_sink ''b'' 8 30]"
  by (simp_all add: demo_audio_def newAudio_def module_base.defs)

theorem scroll_changes_volume_witness:
  "\<exists>r. reports r (demo_pa ''a'' 7 (requested_volume 65536 42)) \<and>
     volume (currentSink (adjustVolume 65536 2 r demo_audio)) = 41"
proof -
  let ?i = "demo_pa ''a'' 7 (requested_volume 65536 42)"
  let ?r = "\<lparr>server_default = Some (bytes ''a''), server_sinks = [?i]\<rparr>"
  have "reports ?r ?i" by (simp add: reports_def demo_pa_def)
  moreover have "volume (currentSink (adjustVolume 65536 2 ?r demo_audio)) = 41"
    using scroll_changes_volume [of 65536 demo_audio 2 ?r ?i] calculation
    by (simp add: demo_audio_sel demo_sink_def demo_pa_def)
  ultimately show ?thesis by blast
qed

theorem cycle_selects_next_witness:
  "\<exists>r. sink_name (currentSink (cycleSinks 65536 r demo_audio)) = bytes ''b''"
proof -
  let ?i = "demo_pa ''b'' 8 19660"
  let ?r = "\<lparr>server_default = Some (bytes ''b''), server_sinks = [demo_pa ''a'' 7 0, ?i]\<rparr>"
  have "reports ?r ?i" by (simp add: reports_def demo_pa_def bytes_def)
  then have "sink_name (currentSink (cycleSinks 65536 ?r demo_audio)) = pa_name ?i"
    using cycle_selects_next [of demo_audio 0 ?r ?i 65536]
    by (simp add: demo_audio_sel demo_sink_def demo_pa_def bytes_def)
  then show ?thesis by (auto simp: demo_pa_def)
qed

end
