(* ===== verification/Ping.thy ===== *)
theory Ping
  imports Floats Element Utf8
begin

text \<open>
  \<open>modules/ping.h\<close>.  The text of \<open>/proc/net/dev\<close>, the calls on the socket and the clock are
  arguments; buffers hold the text up to its terminating zero.
\<close>

section \<open>Definitions\<close>

datatype ping_handler = ToggleDetails

record ping = module_base +
  baseElement :: "ping_handler barElement"
  showDetails :: bool
  lastSent :: "64 word"
  lastRecv :: "64 word"
  lastUp :: rat
  lastDown :: rat
  cachedLatency :: rat
  lastLatencyCheck :: int
  netDevFd :: int
  openSockets :: int

definition ICON_NET :: "byte list" where "ICON_NET = utf8_encode 0xef09"
definition ICON_UP :: "byte list" where "ICON_UP = utf8_encode 0xeaa0"
definition ICON_DOWN :: "byte list" where "ICON_DOWN = utf8_encode 0xea9d"

subsection \<open>\<open>/proc/net/dev\<close>\<close>

definition num_char :: "byte \<Rightarrow> bool" where
  "num_char b \<longleftrightarrow> 48 \<le> unat b \<and> unat b \<le> 57"

fun atoull_digits :: "64 word \<Rightarrow> byte list \<Rightarrow> 64 word \<times> byte list" where
  "atoull_digits val [] = (val, [])"
| "atoull_digits val (b # p) =
     (if num_char b then atoull_digits (val * 10 + of_nat (unat b - 48)) p else (val, b # p))"

definition fast_atoull :: "byte list \<Rightarrow> 64 word \<times> byte list" where
  "fast_atoull p = atoull_digits 0 (dropWhile (\<lambda>b. \<not> num_char b) p)"

definition skip_column :: "byte list \<Rightarrow> byte list" where
  "skip_column p = snd (fast_atoull p)"

definition skip_line :: "byte list \<Rightarrow> byte list" where
  "skip_line p = drop 1 (dropWhile (\<lambda>b. b \<noteq> 10) p)"

definition after_colon :: "byte list \<Rightarrow> byte list" where
  "after_colon p = drop 1 (dropWhile (\<lambda>b. b \<noteq> 58) p)"

lemma atoull_digits_le: "length (snd (atoull_digits v p)) \<le> length p"
  by (induction v p rule: atoull_digits.induct) auto

lemma fast_atoull_le: "length (snd (fast_atoull p)) \<le> length p"
  unfolding fast_atoull_def using atoull_digits_le le_trans length_dropWhile_le by metis

lemma skip_column_le: "length (skip_column p) \<le> length p"
  by (simp add: skip_column_def fast_atoull_le)

lemma skip_columns_le: "length ((skip_column ^^ n) p) \<le> length p"
  by (induction n) (simp_all, meson le_trans skip_column_le)

lemma skip_line_less: "p \<noteq> [] \<Longrightarrow> length (skip_line p) < length p"
proof -
  assume "p \<noteq> []"
  then have "0 < length p" by simp
  moreover have "length (dropWhile (\<lambda>b. b \<noteq> 10) p) \<le> length p" by (rule length_dropWhile_le)
  ultimately show "length (skip_line p) < length p" unfolding skip_line_def length_drop by linarith
qed

lemma skip_line_le: "length (skip_line p) \<le> length p"
  using skip_line_less [of p] by (cases "p = []") (auto simp: skip_line_def)

lemma after_colon_less: "p \<noteq> [] \<Longrightarrow> length (after_colon p) < length p"
proof -
  assume "p \<noteq> []"
  then have "0 < length p" by simp
  moreover have "length (dropWhile (\<lambda>b. b \<noteq> 58) p) \<le> length p" by (rule length_dropWhile_le)
  ultimately show "length (after_colon p) < length p" unfolding after_colon_def length_drop by linarith
qed

text \<open>
  The loop over the interfaces: spaces, the loopback interface, else the name up to the colon, the
  first and the ninth column and the rest of the line.
\<close>

function interfaces :: "64 word \<Rightarrow> 64 word \<Rightarrow> byte list \<Rightarrow> 64 word \<times> 64 word" where
  "interfaces sent recv p0 =
     (let p = dropWhile (\<lambda>b. b = 32) p0
      in if p = [] then (sent, recv)
         else if take 3 p = bytes ''lo:'' then interfaces sent recv (skip_line p)
         else let p1 = after_colon p;
                  p2 = (skip_column ^^ 7) (snd (fast_atoull p1))
              in interfaces (sent + fst (fast_atoull p2)) (recv + fst (fast_atoull p1))
                   (skip_line (snd (fast_atoull p2))))"
  by auto
termination
proof (relation "measure (\<lambda>(_, _, p). length p)", goal_cases)
  case 1
  show ?case by simp
next
  case (2 sent recv p0 p)
  have "length p \<le> length p0" unfolding 2(1) by (rule length_dropWhile_le)
  then show ?case using skip_line_less [OF 2(2)] by simp
next
  case (3 sent recv p0 p p1 p2)
  have "length p \<le> length p0" unfolding 3(1) by (rule length_dropWhile_le)
  then have "length p1 < length p0" using after_colon_less [OF 3(2)] 3(4) by simp
  moreover have "length p2 \<le> length p1"
    using skip_columns_le [of 7 "snd (fast_atoull p1)"] fast_atoull_le [of p1] 3(5) by simp
  ultimately have "length (skip_line (snd (fast_atoull p2))) < length p0"
    using skip_line_le [of "snd (fast_atoull p2)"] fast_atoull_le [of p2] by linarith
  then show ?case by simp
qed

declare interfaces.simps [simp del]

text \<open>
  \<open>getNetworkIo\<close>: the counters of sent and received bytes, \<open>None\<close> when it returns without storing
  any.  \<open>read_result\<close> is what \<open>read\<close> stores after the seek, \<open>None\<close> when one of the two fails.
\<close>

definition getNetworkIo :: "int \<Rightarrow> byte list option \<Rightarrow> (64 word \<times> 64 word) option" where
  "getNetworkIo fd read_result =
     (if fd < 0 then None
      else case read_result of
        None \<Rightarrow> None
      | Some s \<Rightarrow> if s = [] then None
                  else Some (interfaces 0 0 (skip_line (skip_line (cstr (take 4095 s))))))"

subsection \<open>Latency\<close>

text \<open>What the calls of \<open>getLatencyMs\<close> answer; times are seconds and nanoseconds.\<close>

record connection =
  sock_ok :: bool
  connect_fails :: bool
  poll_result :: int
  so_error :: int
  t_start :: "int \<times> int"
  t_end :: "int \<times> int"

definition elapsed_ms :: "int \<times> int \<Rightarrow> int \<times> int \<Rightarrow> rat" where
  "elapsed_ms s e =
     fl (fl (fl (of_int (fst e - fst s)) * 1000) + fl (fl (of_int (snd e - snd s)) / 1000000))"

text \<open>The result and how many sockets stay open.\<close>

definition getLatencyMs :: "connection \<Rightarrow> rat \<times> int" where
  "getLatencyMs c =
     (if \<not> sock_ok c then (- 1, 0)
      else let opened = 1
           in if connect_fails c then (- 1, opened - 1)
              else if poll_result c \<le> 0 then (- 1, opened - 1)
              else if so_error c \<noteq> 0 then (- 1, opened - 1)
              else (elapsed_ms (t_start c) (t_end c), opened - 1))"

subsection \<open>The module\<close>

text \<open>One step of the smoothed rate, in kilobytes; the difference of the counters wraps.\<close>

definition smoothed :: "64 word \<Rightarrow> 64 word \<Rightarrow> rat \<Rightarrow> rat" where
  "smoothed cur old avg =
     (let up = db (db (word_rat (cur - old)) * (1 / 1024));
          up = (if up < 0 then 0 else up)
      in db (db (up * db 0.7) + db (avg * db 0.3)))"

definition ping_text :: "ping \<Rightarrow> byte list" where
  "ping_text m =
     (if \<not> showDetails m then ICON_NET
      else ICON_NET @ [32] @
        (if cachedLatency m \<ge> 0 then fmt_f 1 (cachedLatency m) @ bytes ''ms '' else bytes ''Off '') @
        ICON_UP @ fmt_f 1 (lastUp m) @ bytes ''K '' @ ICON_DOWN @ fmt_f 1 (lastDown m) @ bytes ''K'')"

text \<open>\<open>junk\<close> is what the two uninitialised counters of an update hold.\<close>

definition update :: "64 word \<times> 64 word \<Rightarrow> byte list option \<Rightarrow> connection \<Rightarrow> int \<Rightarrow> ping \<Rightarrow> ping" where
  "update junk net con now m =
     (let (curSent, curRecv) = (case getNetworkIo (netDevFd m) net of None \<Rightarrow> junk | Some c \<Rightarrow> c);
          m1 = m\<lparr>lastUp := smoothed curSent (lastSent m) (lastUp m),
                 lastDown := smoothed curRecv (lastRecv m) (lastDown m),
                 lastSent := curSent, lastRecv := curRecv\<rparr>;
          m2 = (if now \<noteq> lastLatencyCheck m1
                then m1\<lparr>cachedLatency := fst (getLatencyMs con), lastLatencyCheck := now,
                        openSockets := openSockets m1 + snd (getLatencyMs con)\<rparr>
                else m1)
      in m2\<lparr>baseElement := set_content (ping_text m2) (baseElement m2), lastUpdate := now\<rparr>)"

text \<open>The handler calls \<open>renderFunction\<close> without looking whether it is set.\<close>

definition toggle_details ::
  "64 word \<times> 64 word \<Rightarrow> byte list option \<Rightarrow> connection \<Rightarrow> int \<Rightarrow> ping \<Rightarrow> ping option" where
  "toggle_details junk net con now m =
     (let m1 = update junk net con now (m\<lparr>showDetails := \<not> showDetails m\<rparr>)
      in if renderFunction m1 then Some (callRender m1) else None)"

fun run_handler ::
  "ping_handler \<Rightarrow> 64 word \<times> 64 word \<Rightarrow> byte list option \<Rightarrow> connection \<Rightarrow> int \<Rightarrow> ping \<Rightarrow> ping option" where
  "run_handler ToggleDetails = toggle_details"

text \<open>\<open>fd\<close> is the descriptor that \<open>openNetDev\<close> gets.\<close>

definition newPing :: "32 word \<Rightarrow> int \<Rightarrow> byte list option \<Rightarrow> ping" where
  "newPing window0 fd net =
     (let (s, r) = (case getNetworkIo fd net of None \<Rightarrow> (0, 0) | Some c \<Rightarrow> c)
      in module_base.extend (newModule (bytes ''network'') False 1 window0)
           \<lparr>baseElement = setEvent (staticElement\<lparr>moduleName := bytes ''network''\<rparr>) CLICK_LEFT ToggleDetails,
            showDetails = True, lastSent = s, lastRecv = r, lastUp = 0, lastDown = 0, cachedLatency = - 1,
            lastLatencyCheck = 0, netDevFd = fd, openSockets = 0\<rparr>)"

definition elements :: "ping \<Rightarrow> ping_handler barElement list" where
  "elements m = [baseElement m]"

section \<open>Reading the table of interfaces\<close>

text \<open>An interface: its name and its columns, each with the number of extra spaces before it.\<close>

type_synonym iface = "nat \<times> byte list \<times> (nat \<times> nat) list"

definition print_column :: "nat \<times> nat \<Rightarrow> byte list" where
  "print_column c = replicate (Suc (fst c)) 32 @ dec (snd c)"

definition print_iface :: "iface \<Rightarrow> byte list" where
  "print_iface i =
     (case i of (k, nm, cs) \<Rightarrow> replicate k 32 @ nm @ [58] @ concat (map print_column cs) @ [10])"

definition iface_ok :: "iface \<Rightarrow> bool" where
  "iface_ok i \<longleftrightarrow> (case i of (k, nm, cs) \<Rightarrow>
     nm \<noteq> [] \<and> 58 \<notin> set nm \<and> 10 \<notin> set nm \<and> hd nm \<noteq> 32 \<and> 9 \<le> length cs)"

definition is_lo :: "iface \<Rightarrow> bool" where
  "is_lo i \<longleftrightarrow> fst (snd i) = bytes ''lo''"

definition column :: "nat \<Rightarrow> iface \<Rightarrow> nat" where
  "column n i = snd (snd (snd i) ! n)"

lemma num_char_dec: "b \<in> set (dec n) \<Longrightarrow> num_char b"
  using dec_range by (simp add: num_char_def)

lemma not_num_char [simp]: "\<not> num_char 32" "\<not> num_char 10" "\<not> num_char 58"
  by (simp_all add: num_char_def)

lemma atoull_digits_dec:
  "atoull_digits v (dec n @ rest) = atoull_digits (v * 10 ^ length (dec n) + of_nat n) rest"
proof (induction n arbitrary: v rest rule: dec.induct)
  case (1 n)
  have one: "atoull_digits v (digit_byte d # rest) = atoull_digits (v * 10 + of_nat d) rest" if "d < 10" for d v rest
    using that by (simp add: num_char_def unat_digit_byte)
  show ?case
  proof (cases "n < 10")
    case True
    then show ?thesis by (simp add: one del: atoull_digits.simps)
  next
    case False
    have "atoull_digits v (dec n @ rest) = atoull_digits v (dec (n div 10) @ digit_byte (n mod 10) # rest)"
      using False by (simp add: dec_step)
    also have "\<dots> = atoull_digits ((v * 10 ^ length (dec (n div 10)) + of_nat (n div 10)) * 10 + of_nat (n mod 10)) rest"
      using 1 [OF False] by (simp only: one mod_less_divisor zero_less_numeral)
    also have "(v * 10 ^ length (dec (n div 10)) + of_nat (n div 10)) * 10 + of_nat (n mod 10) =
        v * 10 ^ length (dec n) + (of_nat (10 * (n div 10) + n mod 10) :: 64 word)"
      using False by (simp only: dec_step length_append of_nat_add of_nat_mult) (simp add: algebra_simps)
    finally show ?thesis by simp
  qed
qed

definition no_digit_first :: "byte list \<Rightarrow> bool" where
  "no_digit_first p \<longleftrightarrow> p = [] \<or> \<not> num_char (hd p)"

lemma atoull_digits_stop: "no_digit_first p \<Longrightarrow> atoull_digits v p = (v, p)"
  by (cases p) (auto simp: no_digit_first_def)

lemma fast_atoull_column:
  assumes "no_digit_first rest"
  shows "fast_atoull (print_column c @ rest) = (of_nat (snd c), rest)"
proof -
  have z: "dropWhile (\<lambda>b. \<not> num_char b) (replicate k 32 @ s) = dropWhile (\<lambda>b. \<not> num_char b) s" for k s
    by (induction k) simp_all
  obtain b bs where d: "dec (snd c) = b # bs" by (cases "dec (snd c)") auto
  then have "num_char b" using num_char_dec [of b "snd c"] by simp
  then have "dropWhile (\<lambda>b. \<not> num_char b) (print_column c @ rest) = dec (snd c) @ rest"
    unfolding print_column_def append_assoc z by (simp add: d)
  then show ?thesis
    using atoull_digits_dec [of 0 "snd c" rest] assms by (simp add: fast_atoull_def atoull_digits_stop)
qed

lemma no_digit_columns: "no_digit_first (concat (map print_column cs) @ 10 # rest)"
  by (cases cs) (simp_all add: no_digit_first_def print_column_def)

lemma skip_columns:
  "n \<le> length cs \<Longrightarrow>
     (skip_column ^^ n) (concat (map print_column cs) @ 10 # rest) = concat (map print_column (drop n cs)) @ 10 # rest"
proof (induction n arbitrary: cs)
  case (Suc n)
  then obtain c cs' where c: "cs = c # cs'" by (cases cs) auto
  have "skip_column (concat (map print_column cs) @ 10 # rest) = concat (map print_column cs') @ 10 # rest"
    using fast_atoull_column [OF no_digit_columns, of c cs' rest] by (simp add: c skip_column_def)
  then show ?case using Suc c by (simp add: funpow_swap1)
qed simp

lemma skip_to_newline: "10 \<notin> set s \<Longrightarrow> skip_line (s @ 10 # rest) = rest"
  by (induction s) (auto simp: skip_line_def)

lemma newline_column: "10 \<notin> set (concat (map print_column cs))"
  using dec_range [of 10] by (auto simp: print_column_def)

lemma drop_to_colon: "58 \<notin> set nm \<Longrightarrow> dropWhile (\<lambda>b. b \<noteq> 58) (nm @ 58 # rest) = 58 # rest"
  by (induction nm) auto

lemma take_lo: "58 \<notin> set nm \<Longrightarrow> take 3 (nm @ 58 # rest) = bytes ''lo:'' \<longleftrightarrow> nm = bytes ''lo''"
  by (cases nm; cases "tl nm"; cases "tl (tl nm)") (auto simp: bytes_def numeral_3_eq_3)

lemma interfaces_line:
  assumes "iface_ok i"
  shows "interfaces s r (print_iface i @ rest) =
    (if is_lo i then interfaces s r rest
     else interfaces (s + of_nat (column 8 i)) (r + of_nat (column 0 i)) rest)"
proof -
  obtain k nm cs where i: "i = (k, nm, cs)" by (cases i)
  note ok = assms [unfolded iface_ok_def i prod.case]
  let ?cols = "concat (map print_column cs)"
  define line where "line = nm @ 58 # ?cols @ 10 # rest"
  have "dropWhile (\<lambda>b. b = 32) (replicate k 32 @ line) = line"
    using ok by (induction k) (cases nm; simp add: line_def)+
  moreover have "print_iface i @ rest = replicate k 32 @ line" by (simp add: print_iface_def i line_def)
  ultimately have d: "dropWhile (\<lambda>b. b = 32) (print_iface i @ rest) = line" "line \<noteq> []"
    using ok by (simp_all add: line_def)
  have lo: "take 3 line = bytes ''lo:'' \<longleftrightarrow> is_lo i"
    using take_lo [of nm] ok by (simp add: line_def is_lo_def i)
  show ?thesis
  proof (cases "is_lo i")
    case True
    have "10 \<notin> set (nm @ 58 # ?cols)" using ok newline_column [of cs] by auto
    then have "skip_line line = rest" using skip_to_newline [of "nm @ 58 # ?cols" rest] by (simp add: line_def)
    then show ?thesis using True d lo by (subst interfaces.simps) simp
  next
    case False
    obtain c0 cs0 where c0: "cs = c0 # cs0" "8 \<le> length cs0" using ok by (cases cs) auto
    obtain c8 cs9 where c8: "drop 7 cs0 = c8 # cs9" using c0(2) by (cases "drop 7 cs0") auto
    then have "cs0 ! 7 = c8" using c0(2) hd_drop_conv_nth [of 7 cs0] c8 by simp
    then have col: "column 0 i = snd c0" "column 8 i = snd c8" using c0 by (simp_all add: column_def i nth_Cons')
    have "dropWhile (\<lambda>b. b \<noteq> 58) line = 58 # ?cols @ 10 # rest"
      unfolding line_def using ok by (intro drop_to_colon) simp
    then have p1: "after_colon line = print_column c0 @ concat (map print_column cs0) @ 10 # rest"
      by (simp add: after_colon_def c0)
    have f1: "fast_atoull (after_colon line) = (of_nat (snd c0), concat (map print_column cs0) @ 10 # rest)"
      unfolding p1 by (rule fast_atoull_column) (rule no_digit_columns)
    have p2: "(skip_column ^^ 7) (concat (map print_column cs0) @ 10 # rest) =
        print_column c8 @ concat (map print_column cs9) @ 10 # rest"
      using skip_columns [of 7 cs0 rest] c0(2) c8 by simp
    have f2: "fast_atoull (print_column c8 @ concat (map print_column cs9) @ 10 # rest) =
        (of_nat (snd c8), concat (map print_column cs9) @ 10 # rest)"
      by (rule fast_atoull_column) (rule no_digit_columns)
    have "skip_line (concat (map print_column cs9) @ 10 # rest) = rest"
      by (rule skip_to_newline) (rule newline_column)
    then show ?thesis
      using False d lo f1 f2 p2 col by (subst interfaces.simps) (simp add: Let_def)
  qed
qed

lemma interfaces_table:
  "list_all iface_ok is \<Longrightarrow>
     interfaces s r (concat (map print_iface is)) =
       (s + of_nat (\<Sum>i\<leftarrow>is. if is_lo i then 0 else column 8 i),
        r + of_nat (\<Sum>i\<leftarrow>is. if is_lo i then 0 else column 0 i))"
proof (induction "is" arbitrary: s r)
  case Nil
  show ?case by (subst interfaces.simps) simp
next
  case (Cons i "is")
  then show ?case using interfaces_line [of i s r "concat (map print_iface is)"] by (simp add: algebra_simps)
qed

text \<open>
  C30 (roundtrip): Of a table with two heading lines that fits the buffer, the counters read are the sums of the
  columns of all interfaces except the loopback one, modulo \<open>2 ^ 64\<close>.
\<close>

theorem netdev_sums:
  assumes "0 \<le> fd" "10 \<notin> set h1" "10 \<notin> set h2" "list_all iface_ok is"
    "text = h1 @ [10] @ h2 @ [10] @ concat (map print_iface is)" "length text < 4096" "0 \<notin> set text"
  shows "getNetworkIo fd (Some text) =
    Some (of_nat (\<Sum>i\<leftarrow>is. if is_lo i then 0 else column 8 i),
          of_nat (\<Sum>i\<leftarrow>is. if is_lo i then 0 else column 0 i))"
proof -
  have "cstr text = text" using assms(7) by (auto simp: cstr_def takeWhile_eq_all_conv)
  then have "skip_line (skip_line (cstr (take 4095 text))) = concat (map print_iface is)"
    using assms(2,3,6) skip_to_newline [of h1] skip_to_newline [of h2] by (simp add: assms(5))
  moreover have "text \<noteq> []" by (simp add: assms(5))
  ultimately show ?thesis using interfaces_table [OF assms(4), of 0 0] assms(1) by (simp add: getNetworkIo_def)
qed

section \<open>Rates and sockets\<close>

text \<open>Every socket that is opened is closed again, on each of the five ways out.\<close>

lemma sockets_closed: "openSockets (update junk net con now m) = openSockets m"
  by (simp add: update_def Let_def getLatencyMs_def split_beta)

lemma half_rates: "0 \<le> avg \<Longrightarrow> 0 \<le> smoothed cur old avg"
proof -
  assume a: "0 \<le> avg"
  have "0 \<le> db (word_rat (cur - old))" by simp
  then have "0 \<le> db (db (word_rat (cur - old)) * (1 / 1024))" by simp
  then show ?thesis using a by (simp add: smoothed_def Let_def)
qed

text \<open>
  The two tests for a negative rate are never true, since the difference of the counters is
  unsigned.  A counter that falls, as when an interface disappears, gives an enormous rate.
\<close>

theorem falling_counter_rate:
  assumes "cur < old" "old \<le> 2 ^ 62" "0 \<le> avg"
  shows "2 ^ 52 \<le> smoothed cur old avg"
proof -
  have "uint cur < uint old" "uint old \<le> 2 ^ 62" using assms(1,2) by (simp_all add: word_less_def word_le_def)
  then have "uint (cur - old) = uint cur - uint old + 2 ^ 64"
    using uint_ge_0 [of cur] uint_lt2p [of cur] by (simp add: uint_sub_if')
  then have "2 ^ 63 \<le> uint (cur - old)" using \<open>uint old \<le> 2 ^ 62\<close> uint_ge_0 [of cur]
    by (simp only: power_numeral Num.pow.simps Num.sqr.simps Num.mult_num_simps)
  then have "(of_int (2 ^ 63) :: rat) \<le> of_int (uint (cur - old))" unfolding of_int_le_iff .
  then have "(2 :: rat) ^ 63 \<le> word_rat (cur - old)" by (simp only: word_rat_def of_int_power of_int_numeral)
  moreover have p: "rounded 53 (2 powi k) = 2 powi k" for k using rounded_exact [of 1 53 k] by simp
  moreover have n63: "(2 :: rat) powi 63 = 2 ^ 63" "(2 :: rat) powi 53 = 2 ^ 53" "(2 :: rat) powi 52 = 2 ^ 52"
    by (simp_all add: powi_eval)
  ultimately have "2 ^ 63 \<le> db (word_rat (cur - old))"
    using rounded_mono [of 53 "2 ^ 63" "word_rat (cur - old)"] by (metis zero_less_numeral)
  then have "2 ^ 53 \<le> db (word_rat (cur - old)) * (1 / 1024)" by simp
  then have u: "2 ^ 53 \<le> db (db (word_rat (cur - old)) * (1 / 1024))" (is "_ \<le> ?u")
    using rounded_mono [of 53 "2 ^ 53" "db (word_rat (cur - old)) * (1 / 1024)"] p [of 53] n63 by (metis zero_less_numeral)
  have h: "1 / 2 \<le> db (7 / 10)" "0 \<le> db (3 / 10)"
    using rounded_mono [of 53 "1 / 2" "7 / 10"] p [of "- 1"] by (simp_all add: powi_eval)
  have "2 ^ 52 \<le> ?u * db (7 / 10)" using mult_mono [OF u h(1)] u by simp
  then have "2 ^ 52 \<le> db (?u * db (7 / 10))"
    using rounded_mono [of 53 "2 ^ 52" "?u * db (7 / 10)"] p [of 52] n63 by (metis zero_less_numeral)
  moreover have "0 \<le> db (avg * db (3 / 10))" using assms(3) h(2) by simp
  ultimately have "2 ^ 52 \<le> db (?u * db (7 / 10)) + db (avg * db (3 / 10))" by linarith
  then have "2 ^ 52 \<le> db (db (?u * db (7 / 10)) + db (avg * db (3 / 10)))"
    using rounded_mono [of 53 "2 ^ 52"] p [of 52] n63 by (metis zero_less_numeral)
  moreover have "\<not> ?u < 0" using u by simp
  ultimately show ?thesis by (simp add: smoothed_def Let_def)
qed

interpretation periodic: periodic_module "update junk net con" "\<lambda>_. True" for junk net con
  by unfold_locales (simp_all add: update_def Let_def split_beta)

section \<open>Two interfaces\<close>

definition demo_ifaces :: "iface list" where
  "demo_ifaces =
     [(4, bytes ''lo'', [(0, 7), (0, 1), (0, 0), (0, 0), (0, 0), (0, 0), (0, 0), (0, 0), (0, 7), (0, 1)]),
      (2, bytes ''wlan0'', [(3, 1500), (0, 3), (0, 0), (0, 0), (0, 0), (0, 0), (0, 0), (0, 0), (1, 42)])]"

theorem netdev_sums_witness:
  "getNetworkIo 3 (Some (bytes ''Inter'' @ [10] @ bytes ''face'' @ [10] @ concat (map print_iface demo_ifaces))) =
     Some (42, 1500)"
proof -
  let ?text = "bytes ''Inter'' @ [10] @ bytes ''face'' @ [10] @ concat (map print_iface demo_ifaces)"
  have "list_all iface_ok demo_ifaces" by (simp add: demo_ifaces_def iface_ok_def bytes_def)
  moreover have "0 \<notin> set ?text"
    by (simp add: demo_ifaces_def print_iface_def print_column_def bytes_def digit_byte_def)
  moreover have "length ?text < 4096"
    by (simp add: demo_ifaces_def print_iface_def print_column_def dec_step)
  ultimately have "getNetworkIo 3 (Some ?text) =
    Some (of_nat (\<Sum>i\<leftarrow>demo_ifaces. if is_lo i then 0 else column 8 i),
          of_nat (\<Sum>i\<leftarrow>demo_ifaces. if is_lo i then 0 else column 0 i))"
    by (intro netdev_sums [of 3 "bytes ''Inter''" "bytes ''face''"]) (simp_all add: bytes_def)
  then show ?thesis by (simp add: demo_ifaces_def is_lo_def column_def bytes_def)
qed

theorem falling_counter_rate_witness: "2 ^ 52 \<le> smoothed 5 6 0"
  using falling_counter_rate [of 5 6 0] by simp

end
