(* ===== verification/Resources.thy ===== *)
theory Resources
  imports Floats C_Input Element Utf8
begin

text \<open>
  \<open>modules/resources.h\<close>.  The files under \<open>/proc\<close> and the directory of sensors are arguments.  A
  path that does not fit its buffer makes the scan of the sensors \<open>None\<close>.
\<close>

section \<open>Definitions\<close>

record resources = module_base +
  lastCpuTotal :: "64 word"
  lastCpuIdle :: "64 word"
  tempFds :: "int list"
  tempInitialized :: bool
  ramElement :: "unit barElement"
  cpuElement :: "unit barElement"
  tempElement :: "unit barElement"
  colorNormal :: color
  colorAlert :: color

definition ICON_RAM :: "byte list" where "ICON_RAM = utf8_encode 0xefc5"
definition ICON_CPU :: "byte list" where "ICON_CPU = utf8_encode 0xf4bc"
definition ICON_TEMP :: "byte list" where "ICON_TEMP = utf8_encode 0xf2c9"

definition RAM_WARN :: rat where "RAM_WARN = 80"
definition CPU_WARN :: rat where "CPU_WARN = 80"
definition TEMP_WARN :: rat where "TEMP_WARN = 70"

definition strtoull :: "byte list \<Rightarrow> 64 word" where
  "strtoull s = fst (strtoul 10 s)"

definition starts_with :: "string \<Rightarrow> byte list \<Rightarrow> bool" where
  "starts_with key s \<longleftrightarrow> take (length key) s = bytes key"

fun scan_meminfo :: "64 word \<Rightarrow> 64 word \<Rightarrow> byte list list \<Rightarrow> 64 word \<times> 64 word" where
  "scan_meminfo ttl avail [] = (ttl, avail)"
| "scan_meminfo ttl avail (l # ls) =
     (let line = cstr l;
          (t, a) = (if ttl = 0 \<and> starts_with ''MemTotal:'' line then (strtoull (drop 9 line), avail)
                    else if avail = 0 \<and> starts_with ''MemAvailable:'' line then (ttl, strtoull (drop 13 line))
                    else (ttl, avail))
      in if t \<noteq> 0 \<and> a \<noteq> 0 then (t, a) else scan_meminfo t a ls)"

definition ram_percent :: "64 word \<Rightarrow> 64 word \<Rightarrow> rat" where
  "ram_percent ttl avail = fl (100 - fl (fl (fl (word_rat avail) * 100) / fl (word_rat ttl)))"

definition getRamUsage :: "byte list option \<Rightarrow> rat" where
  "getRamUsage f =
     (case f of None \<Rightarrow> 0
      | Some s \<Rightarrow> (case scan_meminfo 0 0 (lines_of 256 s) of
                     (ttl, avail) \<Rightarrow> if ttl = 0 then 0 else ram_percent ttl avail))"

fun read_values :: "nat \<Rightarrow> byte list \<Rightarrow> 64 word list" where
  "read_values 0 p = []"
| "read_values (Suc n) p = (case strtoul 10 p of (v, k, _) \<Rightarrow> v # read_values n (drop k p))"

definition cpu_percent :: "64 word \<Rightarrow> 64 word \<Rightarrow> rat" where
  "cpu_percent diffTotal diffIdle = fl (100 * fl (1 - fl (fl (word_rat diffIdle) / fl (word_rat diffTotal))))"

text \<open>The sums of the idle and of all the columns.\<close>

definition cpu_idle :: "64 word list \<Rightarrow> 64 word" where
  "cpu_idle v = v ! 3 + v ! 4"

definition cpu_total :: "64 word list \<Rightarrow> 64 word" where
  "cpu_total v = v ! 0 + v ! 1 + v ! 2 + cpu_idle v + v ! 5 + v ! 6 + v ! 7"

text \<open>\<open>junk\<close> is what the buffer holds behind the bytes read; it only matters for fewer than four.\<close>

definition getCpuUsage :: "byte list \<Rightarrow> byte list option \<Rightarrow> resources \<Rightarrow> rat \<times> resources" where
  "getCpuUsage junk f m =
     (case f of None \<Rightarrow> (0, m)
      | Some s \<Rightarrow>
          if s = [] then (0, m)
          else let buf = take 255 s @ [0] @ junk;
                   v = read_values 8 (cstr (drop 4 buf));
                   idle = cpu_idle v; ttl = cpu_total v;
                   m1 = m\<lparr>lastCpuTotal := ttl, lastCpuIdle := idle\<rparr>
               in if lastCpuTotal m = 0 then (0, m1)
                  else let diffTotal = ttl - lastCpuTotal m; diffIdle = idle - lastCpuIdle m
                       in (if diffTotal = 0 then 0 else cpu_percent diffTotal diffIdle, m1))"

text \<open>
  A directory of sensors: its name, and, if it can be opened, its entries with the descriptor that
  \<open>open\<close> gives for each.
\<close>

type_synonym hwmon = "byte list \<times> (byte list \<times> int) list option"

fun scan_sensors :: "nat \<Rightarrow> (byte list \<times> int) list \<Rightarrow> int list \<Rightarrow> int list option" where
  "scan_sensors blen [] fds = Some fds"
| "scan_sensors blen ((nm, fd) # es) fds =
     (if \<not> length fds < 32 then Some fds
      else if \<not> starts_with ''temp'' nm then scan_sensors blen es fds
      else if \<not> occurs (bytes ''_input'') nm then scan_sensors blen es fds
      else if \<not> blen + 1 + length nm < 256 then None
      else scan_sensors blen es (if fd \<ge> 0 then fds @ [fd] else fds))"

fun scan_hwmon :: "hwmon list \<Rightarrow> int list \<Rightarrow> int list option" where
  "scan_hwmon [] fds = Some fds"
| "scan_hwmon ((nm, sub) # es) fds =
     (if \<not> length fds < 32 then Some fds
      else if take 1 nm = [46] then scan_hwmon es fds
      else if \<not> 17 + length nm < 128 then None
      else case sub of
        None \<Rightarrow> scan_hwmon es fds
      | Some ss \<Rightarrow> (case scan_sensors (17 + length nm) ss fds of
                      None \<Rightarrow> None | Some fds' \<Rightarrow> scan_hwmon es fds'))"

definition init_sensors :: "hwmon list option \<Rightarrow> resources \<Rightarrow> resources option" where
  "init_sensors dir m =
     (if tempInitialized m then Some m
      else case dir of
        None \<Rightarrow> Some (m\<lparr>tempInitialized := True\<rparr>)
      | Some es \<Rightarrow> map_option (\<lambda>fds. m\<lparr>tempFds := fds, tempInitialized := True\<rparr>) (scan_hwmon es (tempFds m)))"

text \<open>Every character from \<open>0\<close> on counts as a digit; \<open>char\<close> is signed.\<close>

definition milli_char :: "byte \<Rightarrow> bool" where
  "milli_char b \<longleftrightarrow> 48 \<le> unat b \<and> unat b < 128"

definition milli_value :: "byte list \<Rightarrow> int" where
  "milli_value s =
     sint (fold (\<lambda>b v. v * 10 + of_nat (unat b - 48)) (takeWhile milli_char (cstr (take 15 s))) (0 :: 32 word))"

fun max_milli :: "(int \<Rightarrow> byte list) \<Rightarrow> int list \<Rightarrow> int \<Rightarrow> int" where
  "max_milli rd [] mx = mx"
| "max_milli rd (fd # fds) mx =
     (if rd fd = [] then max_milli rd fds mx
      else max_milli rd fds (if milli_value (rd fd) > mx then milli_value (rd fd) else mx))"

definition getCpuTemp :: "hwmon list option \<Rightarrow> (int \<Rightarrow> byte list) \<Rightarrow> resources \<Rightarrow> (rat \<times> resources) option" where
  "getCpuTemp dir rd m =
     map_option (\<lambda>m1. (fl (fl (of_int (max_milli rd (tempFds m1) 0)) * fl (1 / 1000)), m1)) (init_sensors dir m)"

record sources =
  meminfo :: "byte list option"
  proc_stat :: "byte list option"
  stat_junk :: "byte list"
  hwmon_dir :: "hwmon list option"
  sensor :: "int \<Rightarrow> byte list"

definition show_level :: "byte list \<Rightarrow> bool \<Rightarrow> resources \<Rightarrow> unit barElement \<Rightarrow> unit barElement" where
  "show_level s warn m e =
     (set_content s e)\<lparr>foregroundColor := (if warn then colorAlert m else colorNormal m)\<rparr>"

definition update :: "sources \<Rightarrow> int \<Rightarrow> resources \<Rightarrow> resources option" where
  "update src now m =
     (let ram = getRamUsage (meminfo src);
          (cpu, m1) = getCpuUsage (stat_junk src) (proc_stat src) m
      in map_option (\<lambda>(temp, m2).
           m2\<lparr>ramElement := show_level (ICON_RAM @ [32] @ fmt_f 1 ram @ [37, 32] @ utf8_encode 0x258f)
                (ram > RAM_WARN) m2 (ramElement m2),
              cpuElement := show_level (ICON_CPU @ [32] @ fmt_f 1 cpu @ [37, 32])
                (cpu > CPU_WARN) m2 (cpuElement m2),
              tempElement := show_level ([32] @ ICON_TEMP @ [32] @ fmt_f 0 temp @ utf8_encode 0xb0 @ [67])
                (temp > TEMP_WARN) m2 (tempElement m2),
              lastUpdate := now\<rparr>)
         (getCpuTemp (hwmon_dir src) (sensor src) m1))"

definition newResources :: "32 word \<Rightarrow> resources" where
  "newResources window0 =
     (let normal = color_of ''#E0AAFF'' (mk_color 224 170 255 255);
          e = staticElement\<lparr>moduleName := bytes ''resources'', foregroundColor := normal\<rparr>
      in module_base.extend (newModule (bytes ''resources'') False 2 window0)
           \<lparr>lastCpuTotal = 0, lastCpuIdle = 0, tempFds = [], tempInitialized = False,
            ramElement = e, cpuElement = e, tempElement = e, colorNormal = normal,
            colorAlert = color_of ''#FF6B6B'' (mk_color 255 107 107 255)\<rparr>)"

definition elements :: "resources \<Rightarrow> unit barElement list" where
  "elements m = [ramElement m, cpuElement m, tempElement m]"

text \<open>The destructor closes these descriptors.\<close>

definition closed_fds :: "resources \<Rightarrow> int list" where
  "closed_fds m = tempFds m"

section \<open>Percentages\<close>

lemma fl_ratio:
  assumes "a \<le> b" "b \<noteq> 0"
  shows "0 \<le> fl (fl (word_rat a) / fl (word_rat b))" "fl (fl (word_rat a) / fl (word_rat b)) \<le> 1"
proof -
  have "fl (word_rat a) \<le> fl (word_rat b)" using word_rat_mono [OF assms(1)] by (rule rounded_mono [rotated]) simp
  moreover have "0 < fl (word_rat b)" using assms(2) by simp
  ultimately have "fl (word_rat a) / fl (word_rat b) \<le> 1" "0 \<le> fl (word_rat a) / fl (word_rat b)" by simp_all
  then show "0 \<le> fl (fl (word_rat a) / fl (word_rat b))" "fl (fl (word_rat a) / fl (word_rat b)) \<le> 1"
    using rounded_mono [of 24 "fl (word_rat a) / fl (word_rat b)" 1] rounded_of_int [of 1 24] by simp_all
qed

lemma cpu_percent_range:
  assumes "i \<le> t" "t \<noteq> 0"
  shows "0 \<le> cpu_percent t i \<and> cpu_percent t i \<le> 100"
proof -
  let ?q = "1 - fl (fl (word_rat i) / fl (word_rat t))"
  have q: "0 \<le> ?q" "?q \<le> 1" using fl_ratio [OF assms] by simp_all
  then have "0 \<le> fl ?q" "fl ?q \<le> 1" using rounded_mono [of 24 ?q 1] rounded_of_int [of 1 24] by simp_all
  then show ?thesis
    using rounded_mono [of 24 "100 * fl ?q" 100] rounded_of_int [of 100 24] by (simp add: cpu_percent_def)
qed

lemma ram_percent_upper:
  assumes "t \<noteq> 0"
  shows "ram_percent t a \<le> 100"
proof -
  have "0 \<le> fl (fl (fl (word_rat a) * 100) / fl (word_rat t))" by simp
  then have "100 - fl (fl (fl (word_rat a) * 100) / fl (word_rat t)) \<le> 100" by linarith
  then show ?thesis
    using rounded_mono [of 24 "100 - fl (fl (fl (word_rat a) * 100) / fl (word_rat t))" 100] rounded_of_int [of 100 24]
    by (simp add: ram_percent_def)
qed

section \<open>The line of counters\<close>

definition print_counters :: "nat list \<Rightarrow> byte list" where
  "print_counters ns = concat (map (\<lambda>n. 32 # dec n) ns)"

lemma read_values_print:
  assumes "list_all (\<lambda>n. n < 2 ^ 64) ns" "rest = [] \<or> digit_val 10 (hd rest) = None"
  shows "read_values (length ns) (print_counters ns @ rest) = map of_nat ns"
  using assms(1)
proof (induction ns)
  case (Cons n ns)
  have "print_counters ns @ rest = [] \<or> digit_val 10 (hd (print_counters ns @ rest)) = None"
    using assms(2) by (cases ns) (auto simp: print_counters_def digit_val_def)
  then have "strtoul 10 (replicate 1 32 @ dec n @ print_counters ns @ rest) = (of_nat n, 1 + length (dec n), False)"
    using Cons(2) by (intro strtoul_spaces) simp_all
  then show ?case using Cons by (simp add: print_counters_def)
qed (simp add: print_counters_def)


section \<open>Sensors\<close>

lemma scan_sensors_bound: "scan_sensors b es fds = Some fds' \<Longrightarrow> length fds \<le> 32 \<Longrightarrow> length fds' \<le> 32"
  by (induction b es fds arbitrary: fds' rule: scan_sensors.induct) (auto split: if_splits)

lemma scan_hwmon_bound: "scan_hwmon es fds = Some fds' \<Longrightarrow> length fds \<le> 32 \<Longrightarrow> length fds' \<le> 32"
  by (induction es fds arbitrary: fds' rule: scan_hwmon.induct)
    (auto split: if_splits option.splits dest: scan_sensors_bound)

text \<open>The descriptors fit their array, and the sensors are looked for once.\<close>

definition sensors_inv :: "resources \<Rightarrow> bool" where
  "sensors_inv m \<longleftrightarrow> length (tempFds m) \<le> 32 \<and> (\<not> tempInitialized m \<longrightarrow> tempFds m = [])"

lemma init_sensors_inv:
  assumes "init_sensors dir m = Some m'" "sensors_inv m"
  shows "sensors_inv m' \<and> tempInitialized m' \<and> (tempInitialized m \<longrightarrow> tempFds m' = tempFds m)"
  using assms scan_hwmon_bound by (auto simp: init_sensors_def sensors_inv_def split: if_splits option.splits)

lemma getCpuUsage_sel [simp]:
  "tempFds (snd (getCpuUsage junk f m)) = tempFds m"
  "tempInitialized (snd (getCpuUsage junk f m)) = tempInitialized m"
  by (simp_all add: getCpuUsage_def Let_def split: option.splits)

lemma update_sensors:
  assumes "update src now m = Some m'" "sensors_inv m"
  shows "sensors_inv m' \<and> tempInitialized m' \<and> (tempInitialized m \<longrightarrow> tempFds m' = tempFds m) \<and> lastUpdate m' = now"
proof -
  let ?m1 = "snd (getCpuUsage (stat_junk src) (proc_stat src) m)"
  obtain m2 where i: "init_sensors (hwmon_dir src) ?m1 = Some m2" and
    m': "tempFds m' = tempFds m2" "tempInitialized m' = tempInitialized m2" "lastUpdate m' = now"
    using assms(1) by (auto simp: update_def getCpuTemp_def Let_def split_beta)
  have "sensors_inv ?m1" using assms(2) by (simp add: sensors_inv_def)
  from init_sensors_inv [OF i this] show ?thesis using m' by (simp add: sensors_inv_def)
qed

fun run_updates :: "(sources \<times> int) list \<Rightarrow> resources \<Rightarrow> resources option" where
  "run_updates [] m = Some m"
| "run_updates ((s, t) # us) m = (case update s t m of None \<Rightarrow> None | Some m' \<Rightarrow> run_updates us m')"

lemma run_updates_inv: "run_updates us m = Some m' \<Longrightarrow> sensors_inv m \<Longrightarrow>
    sensors_inv m' \<and> (tempInitialized m \<longrightarrow> tempFds m' = tempFds m)"
proof (induction us m arbitrary: m' rule: run_updates.induct)
  case (2 s t us m)
  from 2(2) obtain m1 where m1: "update s t m = Some m1" "run_updates us m1 = Some m'"
    by (cases "update s t m") simp_all
  from update_sensors [OF m1(1) 2(3)] 2(1) [OF m1] show ?case by simp
qed simp

text \<open>
  C37 (bounds): Whatever is read, the descriptors never exceed their array; those of the first update stay the
  ones that are read and, in the end, closed.
\<close>

theorem sensor_descriptors_bounded:
  assumes "update s t (newResources w) = Some m" "run_updates us m = Some m'"
  shows "length (closed_fds m') \<le> 32 \<and> closed_fds m' = closed_fds m"
proof -
  have "sensors_inv (newResources w)" by (simp add: sensors_inv_def newResources_def Let_def module_base.defs)
  then have "sensors_inv m \<and> tempInitialized m" using update_sensors [OF assms(1)] by simp
  then show ?thesis using run_updates_inv [OF assms(2)] by (simp add: sensors_inv_def closed_fds_def)
qed

section \<open>Concrete readings\<close>


definition demo_sources :: sources where
  "demo_sources = \<lparr>meminfo = None, proc_stat = None, stat_junk = [],
     hwmon_dir = Some [(bytes ''hwmon0'', Some [(bytes ''temp1_input'', 5)])], sensor = (\<lambda>_. bytes ''47000'')\<rparr>"

lemma demo_scan: "init_sensors (hwmon_dir demo_sources) m =
    (if tempInitialized m then Some m else Some (m\<lparr>tempFds := tempFds m, tempInitialized := True\<rparr>))
  \<or> (\<exists>fds. init_sensors (hwmon_dir demo_sources) m = Some (m\<lparr>tempFds := fds, tempInitialized := True\<rparr>))"
  by (auto simp: init_sensors_def demo_sources_def starts_with_def bytes_def)

theorem sensor_descriptors_bounded_witness:
  "\<exists>m m'. update demo_sources 1 (newResources 0) = Some m \<and>
     run_updates [(demo_sources, 3), (demo_sources, 5)] m = Some m' \<and> closed_fds m' = closed_fds m"
proof -
  have u: "\<exists>m'. update demo_sources t m = Some m'" for t m
    using demo_scan [of "snd (getCpuUsage (stat_junk demo_sources) (proc_stat demo_sources) m)"]
    by (auto simp: update_def getCpuTemp_def Let_def split_beta split: if_splits)
  obtain m where m: "update demo_sources 1 (newResources 0) = Some m" using u by blast
  obtain m1 where m1: "update demo_sources 3 m = Some m1" using u by blast
  obtain m2 where m2: "update demo_sources 5 m1 = Some m2" using u by blast
  have r: "run_updates [(demo_sources, 3), (demo_sources, 5)] m = Some m2" using m1 m2 by simp
  show ?thesis using sensor_descriptors_bounded [OF m r] m r by blast
qed

end
