(* ===== verification/Workspace.thy ===== *)
theory Workspace
  imports C_Input Element
begin

text \<open>
  \<open>modules/workspace.h\<close>.  The replies of \<open>i3ipc_get_workspaces\<close>, the results of \<open>pipe\<close>, \<open>fork\<close> and \<open>read\<close>
  and what fresh memory holds are arguments.  A write behind the content of an element is \<open>None\<close>.
\<close>

section \<open>Definitions\<close>

datatype workspace_handler = Switch_to "byte list"

record i3_workspace =
  ws_name :: "byte list"
  ws_focused :: bool

type_synonym fresh_memory = "nat \<Rightarrow> 32 word list \<times> byte list"

record workspace = module_base +
  i3Fd :: int
  workspaceElements :: "workspace_handler barElement list"
  open_pipes :: "int list"
  switches :: "byte list list"

definition ws_text :: "byte list \<Rightarrow> byte list" where
  "ws_text nm = [32] @ nm @ [32]"

text \<open>The text is printed into 254 bytes and a zero is stored behind what it would have needed.\<close>

definition ws_content ::
  "i3_workspace \<Rightarrow> workspace_handler barElement \<Rightarrow> workspace_handler barElement option" where
  "ws_content ws e =
     (let s = ws_text (ws_name ws)
      in if length s < CONTENT_MAX_LEN
         then Some (e\<lparr>content := (snprintf_buf (content e) (CONTENT_MAX_LEN - 1) s)[length s := 0],
                      contentLen := int (length s), dirtyContent := True\<rparr>)
         else None)"

definition ws_style :: "i3_workspace \<Rightarrow> workspace_handler barElement \<Rightarrow> workspace_handler barElement" where
  "ws_style ws e =
     (if ws_focused ws
      then e\<lparr>foregroundColor := color_of ''#E0AAFF'' (mk_color 0xff 0xaa 0xff 255),
             underlineColor := color_of ''#E0AAFF'' (mk_color 0xff 0xaa 0xff 255), underline := True\<rparr>
      else e\<lparr>foregroundColor := color_of ''#666666'' (mk_color 0x66 0x66 0x66 255), underline := False\<rparr>)"

definition new_element :: "32 word list \<times> byte list \<Rightarrow> i3_workspace \<Rightarrow> workspace_handler barElement option" where
  "new_element mem ws =
     map_option (\<lambda>e. ws_style ws (setEvent e CLICK_LEFT (Switch_to (ws_name ws))))
       (ws_content ws ((newBarElement (fst mem) (snd mem))\<lparr>moduleName := bytes ''workspace''\<rparr>))"

fun new_elements :: "fresh_memory \<Rightarrow> nat \<Rightarrow> i3_workspace list \<Rightarrow> workspace_handler barElement list option" where
  "new_elements mem i [] = Some []"
| "new_elements mem i (ws # wss) =
     (case new_element (mem i) ws of
        None \<Rightarrow> None
      | Some e \<Rightarrow> map_option ((#) e) (new_elements mem (Suc i) wss))"

definition clearElements :: "workspace \<Rightarrow> workspace" where
  "clearElements m = m\<lparr>workspaceElements := []\<rparr>"

definition initializeElements :: "fresh_memory \<Rightarrow> i3_workspace list option \<Rightarrow> workspace \<Rightarrow> workspace option" where
  "initializeElements mem reply m =
     (let m1 = clearElements m
      in case reply of
           None \<Rightarrow> Some m1
         | Some wss \<Rightarrow> map_option (\<lambda>es. m1\<lparr>workspaceElements := es\<rparr>) (new_elements mem 0 wss))"

fun update_each ::
  "workspace_handler barElement list \<Rightarrow> i3_workspace list \<Rightarrow> workspace_handler barElement list option" where
  "update_each (e # es) (ws # wss) =
     (case ws_content ws e of
        None \<Rightarrow> None
      | Some e1 \<Rightarrow> map_option ((#) (ws_style ws e1)) (update_each es wss))"
| "update_each es wss = Some es"

text \<open>\<open>reply2\<close> is the answer to the second request, that of \<open>initializeElements\<close>.\<close>

definition updateElements ::
  "fresh_memory \<Rightarrow> i3_workspace list option \<Rightarrow> i3_workspace list option \<Rightarrow> workspace \<Rightarrow> workspace option" where
  "updateElements mem reply reply2 m =
     (case reply of
        None \<Rightarrow> Some m
      | Some wss \<Rightarrow>
          (case update_each (workspaceElements m) wss of
             None \<Rightarrow> None
           | Some es \<Rightarrow>
               let m1 = m\<lparr>workspaceElements := es\<rparr>
               in if length wss \<noteq> length es then initializeElements mem reply2 m1 else Some m1))"

definition update ::
  "fresh_memory \<Rightarrow> i3_workspace list option \<Rightarrow> i3_workspace list option \<Rightarrow> workspace \<Rightarrow> workspace option" where
  "update = updateElements"

definition switchToWorkspace :: "byte list \<Rightarrow> workspace \<Rightarrow> workspace" where
  "switchToWorkspace nm m = callRender (m\<lparr>switches := switches m @ [nm]\<rparr>)"

fun run_handler :: "workspace_handler \<Rightarrow> workspace \<Rightarrow> workspace" where
  "run_handler (Switch_to nm) = switchToWorkspace nm"

datatype subscription = Pipe_fails | Fork_fails | Subscribed int

definition subscribeI3 :: "subscription \<Rightarrow> workspace \<Rightarrow> int \<times> workspace" where
  "subscribeI3 s m =
     (case s of
        Pipe_fails \<Rightarrow> (- 1, m)
      | Fork_fails \<Rightarrow> (- 1, m)
      | Subscribed fd \<Rightarrow> (fd, m\<lparr>open_pipes := open_pipes m @ [fd]\<rparr>))"

definition initialize :: "subscription \<Rightarrow> workspace \<Rightarrow> bool \<times> workspace" where
  "initialize s m = (case subscribeI3 s m of (fd, m1) \<Rightarrow> (fd \<noteq> - 1, m1\<lparr>i3Fd := fd\<rparr>))"

definition setupSelectFds :: "int set \<Rightarrow> workspace \<Rightarrow> int set \<times> int" where
  "setupSelectFds fds m = (if i3Fd m \<noteq> - 1 then (insert (i3Fd m) fds, i3Fd m) else (fds, - 1))"

definition isWorkspaceEvent :: "byte list \<Rightarrow> bool" where
  "isWorkspaceEvent s \<longleftrightarrow>
     (let q = [34 :: byte]; change = q @ bytes ''change'' @ q @ bytes '':'' @ q
      in occurs (change @ bytes ''focus'' @ q) s \<or> occurs (change @ bytes ''init'' @ q) s \<or>
         occurs (change @ bytes ''empty'' @ q) s \<or> occurs (change @ bytes ''urgent'' @ q) s)"

text \<open>What successive calls of \<open>read\<close> on the pipe give; after the last one a call would block.\<close>

datatype pipe_read = Data "byte list" | End_of_file | Read_error

fun read_pipe :: "pipe_read list \<Rightarrow> bool \<times> bool \<times> pipe_read list" where
  "read_pipe [] = (False, False, [])"
| "read_pipe (Data s # rs) = (if isWorkspaceEvent (cstr s) then (True, False, rs) else read_pipe rs)"
| "read_pipe (End_of_file # rs) = (False, True, rs)"
| "read_pipe (Read_error # rs) = (False, False, rs)"

definition handleI3Events ::
  "fresh_memory \<Rightarrow> i3_workspace list option \<Rightarrow> i3_workspace list option \<Rightarrow> subscription \<Rightarrow> pipe_read list
    \<Rightarrow> int set \<Rightarrow> workspace \<Rightarrow> (bool \<times> workspace) option" where
  "handleI3Events mem reply reply2 s rs fds m =
     (if i3Fd m \<noteq> - 1 \<and> i3Fd m \<in> fds then
        let (changed, eof, _) = read_pipe rs;
            m1 = (if eof then snd (initialize s (m\<lparr>open_pipes := removeAll (i3Fd m) (open_pipes m)\<rparr>)) else m)
        in if changed then map_option (Pair True) (updateElements mem reply reply2 m1) else Some (False, m1)
      else Some (False, m))"

text \<open>The constructor already subscribes; \<open>initialize\<close> is called again when the bar starts.\<close>

definition newWorkspace ::
  "32 word \<Rightarrow> fresh_memory \<Rightarrow> i3_workspace list option \<Rightarrow> subscription \<Rightarrow> workspace option" where
  "newWorkspace window0 mem reply s =
     (let m0 = module_base.extend (newModule (bytes ''workspace'') True 1 window0)
                 \<lparr>i3Fd = 0, workspaceElements = [], open_pipes = [], switches = []\<rparr>
      in initializeElements mem reply (snd (initialize s m0)))"

definition elements :: "workspace \<Rightarrow> workspace_handler barElement list" where
  "elements m = workspaceElements m"

section \<open>Elements and replies\<close>

definition short_name :: "i3_workspace \<Rightarrow> bool" where
  "short_name ws \<longleftrightarrow> length (ws_name ws) \<le> 251 \<and> 0 \<notin> set (ws_name ws)"

definition sized :: "workspace_handler barElement \<Rightarrow> bool" where
  "sized e \<longleftrightarrow> length (content e) = CONTENT_MAX_LEN"

text \<open>What an element shows of a workspace.\<close>

definition presents :: "workspace_handler barElement \<Rightarrow> i3_workspace \<Rightarrow> bool" where
  "presents e ws \<longleftrightarrow> element_text e = ws_text (ws_name ws) \<and> underline e = ws_focused ws \<and> dirtyContent e \<and> sized e"

lemma ws_style_sel [simp]:
  "content (ws_style ws e) = content e" "dirtyContent (ws_style ws e) = dirtyContent e"
  "underline (ws_style ws e) = ws_focused ws" "events (ws_style ws e) = events e"
  by (simp_all add: ws_style_def)

lemma presents_texts: "list_all2 presents es wss \<Longrightarrow> map element_text es = map (\<lambda>ws. ws_text (ws_name ws)) wss"
  by (induction rule: list_all2_induct) (simp_all add: presents_def)

lemma ws_content_shows:
  assumes "short_name ws" "sized e"
  shows "\<exists>e1. ws_content ws e = Some e1 \<and> presents (ws_style ws e1) ws \<and> events e1 = events e"
proof -
  let ?s = "ws_text (ws_name ws)"
  have l: "length ?s \<le> 253" "0 \<notin> set ?s" using assms(1) by (auto simp: short_name_def ws_text_def)
  let ?c = "snprintf_buf (content e) 254 ?s"
  have c: "?c = ?s @ 0 # drop (Suc (length ?s)) (content e)"
    using l(1) by (simp add: snprintf_buf_def Let_def)
  then have u: "?c[length ?s := 0] = ?c" by simp
  have "cstr ?c = ?s" unfolding c using l(2) by (rule cstr_append_zero)
  moreover have "length ?c = 255" using assms(2) by (simp add: sized_def CONTENT_MAX_LEN_def)
  ultimately show ?thesis
    using l u by (simp add: ws_content_def Let_def CONTENT_MAX_LEN_def presents_def sized_def element_text_def)
qed

lemma new_elements_show:
  "list_all short_name wss \<Longrightarrow>
     \<exists>es. new_elements mem i wss = Some es \<and> list_all2 presents es wss \<and>
       map (\<lambda>e. events e CLICK_LEFT) es = map (\<lambda>ws. Some (Switch_to (ws_name ws))) wss"
proof (induction wss arbitrary: i)
  case (Cons ws wss)
  let ?e = "(newBarElement (fst (mem i)) (snd (mem i)))\<lparr>moduleName := bytes ''workspace''\<rparr>"
  have "sized ?e" by (simp add: sized_def newBarElement_def)
  then obtain e1 where e1: "ws_content ws ?e = Some e1" "presents (ws_style ws e1) ws"
    using ws_content_shows [of ws ?e] Cons(2) by auto
  let ?e2 = "ws_style ws (setEvent e1 CLICK_LEFT (Switch_to (ws_name ws)))"
  have "new_element (mem i) ws = Some ?e2" using e1(1) by (simp add: new_element_def)
  moreover have "presents ?e2 ws" "events ?e2 CLICK_LEFT = Some (Switch_to (ws_name ws))"
    using e1(2) by (simp_all add: presents_def sized_def setEvent_def element_text_def)
  moreover obtain es where "new_elements mem (Suc i) wss = Some es" "list_all2 presents es wss"
    "map (\<lambda>e. events e CLICK_LEFT) es = map (\<lambda>ws. Some (Switch_to (ws_name ws))) wss"
    using Cons by auto
  ultimately show ?case by simp
qed simp

lemma update_each_show:
  "list_all short_name wss \<Longrightarrow> list_all sized es \<Longrightarrow>
     \<exists>es'. update_each es wss = Some es' \<and> list_all sized es' \<and> length es' = length es \<and>
       map events es' = map events es \<and> (length es = length wss \<longrightarrow> list_all2 presents es' wss)"
proof (induction es wss rule: update_each.induct)
  case (1 e es ws wss)
  then obtain e1 where e1: "ws_content ws e = Some e1" "presents (ws_style ws e1) ws" "events e1 = events e"
    using ws_content_shows [of ws e] by auto
  moreover obtain es' where "update_each es wss = Some es'" "list_all sized es'" "length es' = length es"
    "map events es' = map events es" "length es = length wss \<longrightarrow> list_all2 presents es' wss"
    using 1(1) [OF e1(1)] 1(2,3) by auto
  moreover have "sized (ws_style ws e1)" using e1(2) by (simp add: presents_def)
  ultimately show ?case by simp
qed auto

lemma update_shows:
  assumes "list_all short_name wss" "list_all sized (workspaceElements m)"
  shows "\<exists>m'. updateElements mem (Some wss) (Some wss) m = Some m' \<and>
    list_all2 presents (workspaceElements m') wss \<and>
    map (\<lambda>e. events e CLICK_LEFT) (workspaceElements m') =
      (if length wss = length (workspaceElements m) then map (\<lambda>e. events e CLICK_LEFT) (workspaceElements m)
       else map (\<lambda>ws. Some (Switch_to (ws_name ws))) wss)"
proof -
  obtain es where es: "update_each (workspaceElements m) wss = Some es"
    "length es = length (workspaceElements m)" "map events es = map events (workspaceElements m)"
    "length (workspaceElements m) = length wss \<longrightarrow> list_all2 presents es wss"
    using update_each_show [OF assms] by blast
  show ?thesis
  proof (cases "length wss = length es")
    case True
    have "map (\<lambda>e. events e CLICK_LEFT) es = map (\<lambda>f. f CLICK_LEFT) (map events es)" by simp
    also have "\<dots> = map (\<lambda>e. events e CLICK_LEFT) (workspaceElements m)" unfolding es(3) by simp
    finally show ?thesis using es True by (simp add: updateElements_def)
  next
    case False
    obtain es' where "new_elements mem 0 wss = Some es'" "list_all2 presents es' wss"
      "map (\<lambda>e. events e CLICK_LEFT) es' = map (\<lambda>ws. Some (Switch_to (ws_name ws))) wss"
      using new_elements_show [OF assms(1)] by blast
    then show ?thesis using es False by (simp add: updateElements_def initializeElements_def clearElements_def)
  qed
qed

text \<open>
  C32 (functional): After an update with a reply of workspaces with short names there is one element for each of
  them, in order, that shows its name and underlines the focused one.  The click handlers are those
  of the reply only when the number of workspaces has changed; otherwise every element still
  switches to the workspace that was there when the elements were made.
\<close>

theorem update_shows_workspaces:
  assumes "list_all short_name wss" "list_all sized (workspaceElements m)"
  shows "\<exists>m'. updateElements mem (Some wss) (Some wss) m = Some m' \<and>
    list_all2 presents (workspaceElements m') wss \<and>
    map (\<lambda>e. events e CLICK_LEFT) (workspaceElements m') =
      (if length wss = length (workspaceElements m) then map (\<lambda>e. events e CLICK_LEFT) (workspaceElements m)
       else map (\<lambda>ws. Some (Switch_to (ws_name ws))) wss)"
  by (rule update_shows [OF assms])

section \<open>Events of i3\<close>

text \<open>Which reads hold an event, and which hold anything at all.\<close>

definition is_event :: "pipe_read \<Rightarrow> bool" where
  "is_event r \<longleftrightarrow> (case r of Data s \<Rightarrow> isWorkspaceEvent (cstr s) | _ \<Rightarrow> False)"

definition is_data :: "pipe_read \<Rightarrow> bool" where
  "is_data r \<longleftrightarrow> (case r of Data s \<Rightarrow> True | _ \<Rightarrow> False)"

lemma read_pipe_changed: "fst (read_pipe rs) \<longleftrightarrow> (\<exists>r\<in>set (takeWhile is_data rs). is_event r)"
  by (induction rs rule: read_pipe.induct) (auto simp: is_event_def is_data_def)

lemma read_pipe_eof:
  "fst (snd (read_pipe rs)) \<longleftrightarrow> \<not> fst (read_pipe rs) \<and> (\<exists>rest. dropWhile is_data rs = End_of_file # rest)"
  by (induction rs rule: read_pipe.induct) (auto simp: is_data_def)


text \<open>An event that arrives in two parts is not noticed.\<close>

lemma split_event_missed:
  "isWorkspaceEvent ([34] @ bytes ''change'' @ [34] @ bytes '':'' @ [34] @ bytes ''focus'' @ [34])"
  "\<not> fst (read_pipe [Data ([34] @ bytes ''change'' @ [34] @ bytes '':''), Data ([34] @ bytes ''focus'' @ [34])])"
proof -
  show "isWorkspaceEvent ([34] @ bytes ''change'' @ [34] @ bytes '':'' @ [34] @ bytes ''focus'' @ [34])"
    by (simp add: isWorkspaceEvent_def Let_def occurs_iff) (metis append_Nil append_Nil2)
  have l: "\<not> occurs p s" if "length s < length p" for p s
    using that by (auto simp: occurs_iff)
  show "\<not> fst (read_pipe [Data ([34] @ bytes ''change'' @ [34] @ bytes '':''), Data ([34] @ bytes ''focus'' @ [34])])"
    by (simp add: isWorkspaceEvent_def Let_def l cstr_def bytes_def)
qed

section \<open>A new module\<close>

text \<open>The constructor and the start of the bar both subscribe; the first pipe is never closed.\<close>

lemma subscribed_twice:
  assumes "newWorkspace w mem reply (Subscribed p) = Some m"
  shows "open_pipes (snd (initialize (Subscribed q) m)) = [p, q] \<and> i3Fd (snd (initialize (Subscribed q) m)) = q"
  using assms
  by (auto simp: newWorkspace_def initializeElements_def clearElements_def initialize_def subscribeI3_def Let_def
      module_base.defs split: option.splits)

definition demo_workspaces :: "i3_workspace list" where
  "demo_workspaces = [\<lparr>ws_name = bytes ''1'', ws_focused = True\<rparr>, \<lparr>ws_name = bytes ''2'', ws_focused = False\<rparr>]"

lemma demo_short: "list_all short_name demo_workspaces"
  by (simp add: demo_workspaces_def short_name_def bytes_def)

definition demo_workspace :: workspace where
  "demo_workspace = module_base.extend (newModule (bytes ''workspace'') True 1 0)
     \<lparr>i3Fd = 5, workspaceElements = [staticElement, staticElement], open_pipes = [5], switches = []\<rparr>"

lemma demo_workspace_sel:
  "i3Fd demo_workspace = 5" "workspaceElements demo_workspace = [staticElement, staticElement]"
  "list_all sized (workspaceElements demo_workspace)"
  by (simp_all add: demo_workspace_def module_base.defs sized_def staticElement_def newBarElement_def)

lemma demo_events: "events staticElement t = None"
  by (simp add: staticElement_def newBarElement_def)

theorem update_shows_workspaces_witness:
  "\<exists>m'. updateElements (\<lambda>_. ([], [])) (Some demo_workspaces) (Some demo_workspaces) demo_workspace = Some m' \<and>
     map element_text (workspaceElements m') = [bytes '' 1 '', bytes '' 2 ''] \<and>
     map (\<lambda>e. events e CLICK_LEFT) (workspaceElements m') = [None, None]"
proof -
  note u = update_shows_workspaces [OF demo_short demo_workspace_sel(3), of "\<lambda>_. ([], [])"]
  have l: "length demo_workspaces = length (workspaceElements demo_workspace)"
    "map (\<lambda>e. events e CLICK_LEFT) (workspaceElements demo_workspace) = [None, None]"
    by (simp_all add: demo_workspaces_def demo_workspace_sel demo_events)
  have t: "map (\<lambda>ws. ws_text (ws_name ws)) demo_workspaces = [bytes '' 1 '', bytes '' 2 '']"
    by (simp add: demo_workspaces_def ws_text_def bytes_def)
  show ?thesis
    using u unfolding if_P [OF l(1)] l(2) t [symmetric] by (elim exE conjE) (intro exI conjI; (assumption | erule presents_texts))
qed


end
