(* ===== verification/Weather.thy ===== *)
theory Weather
  imports Floats Element Utf8
begin

text \<open>
  \<open>modules/weather.h\<close>.  The exchange with the server that \<open>curl_easy_perform\<close> makes of a request, the json-c
  library and the times are arguments.  A failed assertion of json-c is \<open>None\<close>.
\<close>

section \<open>The libraries\<close>

text \<open>What json-c makes of a text; a JSON null is the null pointer \<open>None\<close>.\<close>

record 'j jsonc =
  tokener_parse :: "byte list \<Rightarrow> 'j option"
  object_get_ex :: "'j option \<Rightarrow> byte list \<Rightarrow> 'j option option"
  get_double :: "'j option \<Rightarrow> rat"
  get_int :: "'j option \<Rightarrow> int"
  get_boolean :: "'j option \<Rightarrow> bool"
  array_length :: "'j option \<Rightarrow> nat option"
  array_get_idx :: "'j option \<Rightarrow> nat \<Rightarrow> 'j option option"

text \<open>
  One exchange: the header lines handed to the callback, each with the time of the call, the pieces of
  the body handed to the other callback, whether the result is \<open>CURLE_OK\<close>, and the HTTP code.
\<close>

record exchange =
  header_lines :: "(byte list \<times> int) list"
  body_pieces :: "byte list list"
  curl_ok :: bool
  http_code :: int

text \<open>The times that an update reads: at its start, behind the reply and at its end.\<close>

record update_times =
  at_start :: int
  at_reply :: int
  at_end :: int

section \<open>The module\<close>

datatype weather_handler = ToggleDetails

text \<open>\<open>requests\<close> are the times of the condition \<open>If-Modified-Since\<close> of the requests made.\<close>

record weather = module_base +
  baseElement :: "weather_handler barElement"
  lastApiCall :: int
  temperature :: rat
  feelsLike :: rat
  humidity :: int
  windSpeed :: rat
  weatherCode :: int
  isNight :: bool
  showDetails :: bool
  curl_handle :: bool
  lastModified :: int
  requests :: "int list"

definition lat :: rat where "lat = db (- 344476799 / 10000000)"

definition lon :: rat where "lon = db (- 588052387 / 10000000)"

definition url :: "byte list" where
  "url = bytes ''https://api.open-meteo.com/v1/forecast?latitude='' @ fmt_f 6 lat @ bytes ''&longitude='' @
     fmt_f 6 lon @ bytes ''&current_weather=true&'' @
     bytes ''hourly=temperature_2m,apparent_temperature,relativehumidity_2m,windspeed_10m&'' @
     bytes ''timezone=America/Argentina/Buenos_Aires''"

definition WriteCallback :: "byte list \<Rightarrow> byte list \<Rightarrow> byte list" where
  "WriteCallback piece buf = buf @ piece"

definition HeaderCallback :: "byte list \<times> int \<Rightarrow> weather \<Rightarrow> weather" where
  "HeaderCallback h m =
     (if take (length (bytes ''Last-Modified:'')) (fst h) = bytes ''Last-Modified:''
      then m\<lparr>lastModified := snd h\<rparr> else m)"

definition initializeCurlHandle :: "bool \<Rightarrow> weather \<Rightarrow> weather" where
  "initializeCurlHandle ok m = (if \<not> curl_handle m then m\<lparr>curl_handle := ok\<rparr> else m)"

definition light_color :: color where
  "light_color = color_of ''#E0AAFF'' (mk_color 224 170 255 255)"

definition newWeather :: "bool \<Rightarrow> 32 word \<Rightarrow> weather" where
  "newWeather ok window0 =
     initializeCurlHandle ok (module_base.extend (newModule (bytes ''weather'') False 600 window0)
       \<lparr>baseElement = (setEvent (staticElement\<lparr>moduleName := bytes ''weather''\<rparr>) CLICK_LEFT ToggleDetails)
          \<lparr>foregroundColor := light_color\<rparr>,
        lastApiCall = 0, temperature = 0, feelsLike = 0, humidity = 0, windSpeed = 0, weatherCode = 0,
        isNight = False, showDetails = False, curl_handle = False, lastModified = 0, requests = []\<rparr>)"

definition elements :: "weather \<Rightarrow> weather_handler barElement list" where
  "elements m = [baseElement m]"

section \<open>The data\<close>

definition parse_current :: "'j jsonc \<Rightarrow> 'j option \<Rightarrow> weather \<Rightarrow> weather" where
  "parse_current lib cur m =
     (let get = (\<lambda>k. object_get_ex lib cur (bytes k));
          m1 = (case get ''temperature'' of None \<Rightarrow> m | Some v \<Rightarrow> m\<lparr>temperature := get_double lib v\<rparr>);
          m2 = (case get ''weathercode'' of None \<Rightarrow> m1 | Some v \<Rightarrow> m1\<lparr>weatherCode := get_int lib v\<rparr>)
      in case get ''is_day'' of None \<Rightarrow> m2 | Some v \<Rightarrow> m2\<lparr>isNight := \<not> get_boolean lib v\<rparr>)"

definition parse_first_hour ::
  "'j jsonc \<Rightarrow> 'j option \<Rightarrow> 'j option \<Rightarrow> 'j option \<Rightarrow> weather \<Rightarrow> weather option" where
  "parse_first_hour lib feels hum wind m =
     (case array_get_idx lib feels 0 of
        None \<Rightarrow> None
      | Some f \<Rightarrow>
          (case array_get_idx lib hum 0 of
             None \<Rightarrow> None
           | Some h \<Rightarrow>
               map_option (\<lambda>w. m\<lparr>feelsLike := get_double lib f, humidity := get_int lib h, windSpeed := get_double lib w\<rparr>)
                 (array_get_idx lib wind 0)))"

definition parse_hourly :: "'j jsonc \<Rightarrow> 'j option \<Rightarrow> weather \<Rightarrow> weather option" where
  "parse_hourly lib hourly m =
     (let get = (\<lambda>k. object_get_ex lib hourly (bytes k))
      in case (get ''temperature_2m'', get ''apparent_temperature'', get ''relativehumidity_2m'', get ''windspeed_10m'') of
           (Some temps, Some feels, Some hum, Some wind) \<Rightarrow>
             (case array_length lib temps of
                None \<Rightarrow> None
              | Some n \<Rightarrow> if n > 0 then parse_first_hour lib feels hum wind m else Some m)
         | _ \<Rightarrow> Some m)"

definition parseWeatherJson :: "'j jsonc \<Rightarrow> byte list \<Rightarrow> weather \<Rightarrow> (bool \<times> weather) option" where
  "parseWeatherJson lib s m =
     (case tokener_parse lib (cstr s) of
        None \<Rightarrow> Some (False, m)
      | Some doc \<Rightarrow>
          (case object_get_ex lib (Some doc) (bytes ''current_weather'') of
             None \<Rightarrow> Some (False, m)
           | Some cur \<Rightarrow>
               let m1 = parse_current lib cur m
               in map_option (Pair True)
                    (case object_get_ex lib (Some doc) (bytes ''hourly'') of
                       None \<Rightarrow> Some m1
                     | Some hourly \<Rightarrow> parse_hourly lib hourly m1)))"

definition fetchWeatherData ::
  "'j jsonc \<Rightarrow> (byte list \<Rightarrow> int \<Rightarrow> exchange) \<Rightarrow> int \<Rightarrow> weather \<Rightarrow> (bool \<times> weather) option" where
  "fetchWeatherData lib net reply_time m =
     (if \<not> curl_handle m then Some (False, m)
      else let x = net url (lastModified m);
               m1 = fold HeaderCallback (header_lines x) (m\<lparr>requests := requests m @ [lastModified m]\<rparr>);
               readBuffer = fold WriteCallback (body_pieces x) []
           in if curl_ok x
              then if http_code x = 200
                   then map_option (\<lambda>(success, m2). (success, m2\<lparr>lastModified := reply_time\<rparr>))
                          (parseWeatherJson lib readBuffer m1)
                   else Some (http_code x = 304, m1)
              else Some (False, m1))"

section \<open>What is shown\<close>

definition weather_icon :: "int \<Rightarrow> bool \<Rightarrow> nat" where
  "weather_icon code night =
     (if code = 0 then if night then 0xf0594 else 0xf0599
      else if code \<in> {1, 2, 3} then if night then 0xf0f31 else 0xf0595
      else if code \<in> {45, 48} then 0xf0591
      else if code \<in> {51, 53, 55} then 0xf0f33
      else if code \<in> {56, 57} then 0xf0597
      else if code \<in> {61, 63, 65, 66, 67} then 0xf0596
      else if code \<in> {71, 73, 75} then 0xf0f36
      else if code = 77 then 0xf0592
      else if code \<in> {80, 81, 82} then 0xf067e
      else if code \<in> {85, 86} then 0xf0598
      else 0xf2c7)"

definition getWeatherDescription :: "weather \<Rightarrow> byte list" where
  "getWeatherDescription m = utf8_encode (weather_icon (weatherCode m) (isNight m))"

text \<open>The degree sign and the letter behind it.\<close>

definition degrees :: "byte list" where
  "degrees = [0xc2, 0xb0, 67]"

definition details_text :: "weather \<Rightarrow> byte list" where
  "details_text m =
     bytes '' | ST: '' @ fmt_f 1 (feelsLike m) @ degrees @ bytes '' | H: '' @ fmt_d (humidity m) @
     bytes ''% | V: '' @ fmt_f 1 (windSpeed m) @ bytes ''km/h''"

definition weather_text :: "weather \<Rightarrow> byte list" where
  "weather_text m =
     getWeatherDescription m @ [32] @ fmt_f 1 (temperature m) @ degrees @
     (if showDetails m then details_text m else [])"

definition weather_color :: "rat \<Rightarrow> color" where
  "weather_color t =
     (if t > 30 then color_of ''#FF6B6B'' (mk_color 255 107 107 255)
      else if t < 5 then color_of ''#6BB6FF'' (mk_color 107 182 255 255)
      else light_color)"

definition generateBuffer :: "weather \<Rightarrow> weather" where
  "generateBuffer m =
     m\<lparr>baseElement := (set_content (weather_text m) (baseElement m))
        \<lparr>foregroundColor := weather_color (temperature m)\<rparr>\<rparr>"

definition update ::
  "'j jsonc \<Rightarrow> (byte list \<Rightarrow> int \<Rightarrow> exchange) \<Rightarrow> bool \<Rightarrow> update_times \<Rightarrow> weather \<Rightarrow> weather option" where
  "update lib net ok t m =
     map_option (\<lambda>(success, m1).
         (generateBuffer (if success then m1\<lparr>lastApiCall := at_start t\<rparr> else m1))\<lparr>lastUpdate := at_end t\<rparr>)
       (fetchWeatherData lib net (at_reply t) (initializeCurlHandle ok m))"

definition initialize ::
  "'j jsonc \<Rightarrow> (byte list \<Rightarrow> int \<Rightarrow> exchange) \<Rightarrow> int \<Rightarrow> weather \<Rightarrow> (bool \<times> weather) option" where
  "initialize = fetchWeatherData"

definition toggle_weather ::
  "'j jsonc \<Rightarrow> (byte list \<Rightarrow> int \<Rightarrow> exchange) \<Rightarrow> bool \<Rightarrow> update_times \<Rightarrow> weather \<Rightarrow> weather option" where
  "toggle_weather lib net ok t m = map_option callRender (update lib net ok t (m\<lparr>showDetails := \<not> showDetails m\<rparr>))"

fun run_handler ::
  "weather_handler \<Rightarrow> 'j jsonc \<Rightarrow> (byte list \<Rightarrow> int \<Rightarrow> exchange) \<Rightarrow> bool \<Rightarrow> update_times \<Rightarrow> weather \<Rightarrow> weather option" where
  "run_handler ToggleDetails = toggle_weather"

section \<open>Requests\<close>

lemma fold_HeaderCallback_sel [simp]:
  "temperature (fold HeaderCallback hs m) = temperature m" "feelsLike (fold HeaderCallback hs m) = feelsLike m"
  "humidity (fold HeaderCallback hs m) = humidity m" "windSpeed (fold HeaderCallback hs m) = windSpeed m"
  "weatherCode (fold HeaderCallback hs m) = weatherCode m" "isNight (fold HeaderCallback hs m) = isNight m"
  "showDetails (fold HeaderCallback hs m) = showDetails m" "requests (fold HeaderCallback hs m) = requests m"
  "baseElement (fold HeaderCallback hs m) = baseElement m" "curl_handle (fold HeaderCallback hs m) = curl_handle m"
  "lastApiCall (fold HeaderCallback hs m) = lastApiCall m" "module_base.truncate (fold HeaderCallback hs m) = module_base.truncate m"
  by (induction hs arbitrary: m) (simp_all add: HeaderCallback_def module_base.defs)

text \<open>What no part of an update but the last touches.\<close>

definition same_module :: "weather \<Rightarrow> weather \<Rightarrow> bool" where
  "same_module m m' \<longleftrightarrow> module_base.truncate m' = module_base.truncate m \<and> requests m' = requests m \<and>
     showDetails m' = showDetails m \<and> curl_handle m' = curl_handle m \<and> baseElement m' = baseElement m \<and>
     lastApiCall m' = lastApiCall m"

lemma parse_current_same: "same_module m (parse_current lib cur m)"
  by (simp add: same_module_def parse_current_def module_base.defs Let_def split: option.split)

lemma parse_hourly_same: "parse_hourly lib h m = Some m' \<Longrightarrow> same_module m m'"
  by (auto simp: same_module_def parse_hourly_def parse_first_hour_def module_base.defs Let_def
      split: option.splits if_splits)

lemma parseWeatherJson_same:
  assumes "parseWeatherJson lib s m = Some (b, m')"
  shows "same_module m m'"
proof -
  note h = parse_hourly_same [of lib _ "parse_current lib _ m"]
  have "same_module m m' \<or> (\<exists>cur hourly. parse_hourly lib hourly (parse_current lib cur m) = Some m') \<or>
    (\<exists>cur. m' = parse_current lib cur m)"
    using assms by (auto simp: parseWeatherJson_def same_module_def Let_def split: option.splits)
  then show ?thesis
    using h parse_current_same [of m lib] unfolding same_module_def by metis
qed

lemma fetch_same:
  assumes "fetchWeatherData lib net t m = Some (b, m')"
  shows "same_module (if curl_handle m then m\<lparr>requests := requests m @ [lastModified m]\<rparr> else m) m'"
proof (cases "curl_handle m")
  case True
  let ?x = "net url (lastModified m)" and ?m = "m\<lparr>requests := requests m @ [lastModified m]\<rparr>"
  let ?m1 = "fold HeaderCallback (header_lines ?x) ?m"
  have h: "same_module ?m ?m1" by (simp add: same_module_def)
  show ?thesis
  proof (cases "curl_ok ?x \<and> http_code ?x = 200")
    case ok: True
    then obtain m2 where "parseWeatherJson lib (fold WriteCallback (body_pieces ?x) []) ?m1 = Some (b, m2)"
      "m' = m2\<lparr>lastModified := t\<rparr>" using assms True by (auto simp: fetchWeatherData_def Let_def)
    then show ?thesis using parseWeatherJson_same h True by (fastforce simp: same_module_def module_base.defs)
  next
    case False
    then have "m' = ?m1" using assms True by (auto simp: fetchWeatherData_def Let_def split: if_splits)
    then show ?thesis using h True by simp
  qed
next
  case False
  then show ?thesis using assms by (simp add: fetchWeatherData_def same_module_def)
qed

lemma fetch_cong_time: "fetchWeatherData lib net t m = None \<longleftrightarrow> fetchWeatherData lib net t' m = None"
  by (simp add: fetchWeatherData_def Let_def)

lemma initializeCurlHandle_sel [simp]:
  "module_base.truncate (initializeCurlHandle ok m) = module_base.truncate m"
  "requests (initializeCurlHandle ok m) = requests m" "showDetails (initializeCurlHandle ok m) = showDetails m"
  "baseElement (initializeCurlHandle ok m) = baseElement m" "lastModified (initializeCurlHandle ok m) = lastModified m"
  "curl_handle (initializeCurlHandle ok m) \<longleftrightarrow> curl_handle m \<or> ok"
  by (simp_all add: initializeCurlHandle_def module_base.defs)

text \<open>A successful update, seen through its parts.\<close>

lemma update_cases:
  assumes "update lib net ok t m = Some m'"
  obtains b m1 where "fetchWeatherData lib net (at_reply t) (initializeCurlHandle ok m) = Some (b, m1)"
    "m' = (generateBuffer (if b then m1\<lparr>lastApiCall := at_start t\<rparr> else m1))\<lparr>lastUpdate := at_end t\<rparr>"
  using assms by (auto simp: update_def)

lemma generateBuffer_sel [simp]:
  "module_base.truncate (generateBuffer m) = module_base.truncate m" "requests (generateBuffer m) = requests m"
  "lastApiCall (generateBuffer m) = lastApiCall m" "showDetails (generateBuffer m) = showDetails m"
  "temperature (generateBuffer m) = temperature m" "feelsLike (generateBuffer m) = feelsLike m"
  "humidity (generateBuffer m) = humidity m" "windSpeed (generateBuffer m) = windSpeed m"
  "weatherCode (generateBuffer m) = weatherCode m" "isNight (generateBuffer m) = isNight m"
  "curl_handle (generateBuffer m) = curl_handle m" "lastModified (generateBuffer m) = lastModified m"
  by (simp_all add: generateBuffer_def module_base.defs)

lemma truncate_eqD:
  "module_base.truncate m' = module_base.truncate m \<Longrightarrow> secondsPerUpdate m' = secondsPerUpdate m \<and>
     autoUpdate m' = autoUpdate m \<and> renderFunction m' = renderFunction m \<and> renders m' = renders m"
  by (simp add: module_base.defs)

lemma update_keeps:
  assumes "update lib net ok t m = Some m'"
  shows "lastUpdate m' = at_end t" "secondsPerUpdate m' = secondsPerUpdate m" "autoUpdate m' = autoUpdate m"
    "requests m' = requests m @ (if curl_handle m \<or> ok then [lastModified m] else [])"
    "showDetails m' = showDetails m"
proof -
  obtain b m1 where u: "fetchWeatherData lib net (at_reply t) (initializeCurlHandle ok m) = Some (b, m1)"
    "m' = (generateBuffer (if b then m1\<lparr>lastApiCall := at_start t\<rparr> else m1))\<lparr>lastUpdate := at_end t\<rparr>"
    using assms by (rule update_cases)
  let ?m2 = "if b then m1\<lparr>lastApiCall := at_start t\<rparr> else m1" and ?i = "initializeCurlHandle ok m"
  have f: "module_base.truncate m1 = module_base.truncate m" "showDetails m1 = showDetails m"
    "requests m1 = requests m @ (if curl_handle m \<or> ok then [lastModified m] else [])"
    using fetch_same [OF u(1)] initializeCurlHandle_sel(1) [of ok m]
    by (cases "curl_handle ?i"; simp add: same_module_def module_base.defs)+
  then have s: "module_base.truncate ?m2 = module_base.truncate m" "showDetails ?m2 = showDetails m"
    "requests ?m2 = requests m @ (if curl_handle m \<or> ok then [lastModified m] else [])"
    by (simp_all add: module_base.defs)
  have g: "module_base.truncate (generateBuffer ?m2) = module_base.truncate m" using s(1) by simp
  show "lastUpdate m' = at_end t" by (simp add: u(2))
  show "secondsPerUpdate m' = secondsPerUpdate m" "autoUpdate m' = autoUpdate m"
    using truncate_eqD [OF g] by (simp_all add: u(2))
  show "requests m' = requests m @ (if curl_handle m \<or> ok then [lastModified m] else [])"
    "showDetails m' = showDetails m" using s(2,3) by (simp_all add: u(2))
qed

interpretation periodic: periodic_module
  "\<lambda>now m. case update lib net ok (t\<lparr>at_end := now\<rparr>) m of None \<Rightarrow> m | Some m' \<Rightarrow> m'"
  "\<lambda>m. update lib net ok t m \<noteq> None" for lib net ok t
proof unfold_locales
  fix m now
  let ?u = "update lib net ok (t\<lparr>at_end := now\<rparr>) m"
  have k: "secondsPerUpdate m' = secondsPerUpdate m \<and> autoUpdate m' = autoUpdate m \<and> lastUpdate m' = now"
    if "?u = Some m'" for m' using update_keeps(1-3) [OF that] by simp
  have d: "?u \<noteq> None" if "update lib net ok t m \<noteq> None" using that by (auto simp: update_def)
  show "lastUpdate (case ?u of None \<Rightarrow> m | Some m' \<Rightarrow> m') = now" if "update lib net ok t m \<noteq> None"
    using k d [OF that] by (cases ?u) auto
  show "secondsPerUpdate (case ?u of None \<Rightarrow> m | Some m' \<Rightarrow> m') = secondsPerUpdate m"
    "autoUpdate (case ?u of None \<Rightarrow> m | Some m' \<Rightarrow> m') = autoUpdate m"
    by (cases ?u; use k in simp)+
qed

section \<open>What is shown\<close>

lemma utf8_short: "c < 0x110000 \<Longrightarrow> length (utf8_encode c) \<le> 4"
  by (simp add: utf8_encode_def)

lemma weather_icon_bytes: "length (getWeatherDescription m) \<le> 4" "0 \<notin> set (getWeatherDescription m)"
proof -
  have t: "tail_byte n \<noteq> 0" for n
  proof -
    have "unat (tail_byte n) = 128 + n mod 64" unfolding tail_byte_def by (subst unat_of_nat) simp
    then show ?thesis by auto
  qed
  show "length (getWeatherDescription m) \<le> 4"
    by (simp add: getWeatherDescription_def utf8_short weather_icon_def)
  show "0 \<notin> set (getWeatherDescription m)"
    by (simp add: getWeatherDescription_def weather_icon_def utf8_encode_def t)
qed

text \<open>Readings that need at most ten digits fit into the element.\<close>

definition readable :: "weather \<Rightarrow> bool" where
  "readable m \<longleftrightarrow> \<bar>temperature m\<bar> \<le> 10 ^ 10 \<and> \<bar>feelsLike m\<bar> \<le> 10 ^ 10 \<and> \<bar>windSpeed m\<bar> \<le> 10 ^ 10 \<and>
     \<bar>humidity m\<bar> < 2 ^ 31"

lemma length_fmt_d: "\<bar>i\<bar> < 2 ^ 31 \<Longrightarrow> length (fmt_d i) \<le> 11"
proof -
  assume i: "\<bar>i\<bar> < 2 ^ 31"
  then have "nat \<bar>i\<bar> < 10 ^ Suc 9" by simp
  then have "length (dec (nat \<bar>i\<bar>)) \<le> 10" using length_dec [of "nat \<bar>i\<bar>" 9] by simp
  then show ?thesis by (cases "i < 0") (simp_all add: fmt_d_def)
qed

lemma weather_text_fits:
  assumes "readable m"
  shows "length (weather_text m) < CONTENT_MAX_LEN" "0 \<notin> set (weather_text m)"
proof -
  note r = assms [unfolded readable_def]
  have "length (fmt_f 1 (temperature m)) \<le> 14" "length (fmt_f 1 (feelsLike m)) \<le> 14"
    "length (fmt_f 1 (windSpeed m)) \<le> 14" "length (fmt_d (humidity m)) \<le> 11"
    using r length_fmt_f [of _ 10 1] length_fmt_d by simp_all
  then show "length (weather_text m) < CONTENT_MAX_LEN"
    using weather_icon_bytes(1) [of m]
    by (simp add: weather_text_def details_text_def degrees_def CONTENT_MAX_LEN_def length_bytes)
  show "0 \<notin> set (weather_text m)"
    using weather_icon_bytes(2) [of m] by (auto simp: weather_text_def details_text_def degrees_def bytes_def)
qed

lemma generateBuffer_text:
  assumes "readable m"
  shows "element_text (baseElement (generateBuffer m)) = weather_text m"
  using element_text_set_content [OF weather_text_fits(2) [OF assms] weather_text_fits(1) [OF assms], of "baseElement m"]
  by (simp add: generateBuffer_def element_text_def)

text \<open>
  An update shows the icon of the weather, the temperature and, after a click, the details, in the
  colour of the temperature, and asks the server once, however recent its last answer is.
\<close>

theorem weather_display:
  assumes "update lib net ok t m = Some m'" "readable m'"
  shows "element_text (baseElement m') = weather_text m' \<and>
    foregroundColor (baseElement m') = weather_color (temperature m') \<and> lastUpdate m' = at_end t \<and>
    requests m' = requests m @ (if curl_handle m \<or> ok then [lastModified m] else [])"
proof -
  obtain b m1 where u: "fetchWeatherData lib net (at_reply t) (initializeCurlHandle ok m) = Some (b, m1)"
    "m' = (generateBuffer (if b then m1\<lparr>lastApiCall := at_start t\<rparr> else m1))\<lparr>lastUpdate := at_end t\<rparr>"
    using assms(1) by (rule update_cases)
  let ?m2 = "if b then m1\<lparr>lastApiCall := at_start t\<rparr> else m1"
  have "readable ?m2" using assms(2) by (simp add: u(2) readable_def)
  from generateBuffer_text [OF this] have "element_text (baseElement m') = weather_text ?m2" by (simp add: u(2))
  moreover have "weather_text m' = weather_text ?m2" "temperature m' = temperature ?m2"
    by (simp_all add: u(2) weather_text_def details_text_def getWeatherDescription_def)
  moreover have "foregroundColor (baseElement m') = weather_color (temperature ?m2)"
    by (simp add: u(2) generateBuffer_def)
  ultimately show ?thesis using update_keeps(1,4) [OF assms(1)] by simp
qed

section \<open>A reply that cannot be parsed\<close>

lemma fold_WriteCallback: "fold WriteCallback ps buf = buf @ concat ps"
  by (induction ps arbitrary: buf) (simp_all add: WriteCallback_def)

lemma update_unparsable:
  assumes "curl_handle m" "curl_ok (net url (lastModified m))" "http_code (net url (lastModified m)) = 200"
    "tokener_parse lib (cstr (concat (body_pieces (net url (lastModified m))))) = None"
  shows "\<exists>m'. update lib net ok t m = Some m' \<and> lastModified m' = at_reply t \<and> lastApiCall m' = lastApiCall m \<and>
    curl_handle m' \<and> weather_text m' = weather_text m \<and> (readable m' \<longleftrightarrow> readable m)"
  using assms
  by (simp add: update_def fetchWeatherData_def initializeCurlHandle_def Let_def parseWeatherJson_def fold_WriteCallback
      weather_text_def details_text_def getWeatherDescription_def readable_def)

lemma update_not_modified:
  assumes "curl_handle m" "curl_ok (net url (lastModified m))" "http_code (net url (lastModified m)) = 304"
  shows "\<exists>m'. update lib net ok t m = Some m' \<and> lastApiCall m' = at_start t \<and> weather_text m' = weather_text m \<and>
    (readable m' \<longleftrightarrow> readable m)"
  using assms
  by (simp add: update_def fetchWeatherData_def initializeCurlHandle_def Let_def
      weather_text_def details_text_def getWeatherDescription_def readable_def)

text \<open>
  C34 (error): A reply that cannot be parsed still moves the time of the condition forward, so that the server's
  next answer is that nothing has changed; that answer counts as a success, and the old readings, the
  zeros of the start among them, are shown as the weather.
\<close>

theorem unparsable_reply_counts_as_cached:
  assumes "curl_handle m" "readable m" "curl_ok (net1 url (lastModified m))" "http_code (net1 url (lastModified m)) = 200"
    and "tokener_parse lib (cstr (concat (body_pieces (net1 url (lastModified m))))) = None"
    and "curl_ok (net2 url (at_reply t1))" "http_code (net2 url (at_reply t1)) = 304"
  shows "\<exists>m1 m2. update lib net1 ok t1 m = Some m1 \<and> lastApiCall m1 = lastApiCall m \<and>
    update lib net2 ok t2 m1 = Some m2 \<and> lastApiCall m2 = at_start t2 \<and>
    element_text (baseElement m2) = weather_text m"
proof -
  obtain m1 where m1: "update lib net1 ok t1 m = Some m1" "lastModified m1 = at_reply t1" "lastApiCall m1 = lastApiCall m"
    "curl_handle m1" "weather_text m1 = weather_text m" "readable m1"
    using update_unparsable [of m net1 lib ok t1] assms(1-5) by blast
  then obtain m2 where m2: "update lib net2 ok t2 m1 = Some m2" "lastApiCall m2 = at_start t2"
    "weather_text m2 = weather_text m1" "readable m2"
    using update_not_modified [of m1 net2 lib ok t2] assms(6,7) by auto
  obtain b m3 where u: "m2 = (generateBuffer (if b then m3\<lparr>lastApiCall := at_start t2\<rparr> else m3))\<lparr>lastUpdate := at_end t2\<rparr>"
    using update_cases [OF m2(1)] by metis
  let ?m3 = "if b then m3\<lparr>lastApiCall := at_start t2\<rparr> else m3"
  have "readable ?m3" using m2(4) by (simp add: u readable_def)
  from generateBuffer_text [OF this] have "element_text (baseElement m2) = weather_text ?m3" by (simp add: u)
  also have "\<dots> = weather_text m2"
    by (simp add: u weather_text_def details_text_def getWeatherDescription_def)
  finally show ?thesis using m1(1,3,5) m2(1-3) by auto
qed

section \<open>Two exchanges\<close>

definition demo_json :: "bool jsonc" where
  "demo_json = \<lparr>tokener_parse = (\<lambda>s. if s = [] then None else Some True),
     object_get_ex = (\<lambda>v k. if v = Some True \<and> k = bytes ''current_weather'' then Some (Some False)
       else if v = Some False \<and> k = bytes ''temperature'' then Some None else None),
     get_double = (\<lambda>v. 31), get_int = (\<lambda>v. 0), get_boolean = (\<lambda>v. True), array_length = (\<lambda>v. None),
     array_get_idx = (\<lambda>v i. None)\<rparr>"

definition demo_net :: "int \<Rightarrow> byte list \<Rightarrow> byte list \<Rightarrow> int \<Rightarrow> exchange" where
  "demo_net code body u since = \<lparr>header_lines = [], body_pieces = [body], curl_ok = True, http_code = code\<rparr>"

definition demo_times :: update_times where
  "demo_times = \<lparr>at_start = 10, at_reply = 11, at_end = 12\<rparr>"

lemma demo_weather_sel:
  "curl_handle (newWeather True 0)" "readable (newWeather True 0)" "lastApiCall (newWeather True 0) = 0"
  "lastModified (newWeather True 0) = 0" "requests (newWeather True 0) = []"
  by (simp_all add: newWeather_def initializeCurlHandle_def module_base.defs readable_def)

theorem weather_display_witness:
  "\<exists>m'. update demo_json (demo_net 200 [123]) True demo_times (newWeather True 0) = Some m' \<and>
     foregroundColor (baseElement m') = color_of ''#FF6B6B'' (mk_color 255 107 107 255) \<and> requests m' = [0]"
proof -
  have c: "cstr [123 :: byte] \<noteq> []" by (simp add: cstr_def)
  obtain m' where m': "update demo_json (demo_net 200 [123]) True demo_times (newWeather True 0) = Some m'"
    "readable m'" "temperature m' = 31"
    using demo_weather_sel c
    by (simp add: update_def fetchWeatherData_def initializeCurlHandle_def demo_net_def demo_json_def Let_def
        parseWeatherJson_def parse_current_def fold_WriteCallback readable_def bytes_def)
  with weather_display [OF m'(1,2)] demo_weather_sel show ?thesis by (simp add: weather_color_def)
qed

theorem unparsable_reply_counts_as_cached_witness:
  "\<exists>m1 m2. update demo_json (demo_net 200 []) True demo_times (newWeather True 0) = Some m1 \<and>
     update demo_json (demo_net 304 []) True (demo_times\<lparr>at_start := 700\<rparr>) m1 = Some m2 \<and> lastApiCall m2 = 700"
  using unparsable_reply_counts_as_cached [OF demo_weather_sel(1,2), of "demo_net 200 []" demo_json
      "demo_net 304 []" demo_times True "demo_times\<lparr>at_start := 700\<rparr>"]
  by (auto simp: demo_net_def demo_json_def cstr_def demo_times_def)

end
