(* ===== verification/Spec2Isabelle.thy ===== *)
theory Spec2Isabelle
  imports Bar_Setup Notify_Manager Timer Stopwatch Process_Manager Bar_Manager I3_Protocol I3_Tokens I3_Api
    DateTime Space Notifications Battery Audio Ping Resources Workspace Weather
begin

text \<open>
  \<^bold>\<open>photonbar: a bar for X with modules.\<close>

  The program (\<open>src/main.cpp\<close>) starts two bars, one at the top and one at the bottom of the screen,
  each in a thread with its own list of modules.  A pass of the main loop waits for events of X or
  of i3 or for the end of the second, lets the modules that are due update their elements and
  draws the bar.  The theories follow the source files:

  \<^item> \<open>Prelude\<close>, \<open>C_Input\<close>, \<open>Floats\<close>: what is used of the language and its library: C strings in
    buffers, \<open>snprintf\<close>, \<open>strtoul\<close>, \<open>atoi\<close>, \<open>fgets\<close>, \<open>fscanf\<close>, truncating division, rounding
    \<open>float\<close> and \<open>double\<close> arithmetic (as rationals rounded to 24 and 53 binary digits, without
    overflow, infinities and subnormal numbers, which the modules do not reach) and \<open>%.kf\<close>.
  \<^item> \<open>Color\<close> (\<open>color.h\<close>), \<open>Utf8\<close> (\<open>Bar::decodeUtf8Char\<close>), \<open>Glyph_Cache\<close> (the hash table of
    character widths of \<open>bar.h\<close>), \<open>Element\<close> (\<open>barElement.h\<close>, \<open>modules/module.h\<close>).
  \<^item> \<open>Bar_Draw\<close>, \<open>Bar_Parse\<close>, \<open>Bar_Layout\<close>, \<open>Monitors\<close>, \<open>Bar_Setup\<close> (\<open>bar.h\<close>): the drawing requests,
    the parsing of the texts of elements, their placement and the dispatch of clicks, the monitors,
    the geometry string, the construction of a bar with its connection and its destruction.  A
    run-time error (a read outside a buffer) is \<open>None\<close>, in the set-up the failure \<open>Undefined\<close>.
  \<^item> \<open>Bar_Manager\<close> (\<open>main.cpp\<close>) and \<open>Process_Manager\<close> (\<open>process_manager.cpp\<close>): the main loop, the
    hand-over between the two threads as a step relation, the options, the lock file with the
    interleavings of several processes.
  \<^item> \<open>Clocks\<close>, \<open>Stopwatch\<close>, \<open>Timer\<close>, \<open>DateTime\<close>, \<open>Space\<close>, \<open>Notifications\<close>, \<open>Helper\<close>, \<open>Battery\<close>,
    \<open>Audio\<close>, \<open>Ping\<close>, \<open>Resources\<close>, \<open>Workspace\<close>, \<open>Weather\<close> (\<open>helper.h\<close>, \<open>modules/*.h\<close>): each module is a record that extends
    \<open>module_base\<close>, its \<open>update\<close>, its handlers and its constructor; clocks, files, libraries
    and the output of commands are arguments.
  \<^item> \<open>Notify_Manager\<close> (\<open>notifyManeger.h\<close>): the wrapper of libnotify.
  \<^item> \<open>I3_Context\<close>, \<open>I3_Message\<close>, \<open>I3_Protocol\<close>, \<open>I3_Json\<close>, \<open>I3_Tokens\<close> (\<open>modules/i3ipc.h\<close>): the
    connection to i3 with its error states and buffers, messages in and out of order, and the
    scanner of JSON with the functions that walk its tokens.  An assertion that fails, a call that
    never returns and undefined behaviour are values of the type \<open>outcome\<close>.
  \<^item> \<open>I3_Types\<close>, \<open>I3_Table\<close>, \<open>I3_Parse\<close>, \<open>I3_Api\<close> (the same file): the structures of the replies
    and the table of their fields, with the sizes and offsets of a 64-bit machine; the parser that
    first measures and then fills the memory, a list of cells; the requests, subscriptions, events
    and the printing of what was parsed.
  \<^item> \<open>I3_Passes\<close>, \<open>I3_Clean\<close>, \<open>I3_Accept\<close>, \<open>I3_Values\<close>, \<open>I3_Stores\<close>, \<open>I3_Fill\<close>, \<open>I3_Safe\<close>: what that parser
    promises.  \<open>shaped\<close> says which JSON values a type accepts, \<open>represents\<close> that a memory holds a
    value as that type; \<open>I3_Passes\<close>, \<open>I3_Clean\<close> and \<open>I3_Accept\<close> are about the first pass (it ends,
    it notes blocks, it accepts what is \<open>shaped\<close>), \<open>I3_Values\<close> and \<open>I3_Stores\<close> about stores and what
    they leave alone, \<open>I3_Fill\<close> about the second pass, \<open>I3_Safe\<close> about both.

  \<^bold>\<open>What is shown.\<close>  A bar whose modules have displayable texts is redrawn without a run-time error,
  every element is parsed and placed, elements do not overlap and a click reaches the element
  under it; the constructor establishes the state this needs or ends the program, every later
  operation keeps it, and the destructor releases what was made; the width table implements a finite map and its probe loop ends exactly when it finds
  a slot; clones are dropped so that the remaining monitors cover all outputs, and the windows
  cover the bar.  Clocks count running time only, the timer and the battery warn once.  Messages
  to i3 arrive unchanged however the stream is cut, messages received out of order are delivered
  in order, and after an error every call is refused.  Printed JSON is scanned back, strings are
  decoded in place without overtaking the input, a value is skipped exactly.  The table of fields
  agrees with the structures, and a message is parsed into any of the types without a failing
  assertion or an access outside the memory that the first pass measured.  Parsing the text of a
  JSON value succeeds exactly when the value has the shape of the type, and the memory then
  represents the value, with the sizes, flags and enumeration numbers that are derived from it;
  so a request delivers the value that i3 answered.  Several theorems
  show what the code does where that is not what it means to do: the lock is not exclusive, a
  falling counter shows an enormous rate, a scroll by two moves the volume by one.

  \<^bold>\<open>Locales\<close> state the contracts that several parts share: a memo table (\<open>Glyph_Cache\<close>), a clock that
  can be paused (\<open>Clocks\<close>), a module that is updated periodically (\<open>Element\<close>), a guarded call of the
  i3 library (\<open>I3_Protocol\<close>); each is interpreted on the functions of the model.

  \<^bold>\<open>Termination.\<close>  The probe loop of the width table may run forever and is a partial function; the
  theorem about it says when it returns.  The parser of an element is bounded by
  \<open>CONTENT_MAX_LEN\<close> characters, as its loop is.  Skipping a JSON value takes fuel; two units per
  token and two more are shown to suffice; the parser takes four units per token and eight more,
  which suffice as well.  The fuel of the printing of a reply is an argument.  All other loops are total functions.

  \<^bold>\<open>Not modelled.\<close>  A failing \<open>malloc\<close>; the Xinerama variant of \<open>bar.h\<close>, which is compiled out;
  the texts of error messages; the X server, Xft, libnotify, PulseAudio, i3, dunst, curl, json-c and the kernel, whose
  answers are arguments; data races between the two threads of the bars.
\<close>

end
